(* ===== verification/Go_Prelude.thy ===== *)
theory Go_Prelude
  imports Complex_Main "HOL-Library.AList" "HOL-Library.Multiset"
begin

text \<open>
  Shared vocabulary of the gateway development: how Go's built-in types and the
  parts of its standard library that the sources use are represented.

  \<^item> \<open>instant\<close> is a \<^verbatim>\<open>time.Time\<close>: nanoseconds since Go's zero time, so
    \<open>0\<close> is the value for which \<^verbatim>\<open>IsZero\<close> holds. \<open>After\<close>, \<open>Before\<close> and \<open>Equal\<close>
    are the order and equality on \<open>int\<close>, and \<open>Add\<close> is addition.
  \<^item> \<open>duration\<close> is a \<^verbatim>\<open>time.Duration\<close> in nanoseconds; \<open>time_Sub\<close> saturates at the
    64-bit limits exactly as \<^verbatim>\<open>Time.Sub\<close> does.
  \<^item> \<open>f64\<close> is a \<^verbatim>\<open>float64\<close>: a finite value, an infinity or NaN, with IEEE rules for
    the special values and exact arithmetic on the finite ones (rounding and the
    sign of zero are not modelled).
  \<^item> \<open>('k, 'v) gomap\<close> is a Go map, as an association list with distinct keys; its list
    order is one of the iteration orders Go may choose.
  \<^item> counters \<^verbatim>\<open>map[K]int\<close> read as zero when the key is absent.
\<close>

named_theorems gomap_simps \<open>laws of Go maps and counters\<close>

section \<open>Time\<close>

type_synonym instant = int

type_synonym duration = int

abbreviation millisecond :: duration where "millisecond \<equiv> 1000000"

abbreviation second :: duration where "second \<equiv> 1000000000"

abbreviation minute :: duration where "minute \<equiv> 60000000000"

abbreviation hour :: duration where "hour \<equiv> 3600000000000"

definition maxDuration :: duration where
  "maxDuration = 9223372036854775807"

definition minDuration :: duration where
  "minDuration = - 9223372036854775808"

definition time_Sub :: "instant \<Rightarrow> instant \<Rightarrow> duration" where
  "time_Sub t u = max minDuration (min maxDuration (t - u))"

section \<open>64-bit floating point values\<close>

datatype f64 = Fin real | PosInf | NegInf | NaN

fun f64_lt :: "f64 \<Rightarrow> f64 \<Rightarrow> bool" where
  "f64_lt (Fin a) (Fin b) = (a < b)"
| "f64_lt (Fin a) PosInf = True"
| "f64_lt NegInf (Fin b) = True"
| "f64_lt NegInf PosInf = True"
| "f64_lt _ _ = False"

definition f64_le :: "f64 \<Rightarrow> f64 \<Rightarrow> bool" where
  "f64_le a b \<longleftrightarrow> f64_lt a b \<or> (a = b \<and> a \<noteq> NaN)"

definition f64_IsNaN :: "f64 \<Rightarrow> bool" where
  "f64_IsNaN a \<longleftrightarrow> a = NaN"

definition f64_IsInf :: "f64 \<Rightarrow> bool" where
  "f64_IsInf a \<longleftrightarrow> a = PosInf \<or> a = NegInf"

fun f64_neg :: "f64 \<Rightarrow> f64" where
  "f64_neg (Fin a) = Fin (- a)"
| "f64_neg PosInf = NegInf"
| "f64_neg NegInf = PosInf"
| "f64_neg NaN = NaN"

fun f64_add :: "f64 \<Rightarrow> f64 \<Rightarrow> f64" where
  "f64_add (Fin a) (Fin b) = Fin (a + b)"
| "f64_add NaN _ = NaN"
| "f64_add _ NaN = NaN"
| "f64_add PosInf NegInf = NaN"
| "f64_add NegInf PosInf = NaN"
| "f64_add PosInf _ = PosInf"
| "f64_add _ PosInf = PosInf"
| "f64_add NegInf _ = NegInf"
| "f64_add _ NegInf = NegInf"

definition f64_sub :: "f64 \<Rightarrow> f64 \<Rightarrow> f64" where
  "f64_sub a b = f64_add a (f64_neg b)"

definition f64_inf_of_sign :: "real \<Rightarrow> f64" where
  "f64_inf_of_sign s = (if s > 0 then PosInf else if s < 0 then NegInf else NaN)"

fun f64_mul :: "f64 \<Rightarrow> f64 \<Rightarrow> f64" where
  "f64_mul (Fin a) (Fin b) = Fin (a * b)"
| "f64_mul NaN _ = NaN"
| "f64_mul _ NaN = NaN"
| "f64_mul (Fin a) PosInf = f64_inf_of_sign a"
| "f64_mul (Fin a) NegInf = f64_inf_of_sign (- a)"
| "f64_mul PosInf (Fin b) = f64_inf_of_sign b"
| "f64_mul NegInf (Fin b) = f64_inf_of_sign (- b)"
| "f64_mul PosInf PosInf = PosInf"
| "f64_mul NegInf NegInf = PosInf"
| "f64_mul PosInf NegInf = NegInf"
| "f64_mul NegInf PosInf = NegInf"

fun f64_div :: "f64 \<Rightarrow> f64 \<Rightarrow> f64" where
  "f64_div (Fin a) (Fin b) = (if b = 0 then f64_inf_of_sign a else Fin (a / b))"
| "f64_div NaN _ = NaN"
| "f64_div _ NaN = NaN"
| "f64_div (Fin a) _ = Fin 0"
| "f64_div PosInf (Fin b) = (if b < 0 then NegInf else PosInf)"
| "f64_div NegInf (Fin b) = (if b < 0 then PosInf else NegInf)"
| "f64_div _ _ = NaN"

section \<open>Go maps and counters\<close>

type_synonym ('k, 'v) gomap = "('k \<times> 'v) list"

definition mempty :: "('k, 'v) gomap" where
  "mempty = []"

definition mget :: "('k, 'v) gomap \<Rightarrow> 'k \<Rightarrow> 'v option" where
  "mget m k = map_of m k"

definition mput :: "'k \<Rightarrow> 'v \<Rightarrow> ('k, 'v) gomap \<Rightarrow> ('k, 'v) gomap" where
  "mput k v m = AList.update k v m"

definition mdel :: "'k \<Rightarrow> ('k, 'v) gomap \<Rightarrow> ('k, 'v) gomap" where
  "mdel k m = AList.delete k m"

definition mlen :: "('k, 'v) gomap \<Rightarrow> nat" where
  "mlen m = length m"

definition mwf :: "('k, 'v) gomap \<Rightarrow> bool" where
  "mwf m \<longleftrightarrow> distinct (map fst m)"

definition mcount :: "('k \<Rightarrow> 'v \<Rightarrow> bool) \<Rightarrow> ('k, 'v) gomap \<Rightarrow> nat" where
  "mcount P m = length (filter (\<lambda>(k, v). P k v) m)"

definition cget :: "('k, int) gomap \<Rightarrow> 'k \<Rightarrow> int" where
  "cget m k = (case mget m k of None \<Rightarrow> 0 | Some n \<Rightarrow> n)"

definition cinc :: "'k \<Rightarrow> ('k, int) gomap \<Rightarrow> ('k, int) gomap" where
  "cinc k m = mput k (cget m k + 1) m"

definition cdec :: "'k \<Rightarrow> ('k, int) gomap \<Rightarrow> ('k, int) gomap" where
  "cdec k m = (if cget m k \<le> 1 then mdel k m else mput k (cget m k - 1) m)"

lemma mget_mempty [simp]: "mget mempty k = None"
  by (simp add: mget_def mempty_def)

lemma mget_mput [simp]: "mget (mput k v m) k' = (if k' = k then Some v else mget m k')"
  by (simp add: mget_def mput_def update_conv')

lemma mget_mdel [simp]: "mget (mdel k m) k' = (if k' = k then None else mget m k')"
  by (simp add: mget_def mdel_def delete_conv')

lemma mget_Cons: "mget ((k, v) # m) k' = (if k' = k then Some v else mget m k')"
  by (simp add: mget_def)

lemma mput_mput [simp]: "mput k v (mput k w m) = mput k v m"
  by (simp add: mput_def update_last)

lemma mwf_mempty [simp]: "mwf mempty"
  by (simp add: mwf_def mempty_def)

lemma mwf_mput [simp]: "mwf m \<Longrightarrow> mwf (mput k v m)"
  by (simp add: mwf_def mput_def distinct_update)

lemma mwf_mdel [simp]: "mwf m \<Longrightarrow> mwf (mdel k m)"
  by (simp add: mwf_def mdel_def distinct_delete)

lemma mget_None_iff: "mget m k = None \<longleftrightarrow> k \<notin> fst ` set m"
  by (simp add: mget_def map_of_eq_None_iff)

lemma mput_fresh: "mget m k = None \<Longrightarrow> mput k v m = m @ [(k, v)]"
  by (induction m) (auto simp: mget_def mput_def split: if_splits)

lemma mcount_mempty [simp]: "mcount P mempty = 0"
  by (simp add: mcount_def mempty_def)

lemma mcount_Cons: "mcount P ((k, v) # m) = (if P k v then 1 else 0) + mcount P m"
  by (simp add: mcount_def)

lemma mcount_mput_fresh:
  "mget m k = None \<Longrightarrow> mcount P (mput k v m) = mcount P m + (if P k v then 1 else 0)"
  by (simp add: mput_fresh mcount_def)

lemma mcount_mdel_absent: "mget m k = None \<Longrightarrow> mcount P (mdel k m) = mcount P m"
  by (induction m) (auto simp: mget_def mdel_def mcount_def split: if_splits)

lemma mdel_absent: "mget m k = None \<Longrightarrow> mdel k m = m"
  by (induction m) (auto simp: mget_def mdel_def split: if_splits)

lemma mcount_mdel:
  "mwf m \<Longrightarrow> mget m k = Some v \<Longrightarrow> mcount P m = mcount P (mdel k m) + (if P k v then 1 else 0)"
proof (induction m)
  case Nil
  then show ?case by (simp add: mget_def)
next
  case (Cons a m)
  obtain k' v' where a: "a = (k', v')" by fastforce
  show ?case
  proof (cases "k' = k")
    case True
    with Cons.prems a have "mget m k = None" "v' = v"
      by (auto simp: mwf_def mget_def map_of_eq_None_iff)
    moreover from this have "mdel k m = m"
      by (simp add: mdel_absent)
    ultimately show ?thesis
      using True a by (simp add: mcount_Cons mdel_def)
  next
    case False
    with Cons a show ?thesis
      by (simp add: mcount_Cons mwf_def mget_def mdel_def)
  qed
qed

lemma mcount_mput_present:
  "mwf m \<Longrightarrow> mget m k = Some v \<Longrightarrow>
     mcount P (mput k w m) + (if P k v then 1 else 0) = mcount P m + (if P k w then 1 else 0)"
proof (induction m)
  case Nil
  then show ?case by (simp add: mget_def)
next
  case (Cons a m)
  obtain k' v' where a: "a = (k', v')" by fastforce
  show ?case
  proof (cases "k' = k")
    case True
    with Cons.prems a show ?thesis
      by (simp add: mget_def mput_def mcount_Cons)
  next
    case False
    with Cons a show ?thesis
      by (simp add: mget_def mput_def mcount_Cons mwf_def)
  qed
qed

lemma mcount_cong:
  "mwf m \<Longrightarrow> (\<And>k v. mget m k = Some v \<Longrightarrow> P k v = Q k v) \<Longrightarrow> mcount P m = mcount Q m"
proof -
  assume wf: "mwf m" and eq: "\<And>k v. mget m k = Some v \<Longrightarrow> P k v = Q k v"
  have "filter (\<lambda>(k, v). P k v) m = filter (\<lambda>(k, v). Q k v) m"
    by (rule filter_cong) (use wf eq in \<open>auto simp: mwf_def mget_def\<close>)
  then show ?thesis by (simp add: mcount_def)
qed

lemma mcount_card:
  assumes "mwf m"
  shows "mcount P m = card {k. \<exists>v. mget m k = Some v \<and> P k v}"
proof -
  have "{k. \<exists>v. mget m k = Some v \<and> P k v} = fst ` set (filter (\<lambda>(k, v). P k v) m)"
    using assms by (force simp: mget_def mwf_def)
  moreover have "distinct (map fst (filter (\<lambda>(k, v). P k v) m))"
    using assms by (simp add: mwf_def distinct_map_filter)
  ultimately show ?thesis
    by (metis distinct_card length_map list.set_map mcount_def)
qed

lemma mcount_mono:
  assumes "mwf m" and "mwf m'"
    and "\<And>k v. mget m k = Some v \<Longrightarrow> P k v \<Longrightarrow> \<exists>v'. mget m' k = Some v' \<and> Q k v'"
  shows "mcount P m \<le> mcount Q m'"
proof -
  have "finite {k. \<exists>v. mget m' k = Some v \<and> Q k v}"
    by (rule finite_subset [of _ "fst ` set m'"]) (auto simp: mget_def dest!: map_of_SomeD intro: rev_image_eqI)
  with assms show ?thesis by (auto simp: mcount_card intro!: card_mono)
qed

lemma mcount_split: "mcount P m = mcount (\<lambda>k v. P k v \<and> Q k v) m + mcount (\<lambda>k v. P k v \<and> \<not> Q k v) m"
  by (induction m) (auto simp: mcount_def)

lemma mcount_pos: "mget m k = Some v \<Longrightarrow> P k v \<Longrightarrow> 0 < mcount P m"
  by (auto simp: mget_def mcount_def filter_empty_conv dest!: map_of_SomeD)

lemma mlen_mput: "mlen (mput k v m) = (if mget m k = None then Suc (mlen m) else mlen m)"
  by (induction m) (auto simp: mget_def mput_def mlen_def)

lemma mlen_mdel_le: "mlen (mdel k m) \<le> mlen m"
  by (simp add: mlen_def mdel_def length_delete_le)

lemma mlen_mdel_present:
  "mwf m \<Longrightarrow> mget m k = Some v \<Longrightarrow> Suc (mlen (mdel k m)) = mlen m"
  using mcount_mdel [of m k v "\<lambda>_ _. True"] by (simp add: mcount_def mlen_def)

lemma cget_mempty [simp]: "cget mempty k = 0"
  by (simp add: cget_def)

lemma cget_cinc [simp]: "cget (cinc k m) k' = (if k' = k then cget m k + 1 else cget m k')"
  by (simp add: cget_def cinc_def)

lemma cget_cdec:
  "0 \<le> cget m k \<Longrightarrow>
     cget (cdec k m) k' = (if k' = k then max 0 (cget m k - 1) else cget m k')"
  by (auto simp: cget_def cdec_def)

lemma mwf_cinc [simp]: "mwf m \<Longrightarrow> mwf (cinc k m)"
  by (simp add: cinc_def)

lemma mwf_cdec [simp]: "mwf m \<Longrightarrow> mwf (cdec k m)"
  by (simp add: cdec_def)

text \<open>A counter map that counts the entries of another map by a key of their value.\<close>

definition counts_by :: "('v \<Rightarrow> 'c) \<Rightarrow> ('c, int) gomap \<Rightarrow> ('k, 'v) gomap \<Rightarrow> bool" where
  "counts_by key cnt m \<longleftrightarrow> (\<forall>k. cget cnt k = int (mcount (\<lambda>_ v. key v = k) m))"

lemma counts_by_mempty [simp]: "counts_by key mempty mempty"
  by (simp add: counts_by_def)

lemma counts_by_nonneg: "counts_by key cnt m \<Longrightarrow> 0 \<le> cget cnt k"
  by (simp add: counts_by_def)

lemma counts_by_insert:
  "counts_by key cnt m \<Longrightarrow> mget m i = None \<Longrightarrow> counts_by key (cinc (key v) cnt) (mput i v m)"
  by (simp add: counts_by_def mcount_mput_fresh)

lemma counts_by_delete:
  assumes "counts_by key cnt m" "mwf m" "mget m i = Some v"
  shows "counts_by key (cdec (key v) cnt) (mdel i m)"
proof -
  have "cget (cdec (key v) cnt) k = int (mcount (\<lambda>_ v. key v = k) (mdel i m))" for k
    using mcount_mdel [OF assms(2,3), of "\<lambda>_ v. key v = k"] assms(1)
      counts_by_nonneg [OF assms(1), of "key v"]
    by (auto simp: counts_by_def cget_cdec)
  then show ?thesis by (simp add: counts_by_def)
qed

lemma counts_by_replace:
  assumes "counts_by key cnt m" "mwf m" "mget m i = Some v" "key w = key v"
  shows "counts_by key cnt (mput i w m)"
proof -
  have "mcount (\<lambda>_ v. key v = k) (mput i w m) = mcount (\<lambda>_ v. key v = k) m" for k
    using mcount_mput_present [OF assms(2,3), of "\<lambda>_ v. key v = k" w] assms(4) by (simp split: if_splits)
  then show ?thesis using assms(1) by (simp add: counts_by_def)
qed

lemmas [gomap_simps] = mcount_mput_fresh mcount_mdel_absent cget_cdec mlen_mput

end
