(* ===== verification/Go_Strings.thy ===== *)
theory Go_Strings
  imports Go_Prelude
begin

text \<open>
  The functions of Go's package \<^verbatim>\<open>strings\<close> that the sources call. A Go string is its
  bytes, here a list of \<open>char\<close>s, so \<open>length\<close> is Go's \<^verbatim>\<open>len\<close>. \<open>trimSpace\<close> removes every
  leading and trailing Unicode space, recognised by its UTF-8 encoding.
\<close>

definition byteval :: "char \<Rightarrow> nat" where
  "byteval c = of_char c"

definition ascii_space :: "char \<Rightarrow> bool" where
  "ascii_space c \<longleftrightarrow> byteval c \<in> {9, 10, 11, 12, 13, 32}"

definition space2 :: "char \<Rightarrow> char \<Rightarrow> bool" where
  "space2 a b \<longleftrightarrow> byteval a = 194 \<and> (byteval b = 133 \<or> byteval b = 160)"

definition space3 :: "char \<Rightarrow> char \<Rightarrow> char \<Rightarrow> bool" where
  "space3 a b c \<longleftrightarrow>
     (byteval a = 225 \<and> byteval b = 154 \<and> byteval c = 128) \<or>
     (byteval a = 226 \<and> byteval b = 128 \<and>
        (128 \<le> byteval c \<and> byteval c \<le> 138 \<or> byteval c \<in> {168, 169, 175})) \<or>
     (byteval a = 226 \<and> byteval b = 129 \<and> byteval c = 159) \<or>
     (byteval a = 227 \<and> byteval b = 128 \<and> byteval c = 128)"

fun space_width :: "string \<Rightarrow> nat" where
  "space_width [] = 0"
| "space_width [a] = (if ascii_space a then 1 else 0)"
| "space_width [a, b] = (if ascii_space a then 1 else if space2 a b then 2 else 0)"
| "space_width (a # b # c # s) =
     (if ascii_space a then 1 else if space2 a b then 2 else if space3 a b c then 3 else 0)"

fun space_width_rev :: "string \<Rightarrow> nat" where
  "space_width_rev [] = 0"
| "space_width_rev [a] = (if ascii_space a then 1 else 0)"
| "space_width_rev [b, a] = (if ascii_space b then 1 else if space2 a b then 2 else 0)"
| "space_width_rev (c # b # a # s) =
     (if ascii_space c then 1 else if space2 b c then 2 else if space3 a b c then 3 else 0)"

function trimWith :: "(string \<Rightarrow> nat) \<Rightarrow> string \<Rightarrow> string" where
  "trimWith w s = (if w s = 0 \<or> s = [] then s else trimWith w (drop (w s) s))"
  by pat_completeness auto
termination
  by (relation "measure (\<lambda>(w, s). length s)") auto

declare trimWith.simps [simp del]

definition trimSpace :: "string \<Rightarrow> string" where
  "trimSpace s = rev (trimWith space_width_rev (rev (trimWith space_width s)))"

definition hasPrefix :: "string \<Rightarrow> string \<Rightarrow> bool" where
  "hasPrefix s p \<longleftrightarrow> take (length p) s = p"

definition trimRightSlash :: "string \<Rightarrow> string" where
  "trimRightSlash s = rev (dropWhile (\<lambda>c. c = CHR ''/'') (rev s))"

lemma trimWith_fix: "w (trimWith w s) = 0 \<or> trimWith w s = []"
  by (induction w s rule: trimWith.induct) (subst trimWith.simps, subst (2) trimWith.simps, simp)

lemma trimWith_done: "w s = 0 \<Longrightarrow> trimWith w s = s"
  by (simp add: trimWith.simps)

lemma trimWith_Nil [simp]: "trimWith w [] = []"
  by (simp add: trimWith.simps)

lemma trimWith_idem: "trimWith w (trimWith w s) = trimWith w s"
  using trimWith_fix [of w s] by (auto simp: trimWith_done)

lemma trimWith_suffix: "\<exists>n. trimWith w s = drop n s"
proof (induction w s rule: trimWith.induct)
  case (1 w s)
  show ?case
  proof (cases "w s = 0 \<or> s = []")
    case True
    then show ?thesis by (metis drop0 trimWith.simps)
  next
    case False
    with 1 obtain n where "trimWith w (drop (w s) s) = drop n (drop (w s) s)" by blast
    with False have "trimWith w s = drop (n + w s) s"
      by (simp add: trimWith.simps [of w s])
    then show ?thesis by blast
  qed
qed

lemma space_width_take:
  "space_width s = 0 \<Longrightarrow> space_width (take n s) = 0"
  by (cases s rule: space_width.cases; cases n; cases "n - 1"; cases "n - 2")
     (auto split: if_splits simp: take_Cons')

lemma trimSpace_idem: "trimSpace (trimSpace s) = trimSpace s"
proof -
  define t where "t = trimWith space_width s"
  define u where "u = trimWith space_width_rev (rev t)"
  obtain n where u: "u = drop n (rev t)"
    using trimWith_suffix unfolding u_def by blast
  then have ru: "rev u = take (length t - n) t"
    by (simp add: rev_drop)
  have "space_width (rev u) = 0 \<or> rev u = []"
    using trimWith_fix [of space_width s] space_width_take [of t] ru
    unfolding t_def by (metis take_Nil)
  then have "trimWith space_width (rev u) = rev u"
    by (auto simp: trimWith_done)
  then show ?thesis
    unfolding trimSpace_def t_def [symmetric] u_def [symmetric]
    by (simp add: u_def trimWith_idem)
qed

end
