(* ===== verification/Domain.thy ===== *)
theory Domain
  imports Go_Strings
begin

text \<open>
  The domain model (\<^verbatim>\<open>internal/domain\<close>): the enumerations, the configuration records
  \<open>Client\<close>, \<open>APIKey\<close>, \<open>ModelPool\<close> and \<open>Backend\<close>, the runtime views of a backend and a
  pool, and the validation of each configuration record. A string enumeration is a
  datatype whose last constructor stands for the strings outside the enumeration (for
  the states, the empty string). A \<^verbatim>\<open>Validate\<close> method normalises its receiver in place
  and may fail, so it returns the receiver together with an optional error.
\<close>

section \<open>Enumerations\<close>

datatype PriorityClass =
  PriorityCritical | PriorityHigh | PriorityNormal | PriorityBackground | PriorityOther string

datatype InferenceOutcome = InferenceSuccess | InferenceFailure | InferenceNeutral

datatype CircuitState = CircuitClosed | CircuitOpen | CircuitHalfOpen | CircuitNone

datatype PoolState =
  PoolNormal | PoolBusy | PoolSaturated | PoolEmergency | PoolUnavailable | PoolNone

datatype BackendState =
  BackendHealthy | BackendBusy | BackendSaturated | BackendDraining | BackendUnhealthy

fun PriorityClass_Valid :: "PriorityClass \<Rightarrow> bool" where
  "PriorityClass_Valid (PriorityOther _) = False"
| "PriorityClass_Valid _ = True"

section \<open>Configuration records\<close>

record Client =
  Client_ID :: int
  Client_Revision :: int
  Client_Name :: string
  Client_Enabled :: bool
  Client_PriorityClass :: PriorityClass
  Client_VLLMPriority :: int
  Client_MaxConcurrency :: int
  Client_RequestsPerMinute :: int
  Client_TokensPerMinute :: int
  Client_CreatedAt :: instant
  Client_UpdatedAt :: instant

record APIKey =
  APIKey_ID :: int
  APIKey_ClientID :: int
  APIKey_Prefix :: string
  APIKey_SecretHash :: string
  APIKey_CreatedAt :: instant
  APIKey_ExpiresAt :: "instant option"
  APIKey_RevokedAt :: "instant option"
  APIKey_LastUsedAt :: "instant option"

record ClientModelAccess =
  Access_ClientID :: int
  Access_ModelPoolID :: int
  Access_Enabled :: bool

record ModelPool =
  Pool_ID :: int
  Pool_Revision :: int
  Pool_PublicModelName :: string
  Pool_UpstreamModelName :: string
  Pool_Enabled :: bool
  Pool_MaxGatewayInflight :: int
  Pool_HighPriorityReserve :: int
  Pool_MaxWaiting :: int
  Pool_CreatedAt :: instant
  Pool_UpdatedAt :: instant

record Backend =
  Backend_ID :: int
  Backend_Revision :: int
  Backend_ModelPoolID :: int
  Backend_Name :: string
  Backend_BaseURL :: string
  Backend_Enabled :: bool
  Backend_Draining :: bool
  Backend_CapacityHint :: f64
  Backend_RunningSoftLimit :: f64
  Backend_UpstreamAPIKeyEnv :: string
  Backend_CreatedAt :: instant
  Backend_UpdatedAt :: instant

section \<open>Runtime views\<close>

record BackendRuntime =
  BR_BackendID :: int
  BR_State :: BackendState
  BR_CircuitState :: CircuitState
  BR_CircuitFailures :: int
  BR_CircuitRetryAt :: instant
  BR_CircuitProbesInFlight :: int
  BR_CircuitAvailable :: bool
  BR_Healthy :: bool
  BR_MetricsFresh :: bool
  BR_Running :: f64
  BR_Waiting :: f64
  BR_KVCacheUsage :: f64
  BR_RawPressure :: f64
  BR_Pressure :: f64
  BR_GatewayInflight :: int
  BR_LastHealthAt :: instant
  BR_LastMetricsAt :: instant
  BR_ConsecutiveFailure :: int
  BR_ConsecutiveSuccess :: int

record PoolRuntime =
  PR_PoolID :: int
  PR_State :: PoolState
  PR_BestBackendPressure :: f64
  PR_AvailableBackends :: int
  PR_AllBackendsWaiting :: bool
  PR_GatewayInflight :: int
  PR_TotalWaiting :: f64

record DomainTokenUsage =
  DU_InputTokens :: int
  DU_OutputTokens :: int
  DU_CacheReadTokens :: "int option"

section \<open>Validation\<close>

definition MaxPublicModelNameBytes :: nat where "MaxPublicModelNameBytes = 256"

definition MaxClientConcurrency :: int where "MaxClientConcurrency = 10000"

definition MaxPoolGatewayInflight :: int where "MaxPoolGatewayInflight = 100000"

definition MaxRequestsPerMinute :: int where "MaxRequestsPerMinute = 10000000"

definition MaxTokensPerMinute :: int where "MaxTokensPerMinute = 10000000000000"

datatype ValidationError =
  ClientNameRequired | InvalidPriorityClass | VLLMPriorityOutOfRange
| NegativeMaxConcurrency | MaxConcurrencyTooLarge
| RequestsPerMinuteOutOfRange | TokensPerMinuteOutOfRange
| PublicModelNameRequired | PublicModelNameTooLong | UpstreamModelNameRequired
| NegativeMaxGatewayInflight | MaxGatewayInflightTooLarge
| InvalidHighPriorityReserve | NegativeMaxWaiting
| BackendNameRequired | InvalidCapacityHint | InvalidRunningSoftLimit
| InvalidBaseURL | BaseURLScheme | BaseURLNotAbsolute | BaseURLUserInfo | BaseURLQueryOrFragment

definition Client_validatePolicy :: "Client \<Rightarrow> Client option \<Rightarrow> Client \<times> ValidationError option" where
  "Client_validatePolicy c0 previous =
     (let c = c0\<lparr>Client_Name := trimSpace (Client_Name c0)\<rparr> in
      (c,
       if Client_Name c = '''' then Some ClientNameRequired
       else if \<not> PriorityClass_Valid (Client_PriorityClass c) then Some InvalidPriorityClass
       else if Client_VLLMPriority c < - 2147483648 \<or> Client_VLLMPriority c > 2147483647
         then Some VLLMPriorityOutOfRange
       else if Client_MaxConcurrency c < 0 then Some NegativeMaxConcurrency
       else if Client_MaxConcurrency c > MaxClientConcurrency \<and>
               (case previous of None \<Rightarrow> True
                | Some p \<Rightarrow> Client_MaxConcurrency c \<noteq> Client_MaxConcurrency p)
         then Some MaxConcurrencyTooLarge
       else if Client_RequestsPerMinute c < 0 \<or> Client_RequestsPerMinute c > MaxRequestsPerMinute
         then Some RequestsPerMinuteOutOfRange
       else if Client_TokensPerMinute c < 0 \<or> Client_TokensPerMinute c > MaxTokensPerMinute
         then Some TokensPerMinuteOutOfRange
       else None))"

definition Client_Validate :: "Client \<Rightarrow> Client \<times> ValidationError option" where
  "Client_Validate c = Client_validatePolicy c None"

definition Client_ValidateUpdate :: "Client \<Rightarrow> Client \<Rightarrow> Client \<times> ValidationError option" where
  "Client_ValidateUpdate c previous = Client_validatePolicy c (Some previous)"

definition ModelPool_validatePolicy ::
  "ModelPool \<Rightarrow> ModelPool option \<Rightarrow> ModelPool \<times> ValidationError option" where
  "ModelPool_validatePolicy p0 previous =
     (let p = p0\<lparr>Pool_PublicModelName := trimSpace (Pool_PublicModelName p0),
                 Pool_UpstreamModelName := trimSpace (Pool_UpstreamModelName p0)\<rparr> in
      (p,
       if Pool_PublicModelName p = '''' then Some PublicModelNameRequired
       else if length (Pool_PublicModelName p) > MaxPublicModelNameBytes
         then Some PublicModelNameTooLong
       else if Pool_UpstreamModelName p = '''' then Some UpstreamModelNameRequired
       else if Pool_MaxGatewayInflight p < 0 then Some NegativeMaxGatewayInflight
       else if Pool_MaxGatewayInflight p > MaxPoolGatewayInflight \<and>
               (case previous of None \<Rightarrow> True
                | Some q \<Rightarrow> Pool_MaxGatewayInflight p \<noteq> Pool_MaxGatewayInflight q)
         then Some MaxGatewayInflightTooLarge
       else if Pool_HighPriorityReserve p < 0 \<or>
               (Pool_HighPriorityReserve p > 0 \<and>
                (Pool_MaxGatewayInflight p \<le> 0 \<or>
                 Pool_HighPriorityReserve p > Pool_MaxGatewayInflight p))
         then Some InvalidHighPriorityReserve
       else if Pool_MaxWaiting p < 0 then Some NegativeMaxWaiting
       else None))"

definition ModelPool_Validate :: "ModelPool \<Rightarrow> ModelPool \<times> ValidationError option" where
  "ModelPool_Validate p = ModelPool_validatePolicy p None"

definition ModelPool_ValidateUpdate ::
  "ModelPool \<Rightarrow> ModelPool \<Rightarrow> ModelPool \<times> ValidationError option" where
  "ModelPool_ValidateUpdate p previous = ModelPool_validatePolicy p (Some previous)"

text \<open>
  \<^verbatim>\<open>net/url\<close> enters as two parameters: the parser and the printer of a parsed URL.
\<close>

record ParsedURL =
  URL_Scheme :: string
  URL_Host :: string
  URL_User :: bool
  URL_RawQuery :: string
  URL_Fragment :: string
  URL_Path :: string
  URL_RawPath :: string

definition f64_positive_finite :: "f64 \<Rightarrow> bool" where
  "f64_positive_finite x \<longleftrightarrow> \<not> (f64_IsNaN x \<or> f64_IsInf x \<or> f64_le x (Fin 0))"

definition Backend_Validate ::
  "(string \<Rightarrow> ParsedURL option) \<Rightarrow> (ParsedURL \<Rightarrow> string) \<Rightarrow> Backend \<Rightarrow> Backend \<times> ValidationError option"
where
  "Backend_Validate urlParse urlString b0 =
     (let b = b0\<lparr>Backend_Name := trimSpace (Backend_Name b0)\<rparr> in
      if Backend_Name b = '''' then (b, Some BackendNameRequired)
      else if \<not> f64_positive_finite (Backend_CapacityHint b) then (b, Some InvalidCapacityHint)
      else if \<not> f64_positive_finite (Backend_RunningSoftLimit b)
        then (b, Some InvalidRunningSoftLimit)
      else case urlParse (trimSpace (Backend_BaseURL b)) of
        None \<Rightarrow> (b, Some InvalidBaseURL)
      | Some parsed \<Rightarrow>
          if URL_Scheme parsed \<noteq> ''http'' \<and> URL_Scheme parsed \<noteq> ''https''
            then (b, Some BaseURLScheme)
          else if URL_Host parsed = '''' then (b, Some BaseURLNotAbsolute)
          else if URL_User parsed then (b, Some BaseURLUserInfo)
          else if URL_RawQuery parsed \<noteq> '''' \<or> URL_Fragment parsed \<noteq> ''''
            then (b, Some BaseURLQueryOrFragment)
          else
            (b\<lparr>Backend_BaseURL :=
                 urlString (parsed\<lparr>URL_Path := trimRightSlash (URL_Path parsed),
                                   URL_RawPath := trimRightSlash (URL_RawPath parsed)\<rparr>),
               Backend_UpstreamAPIKeyEnv := trimSpace (Backend_UpstreamAPIKeyEnv b)\<rparr>, None))"

section \<open>What validation guarantees\<close>

definition client_policy_ok :: "Client \<Rightarrow> bool" where
  "client_policy_ok c \<longleftrightarrow>
     Client_Name c \<noteq> '''' \<and> trimSpace (Client_Name c) = Client_Name c \<and>
     PriorityClass_Valid (Client_PriorityClass c) \<and>
     - 2147483648 \<le> Client_VLLMPriority c \<and> Client_VLLMPriority c \<le> 2147483647 \<and>
     0 \<le> Client_MaxConcurrency c \<and>
     0 \<le> Client_RequestsPerMinute c \<and> Client_RequestsPerMinute c \<le> MaxRequestsPerMinute \<and>
     0 \<le> Client_TokensPerMinute c \<and> Client_TokensPerMinute c \<le> MaxTokensPerMinute"

definition pool_policy_ok :: "ModelPool \<Rightarrow> bool" where
  "pool_policy_ok p \<longleftrightarrow>
     Pool_PublicModelName p \<noteq> '''' \<and> Pool_UpstreamModelName p \<noteq> '''' \<and>
     length (Pool_PublicModelName p) \<le> MaxPublicModelNameBytes \<and>
     0 \<le> Pool_MaxGatewayInflight p \<and> 0 \<le> Pool_MaxWaiting p \<and>
     0 \<le> Pool_HighPriorityReserve p \<and> Pool_HighPriorityReserve p \<le> Pool_MaxGatewayInflight p"

lemma Client_validatePolicy_ok:
  "Client_validatePolicy c prev = (c', None) \<Longrightarrow> client_policy_ok c'"
  by (auto simp: Client_validatePolicy_def client_policy_ok_def Let_def trimSpace_idem
      split: if_splits)

lemma Client_validatePolicy_fix:
  "Client_validatePolicy c prev = (c', None) \<Longrightarrow> Client_validatePolicy c' prev = (c', None)"
  by (auto simp: Client_validatePolicy_def Let_def trimSpace_idem split: if_splits option.splits)

lemma ModelPool_validatePolicy_ok:
  "ModelPool_validatePolicy p prev = (p', None) \<Longrightarrow> pool_policy_ok p'"
  by (auto simp: ModelPool_validatePolicy_def pool_policy_ok_def Let_def split: if_splits)

lemma ModelPool_validatePolicy_fix:
  "ModelPool_validatePolicy p prev = (p', None) \<Longrightarrow> ModelPool_validatePolicy p' prev = (p', None)"
  by (auto simp: ModelPool_validatePolicy_def Let_def trimSpace_idem split: if_splits option.splits)

end
