(* ===== verification/Slots.thy ===== *)
theory Slots
  imports Go_Prelude
begin

text \<open>
  The interface of every bounded in-flight counter of the gateway. A caller acquires a
  slot and gets a release closure guarded by \<^verbatim>\<open>sync.Once\<close>; calling it a second time does
  nothing. \<open>slot_step\<close> and \<open>slot_run\<close> model callers that hold such closures, in any
  interleaving of acquisitions and (possibly repeated) releases, over an arbitrary
  provider. The locale \<open>slot_counter\<close> states what a provider promises; its lemmas show
  that the counters then always equal the number of closures not yet called.
\<close>

section \<open>Callers holding release closures\<close>

datatype 'r slot_event = SlotAcquire 'r | SlotRelease nat

type_synonym ('r, 's) slot_system = "'s \<times> ('r \<times> bool) list"

fun slot_step ::
  "('r \<Rightarrow> 's \<Rightarrow> 's option) \<Rightarrow> ('r \<Rightarrow> 's \<Rightarrow> 's) \<Rightarrow> ('r, 's) slot_system \<Rightarrow> 'r slot_event \<Rightarrow>
   ('r, 's) slot_system" where
  "slot_step acquire release (s, hs) (SlotAcquire r) =
     (case acquire r s of None \<Rightarrow> (s, hs) | Some s' \<Rightarrow> (s', hs @ [(r, False)]))"
| "slot_step acquire release (s, hs) (SlotRelease i) =
     (if i < length hs \<and> \<not> snd (hs ! i)
      then (release (fst (hs ! i)) s, hs[i := (fst (hs ! i), True)])
      else (s, hs))"

definition slot_run ::
  "('r \<Rightarrow> 's \<Rightarrow> 's option) \<Rightarrow> ('r \<Rightarrow> 's \<Rightarrow> 's) \<Rightarrow> ('r, 's) slot_system \<Rightarrow> 'r slot_event list \<Rightarrow>
   ('r, 's) slot_system" where
  "slot_run acquire release = foldl (slot_step acquire release)"

definition live_slots :: "('r \<Rightarrow> bool) \<Rightarrow> ('r \<times> bool) list \<Rightarrow> nat" where
  "live_slots P hs = length (filter (\<lambda>(r, done). \<not> done \<and> P r) hs)"

lemma live_slots_Nil [simp]: "live_slots P [] = 0"
  by (simp add: live_slots_def)

lemma live_slots_snoc [simp]:
  "live_slots P (hs @ [(r, False)]) = live_slots P hs + (if P r then 1 else 0)"
  by (simp add: live_slots_def)

lemma live_slots_close:
  "i < length hs \<Longrightarrow> hs ! i = (r, False) \<Longrightarrow>
     live_slots P hs = live_slots P (hs[i := (r, True)]) + (if P r then 1 else 0)"
proof (induction hs arbitrary: i)
  case (Cons h hs)
  then show ?case
    by (cases i) (auto simp: live_slots_def)
qed simp

text \<open>Every closure handed out comes from a successful acquisition.\<close>

lemma slot_step_handles:
  assumes "\<And>r s s'. acquire r s = Some s' \<Longrightarrow> Q r" and "\<forall>h \<in> set (snd x). Q (fst h)"
  shows "\<forall>h \<in> set (snd (slot_step acquire release x e)). Q (fst h)"
proof (cases x)
  case (Pair s hs)
  show ?thesis
  proof (cases e)
    case (SlotAcquire r)
    with Pair assms show ?thesis by (auto split: option.split)
  next
    case (SlotRelease i)
    with Pair assms(2) have "i < length hs \<Longrightarrow> Q (fst (hs ! i))" by simp
    with Pair SlotRelease assms(2) show ?thesis
      by (auto dest!: set_update_subset_insert [THEN subsetD])
  qed
qed

lemma slot_run_handles:
  assumes "\<And>r s s'. acquire r s = Some s' \<Longrightarrow> Q r" and "\<forall>h \<in> set (snd x). Q (fst h)"
  shows "\<forall>h \<in> set (snd (slot_run acquire release x es)). Q (fst h)"
  using assms(2)
proof (induction es arbitrary: x)
  case (Cons e es)
  have "\<forall>h \<in> set (snd (slot_step acquire release x e)). Q (fst h)"
    by (rule slot_step_handles) (use assms(1) Cons.prems in blast)+
  then show ?case using Cons.IH by (simp add: slot_run_def)
qed (simp add: slot_run_def)

section \<open>The provider's contract\<close>

locale slot_counter =
  fixes acquire :: "'r \<Rightarrow> 's \<Rightarrow> 's option"
    and release :: "'r \<Rightarrow> 's \<Rightarrow> 's"
    and inflight :: "'s \<Rightarrow> 'k \<Rightarrow> int"
    and occupies :: "'r \<Rightarrow> 'k \<Rightarrow> bool"
    and limit :: "'r \<Rightarrow> 'k \<Rightarrow> int"
  assumes acquire_count:
      "acquire r s = Some s' \<Longrightarrow> inflight s' k = inflight s k + (if occupies r k then 1 else 0)"
    and acquire_limit:
      "acquire r s = Some s' \<Longrightarrow> occupies r k \<Longrightarrow> inflight s k < limit r k"
    and release_count:
      "\<lbrakk>\<And>k'. occupies r k' \<Longrightarrow> 0 < inflight s k'; \<And>k'. 0 \<le> inflight s k'\<rbrakk> \<Longrightarrow>
         inflight (release r s) k = inflight s k - (if occupies r k then 1 else 0)"
begin

definition balanced :: "('r, 's) slot_system \<Rightarrow> bool" where
  "balanced x \<longleftrightarrow> (\<forall>k. inflight (fst x) k = int (live_slots (\<lambda>r. occupies r k) (snd x)))"

lemma balanced_step:
  assumes "balanced x"
  shows "balanced (slot_step acquire release x e)"
proof (cases x)
  case (Pair s hs)
  have bal: "inflight s k = int (live_slots (\<lambda>r. occupies r k) hs)" for k
    using assms Pair by (simp add: balanced_def)
  show ?thesis
  proof (cases e)
    case (SlotAcquire r)
    with Pair bal show ?thesis
      by (auto simp: balanced_def acquire_count split: option.split)
  next
    case (SlotRelease i)
    show ?thesis
    proof (cases "i < length hs \<and> \<not> snd (hs ! i)")
      case True
      then obtain r where r: "hs ! i = (r, False)"
        by (cases "hs ! i") auto
      have close: "live_slots P hs = live_slots P (hs[i := (r, True)]) + (if P r then 1 else 0)" for P
        using True r by (intro live_slots_close) auto
      have "inflight (release r s) k = inflight s k - (if occupies r k then 1 else 0)" for k
        by (rule release_count) (use bal close [of "\<lambda>r. occupies r _"] in \<open>auto\<close>)
      with Pair SlotRelease True r bal close show ?thesis
        by (auto simp: balanced_def)
    next
      case False
      with Pair SlotRelease bal show ?thesis
        by (auto simp: balanced_def)
    qed
  qed
qed

lemma balanced_run:
  "balanced x \<Longrightarrow> balanced (slot_run acquire release x es)"
  by (induction es arbitrary: x) (simp_all add: slot_run_def balanced_step)

lemma limit_step:
  assumes "balanced x" and "inflight (fst x) k \<le> L" and "0 \<le> L"
    and "\<And>r. e = SlotAcquire r \<Longrightarrow> occupies r k \<Longrightarrow> limit r k \<le> L"
  shows "inflight (fst (slot_step acquire release x e)) k \<le> L"
proof (cases x)
  case (Pair s hs)
  show ?thesis
  proof (cases e)
    case (SlotAcquire r)
    then show ?thesis
      using assms(2-4) Pair acquire_limit [of r s _ k]
      by (fastforce simp: acquire_count split: option.split)
  next
    case (SlotRelease i)
    have "inflight s k \<ge> inflight (fst (slot_step acquire release x e)) k"
    proof (cases "i < length hs \<and> \<not> snd (hs ! i)")
      case True
      then obtain r where r: "hs ! i = (r, False)"
        by (cases "hs ! i") auto
      have close: "live_slots P hs = live_slots P (hs[i := (r, True)]) + (if P r then 1 else 0)" for P
        using True r by (intro live_slots_close) auto
      have "inflight (release r s) k = inflight s k - (if occupies r k then 1 else 0)"
        by (rule release_count)
          (use assms(1) Pair close [of "\<lambda>r. occupies r _"] in \<open>auto simp: balanced_def\<close>)
      with Pair SlotRelease True r show ?thesis by simp
    qed (use Pair SlotRelease in auto)
    with assms(2) Pair show ?thesis by simp
  qed
qed

lemma limit_run:
  assumes "balanced x" and "inflight (fst x) k \<le> L" and "0 \<le> L"
    and "\<forall>r. SlotAcquire r \<in> set es \<longrightarrow> occupies r k \<longrightarrow> limit r k \<le> L"
  shows "inflight (fst (slot_run acquire release x es)) k \<le> L"
  using assms
proof (induction es arbitrary: x)
  case Nil
  then show ?case by (simp add: slot_run_def)
next
  case (Cons e es)
  have "inflight (fst (slot_step acquire release x e)) k \<le> L"
    by (rule limit_step) (use Cons.prems in auto)
  moreover have "balanced (slot_step acquire release x e)"
    by (rule balanced_step) (use Cons.prems in auto)
  ultimately show ?case
    using Cons by (simp add: slot_run_def)
qed

lemma run_from_empty:
  assumes "\<And>k. inflight s k = 0" and "0 \<le> L"
    and "\<forall>r. SlotAcquire r \<in> set es \<longrightarrow> occupies r k \<longrightarrow> limit r k \<le> L"
  shows "inflight (fst (slot_run acquire release (s, []) es)) k =
           int (live_slots (\<lambda>r. occupies r k) (snd (slot_run acquire release (s, []) es)))"
    and "inflight (fst (slot_run acquire release (s, []) es)) k \<le> L"
proof -
  have bal: "balanced (s, [])"
    using assms(1) by (simp add: balanced_def)
  show "inflight (fst (slot_run acquire release (s, []) es)) k =
           int (live_slots (\<lambda>r. occupies r k) (snd (slot_run acquire release (s, []) es)))"
    using balanced_run [OF bal] by (simp add: balanced_def)
  show "inflight (fst (slot_run acquire release (s, []) es)) k \<le> L"
    by (rule limit_run [OF bal]) (use assms in auto)
qed

end

end
