(* ===== verification/Admission.thy ===== *)
theory Admission
  imports Domain Slots
begin

text \<open>
  Process-local admission (\<^verbatim>\<open>internal/admission\<close> and
  \<^verbatim>\<open>internal/coordination/emergency.go\<close>): the priority policy \<open>EffectiveLimit\<close>, the
  per-client concurrency \<open>Limiter\<close> and the \<open>EmergencyAdmission\<close> caps used while the
  durable coordinator is unavailable. Both counters are interpretations of
  \<open>slot_counter\<close>.
\<close>

section \<open>Priority policy\<close>

definition admittedFraction :: "PriorityClass \<Rightarrow> PoolState \<Rightarrow> real" where
  "admittedFraction class state =
     (case state of
        PoolNormal \<Rightarrow> 1
      | PoolBusy \<Rightarrow> (if class = PriorityBackground then 1 / 2 else 1)
      | PoolSaturated \<Rightarrow>
          (case class of
             PriorityCritical \<Rightarrow> 1 | PriorityHigh \<Rightarrow> 1 | PriorityNormal \<Rightarrow> 1 / 2 | _ \<Rightarrow> 0)
      | PoolEmergency \<Rightarrow>
          (case class of PriorityCritical \<Rightarrow> 1 | PriorityHigh \<Rightarrow> 1 / 2 | _ \<Rightarrow> 0)
      | _ \<Rightarrow> 0)"

definition EffectiveLimit :: "PriorityClass \<Rightarrow> PoolState \<Rightarrow> int \<Rightarrow> int" where
  "EffectiveLimit class state maximum =
     (if maximum \<le> 0 then 0
      else let limit = \<lfloor>real_of_int maximum * admittedFraction class state\<rfloor>
           in if limit < 0 then 0 else if limit > maximum then maximum else limit)"

section \<open>The concurrency limiter\<close>

record Limiter =
  Limiter_inflight :: "(int, int) gomap"

definition NewLimiter :: Limiter where
  "NewLimiter = \<lparr>Limiter_inflight = mempty\<rparr>"

definition Limiter_Acquire :: "Limiter \<Rightarrow> int \<Rightarrow> int \<Rightarrow> Limiter option" where
  "Limiter_Acquire l clientID limit =
     (if limit \<le> 0 then None
      else if cget (Limiter_inflight l) clientID \<ge> limit then None
      else Some (l\<lparr>Limiter_inflight := cinc clientID (Limiter_inflight l)\<rparr>))"

definition Limiter_InFlight :: "Limiter \<Rightarrow> int \<Rightarrow> int" where
  "Limiter_InFlight l clientID = cget (Limiter_inflight l) clientID"

definition Lease_Release :: "Limiter \<Rightarrow> int \<Rightarrow> Limiter" where
  "Lease_Release l clientID =
     (let remaining = cget (Limiter_inflight l) clientID - 1 in
      if remaining \<le> 0 then l\<lparr>Limiter_inflight := mdel clientID (Limiter_inflight l)\<rparr>
      else l\<lparr>Limiter_inflight := mput clientID remaining (Limiter_inflight l)\<rparr>)"

section \<open>Emergency admission\<close>

record EmergencyAdmission =
  Emergency_critical :: int
  Emergency_high :: int
  Emergency_byClass :: "(PriorityClass, int) gomap"
  Emergency_byClient :: "(int, int) gomap"

definition NewEmergencyAdmission :: "int \<Rightarrow> int \<Rightarrow> EmergencyAdmission" where
  "NewEmergencyAdmission critical high =
     \<lparr>Emergency_critical = critical, Emergency_high = high,
      Emergency_byClass = mempty, Emergency_byClient = mempty\<rparr>"

text \<open>
  The cap of a class: \<open>None\<close> for the classes that the switch statement refuses. A nil
  receiver is \<open>None\<close>.
\<close>

definition Emergency_cap :: "EmergencyAdmission \<Rightarrow> PriorityClass \<Rightarrow> int option" where
  "Emergency_cap e class =
     (case class of
        PriorityCritical \<Rightarrow> Some (Emergency_critical e)
      | PriorityHigh \<Rightarrow> Some (Emergency_high e)
      | _ \<Rightarrow> None)"

definition Emergency_Acquire ::
  "EmergencyAdmission option \<Rightarrow> PriorityClass \<Rightarrow> int \<Rightarrow> int \<Rightarrow> EmergencyAdmission option" where
  "Emergency_Acquire receiver class clientID clientLimit =
     (case receiver of None \<Rightarrow> None
      | Some e \<Rightarrow>
          if clientLimit \<le> 0 then None
          else case Emergency_cap e class of None \<Rightarrow> None
          | Some cap \<Rightarrow>
              if cap \<le> 0 then None
              else if cget (Emergency_byClass e) class \<ge> cap \<or>
                      cget (Emergency_byClient e) clientID \<ge> clientLimit then None
              else Some (e\<lparr>Emergency_byClass := cinc class (Emergency_byClass e),
                           Emergency_byClient := cinc clientID (Emergency_byClient e)\<rparr>))"

definition Emergency_release ::
  "EmergencyAdmission \<Rightarrow> PriorityClass \<Rightarrow> int \<Rightarrow> EmergencyAdmission" where
  "Emergency_release e class clientID =
     e\<lparr>Emergency_byClass := mput class (cget (Emergency_byClass e) class - 1) (Emergency_byClass e),
       Emergency_byClient :=
         mput clientID (cget (Emergency_byClient e) clientID - 1) (Emergency_byClient e)\<rparr>"

definition Emergency_CanServe ::
  "EmergencyAdmission option \<Rightarrow> PriorityClass \<Rightarrow> int \<Rightarrow> int \<Rightarrow> bool" where
  "Emergency_CanServe receiver class clientID clientLimit =
     (case receiver of None \<Rightarrow> False
      | Some e \<Rightarrow>
          if clientLimit \<le> 0 then False
          else case Emergency_cap e class of None \<Rightarrow> False
          | Some cap \<Rightarrow>
              cap > 0 \<and> cget (Emergency_byClass e) class < cap \<and>
              cget (Emergency_byClient e) clientID < clientLimit)"

section \<open>Orders on classes and pool states\<close>

text \<open>How urgent a class is, and how loaded a state: the orders the policy respects.\<close>

fun class_rank :: "PriorityClass \<Rightarrow> nat" where
  "class_rank PriorityCritical = 3"
| "class_rank PriorityHigh = 2"
| "class_rank PriorityNormal = 1"
| "class_rank PriorityBackground = 0"
| "class_rank (PriorityOther _) = 0"

fun load_rank :: "PoolState \<Rightarrow> nat" where
  "load_rank PoolNormal = 0"
| "load_rank PoolBusy = 1"
| "load_rank PoolSaturated = 2"
| "load_rank PoolEmergency = 3"
| "load_rank PoolUnavailable = 4"
| "load_rank PoolNone = 4"

section \<open>Properties of the policy\<close>

lemma admittedFraction_range: "0 \<le> admittedFraction c s \<and> admittedFraction c s \<le> 1"
  by (cases s; cases c) (auto simp: admittedFraction_def)

lemma EffectiveLimit_floor:
  "0 < m \<Longrightarrow> EffectiveLimit c s m = \<lfloor>real_of_int m * admittedFraction c s\<rfloor>"
proof -
  assume m: "0 < m"
  have "real_of_int m * admittedFraction c s \<le> real_of_int m"
    using m admittedFraction_range [of c s] by (simp add: mult_left_le)
  then have "\<lfloor>real_of_int m * admittedFraction c s\<rfloor> \<le> m"
    by linarith
  moreover have "0 \<le> \<lfloor>real_of_int m * admittedFraction c s\<rfloor>"
    using m admittedFraction_range [of c s] by simp
  ultimately show ?thesis
    using m by (simp add: EffectiveLimit_def Let_def)
qed

lemma EffectiveLimit_range: "0 \<le> m \<Longrightarrow> 0 \<le> EffectiveLimit c s m \<and> EffectiveLimit c s m \<le> m"
  by (auto simp: EffectiveLimit_def Let_def)

lemma admittedFraction_mono:
  "class_rank c \<le> class_rank c' \<Longrightarrow> load_rank s' \<le> load_rank s \<Longrightarrow> PriorityClass_Valid c \<Longrightarrow>
     admittedFraction c s \<le> admittedFraction c' s'"
  by (cases s; cases s'; cases c; cases c') (auto simp: admittedFraction_def)

lemma EffectiveLimit_mono:
  assumes "class_rank c \<le> class_rank c'" and "load_rank s' \<le> load_rank s"
    and "PriorityClass_Valid c" and "m \<le> m'"
  shows "EffectiveLimit c s m \<le> EffectiveLimit c' s' m'"
proof (cases "0 < m")
  case True
  have "real_of_int m * admittedFraction c s \<le> real_of_int m' * admittedFraction c' s'"
    using assms True admittedFraction_mono [OF assms(1-3)] admittedFraction_range [of c s]
    by (intro mult_mono) auto
  then show ?thesis
    using True assms(4) by (simp add: EffectiveLimit_floor floor_mono)
next
  case False
  then show ?thesis
    using EffectiveLimit_range [of m' c' s'] by (auto simp: EffectiveLimit_def Let_def)
qed

lemma half_floor: "\<lfloor>real_of_int m * (1 / 2)\<rfloor> = m div 2"
proof -
  have "\<lfloor>real_of_int m / real_of_int 2\<rfloor> = m div 2"
    by (rule floor_divide_of_int_eq)
  then show ?thesis by simp
qed

section \<open>The counters are slot counters\<close>

text \<open>A caller of the limiter names its client and the limit in force.\<close>

interpretation limiter: slot_counter
  "\<lambda>(c, l) s. Limiter_Acquire s c l" "\<lambda>(c, l) s. Lease_Release s c"
  "\<lambda>s c. Limiter_InFlight s c" "\<lambda>(c, l) k. k = c" "\<lambda>(c, l) k. l"
proof (unfold_locales, goal_cases)
  case (1 r s s' k)
  then show ?case
    by (auto simp: Limiter_Acquire_def Limiter_InFlight_def split: if_splits)
next
  case (2 r s s' k)
  then show ?case
    by (auto simp: Limiter_Acquire_def Limiter_InFlight_def split: if_splits)
next
  case (3 r s k)
  then show ?case
    by (auto simp: Lease_Release_def Limiter_InFlight_def Let_def cget_def split: prod.splits)
qed

text \<open>
  A caller of the emergency coordinator occupies its class counter (\<open>Inl\<close>) and its client
  counter (\<open>Inr\<close>). The class caps never change, so the provider's state is the pair of
  counter maps beside fixed caps.
\<close>

definition emergency_acquire ::
  "int \<Rightarrow> int \<Rightarrow> PriorityClass \<times> int \<times> int \<Rightarrow> (PriorityClass, int) gomap \<times> (int, int) gomap \<Rightarrow>
   ((PriorityClass, int) gomap \<times> (int, int) gomap) option" where
  "emergency_acquire critical high r s =
     (case r of (class, clientID, clientLimit) \<Rightarrow>
        map_option (\<lambda>e. (Emergency_byClass e, Emergency_byClient e))
          (Emergency_Acquire
             (Some \<lparr>Emergency_critical = critical, Emergency_high = high,
                    Emergency_byClass = fst s, Emergency_byClient = snd s\<rparr>)
             class clientID clientLimit))"

definition emergency_release ::
  "int \<Rightarrow> int \<Rightarrow> PriorityClass \<times> int \<times> int \<Rightarrow> (PriorityClass, int) gomap \<times> (int, int) gomap \<Rightarrow>
   (PriorityClass, int) gomap \<times> (int, int) gomap" where
  "emergency_release critical high r s =
     (case r of (class, clientID, clientLimit) \<Rightarrow>
        (let e = Emergency_release
               \<lparr>Emergency_critical = critical, Emergency_high = high,
                Emergency_byClass = fst s, Emergency_byClient = snd s\<rparr> class clientID
         in (Emergency_byClass e, Emergency_byClient e)))"

fun emergency_count ::
  "(PriorityClass, int) gomap \<times> (int, int) gomap \<Rightarrow> PriorityClass + int \<Rightarrow> int" where
  "emergency_count s (Inl class) = cget (fst s) class"
| "emergency_count s (Inr clientID) = cget (snd s) clientID"

fun emergency_occupies :: "PriorityClass \<times> int \<times> int \<Rightarrow> PriorityClass + int \<Rightarrow> bool" where
  "emergency_occupies (class, clientID, limit) (Inl class') = (class' = class)"
| "emergency_occupies (class, clientID, limit) (Inr clientID') = (clientID' = clientID)"

fun emergency_limit :: "int \<Rightarrow> int \<Rightarrow> PriorityClass \<times> int \<times> int \<Rightarrow> PriorityClass + int \<Rightarrow> int" where
  "emergency_limit critical high (class, clientID, limit) (Inr _) = limit"
| "emergency_limit critical high (class, clientID, limit) (Inl _) =
     (case class of PriorityCritical \<Rightarrow> critical | PriorityHigh \<Rightarrow> high | _ \<Rightarrow> 0)"

lemma emergency_acquire_Some:
  "emergency_acquire cr hi (class, cid, lmt) s = Some s' \<Longrightarrow>
     s' = (cinc class (fst s), cinc cid (snd s)) \<and>
     cget (fst s) class < emergency_limit cr hi (class, cid, lmt) (Inl class) \<and>
     cget (snd s) cid < lmt"
  by (auto simp: emergency_acquire_def Emergency_Acquire_def Emergency_cap_def
      split: PriorityClass.splits if_splits)

interpretation emergency: slot_counter
  "emergency_acquire critical high" "emergency_release critical high"
  emergency_count emergency_occupies "emergency_limit critical high"
  for critical high
proof (unfold_locales, goal_cases)
  case (1 r s s' k)
  then show ?case
    by (cases r; cases k) (auto dest!: emergency_acquire_Some)
next
  case (2 r s s' k)
  then show ?case
    by (cases r; cases k) (auto dest!: emergency_acquire_Some)
next
  case (3 r s k)
  then show ?case
    by (cases r; cases k) (auto simp: emergency_release_def Emergency_release_def Let_def cget_def)
qed

lemma emergency_acquire_class:
  "emergency_acquire cr hi r s = Some s' \<Longrightarrow> fst r = PriorityCritical \<or> fst r = PriorityHigh"
  by (cases r)
     (auto simp: emergency_acquire_def Emergency_Acquire_def Emergency_cap_def
       split: if_splits PriorityClass.splits)

lemma Emergency_CanServe_iff:
  "Emergency_CanServe e class cid lmt \<longleftrightarrow> Emergency_Acquire e class cid lmt \<noteq> None"
  by (auto simp: Emergency_CanServe_def Emergency_Acquire_def not_le split: option.splits)

section \<open>Properties\<close>

text \<open>
  The priority policy never exceeds the configured concurrency, and it is monotone: a
  more urgent valid class, a less loaded pool or a larger configured maximum never lowers
  the effective limit. In an emergency only Critical keeps its full limit and High half
  of it, and nothing is admitted to an unavailable pool.
\<close>

theorem EffectiveLimit_policy:
  assumes "class_rank c \<le> class_rank c'" and "load_rank s' \<le> load_rank s"
    and "PriorityClass_Valid c" and "0 \<le> m" and "m \<le> m'"
  shows "0 \<le> EffectiveLimit c s m \<and> EffectiveLimit c s m \<le> EffectiveLimit c' s' m' \<and>
    EffectiveLimit c' s' m' \<le> m' \<and>
    EffectiveLimit PriorityCritical PoolEmergency m = m \<and>
    EffectiveLimit PriorityHigh PoolEmergency m = m div 2 \<and>
    EffectiveLimit PriorityNormal PoolEmergency m = 0 \<and>
    EffectiveLimit PriorityHigh PoolSaturated m = m \<and>
    EffectiveLimit PriorityBackground PoolSaturated m = 0 \<and>
    EffectiveLimit c PoolUnavailable m = 0"
proof -
  have "EffectiveLimit PriorityCritical PoolEmergency m = m"
    "EffectiveLimit PriorityHigh PoolEmergency m = m div 2"
    "EffectiveLimit PriorityNormal PoolEmergency m = 0"
    "EffectiveLimit PriorityHigh PoolSaturated m = m"
    "EffectiveLimit PriorityBackground PoolSaturated m = 0"
    "EffectiveLimit c PoolUnavailable m = 0"
    using assms(4) half_floor [of m]
    by (cases "m = 0"; simp add: EffectiveLimit_floor admittedFraction_def; simp add: EffectiveLimit_def)+
  then show ?thesis
    using EffectiveLimit_mono [OF assms(1-3,5)] EffectiveLimit_range assms(4,5) by auto
qed

theorem EffectiveLimit_policy_witness:
  "EffectiveLimit PriorityNormal PoolSaturated 7 \<le> EffectiveLimit PriorityHigh PoolBusy 8 \<and>
   EffectiveLimit PriorityHigh PoolEmergency 7 = 3"
  using EffectiveLimit_policy [of PriorityNormal PriorityHigh PoolBusy PoolSaturated 7 8] by simp

text \<open>
  In every interleaving of acquisitions and releases on a fresh limiter, releases
  possibly repeated, a client's in-flight count is the number of its leases not yet
  released, and it never exceeds the largest limit its acquisitions used.
\<close>

theorem Limiter_counts_live_leases:
  assumes "\<forall>l. SlotAcquire (c, l) \<in> set es \<longrightarrow> l \<le> L" and "0 \<le> L"
  defines "x \<equiv> slot_run (\<lambda>(c, l) s. Limiter_Acquire s c l) (\<lambda>(c, l) s. Lease_Release s c)
                 (NewLimiter, []) es"
  shows "Limiter_InFlight (fst x) c = int (live_slots (\<lambda>(c', l). c' = c) (snd x)) \<and>
         Limiter_InFlight (fst x) c \<le> L"
proof -
  have z: "Limiter_InFlight NewLimiter k = 0" for k
    by (simp add: Limiter_InFlight_def NewLimiter_def)
  have b: "\<forall>r. SlotAcquire r \<in> set es \<longrightarrow> (\<lambda>(c', l) k. k = c') r c \<longrightarrow> (\<lambda>(c, l) k. l) r c \<le> L"
    using assms(1) by auto
  show ?thesis
    using limiter.run_from_empty [of NewLimiter L es c, OF z assms(2) b]
    by (simp add: x_def case_prod_unfold eq_commute)
qed

theorem Limiter_counts_live_leases_witness:
  "let x = slot_run (\<lambda>(c, l) s. Limiter_Acquire s c l) (\<lambda>(c, l) s. Lease_Release s c) (NewLimiter, [])
         [SlotAcquire (7, 2), SlotAcquire (7, 2), SlotAcquire (7, 2), SlotRelease 0, SlotRelease 0]
   in length (snd x) = 2 \<and> Limiter_InFlight (fst x) 7 = 1 \<and> Limiter_InFlight (fst x) 7 \<le> 2"
  using Limiter_counts_live_leases [of 7
      "[SlotAcquire (7, 2), SlotAcquire (7, 2), SlotAcquire (7, 2), SlotRelease 0, SlotRelease 0]" 2]
  by (simp add: Let_def slot_run_def Limiter_Acquire_def NewLimiter_def Lease_Release_def
      Limiter_InFlight_def live_slots_def)

text \<open>
  C40: Emergency admission keeps its documented outage bound: in every interleaving of
  acquisitions and releases, the admitted requests of a class never exceed the class cap,
  a client's never exceed the largest limit its acquisitions used, classes below High are
  never admitted, and \<open>CanServe\<close> predicts exactly whether \<open>Acquire\<close> succeeds.
\<close>

theorem Emergency_outage_bound:
  fixes es :: "(PriorityClass \<times> int \<times> int) slot_event list"
  assumes "0 \<le> critical" and "0 \<le> high"
  defines "x \<equiv> slot_run (emergency_acquire critical high) (emergency_release critical high)
                 ((mempty, mempty), []) es"
  shows "int (live_slots (\<lambda>(class, cid, l). class = PriorityCritical) (snd x)) \<le> critical \<and>
    int (live_slots (\<lambda>(class, cid, l). class = PriorityHigh) (snd x)) \<le> high \<and>
    live_slots (\<lambda>(class, cid, l). class \<noteq> PriorityCritical \<and> class \<noteq> PriorityHigh) (snd x) = 0 \<and>
    (\<forall>cid L. 0 \<le> L \<longrightarrow> (\<forall>class l. SlotAcquire (class, cid, l) \<in> set es \<longrightarrow> l \<le> L) \<longrightarrow>
       int (live_slots (\<lambda>(class, cid', l). cid' = cid) (snd x)) \<le> L) \<and>
    (\<forall>e class cid l. Emergency_CanServe e class cid l \<longleftrightarrow> Emergency_Acquire e class cid l \<noteq> None)"
proof -
  have z: "emergency_count (mempty, mempty) k = 0" for k :: "PriorityClass + int"
    by (cases k) simp_all
  have occ: "(\<lambda>r. emergency_occupies r (Inl c)) = (\<lambda>(c', cid, l). c' = c)" for c
    by (auto simp: fun_eq_iff)
  note run = emergency.run_from_empty [where s = "(mempty, mempty)" and es = es, OF z, folded x_def]
  have crit: "int (live_slots (\<lambda>(class, cid, l). class = PriorityCritical) (snd x)) \<le> critical"
    using run [of critical "Inl PriorityCritical" critical high] assms(1) unfolding x_def occ by auto
  have hi: "int (live_slots (\<lambda>(class, cid, l). class = PriorityHigh) (snd x)) \<le> high"
    using run [of high "Inl PriorityHigh" critical high] assms(2) unfolding x_def occ by auto
  have occ': "(\<lambda>r. emergency_occupies r (Inr c)) = (\<lambda>(class, cid, l). cid = c)" for c
    by (auto simp: fun_eq_iff)
  have cl: "int (live_slots (\<lambda>(class, cid', l). cid' = cid) (snd x)) \<le> L"
    if "0 \<le> L" "\<forall>class l. SlotAcquire (class, cid, l) \<in> set es \<longrightarrow> l \<le> L" for cid L
    using run [of L "Inr cid" critical high] that unfolding x_def occ' by auto
  have "\<forall>h \<in> set (snd x). fst (fst h) = PriorityCritical \<or> fst (fst h) = PriorityHigh"
    unfolding x_def
    by (rule slot_run_handles [where Q = "\<lambda>r. fst r = PriorityCritical \<or> fst r = PriorityHigh"])
       (auto dest: emergency_acquire_class)
  then have "live_slots (\<lambda>(class, cid, l). class \<noteq> PriorityCritical \<and> class \<noteq> PriorityHigh) (snd x) = 0"
    by (fastforce simp: live_slots_def filter_empty_conv)
  with crit hi cl show ?thesis by (simp add: Emergency_CanServe_iff)
qed

theorem Emergency_outage_bound_witness:
  "let x = slot_run (emergency_acquire 1 2) (emergency_release 1 2) ((mempty, mempty), [])
         [SlotAcquire (PriorityCritical, 7, 5), SlotAcquire (PriorityCritical, 8, 5),
          SlotAcquire (PriorityNormal, 9, 5)]
   in length (snd x) = 1 \<and> int (live_slots (\<lambda>(class, cid, l). class = PriorityCritical) (snd x)) \<le> 1"
  using Emergency_outage_bound [of 1 2
      "[SlotAcquire (PriorityCritical, 7, 5), SlotAcquire (PriorityCritical, 8, 5),
        SlotAcquire (PriorityNormal, 9, 5)]"]
  by (simp add: Let_def slot_run_def emergency_acquire_def Emergency_Acquire_def Emergency_cap_def)

end
