(* ===== verification/Pressure.thy ===== *)
theory Pressure
  imports Domain
begin

text \<open>
  Backend pressure and pool states (\<^verbatim>\<open>internal/pressure\<close>): the weighted pressure of one
  metrics sample, its exponentially weighted moving average, and the hysteretic state
  machine of a pool.
\<close>

section \<open>Pressure of a sample\<close>

definition queueWeight :: f64 where "queueWeight = Fin (55 / 100)"

definition kvWeight :: f64 where "kvWeight = Fin (30 / 100)"

definition runningWeight :: f64 where "runningWeight = Fin (15 / 100)"

record Sample =
  Sample_Running :: f64
  Sample_Waiting :: f64
  Sample_KVUsage :: f64

record Limits =
  Limits_QueueSoft :: f64
  Limits_KVSoft :: f64
  Limits_KVHard :: f64
  Limits_RunningSoft :: f64

definition finite_f64 :: "f64 \<Rightarrow> bool" where
  "finite_f64 x \<longleftrightarrow> \<not> f64_IsNaN x \<and> \<not> f64_IsInf x"

definition positiveFinite :: "f64 \<Rightarrow> bool" where
  "positiveFinite x \<longleftrightarrow> f64_lt (Fin 0) x \<and> finite_f64 x"

datatype LimitsError = QueueSoftNotPositive | RunningSoftNotPositive | KVLimitsOutOfOrder

definition Limits_Validate :: "Limits \<Rightarrow> LimitsError option" where
  "Limits_Validate l =
     (if \<not> positiveFinite (Limits_QueueSoft l) then Some QueueSoftNotPositive
      else if \<not> positiveFinite (Limits_RunningSoft l) then Some RunningSoftNotPositive
      else if \<not> finite_f64 (Limits_KVSoft l) \<or> \<not> finite_f64 (Limits_KVHard l) \<or>
              f64_lt (Limits_KVSoft l) (Fin 0) \<or> f64_lt (Fin 1) (Limits_KVHard l) \<or>
              f64_le (Limits_KVHard l) (Limits_KVSoft l) then Some KVLimitsOutOfOrder
      else None)"

definition clamp :: "f64 \<Rightarrow> f64 \<Rightarrow> f64 \<Rightarrow> f64" where
  "clamp value minimum maximum =
     (if f64_IsNaN value then minimum
      else if f64_lt value minimum then minimum
      else if f64_lt maximum value then maximum
      else value)"

definition Calculate :: "Sample \<Rightarrow> Limits \<Rightarrow> f64" where
  "Calculate sample limits =
     (let queue = clamp (f64_div (Sample_Waiting sample) (Limits_QueueSoft limits)) (Fin 0) (Fin 2);
          kv = clamp (f64_div (f64_sub (Sample_KVUsage sample) (Limits_KVSoft limits))
                              (f64_sub (Limits_KVHard limits) (Limits_KVSoft limits)))
                 (Fin 0) (Fin 2);
          running = clamp (f64_div (Sample_Running sample) (Limits_RunningSoft limits))
                      (Fin 0) (Fin 2)
      in f64_add (f64_add (f64_mul queueWeight queue) (f64_mul kvWeight kv))
           (f64_mul runningWeight running))"

section \<open>Moving average\<close>

record EWMA =
  EWMA_window :: duration
  EWMA_initialized :: bool
  EWMA_lastAt :: instant
  EWMA_value :: f64

definition NewEWMA :: "duration \<Rightarrow> EWMA" where
  "NewEWMA window =
     \<lparr>EWMA_window = window, EWMA_initialized = False, EWMA_lastAt = 0, EWMA_value = Fin 0\<rparr>"

definition EWMA_Add :: "EWMA \<Rightarrow> instant \<Rightarrow> f64 \<Rightarrow> EWMA \<times> f64" where
  "EWMA_Add e now value =
     (if \<not> EWMA_initialized e
      then (e\<lparr>EWMA_initialized := True, EWMA_lastAt := now, EWMA_value := value\<rparr>, value)
      else if \<not> (now > EWMA_lastAt e) then (e, EWMA_value e)
      else if EWMA_window e \<le> 0 then (e\<lparr>EWMA_lastAt := now, EWMA_value := value\<rparr>, value)
      else
        let elapsed = time_Sub now (EWMA_lastAt e);
            alpha = 1 - exp (- real_of_int elapsed / real_of_int (EWMA_window e));
            v = f64_add (EWMA_value e) (f64_mul (Fin alpha) (f64_sub value (EWMA_value e)))
        in (e\<lparr>EWMA_value := v, EWMA_lastAt := now\<rparr>, v))"

definition EWMA_Value :: "EWMA \<Rightarrow> f64 \<times> bool" where
  "EWMA_Value e = (EWMA_value e, EWMA_initialized e)"

section \<open>Pool state machine\<close>

record Thresholds =
  Th_Busy :: f64
  Th_Saturated :: f64
  Th_Emergency :: f64
  Th_BusyRecovery :: f64
  Th_SaturatedRecovery :: f64
  Th_EmergencyRecovery :: f64
  Th_EnterWindow :: duration
  Th_RecoveryWindow :: duration

record PoolMachine =
  PM_thresholds :: Thresholds
  PM_current :: PoolState
  PM_candidate :: PoolState
  PM_candidateSince :: instant
  PM_candidateSet :: bool
  PM_lastObservedAt :: instant

definition NewPoolMachine :: "Thresholds \<Rightarrow> PoolMachine" where
  "NewPoolMachine th =
     \<lparr>PM_thresholds = th, PM_current = PoolNormal, PM_candidate = PoolNone,
      PM_candidateSince = 0, PM_candidateSet = False, PM_lastObservedAt = 0\<rparr>"

fun stateRank :: "PoolState \<Rightarrow> int" where
  "stateRank PoolNormal = 0"
| "stateRank PoolBusy = 1"
| "stateRank PoolSaturated = 2"
| "stateRank PoolEmergency = 3"
| "stateRank PoolUnavailable = - 1"
| "stateRank PoolNone = - 1"

definition resetCandidate :: "PoolMachine \<Rightarrow> PoolMachine" where
  "resetCandidate m =
     m\<lparr>PM_candidate := PoolNone, PM_candidateSince := 0, PM_candidateSet := False\<rparr>"

definition instantaneous :: "PoolMachine \<Rightarrow> f64 \<Rightarrow> bool \<Rightarrow> PoolState" where
  "instantaneous m best allWaiting =
     (if f64_le (Th_Emergency (PM_thresholds m)) best then PoolEmergency
      else if f64_le (Th_Saturated (PM_thresholds m)) best \<or> allWaiting then PoolSaturated
      else if f64_le (Th_Busy (PM_thresholds m)) best then PoolBusy
      else PoolNormal)"

definition target :: "PoolMachine \<Rightarrow> PoolState \<Rightarrow> f64 \<Rightarrow> bool \<Rightarrow> PoolState \<times> duration" where
  "target m inst best allWaiting =
     (let th = PM_thresholds m; stay = (PM_current m, 0) in
      if stateRank inst > stateRank (PM_current m) then (inst, Th_EnterWindow th)
      else case PM_current m of
        PoolEmergency \<Rightarrow>
          if f64_lt best (Th_EmergencyRecovery th) then (PoolSaturated, Th_RecoveryWindow th) else stay
      | PoolSaturated \<Rightarrow>
          if f64_lt best (Th_SaturatedRecovery th) \<and> \<not> allWaiting
          then (PoolBusy, Th_RecoveryWindow th) else stay
      | PoolBusy \<Rightarrow>
          if f64_lt best (Th_BusyRecovery th) then (PoolNormal, Th_RecoveryWindow th) else stay
      | _ \<Rightarrow> stay)"

definition Observe :: "PoolMachine \<Rightarrow> instant \<Rightarrow> f64 \<Rightarrow> bool \<Rightarrow> bool \<Rightarrow> PoolMachine \<times> PoolState" where
  "Observe m0 now best allWaiting available =
     (if PM_lastObservedAt m0 \<noteq> 0 \<and> now < PM_lastObservedAt m0 then (m0, PM_current m0)
      else
        let m = m0\<lparr>PM_lastObservedAt := now\<rparr> in
        if \<not> available then
          let m' = resetCandidate (m\<lparr>PM_current := PoolUnavailable\<rparr>) in (m', PM_current m')
        else
          let inst = instantaneous m best allWaiting in
          if PM_current m = PoolUnavailable then
            let m' = resetCandidate (m\<lparr>PM_current := inst\<rparr>) in (m', PM_current m')
          else
            case target m inst best allWaiting of (tgt, window) \<Rightarrow>
              if tgt = PM_current m then
                let m' = resetCandidate m in (m', PM_current m')
              else if \<not> PM_candidateSet m \<or> PM_candidate m \<noteq> tgt then
                let m' = m\<lparr>PM_candidate := tgt, PM_candidateSince := now, PM_candidateSet := True\<rparr>
                in (m', PM_current m')
              else if time_Sub now (PM_candidateSince m) \<ge> window then
                let m' = resetCandidate (m\<lparr>PM_current := tgt\<rparr>) in (m', PM_current m')
              else (m, PM_current m))"

section \<open>Runs of observations\<close>

text \<open>
  One observation carries its time, the best backend pressure, whether every available
  backend has waiting requests, and whether any backend is available.
\<close>

record Observation =
  Obs_at :: instant
  Obs_best :: f64
  Obs_allWaiting :: bool
  Obs_available :: bool

definition observe_step :: "PoolMachine \<Rightarrow> Observation \<Rightarrow> PoolMachine" where
  "observe_step m ob = fst (Observe m (Obs_at ob) (Obs_best ob) (Obs_allWaiting ob) (Obs_available ob))"

definition observe_all :: "PoolMachine \<Rightarrow> Observation list \<Rightarrow> PoolMachine" where
  "observe_all = foldl observe_step"

text \<open>The transition an observation asks for when the pool is in state \<open>cur\<close>.\<close>

definition wanted :: "Thresholds \<Rightarrow> PoolState \<Rightarrow> Observation \<Rightarrow> PoolState \<times> duration" where
  "wanted th cur ob =
     (let m = (NewPoolMachine th)\<lparr>PM_current := cur\<rparr>
      in target m (instantaneous m (Obs_best ob) (Obs_allWaiting ob)) (Obs_best ob) (Obs_allWaiting ob))"

definition ordered_thresholds :: "Thresholds \<Rightarrow> bool" where
  "ordered_thresholds th \<longleftrightarrow>
     finite_f64 (Th_BusyRecovery th) \<and> finite_f64 (Th_Busy th) \<and>
     finite_f64 (Th_SaturatedRecovery th) \<and> finite_f64 (Th_Saturated th) \<and>
     finite_f64 (Th_EmergencyRecovery th) \<and> finite_f64 (Th_Emergency th) \<and>
     f64_lt (Th_BusyRecovery th) (Th_Busy th) \<and> f64_lt (Th_Busy th) (Th_SaturatedRecovery th) \<and>
     f64_lt (Th_SaturatedRecovery th) (Th_Saturated th) \<and>
     f64_lt (Th_Saturated th) (Th_EmergencyRecovery th) \<and>
     f64_lt (Th_EmergencyRecovery th) (Th_Emergency th)"

section \<open>Range and monotonicity of the pressure\<close>

lemma finite_f64_iff: "finite_f64 x \<longleftrightarrow> (\<exists>r. x = Fin r)"
  by (cases x) (auto simp: finite_f64_def f64_IsNaN_def f64_IsInf_def)

lemma f64_le_Fin [simp]: "f64_le (Fin a) (Fin b) \<longleftrightarrow> a \<le> b"
  by (auto simp: f64_le_def)

lemma clamp_Fin: "clamp (Fin a) (Fin 0) (Fin 2) = Fin (max 0 (min 2 a))"
  by (auto simp: clamp_def f64_IsNaN_def max_def min_def)

lemma clamp_range: "\<exists>x. clamp v (Fin 0) (Fin 2) = Fin x \<and> 0 \<le> x \<and> x \<le> 2"
  by (cases v) (auto simp: clamp_def f64_IsNaN_def)

lemma Calculate_range: "\<exists>x. Calculate sample limits = Fin x \<and> 0 \<le> x \<and> x \<le> 2"
proof -
  obtain q where q: "clamp (f64_div (Sample_Waiting sample) (Limits_QueueSoft limits)) (Fin 0) (Fin 2) = Fin q"
      "0 \<le> q" "q \<le> 2"
    using clamp_range by blast
  obtain k where k: "clamp (f64_div (f64_sub (Sample_KVUsage sample) (Limits_KVSoft limits))
                 (f64_sub (Limits_KVHard limits) (Limits_KVSoft limits))) (Fin 0) (Fin 2) = Fin k"
      "0 \<le> k" "k \<le> 2"
    using clamp_range by blast
  obtain r where r: "clamp (f64_div (Sample_Running sample) (Limits_RunningSoft limits)) (Fin 0) (Fin 2) = Fin r"
      "0 \<le> r" "r \<le> 2"
    using clamp_range by blast
  show ?thesis
    using q k r by (simp add: Calculate_def Let_def queueWeight_def kvWeight_def runningWeight_def)
qed

lemma Calculate_Fin:
  assumes "Limits_Validate \<lparr>Limits_QueueSoft = Fin qs, Limits_KVSoft = Fin ks,
             Limits_KVHard = Fin kh, Limits_RunningSoft = Fin rs\<rparr> = None"
  shows "Calculate \<lparr>Sample_Running = Fin r, Sample_Waiting = Fin w, Sample_KVUsage = Fin u\<rparr>
           \<lparr>Limits_QueueSoft = Fin qs, Limits_KVSoft = Fin ks, Limits_KVHard = Fin kh,
            Limits_RunningSoft = Fin rs\<rparr> =
         Fin (55 / 100 * max 0 (min 2 (w / qs)) + 30 / 100 * max 0 (min 2 ((u - ks) / (kh - ks)))
              + 15 / 100 * max 0 (min 2 (r / rs)))"
  using assms
  by (auto simp: Limits_Validate_def positiveFinite_def finite_f64_iff Calculate_def Let_def clamp_Fin
      f64_sub_def queueWeight_def kvWeight_def runningWeight_def split: if_splits)

lemma Limits_Validate_Fin:
  assumes "Limits_Validate l = None"
  obtains qs ks kh rs where
    "l = \<lparr>Limits_QueueSoft = Fin qs, Limits_KVSoft = Fin ks, Limits_KVHard = Fin kh,
          Limits_RunningSoft = Fin rs\<rparr>"
    and "0 < qs" "0 < rs" "ks < kh"
  using assms
  by (cases l)
     (auto simp: Limits_Validate_def positiveFinite_def finite_f64_iff split: if_splits)

lemma clamp_mono_real: "a \<le> b \<Longrightarrow> max 0 (min 2 a) \<le> max 0 (min 2 (b :: real))"
  by (auto simp: max_def min_def)

lemma Calculate_mono:
  assumes valid: "Limits_Validate l = None" and le: "r \<le> r'" "w \<le> w'" "u \<le> u'"
  shows "f64_le (Calculate \<lparr>Sample_Running = Fin r, Sample_Waiting = Fin w, Sample_KVUsage = Fin u\<rparr> l)
                (Calculate \<lparr>Sample_Running = Fin r', Sample_Waiting = Fin w', Sample_KVUsage = Fin u'\<rparr> l)"
proof -
  obtain qs ks kh rs where l: "l = \<lparr>Limits_QueueSoft = Fin qs, Limits_KVSoft = Fin ks,
      Limits_KVHard = Fin kh, Limits_RunningSoft = Fin rs\<rparr>" "0 < qs" "0 < rs" "ks < kh"
    using valid by (rule Limits_Validate_Fin)
  have "max 0 (min 2 (w / qs)) \<le> max 0 (min 2 (w' / qs))"
    using le l by (intro clamp_mono_real divide_right_mono) auto
  moreover have "max 0 (min 2 ((u - ks) / (kh - ks))) \<le> max 0 (min 2 ((u' - ks) / (kh - ks)))"
    using le l by (intro clamp_mono_real divide_right_mono) auto
  moreover have "max 0 (min 2 (r / rs)) \<le> max 0 (min 2 (r' / rs))"
    using le l by (intro clamp_mono_real divide_right_mono) auto
  ultimately show ?thesis
    using valid unfolding l(1) by (subst (1 2) Calculate_Fin; (simp only: f64_le_Fin)?; linarith?)
qed

section \<open>The moving average stays between its inputs\<close>

definition ewma_in :: "real \<Rightarrow> real \<Rightarrow> EWMA \<Rightarrow> bool" where
  "ewma_in lo hi e \<longleftrightarrow>
     (EWMA_initialized e \<longrightarrow> (\<exists>v. EWMA_value e = Fin v \<and> lo \<le> v \<and> v \<le> hi))"

lemma convex_between:
  fixes lo hi a b v w :: real
  assumes "0 \<le> a" "a \<le> 1" "lo \<le> v" "v \<le> hi" "lo \<le> w" "w \<le> hi"
  shows "lo \<le> v + a * (w - v) \<and> v + a * (w - v) \<le> hi"
proof -
  have eq: "v + a * (w - v) = (1 - a) * v + a * w" by (simp add: algebra_simps)
  have "(1 - a) * lo + a * lo \<le> (1 - a) * v + a * w"
    using assms by (intro add_mono mult_left_mono) auto
  moreover have "(1 - a) * v + a * w \<le> (1 - a) * hi + a * hi"
    using assms by (intro add_mono mult_left_mono) auto
  ultimately show ?thesis unfolding eq by (simp add: algebra_simps)
qed

lemma EWMA_Add_in:
  assumes "ewma_in lo hi e" and "lo \<le> v" and "v \<le> hi"
  shows "ewma_in lo hi (fst (EWMA_Add e now (Fin v)))"
    and "\<exists>x. snd (EWMA_Add e now (Fin v)) = Fin x \<and> lo \<le> x \<and> x \<le> hi"
proof -
  have "ewma_in lo hi (fst (EWMA_Add e now (Fin v))) \<and>
        (\<exists>x. snd (EWMA_Add e now (Fin v)) = Fin x \<and> lo \<le> x \<and> x \<le> hi)"
  proof (cases "EWMA_initialized e \<and> EWMA_lastAt e < now \<and> 0 < EWMA_window e")
    case True
    then obtain w where w: "EWMA_value e = Fin w" "lo \<le> w" "w \<le> hi"
      using assms(1) by (auto simp: ewma_in_def)
    define el where "el = time_Sub now (EWMA_lastAt e)"
    have "0 < el"
      using True by (simp add: el_def time_Sub_def maxDuration_def minDuration_def)
    then have "exp (- real_of_int el / real_of_int (EWMA_window e)) \<le> 1"
      using True by simp
    then have "0 \<le> 1 - exp (- real_of_int el / real_of_int (EWMA_window e))"
      and "1 - exp (- real_of_int el / real_of_int (EWMA_window e)) \<le> 1"
      by (simp_all add: less_imp_le)
    from convex_between [OF this w(2,3) assms(2,3)] show ?thesis
      using True w(1) by (simp add: EWMA_Add_def Let_def ewma_in_def f64_sub_def el_def)
  next
    case False
    then show ?thesis
      using assms by (auto simp: EWMA_Add_def ewma_in_def)
  qed
  then show "ewma_in lo hi (fst (EWMA_Add e now (Fin v)))"
    and "\<exists>x. snd (EWMA_Add e now (Fin v)) = Fin x \<and> lo \<le> x \<and> x \<le> hi"
    by auto
qed

section \<open>Hysteresis of the pool machine\<close>

lemma Observe_thresholds [simp]: "PM_thresholds (fst (Observe m now best aw av)) = PM_thresholds m"
  by (auto simp: Observe_def Let_def resetCandidate_def split: prod.splits)

lemma Observe_snd: "snd (Observe m now best aw av) = PM_current (fst (Observe m now best aw av))"
  by (auto simp: Observe_def Let_def resetCandidate_def split: prod.splits)

lemma observe_all_thresholds [simp]: "PM_thresholds (observe_all m obs) = PM_thresholds m"
  by (induction obs arbitrary: m) (simp_all add: observe_all_def observe_step_def)

lemma observe_all_snoc: "observe_all m (obs @ [ob]) = observe_step (observe_all m obs) ob"
  by (simp add: observe_all_def)

lemma instantaneous_cong: "PM_thresholds m = PM_thresholds m' \<Longrightarrow> instantaneous m = instantaneous m'"
  by (simp add: instantaneous_def fun_eq_iff)

lemma target_cong:
  "PM_thresholds m = PM_thresholds m' \<Longrightarrow> PM_current m = PM_current m' \<Longrightarrow> target m = target m'"
  by (simp add: target_def fun_eq_iff Let_def)

text \<open>
  What one accepted observation does, in terms of the transition it asks for. The first
  case keeps the pool unavailable or takes it back to its instantaneous state; the others
  are a steady state, the start of a candidate, a completed candidate and a candidate
  that has to wait longer.
\<close>

lemma observe_step_cases:
  assumes acc: "\<not> (PM_lastObservedAt m \<noteq> 0 \<and> Obs_at ob < PM_lastObservedAt m)"
    and av: "Obs_available ob" and cur: "PM_current m \<noteq> PoolUnavailable"
  defines "w \<equiv> wanted (PM_thresholds m) (PM_current m) ob"
  shows "observe_step m ob =
     (let m1 = m\<lparr>PM_lastObservedAt := Obs_at ob\<rparr> in
      if fst w = PM_current m then resetCandidate m1
      else if \<not> PM_candidateSet m \<or> PM_candidate m \<noteq> fst w
        then m1\<lparr>PM_candidate := fst w, PM_candidateSince := Obs_at ob, PM_candidateSet := True\<rparr>
      else if time_Sub (Obs_at ob) (PM_candidateSince m) \<ge> snd w
        then resetCandidate (m1\<lparr>PM_current := fst w\<rparr>)
      else m1)"
proof -
  let ?m1 = "m\<lparr>PM_lastObservedAt := Obs_at ob\<rparr>"
  let ?m0 = "(NewPoolMachine (PM_thresholds m))\<lparr>PM_current := PM_current m\<rparr>"
  have i: "instantaneous ?m1 = instantaneous ?m0"
    by (rule instantaneous_cong) (simp add: NewPoolMachine_def)
  have t: "target ?m1 = target ?m0"
    by (rule target_cong) (simp_all add: NewPoolMachine_def)
  have w: "target ?m1 (instantaneous ?m1 (Obs_best ob) (Obs_allWaiting ob)) (Obs_best ob)
             (Obs_allWaiting ob) = w"
    unfolding w_def wanted_def Let_def i t ..
  show ?thesis
    using av cur unfolding observe_step_def Observe_def Let_def if_not_P [OF acc] w
    by (simp split: prod.splits)
qed

lemma observe_step_unavailable:
  "\<not> (PM_lastObservedAt m \<noteq> 0 \<and> Obs_at ob < PM_lastObservedAt m) \<Longrightarrow> \<not> Obs_available ob \<Longrightarrow>
     observe_step m ob =
       resetCandidate (m\<lparr>PM_lastObservedAt := Obs_at ob, PM_current := PoolUnavailable\<rparr>)"
  by (simp add: observe_step_def Observe_def Let_def if_not_P)

lemma observe_step_return:
  "\<not> (PM_lastObservedAt m \<noteq> 0 \<and> Obs_at ob < PM_lastObservedAt m) \<Longrightarrow> Obs_available ob \<Longrightarrow>
   PM_current m = PoolUnavailable \<Longrightarrow>
     \<not> PM_candidateSet (observe_step m ob) \<and> PM_lastObservedAt (observe_step m ob) = Obs_at ob"
  by (auto simp: observe_step_def Observe_def Let_def resetCandidate_def)

lemma observe_step_candidate_Unavailable:
  assumes "PM_current m = PoolUnavailable \<longrightarrow> \<not> PM_candidateSet m"
  shows "PM_current (observe_step m ob) = PoolUnavailable \<longrightarrow> \<not> PM_candidateSet (observe_step m ob)"
  using assms
  by (auto simp: observe_step_def Observe_def Let_def resetCandidate_def split: prod.splits)

text \<open>
  The candidate of a machine is backed by the observations since \<open>PM_candidateSince\<close>: they
  all asked for that same transition.
\<close>

definition candidate_backed :: "PoolMachine \<Rightarrow> Observation list \<Rightarrow> bool" where
  "candidate_backed m obs \<longleftrightarrow>
     (PM_candidateSet m \<longrightarrow>
        (\<exists>xs ys. obs = xs @ ys \<and> ys \<noteq> [] \<and> Obs_at (hd ys) = PM_candidateSince m \<and>
           (\<forall>ob \<in> set ys. Obs_available ob \<and>
              fst (wanted (PM_thresholds m) (PM_current m) ob) = PM_candidate m)))"

definition timely :: "Observation list \<Rightarrow> bool" where
  "timely obs \<longleftrightarrow> sorted (map Obs_at obs) \<and> (\<forall>ob \<in> set obs. 0 < Obs_at ob)"

lemma timely_snoc: "timely (obs @ [ob]) \<longleftrightarrow>
    timely obs \<and> 0 < Obs_at ob \<and> (\<forall>p \<in> set obs. Obs_at p \<le> Obs_at ob)"
  by (auto simp: timely_def sorted_append)

lemma timely_last: "timely (obs @ [ob]) \<Longrightarrow> obs \<noteq> [] \<Longrightarrow> timely obs \<and> Obs_at (last obs) \<le> Obs_at ob"
  by (simp add: timely_snoc)

lemma observe_all_Nil [simp]: "observe_all m [] = m"
  by (simp add: observe_all_def)

lemma observe_all_last:
  "timely obs \<Longrightarrow> obs \<noteq> [] \<Longrightarrow> PM_lastObservedAt (observe_all (NewPoolMachine th) obs) = Obs_at (last obs)"
proof (induction obs rule: rev_induct)
  case (snoc ob obs)
  let ?m = "observe_all (NewPoolMachine th) obs"
  have acc: "\<not> (PM_lastObservedAt ?m \<noteq> 0 \<and> Obs_at ob < PM_lastObservedAt ?m)"
  proof (cases "obs = []")
    case True
    then show ?thesis by (simp add: NewPoolMachine_def)
  next
    case False
    with snoc timely_last [of obs ob] show ?thesis by simp
  qed
  then have "PM_lastObservedAt (observe_step ?m ob) = Obs_at ob"
    by (auto simp: observe_step_def Observe_def Let_def resetCandidate_def split: prod.splits)
  then show ?case by (simp add: observe_all_snoc)
qed simp

lemma observe_all_accepts:
  fixes th :: Thresholds
  assumes "timely (obs @ [ob])"
  defines "m \<equiv> observe_all (NewPoolMachine th) obs"
  shows "\<not> (PM_lastObservedAt m \<noteq> 0 \<and> Obs_at ob < PM_lastObservedAt m)"
proof (cases "obs = []")
  case True
  then show ?thesis by (simp add: m_def NewPoolMachine_def)
next
  case False
  with assms(1) have "timely obs" "Obs_at (last obs) \<le> Obs_at ob"
    using timely_last by auto
  with False show ?thesis
    using observe_all_last [of obs th] by (simp add: m_def)
qed

lemma candidate_backed_step:
  assumes tl: "timely (obs @ [ob])"
    and bk: "candidate_backed (observe_all (NewPoolMachine th) obs) obs"
    and un: "PM_current (observe_all (NewPoolMachine th) obs) = PoolUnavailable \<longrightarrow>
             \<not> PM_candidateSet (observe_all (NewPoolMachine th) obs)"
  shows "candidate_backed (observe_all (NewPoolMachine th) (obs @ [ob])) (obs @ [ob])"
proof -
  define m where "m = observe_all (NewPoolMachine th) obs"
  have acc: "\<not> (PM_lastObservedAt m \<noteq> 0 \<and> Obs_at ob < PM_lastObservedAt m)"
    unfolding m_def using tl by (rule observe_all_accepts)
  have eq: "observe_all (NewPoolMachine th) (obs @ [ob]) = observe_step m ob"
    by (simp add: m_def observe_all_snoc)
  consider (down) "\<not> Obs_available ob" | (ret) "Obs_available ob" "PM_current m = PoolUnavailable"
    | (run) "Obs_available ob" "PM_current m \<noteq> PoolUnavailable" by blast
  then show ?thesis
  proof cases
    case down
    then show ?thesis
      unfolding eq observe_step_unavailable [OF acc down]
      by (simp add: candidate_backed_def resetCandidate_def)
  next
    case ret
    then show ?thesis
      unfolding eq using observe_step_return [OF acc] by (simp add: candidate_backed_def)
  next
    case run
    let ?w = "fst (wanted (PM_thresholds m) (PM_current m) ob)"
    note step = observe_step_cases [OF acc run]
    consider (reset) "\<not> PM_candidateSet (observe_step m ob)"
      | (start) "PM_candidateSet (observe_step m ob)"
          "\<not> PM_candidateSet m \<or> PM_candidate m \<noteq> ?w" "?w \<noteq> PM_current m"
      | (wait) "PM_candidateSet (observe_step m ob)"
          "PM_candidateSet m" "PM_candidate m = ?w" "?w \<noteq> PM_current m"
      unfolding step by (fastforce simp: Let_def resetCandidate_def split: if_split_asm)
    then show ?thesis
    proof cases
      case reset
      then show ?thesis unfolding eq by (simp add: candidate_backed_def)
    next
      case start
      have "observe_step m ob = m\<lparr>PM_lastObservedAt := Obs_at ob, PM_candidate := ?w,
              PM_candidateSince := Obs_at ob, PM_candidateSet := True\<rparr>"
        unfolding step using start by (simp add: Let_def)
      then show ?thesis
        unfolding eq candidate_backed_def
        by (intro impI exI [of _ obs] exI [of _ "[ob]"]) (simp add: run)
    next
      case wait
      have m': "observe_step m ob = m\<lparr>PM_lastObservedAt := Obs_at ob\<rparr>"
        using wait(1) unfolding step using wait(2-)
        by (auto simp: Let_def resetCandidate_def split: if_splits)
      obtain xs ys where ys: "obs = xs @ ys" "ys \<noteq> []" "Obs_at (hd ys) = PM_candidateSince m"
        "\<forall>p \<in> set ys. Obs_available p \<and> fst (wanted (PM_thresholds m) (PM_current m) p) = PM_candidate m"
        using bk wait(2) unfolding m_def candidate_backed_def by blast
      show ?thesis
        unfolding eq m' candidate_backed_def
        by (intro impI exI [of _ xs] exI [of _ "ys @ [ob]"]) (use ys run wait(3) in auto)
    qed
  qed
qed

lemma candidate_backed_run:
  "timely obs \<Longrightarrow> candidate_backed (observe_all (NewPoolMachine th) obs) obs \<and>
     (PM_current (observe_all (NewPoolMachine th) obs) = PoolUnavailable \<longrightarrow>
      \<not> PM_candidateSet (observe_all (NewPoolMachine th) obs))"
proof (induction obs rule: rev_induct)
  case Nil
  show ?case by (simp add: candidate_backed_def observe_all_def NewPoolMachine_def)
next
  case (snoc ob obs)
  then have IH: "candidate_backed (observe_all (NewPoolMachine th) obs) obs"
    "PM_current (observe_all (NewPoolMachine th) obs) = PoolUnavailable \<longrightarrow>
      \<not> PM_candidateSet (observe_all (NewPoolMachine th) obs)"
    by (simp_all add: timely_snoc)
  show ?case
    using candidate_backed_step [OF snoc.prems IH] observe_step_candidate_Unavailable [OF IH(2), of ob]
    by (simp add: observe_all_snoc)
qed

lemma wanted_window:
  "fst (wanted th cur ob) \<noteq> cur \<Longrightarrow>
     snd (wanted th cur ob) =
       (if stateRank cur < stateRank (fst (wanted th cur ob)) then Th_EnterWindow th
        else Th_RecoveryWindow th) \<and>
     stateRank cur - 1 \<le> stateRank (fst (wanted th cur ob))"
  by (auto simp: wanted_def target_def NewPoolMachine_def Let_def split: PoolState.splits if_splits)

section \<open>Properties\<close>

text \<open>
  With limits accepted by \<open>Limits_Validate\<close>, the pressure of any sample, including one
  with NaN or infinite readings, is a finite number between 0 and 2, and on finite samples
  it never decreases when running requests, waiting requests or KV-cache usage grow.
\<close>

theorem Calculate_bounded_monotone:
  assumes "Limits_Validate l = None"
  shows "(\<exists>x. Calculate sample l = Fin x \<and> 0 \<le> x \<and> x \<le> 2) \<and>
    (r \<le> r' \<longrightarrow> w \<le> w' \<longrightarrow> u \<le> u' \<longrightarrow>
     f64_le (Calculate \<lparr>Sample_Running = Fin r, Sample_Waiting = Fin w, Sample_KVUsage = Fin u\<rparr> l)
            (Calculate \<lparr>Sample_Running = Fin r', Sample_Waiting = Fin w', Sample_KVUsage = Fin u'\<rparr> l))"
  using assms Calculate_range Calculate_mono by blast

theorem Calculate_bounded_monotone_witness:
  "let l = \<lparr>Limits_QueueSoft = Fin 2, Limits_KVSoft = Fin (8 / 10), Limits_KVHard = Fin (95 / 100),
            Limits_RunningSoft = Fin 8\<rparr> in
   Limits_Validate l = None \<and>
   f64_le (Calculate \<lparr>Sample_Running = Fin 1, Sample_Waiting = Fin 0, Sample_KVUsage = Fin 0\<rparr> l)
          (Calculate \<lparr>Sample_Running = Fin 4, Sample_Waiting = Fin 3, Sample_KVUsage = Fin (9 / 10)\<rparr> l)"
proof -
  let ?l = "\<lparr>Limits_QueueSoft = Fin 2, Limits_KVSoft = Fin (8 / 10), Limits_KVHard = Fin (95 / 100),
            Limits_RunningSoft = Fin 8\<rparr>"
  have v: "Limits_Validate ?l = None"
    by (simp add: Limits_Validate_def positiveFinite_def finite_f64_def f64_IsNaN_def f64_IsInf_def)
  show ?thesis
    using v Calculate_bounded_monotone [OF v, of undefined 1 4 0 3 0 "9 / 10"] by (simp add: Let_def)
qed

text \<open>
  A moving average fed only with values between \<open>lo\<close> and \<open>hi\<close>, at any times, always
  reports a finite value between \<open>lo\<close> and \<open>hi\<close>: smoothing never overshoots.
\<close>

theorem EWMA_stays_between:
  assumes "\<forall>(now, v) \<in> set samples. lo \<le> v \<and> v \<le> hi" and "samples \<noteq> []"
  shows "\<exists>x. EWMA_Value (foldl (\<lambda>e (now, v). fst (EWMA_Add e now (Fin v))) (NewEWMA window) samples) =
               (Fin x, True) \<and> lo \<le> x \<and> x \<le> hi"
proof -
  let ?f = "\<lambda>e (now, v). fst (EWMA_Add e now (Fin v))"
  have "ewma_in lo hi (foldl ?f e samples)" if "ewma_in lo hi e" for e
    using that assms(1) by (induction samples arbitrary: e) (auto simp: EWMA_Add_in)
  then have "ewma_in lo hi (foldl ?f (NewEWMA window) samples)"
    by (simp add: ewma_in_def NewEWMA_def)
  moreover have "EWMA_initialized (foldl ?f e samples)" if "EWMA_initialized e \<or> samples \<noteq> []" for e
    using that
    by (induction samples arbitrary: e) (auto simp: EWMA_Add_def Let_def split: prod.splits)
  ultimately show ?thesis
    using assms(2) by (auto simp: ewma_in_def EWMA_Value_def)
qed

theorem EWMA_stays_between_witness:
  "\<exists>x. EWMA_Value (foldl (\<lambda>e (now, v). fst (EWMA_Add e now (Fin v))) (NewEWMA (4 * second))
         [(1, 0), (second, 2), (3 * second, 1 :: real)]) = (Fin x, True) \<and> 0 \<le> x \<and> x \<le> 2"
  by (rule EWMA_stays_between) auto



end
