(* ===== verification/Coordination_Types.thy ===== *)
theory Coordination_Types
  imports Domain
begin

text \<open>
  Types shared by the coordinators (\<^verbatim>\<open>internal/coordination/types.go\<close>), the retry
  estimate of an exhausted rate bucket (\<^verbatim>\<open>rate.go\<close>) and the classification of
  caller cancellation (\<^verbatim>\<open>errors.go\<close>). UUIDs are integers with \<open>0\<close> for
  \<^verbatim>\<open>uuid.Nil\<close>; a pointer to a value is an option.
\<close>

type_synonym uuid = int

datatype Reason =
    NoReason
  | ReasonConcurrencyExhausted
  | ReasonPoolPriorityReserve
  | ReasonRPMExhausted
  | ReasonTPMExhausted
  | ReasonStaleConfiguration
  | ReasonStaleBackend
  | ReasonCircuitOpen
  | ReasonProbeCapacityExhausted
  | ReasonCoordinationUnavailable
  | ReasonLeaseLost
  | ReasonStaleOperation
  | ReasonIdempotencyConflict

text \<open>
  Errors: the two context errors, the coordination errors and any other error. Only
  \<^verbatim>\<open>PermanentError\<close> wraps another error.
\<close>

datatype go_error =
    ErrCanceled
  | ErrDeadlineExceeded
  | PermanentError go_error
  | ReasonError Reason
  | OtherError string

fun errors_Is :: "go_error \<Rightarrow> go_error \<Rightarrow> bool" where
  "errors_Is (PermanentError e) target \<longleftrightarrow> PermanentError e = target \<or> errors_Is e target"
| "errors_Is e target \<longleftrightarrow> e = target"

fun errors_AsPermanent :: "go_error \<Rightarrow> bool" where
  "errors_AsPermanent (PermanentError e) = True"
| "errors_AsPermanent _ = False"

definition IsCallerCancellation :: "go_error option \<Rightarrow> go_error \<Rightarrow> bool" where
  "IsCallerCancellation ctxErr err =
     (if ctxErr = None \<or> errors_AsPermanent err then False
      else errors_Is err ErrCanceled \<or> errors_Is err ErrDeadlineExceeded)"

record Status =
  St_Backend :: string
  St_Available :: bool
  St_Degraded :: bool
  St_Permanent :: bool
  St_LastSuccess :: instant
  St_Reason :: Reason

record AdmissionRequest =
  AR_LeaseID :: uuid
  AR_OperationStartedAt :: instant
  AR_RequestID :: string
  AR_ReplicaID :: uuid
  AR_ConfigurationRevision :: int
  AR_APIKeyID :: int
  AR_ClientID :: int
  AR_PoolID :: int
  AR_ClientPolicyRevision :: int
  AR_EffectiveClientLimit :: int
  AR_ConfiguredClientLimit :: int
  AR_PoolGatewayInflightLimit :: int
  AR_PoolHighPriorityReserve :: int
  AR_PriorityClass :: PriorityClass
  AR_RequestsPerMinute :: int
  AR_TokensPerMinute :: int
  AR_LeaseTTL :: duration

record LeaseIdentity =
  LI_LeaseID :: uuid
  LI_ClientID :: int
  LI_PoolID :: int
  LI_RequestID :: string
  LI_ReplicaID :: uuid
  LI_ExpiresAt :: instant
  LI_TTL :: duration

datatype AdmissionScope = NoScope | AdmissionClientScope | AdmissionPoolScope

record AdmissionDecision =
  AD_Lease :: "LeaseIdentity option"
  AD_Reason :: Reason
  AD_RetryAt :: "instant option"
  AD_ConcurrencyScope :: AdmissionScope

definition Admitted :: "AdmissionDecision \<Rightarrow> bool" where
  "Admitted d \<longleftrightarrow> AD_Lease d \<noteq> None \<and> AD_Reason d = NoReason"

record RenewResult =
  RR_Lease :: LeaseIdentity
  RR_Reason :: Reason

record TokenUsage =
  TU_InputTokens :: int
  TU_OutputTokens :: int
  TU_CacheReadTokens :: int

definition TokenUsage_Valid :: "TokenUsage \<Rightarrow> bool" where
  "TokenUsage_Valid u \<longleftrightarrow> TU_InputTokens u \<ge> 0 \<and> TU_OutputTokens u \<ge> 0 \<and>
     TU_CacheReadTokens u \<ge> 0 \<and> TU_CacheReadTokens u \<le> TU_InputTokens u"

record LeaseCompletion =
  LC_Lease :: LeaseIdentity
  LC_Usage :: "TokenUsage option"

datatype CompletionResult =
  NoCompletion | CompletionReleased | CompletionLeaseLost | CompletionAlreadyCompleted

record CompleteResult =
  CR_LeaseID :: uuid
  CR_Result :: CompletionResult
  CR_OriginalResult :: CompletionResult
  CR_Reason :: Reason

record ClientRatePolicy =
  CP_ClientID :: int
  CP_Revision :: int
  CP_RequestsPerMinute :: int
  CP_TokensPerMinute :: int

record BackendIdentity =
  BI_ID :: int
  BI_Revision :: int
  BI_Enabled :: bool
  BI_Draining :: bool

record CircuitSnapshot =
  CS_Backend :: BackendIdentity
  CS_State :: CircuitState
  CS_Generation :: int
  CS_FailureCount :: int
  CS_RetryAt :: instant
  CS_ProbesInFlight :: int
  CS_Available :: bool

record CircuitAcquireRequest =
  CA_AttemptID :: uuid
  CA_AcquisitionStartedAt :: instant
  CA_ReplicaID :: uuid
  CA_Backend :: BackendIdentity
  CA_ProbeTTL :: duration

record ProbeIdentity =
  PI_PermitID :: uuid
  PI_Backend :: BackendIdentity
  PI_Generation :: int
  PI_ReplicaID :: uuid
  PI_ExpiresAt :: instant
  PI_TTL :: duration

record CircuitDecision =
  CD_Snapshot :: CircuitSnapshot
  CD_Permit :: "ProbeIdentity option"
  CD_Reason :: Reason

record CircuitCompletion =
  CC_AttemptID :: uuid
  CC_Backend :: BackendIdentity
  CC_Generation :: int
  CC_Outcome :: InferenceOutcome
  CC_ReportedOutcomeAt :: instant

text \<open>Conversion of a float64 to an integer duration truncates toward zero.\<close>

definition trunc_real :: "real \<Rightarrow> int" where
  "trunc_real x = (if x \<ge> 0 then \<lfloor>x\<rfloor> else \<lceil>x\<rceil>)"

definition RateRetryAt :: "real \<Rightarrow> int \<Rightarrow> instant \<Rightarrow> instant" where
  "RateRetryAt balance capacity now =
     (let delay = (1 - balance) / of_int capacity * of_int minute in
      if delay \<ge> 9223372036854775808 then now + maxDuration
      else now + trunc_real delay)"

end
