(* ===== verification/Expiry_Queue.thy ===== *)
theory Expiry_Queue
  imports Go_Prelude "HOL-Library.Multiset"
begin

text \<open>
  The expiry queue of the in-process coordinators
  (\<^verbatim>\<open>internal/coordination/local/expiry_queue.go\<close>): a binary heap kept in a slice through
  \<^verbatim>\<open>container/heap\<close>. The sift loops are those of the standard library. The locale
  \<open>expiry_queue\<close> is what the coordinators rely on: the queue holds a multiset of entries
  and \<open>due\<close> hands out the oldest one that is not in the future. Draining the due entries,
  the loop at the start of every coordinator operation, is analysed once against it.
\<close>

section \<open>Entries and the heap operations\<close>

datatype expiryKind =
  admissionLeaseExpiry | admissionReceiptExpiry | circuitPermitExpiry | circuitAttemptExpiry

record expiryEntry =
  ee_at :: instant
  ee_id :: int
  ee_kind :: expiryKind

type_synonym expiryQueue = "expiryEntry list"

definition Less :: "expiryQueue \<Rightarrow> nat \<Rightarrow> nat \<Rightarrow> bool" where
  "Less q i j \<longleftrightarrow> ee_at (q ! i) < ee_at (q ! j)"

definition Swap :: "expiryQueue \<Rightarrow> nat \<Rightarrow> nat \<Rightarrow> expiryQueue" where
  "Swap q i j = q[i := q ! j, j := q ! i]"

function heap_up :: "expiryQueue \<Rightarrow> nat \<Rightarrow> expiryQueue" where
  "heap_up q j =
     (let i = (j - 1) div 2 in
      if i = j \<or> \<not> Less q j i then q else heap_up (Swap q i j) i)"
  by pat_completeness auto
termination by (relation "measure snd") auto

function heap_down :: "expiryQueue \<Rightarrow> nat \<Rightarrow> nat \<Rightarrow> expiryQueue" where
  "heap_down q i n =
     (let j1 = 2 * i + 1 in
      if j1 \<ge> n then q
      else
        let j = (if j1 + 1 < n \<and> Less q (j1 + 1) j1 then j1 + 1 else j1) in
        if \<not> Less q j i then q else heap_down (Swap q i j) j n)"
  by pat_completeness auto
termination by (relation "measure (\<lambda>(q, i, n). n - i)") (auto simp: Let_def)

declare heap_up.simps [simp del] heap_down.simps [simp del]

definition heap_push :: "expiryQueue \<Rightarrow> expiryEntry \<Rightarrow> expiryQueue" where
  "heap_push q e = (let q' = q @ [e] in heap_up q' (length q' - 1))"

definition heap_pop :: "expiryQueue \<Rightarrow> expiryEntry \<times> expiryQueue" where
  "heap_pop q =
     (let n = length q - 1; q' = heap_down (Swap q 0 n) 0 n in (q' ! n, take n q'))"

definition eq_add :: "expiryQueue \<Rightarrow> expiryKind \<Rightarrow> int \<Rightarrow> instant \<Rightarrow> expiryQueue" where
  "eq_add q kind ident when = heap_push q \<lparr>ee_at = when, ee_id = ident, ee_kind = kind\<rparr>"

definition eq_due :: "expiryQueue \<Rightarrow> instant \<Rightarrow> (expiryEntry \<times> expiryQueue) option" where
  "eq_due q now =
     (if length q = 0 \<or> ee_at (q ! 0) > now then None else Some (heap_pop q))"

definition eq_popOldest :: "expiryQueue \<Rightarrow> (expiryEntry \<times> expiryQueue) option" where
  "eq_popOldest q = (if length q = 0 then None else Some (heap_pop q))"

section \<open>Heap order\<close>

abbreviation parent :: "nat \<Rightarrow> nat" where
  "parent i \<equiv> (i - 1) div 2"

definition ordered_at :: "expiryQueue \<Rightarrow> nat \<Rightarrow> bool" where
  "ordered_at q i \<longleftrightarrow> ee_at (q ! parent i) \<le> ee_at (q ! i)"

definition heap_upto :: "nat \<Rightarrow> expiryQueue \<Rightarrow> bool" where
  "heap_upto n q \<longleftrightarrow> (\<forall>i. 0 < i \<and> i < n \<longrightarrow> ordered_at q i)"

abbreviation is_heap :: "expiryQueue \<Rightarrow> bool" where
  "is_heap q \<equiv> heap_upto (length q) q"

text \<open>Ordered except between \<open>j\<close> and its parent, and \<open>j\<close>'s children above that parent.\<close>

definition sifting_up :: "expiryQueue \<Rightarrow> nat \<Rightarrow> bool" where
  "sifting_up q j \<longleftrightarrow> j < length q \<and>
     (\<forall>i. 0 < i \<and> i < length q \<and> i \<noteq> j \<longrightarrow> ordered_at q i) \<and>
     (\<forall>i. 0 < i \<and> i < length q \<and> parent i = j \<and> 0 < j \<longrightarrow> ee_at (q ! parent j) \<le> ee_at (q ! i))"

text \<open>Ordered except between \<open>i\<close> and its children, which are above \<open>i\<close>'s parent.\<close>

definition sifting_down :: "expiryQueue \<Rightarrow> nat \<Rightarrow> nat \<Rightarrow> bool" where
  "sifting_down q i n \<longleftrightarrow> n \<le> length q \<and>
     (\<forall>k. 0 < k \<and> k < n \<and> parent k \<noteq> i \<longrightarrow> ordered_at q k) \<and>
     (\<forall>k. 0 < k \<and> k < n \<and> parent k = i \<and> 0 < i \<longrightarrow> ee_at (q ! parent i) \<le> ee_at (q ! k))"

lemma length_Swap [simp]: "length (Swap q i j) = length q"
  by (simp add: Swap_def)

lemma nth_Swap:
  "i < length q \<Longrightarrow> j < length q \<Longrightarrow>
     Swap q i j ! k = (if k = i then q ! j else if k = j then q ! i else q ! k)"
  by (cases "k < length q") (auto simp: Swap_def nth_list_update)

lemma mset_Swap [simp]: "i < length q \<Longrightarrow> j < length q \<Longrightarrow> mset (Swap q i j) = mset q"
  by (cases "i = j") (auto simp: Swap_def mset_swap)

lemma parent_less: "0 < i \<Longrightarrow> parent i < i"
  by auto

lemma parent_iff: "0 < k \<Longrightarrow> parent k = i \<longleftrightarrow> k = 2 * i + 1 \<or> k = 2 * i + 2"
  by auto

lemma sifting_up_step:
  assumes "sifting_up q j" and "0 < j" and "Less q j (parent j)"
  shows "sifting_up (Swap q (parent j) j) (parent j)"
proof -
  let ?p = "parent j"
  have lens: "j < length q" "?p < length q" and pj: "?p < j"
    using assms(1,2) by (auto simp: sifting_up_def)
  have ord: "ordered_at q i" if "0 < i" "i < length q" "i \<noteq> j" for i
    using assms(1) that by (simp add: sifting_up_def)
  have child: "ee_at (q ! ?p) \<le> ee_at (q ! i)" if "0 < i" "i < length q" "parent i = j" for i
    using assms(1,2) that by (simp add: sifting_up_def)
  have less: "ee_at (q ! j) < ee_at (q ! ?p)" using assms(3) by (simp add: Less_def)
  have "ordered_at (Swap q ?p j) i" if i: "0 < i" "i < length q" "i \<noteq> ?p" for i
    using ord [of i] child [of i] less i pj lens parent_less [of i]
    by (auto simp: ordered_at_def nth_Swap)
  moreover have "ee_at (Swap q ?p j ! parent ?p) \<le> ee_at (Swap q ?p j ! i)"
    if i: "0 < i" "i < length q" "parent i = ?p" "0 < ?p" for i
  proof -
    have "ordered_at q ?p" using ord [of ?p] lens pj i(4) by simp
    moreover have "i \<noteq> j \<Longrightarrow> ordered_at q i" using ord i by simp
    ultimately show ?thesis
      using i pj lens parent_less [of ?p] by (auto simp: ordered_at_def nth_Swap)
  qed
  ultimately show ?thesis using lens by (simp add: sifting_up_def)
qed

lemma heap_up_mset: "j < length q \<Longrightarrow> mset (heap_up q j) = mset q"
proof (induction q j rule: heap_up.induct)
  case (1 q j)
  have "parent j < length q" using 1(2) by (cases j) auto
  with 1 show ?case by (subst heap_up.simps) (auto simp: Let_def)
qed

lemma heap_up_heap: "sifting_up q j \<Longrightarrow> is_heap (heap_up q j)"
proof (induction q j rule: heap_up.induct)
  case (1 q j)
  have len: "length (heap_up q j) = length q"
    using heap_up_mset [of j q] 1(2) by (metis sifting_up_def size_mset)
  show ?case
  proof (cases "parent j = j \<or> \<not> Less q j (parent j)")
    case True
    then have "j = 0 \<or> ordered_at q j" by (auto simp: Less_def ordered_at_def)
    with 1(2) have "is_heap q" by (auto simp: sifting_up_def heap_upto_def)
    with True show ?thesis by (subst (1 2) heap_up.simps) (simp add: Let_def)
  next
    case False
    then have "sifting_up (Swap q (parent j) j) (parent j)"
      using sifting_up_step [OF 1(2)] by (cases j) auto
    with 1(1) [OF refl False] have "is_heap (heap_up (Swap q (parent j) j) (parent j))" .
    with False show ?thesis by (subst (1 2) heap_up.simps) (simp add: Let_def)
  qed
qed

lemma heap_down_frame:
  "i < n \<Longrightarrow> n \<le> length q \<Longrightarrow>
     mset (heap_down q i n) = mset q \<and> (\<forall>k \<ge> n. heap_down q i n ! k = q ! k)"
proof (induction q i n rule: heap_down.induct)
  case (1 q i n)
  let ?j1 = "2 * i + 1"
  let ?j = "if ?j1 + 1 < n \<and> Less q (?j1 + 1) ?j1 then ?j1 + 1 else ?j1"
  show ?case
  proof (cases "n \<le> ?j1 \<or> \<not> Less q ?j i")
    case True
    then show ?thesis by (subst (1 2) heap_down.simps) (auto simp: Let_def)
  next
    case False
    then have j: "?j < n" by auto
    have "heap_down q i n = heap_down (Swap q i ?j) ?j n"
      using False by (subst heap_down.simps) (auto simp: Let_def)
    moreover have "mset (heap_down (Swap q i ?j) ?j n) = mset (Swap q i ?j) \<and>
      (\<forall>k \<ge> n. heap_down (Swap q i ?j) ?j n ! k = Swap q i ?j ! k)"
      using False j "1.prems" by (intro "1.IH" [OF refl _ refl]) auto
    ultimately show ?thesis using j "1.prems" by (simp add: nth_Swap del: split_paired_All)
  qed
qed

lemma sifting_down_step:
  assumes inv: "sifting_down q i n" and j: "0 < j" "j < n" "parent j = i"
    and least: "\<And>k. 0 < k \<Longrightarrow> k < n \<Longrightarrow> parent k = i \<Longrightarrow> ee_at (q ! j) \<le> ee_at (q ! k)"
    and less: "Less q j i"
  shows "sifting_down (Swap q i j) j n"
proof -
  have lens: "j < length q" "i < length q" and ij: "i < j"
    using inv j by (auto simp: sifting_down_def)
  have ord: "ordered_at q k" if "0 < k" "k < n" "parent k \<noteq> i" for k
    using inv that by (simp add: sifting_down_def)
  have "ordered_at (Swap q i j) k" if k: "0 < k" "k < n" "parent k \<noteq> j" for k
  proof (cases "k = i")
    case True
    then have "ee_at (q ! parent i) \<le> ee_at (q ! j)"
      using inv j k by (simp add: sifting_down_def)
    with True k lens parent_less [of i] ij show ?thesis by (auto simp: ordered_at_def nth_Swap)
  next
    case False
    with k ord [of k] least [of k] less lens parent_less [of k] j show ?thesis
      by (auto simp: ordered_at_def nth_Swap Less_def)
  qed
  moreover have "ee_at (Swap q i j ! parent j) \<le> ee_at (Swap q i j ! k)"
    if k: "0 < k" "k < n" "parent k = j" for k
    using ord [of k] k lens ij j parent_less [of k] by (auto simp: ordered_at_def nth_Swap)
  moreover have "n \<le> length q" using inv by (simp add: sifting_down_def)
  ultimately show ?thesis by (simp add: sifting_down_def)
qed

lemma heap_down_heap: "sifting_down q i n \<Longrightarrow> heap_upto n (heap_down q i n)"
proof (induction q i n rule: heap_down.induct)
  case (1 q i n)
  let ?j1 = "2 * i + 1"
  let ?j = "if ?j1 + 1 < n \<and> Less q (?j1 + 1) ?j1 then ?j1 + 1 else ?j1"
  have least: "ee_at (q ! ?j) \<le> ee_at (q ! k)" if "0 < k" "k < n" "parent k = i" for k
  proof -
    from that have "k = ?j1 \<or> k = ?j1 + 1" by (auto simp: parent_iff)
    with that(2) show ?thesis by (auto simp: Less_def)
  qed
  show ?case
  proof (cases "n \<le> ?j1 \<or> \<not> Less q ?j i")
    case True
    have "ordered_at q k" if "0 < k" "k < n" "parent k = i" for k
      using least [OF that] that True by (auto simp: ordered_at_def Less_def parent_iff)
    with "1.prems" have "heap_upto n q" by (auto simp: sifting_down_def heap_upto_def)
    with True show ?thesis by (subst heap_down.simps) (auto simp: Let_def)
  next
    case False
    then have j: "0 < ?j" "?j < n" "parent ?j = i" by auto
    have "heap_upto n (heap_down (Swap q i ?j) ?j n)"
      using False j by (intro "1.IH" [OF refl _ refl] sifting_down_step [OF "1.prems" j least]) auto
    with False show ?thesis by (subst heap_down.simps) (auto simp: Let_def)
  qed
qed

lemma heap_root: "is_heap q \<Longrightarrow> i < length q \<Longrightarrow> ee_at (q ! 0) \<le> ee_at (q ! i)"
proof (induction i rule: less_induct)
  case (less i)
  show ?case
  proof (cases "i = 0")
    case False
    with less have "ee_at (q ! 0) \<le> ee_at (q ! parent i)" by (intro less.IH) auto
    also have "\<dots> \<le> ee_at (q ! i)" using less.prems False by (auto simp: heap_upto_def ordered_at_def)
    finally show ?thesis .
  qed simp
qed

lemma heap_push_heap: "is_heap q \<Longrightarrow> is_heap (heap_push q e)"
proof -
  assume heap: "is_heap q"
  have "ordered_at (q @ [e]) i" if "0 < i" "i < length q" for i
    using heap that parent_less [OF that(1)] by (auto simp: heap_upto_def ordered_at_def nth_append)
  moreover have "parent i \<noteq> length q" if "0 < i" "i < length (q @ [e])" for i
    using that parent_less [OF that(1)] by simp
  ultimately have "sifting_up (q @ [e]) (length q)"
    by (auto simp: sifting_up_def less_Suc_eq)
  then show ?thesis by (simp add: heap_push_def Let_def heap_up_heap)
qed

lemma heap_push_mset: "mset (heap_push q e) = add_mset e (mset q)"
  by (simp add: heap_push_def heap_up_mset)

lemma heap_pop_spec:
  assumes "is_heap q" and "q \<noteq> []"
  shows "is_heap (snd (heap_pop q)) \<and> mset q = add_mset (fst (heap_pop q)) (mset (snd (heap_pop q))) \<and>
    fst (heap_pop q) = q ! 0"
proof -
  let ?n = "length q - 1"
  let ?s = "Swap q 0 ?n"
  let ?d = "heap_down ?s 0 ?n"
  have n: "?n < length q" "0 < length q" using assms(2) by (cases q; simp)+
  have down: "sifting_down ?s 0 ?n"
    using assms n by (auto simp: sifting_down_def heap_upto_def ordered_at_def nth_Swap)
  have frame: "mset ?d = mset q \<and> ?d ! ?n = q ! 0"
  proof (cases "?n = 0")
    case True
    then show ?thesis using n by (subst (1 2) heap_down.simps) (simp add: nth_Swap)
  next
    case False
    then show ?thesis using n heap_down_frame [of 0 ?n ?s] by (auto simp: nth_Swap)
  qed
  then have len: "length ?d = Suc ?n" using n by (metis Suc_pred' One_nat_def size_mset)
  have heap: "heap_upto ?n (take ?n ?d)"
    using heap_down_heap [OF down] by (auto simp: heap_upto_def ordered_at_def)
  have "?d = take ?n ?d @ [?d ! ?n]" using len by (metis append_take_drop_id drop_all le_refl
        Cons_nth_drop_Suc lessI)
  then have "mset ?d = add_mset (?d ! ?n) (mset (take ?n ?d))"
    by (metis add_mset_add_single mset.simps mset_append)
  with frame heap len show ?thesis by (simp add: heap_pop_def Let_def)
qed

section \<open>The contract of an expiry queue\<close>

text \<open>
  \<open>entries\<close> is the multiset of pending entries. \<open>drain f now q s\<close> is the loop
  \<^verbatim>\<open>for { e, ok := q.due(now); if !ok { break }; ... }\<close> whose body \<open>f\<close> updates \<open>s\<close>.
\<close>

locale expiry_queue =
  fixes entries :: "'q \<Rightarrow> expiryEntry multiset"
    and invar :: "'q \<Rightarrow> bool"
    and push :: "'q \<Rightarrow> expiryEntry \<Rightarrow> 'q"
    and due :: "'q \<Rightarrow> instant \<Rightarrow> (expiryEntry \<times> 'q) option"
    and oldest :: "'q \<Rightarrow> (expiryEntry \<times> 'q) option"
    and drain :: "(expiryEntry \<Rightarrow> 's \<Rightarrow> 's) \<Rightarrow> instant \<Rightarrow> 'q \<Rightarrow> 's \<Rightarrow> 'q \<times> 's"
  assumes push_invar: "invar q \<Longrightarrow> invar (push q e)"
    and push_entries: "invar q \<Longrightarrow> entries (push q e) = add_mset e (entries q)"
    and due_None: "invar q \<Longrightarrow> due q now = None \<Longrightarrow> e \<in># entries q \<Longrightarrow> now < ee_at e"
    and due_Some: "invar q \<Longrightarrow> due q now = Some (e, q') \<Longrightarrow>
      invar q' \<and> entries q = add_mset e (entries q') \<and> ee_at e \<le> now \<and>
      (\<forall>e' \<in># entries q'. ee_at e \<le> ee_at e')"
    and oldest_None: "invar q \<Longrightarrow> oldest q = None \<longleftrightarrow> entries q = {#}"
    and oldest_Some: "invar q \<Longrightarrow> oldest q = Some (e, q') \<Longrightarrow>
      invar q' \<and> entries q = add_mset e (entries q') \<and> (\<forall>e' \<in># entries q'. ee_at e \<le> ee_at e')"
    and drain_unfold: "drain f now q s =
      (case due q now of None \<Rightarrow> (q, s) | Some (e, q') \<Rightarrow> drain f now q' (f e s))"
begin

lemma drain_folds:
  "invar q \<Longrightarrow>
    \<exists>es. snd (drain f now q s) = fold f es s \<and> invar (fst (drain f now q s)) \<and>
      entries q = mset es + entries (fst (drain f now q s)) \<and>
      (\<forall>e \<in> set es. ee_at e \<le> now) \<and> (\<forall>e \<in># entries (fst (drain f now q s)). now < ee_at e)"
proof (induction "size (entries q)" arbitrary: q s)
  case 0
  then have "due q now = None"
    using due_Some by (cases "due q now") fastforce+
  with 0 show ?case
    by (intro exI [of _ "[]"]) (simp add: drain_unfold [of f now q])
next
  case (Suc n)
  show ?case
  proof (cases "due q now")
    case None
    with Suc.prems show ?thesis
      by (intro exI [of _ "[]"]) (use due_None in \<open>simp add: drain_unfold [of f now q]\<close>)
  next
    case (Some p)
    obtain e q' where p: "p = (e, q')" by (cases p)
    note pop = due_Some [OF Suc.prems Some [unfolded p]]
    have "n = size (entries q')" using Suc.hyps(2) pop by simp
    from Suc.hyps(1) [OF this, of "f e s"] pop obtain es where
      "snd (drain f now q' (f e s)) = fold f es (f e s)" "invar (fst (drain f now q' (f e s)))"
      "entries q' = mset es + entries (fst (drain f now q' (f e s)))"
      "\<forall>e \<in> set es. ee_at e \<le> now"
      "\<forall>e \<in># entries (fst (drain f now q' (f e s))). now < ee_at e" by blast
    with Some p pop show ?thesis
      by (intro exI [of _ "e # es"]) (simp add: drain_unfold [of f now q])
  qed
qed

text \<open>
  What a drain establishes: the queue is well-formed, holds exactly the entries in the
  future, and every property the body keeps for due entries holds at the end.
\<close>

lemma drain_entries:
  assumes "invar q"
  shows "invar (fst (drain f now q s))"
    and "entries (fst (drain f now q s)) = {# e \<in># entries q. now < ee_at e #}"
proof -
  obtain es where "invar (fst (drain f now q s))"
    and m: "entries q = mset es + entries (fst (drain f now q s))"
    and es: "\<forall>e \<in> set es. ee_at e \<le> now"
    and rest: "\<forall>e \<in># entries (fst (drain f now q s)). now < ee_at e"
    using drain_folds [OF assms, of f now s] by blast
  show "invar (fst (drain f now q s))" by fact
  have "{# e \<in># mset es. now < ee_at e #} = {#}" using es by (force simp: filter_mset_eq_conv)
  moreover have "{# e \<in># entries (fst (drain f now q s)). now < ee_at e #} =
      entries (fst (drain f now q s))"
    using rest by (simp add: filter_mset_eq_conv)
  ultimately show "entries (fst (drain f now q s)) = {# e \<in># entries q. now < ee_at e #}"
    by (subst m) simp
qed

lemma drain_invariant:
  assumes q: "invar q" and init: "I s"
    and keep: "\<And>e s. e \<in># entries q \<Longrightarrow> ee_at e \<le> now \<Longrightarrow> I s \<Longrightarrow> I (f e s)"
  shows "I (snd (drain f now q s))"
proof -
  obtain es where s: "snd (drain f now q s) = fold f es s"
    and "set_mset (mset es) \<subseteq> set_mset (entries q)" and "\<forall>e \<in> set es. ee_at e \<le> now"
    using drain_folds [OF q, of f now s] by (metis set_mset_union Un_upper1)
  then have "\<forall>e \<in> set es. e \<in># entries q \<and> ee_at e \<le> now" by auto
  then have "I s \<Longrightarrow> I (fold f es s)" for s
    by (induction es arbitrary: s) (auto intro: keep)
  with s init show ?thesis by simp
qed

lemma drain_reaches:
  assumes q: "invar q" and e: "e \<in># entries q" "ee_at e \<le> now"
    and did: "\<And>s. R (f e s)"
    and keep: "\<And>e' s. e' \<in># entries q \<Longrightarrow> ee_at e' \<le> now \<Longrightarrow> R s \<Longrightarrow> R (f e' s)"
  shows "R (snd (drain f now q s))"
proof -
  obtain es where s: "snd (drain f now q s) = fold f es s"
    and m: "entries q = mset es + entries (fst (drain f now q s))"
    and es: "\<forall>e \<in> set es. ee_at e \<le> now"
    and rest: "\<forall>e \<in># entries (fst (drain f now q s)). now < ee_at e"
    using drain_folds [OF q, of f now s] by blast
  have "e \<in> set es" using e m rest by (metis not_le set_mset_mset union_iff)
  then obtain us vs where split: "es = us @ e # vs" by (auto simp: in_set_conv_decomp)
  have mem: "\<forall>e \<in> set vs. e \<in># entries q \<and> ee_at e \<le> now"
    using es split m by (metis Un_iff set_append set_mset_mset union_iff list.set_intros(2))
  then have "R s \<Longrightarrow> R (fold f vs s)" for s
    by (induction vs arbitrary: s) (auto intro: keep)
  with s split did show ?thesis by simp
qed

end

section \<open>The heap implements the contract\<close>

function eq_drain ::
  "(expiryEntry \<Rightarrow> 's \<Rightarrow> 's) \<Rightarrow> instant \<Rightarrow> expiryQueue \<Rightarrow> 's \<Rightarrow> expiryQueue \<times> 's" where
  "eq_drain f now q s =
     (case eq_due q now of None \<Rightarrow> (q, s) | Some (e, q') \<Rightarrow> eq_drain f now q' (f e s))"
  by pat_completeness auto

lemma heap_pop_length: "q \<noteq> [] \<Longrightarrow> length (snd (heap_pop q)) < length q"
  by (cases q) (simp_all add: heap_pop_def Let_def)

termination eq_drain
  by (relation "measure (\<lambda>(f, now, q, s). length q)")
     (auto simp: eq_due_def heap_pop_length split: if_splits, metis heap_pop_length snd_conv)

declare eq_drain.simps [simp del]

lemma heap_root_mset: "is_heap q \<Longrightarrow> e \<in># mset q \<Longrightarrow> ee_at (q ! 0) \<le> ee_at e"
  by (auto simp: in_set_conv_nth heap_root)

interpretation eq: expiry_queue mset is_heap heap_push eq_due eq_popOldest eq_drain
proof (unfold_locales, goal_cases)
  case (4 q now e q')
  then have "q \<noteq> []" "(e, q') = heap_pop q" "ee_at (q ! 0) \<le> now"
    by (auto simp: eq_due_def split: if_splits)
  with 4 heap_pop_spec [of q] heap_root_mset [of q] show ?case
    by (metis fst_conv snd_conv insertCI set_mset_add_mset_insert)
next
  case (6 q e q')
  then have "q \<noteq> []" "(e, q') = heap_pop q"
    by (auto simp: eq_popOldest_def split: if_splits)
  with 6 heap_pop_spec [of q] heap_root_mset [of q] show ?case
    by (metis fst_conv snd_conv insertCI set_mset_add_mset_insert)
next
  case (3 q now e)
  then show ?case using heap_root_mset [of q e] by (auto simp: eq_due_def split: if_splits)
qed (auto simp: heap_push_heap heap_push_mset eq_popOldest_def intro: eq_drain.simps)

lemma eq_add_set: "set (eq_add q k i t) = insert \<lparr>ee_at = t, ee_id = i, ee_kind = k\<rparr> (set q)"
  unfolding eq_add_def by (metis heap_push_mset set_mset_add_mset_insert set_mset_mset)

lemma eq_add_heap: "is_heap q \<Longrightarrow> is_heap (eq_add q k i t)"
  by (simp add: eq_add_def heap_push_heap)

end
