(* ===== verification/Local_Admission.thy ===== *)
theory Local_Admission
  imports Coordination_Types Expiry_Queue
begin

text \<open>
  The in-process admission coordinator
  (\<^verbatim>\<open>internal/coordination/local/admission.go\<close>): leases with a time to live, receipts that
  make acquisition and completion idempotent, per-client and per-pool in-flight counters,
  the high-priority reserve of a pool, and token buckets for requests and tokens per minute.

  Every exported method takes the mutex, reads the clock once and runs to completion, so a
  method is a function of the state and of the clock reading \<open>now\<close>. A context that is
  already done is the argument \<open>ctxErr\<close>. The fingerprint of a request (a SHA-256 digest of
  its JSON encoding) is the parameter \<open>fp\<close>. A nil receipt dereferenced in \<open>removeLease\<close>
  would panic: the field \<open>AC_panicked\<close> records it.
\<close>

section \<open>State\<close>

definition receiptRetention :: duration where
  "receiptRetention = 24 * hour"

definition defaultLocalAdmissionReceiptCapacity :: int where
  "defaultLocalAdmissionReceiptCapacity = 65536"

record 'fp admissionReceipt =
  rc_fingerprint :: 'fp
  rc_decision :: AdmissionDecision
  rc_completed :: bool
  rc_completion :: CompletionResult
  rc_request :: AdmissionRequest
  rc_expired :: bool
  rc_retainUntil :: instant

record rateState =
  rs_revision :: int
  rs_capacity :: int
  rs_balance :: real
  rs_at :: instant

record ratePolicy =
  rp_revision :: int
  rp_rpm :: int
  rp_tpm :: int

record 'fp AdmissionCoordinator =
  AC_receipts :: "(uuid, 'fp admissionReceipt) gomap"
  AC_leases :: "(uuid, LeaseIdentity) gomap"
  AC_expiries :: expiryQueue
  AC_terminalExpiries :: expiryQueue
  AC_clientInflight :: "(int, int) gomap"
  AC_poolInflight :: "(int, int) gomap"
  AC_poolLowerInflight :: "(int, int) gomap"
  AC_receiptCapacity :: int
  AC_rates :: "(int, (string, rateState) gomap) gomap"
  AC_policies :: "(int, ratePolicy) gomap"
  AC_panicked :: bool

definition newAdmissionCoordinator :: "int \<Rightarrow> 'fp AdmissionCoordinator" where
  "newAdmissionCoordinator receiptCapacity =
     \<lparr>AC_receipts = mempty, AC_leases = mempty, AC_expiries = [], AC_terminalExpiries = [],
      AC_clientInflight = mempty, AC_poolInflight = mempty, AC_poolLowerInflight = mempty,
      AC_receiptCapacity =
        (if receiptCapacity \<le> 0 then defaultLocalAdmissionReceiptCapacity else receiptCapacity),
      AC_rates = mempty, AC_policies = mempty, AC_panicked = False\<rparr>"

definition NewAdmissionCoordinator :: "'fp AdmissionCoordinator" where
  "NewAdmissionCoordinator = newAdmissionCoordinator defaultLocalAdmissionReceiptCapacity"

section \<open>Leases and receipts\<close>

definition retentionBoundary :: "instant \<Rightarrow> instant \<Rightarrow> instant" where
  "retentionBoundary operationStarted terminal =
     (let t = (if operationStarted > terminal then operationStarted else terminal)
      in t + receiptRetention)"

definition lowerPriority :: "PriorityClass \<Rightarrow> bool" where
  "lowerPriority class \<longleftrightarrow> class \<noteq> PriorityHigh \<and> class \<noteq> PriorityCritical"

definition removeLease :: "'fp AdmissionCoordinator \<Rightarrow> uuid \<Rightarrow> 'fp AdmissionCoordinator" where
  "removeLease c i =
     (case mget (AC_leases c) i of None \<Rightarrow> c
      | Some lease \<Rightarrow>
          let c = c\<lparr>AC_leases := mdel i (AC_leases c)\<rparr> in
          (case mget (AC_receipts c) i of None \<Rightarrow> c\<lparr>AC_panicked := True\<rparr>
           | Some receipt \<Rightarrow>
               let class = AR_PriorityClass (rc_request receipt);
                   c = (if lowerPriority class
                        then c\<lparr>AC_poolLowerInflight :=
                               cdec (LI_PoolID lease) (AC_poolLowerInflight c)\<rparr>
                        else c);
                   c = c\<lparr>AC_clientInflight :=
                          cdec (LI_ClientID lease) (AC_clientInflight c)\<rparr>
               in c\<lparr>AC_poolInflight := cdec (LI_PoolID lease) (AC_poolInflight c)\<rparr>))"

definition addTerminal :: "uuid \<Rightarrow> instant \<Rightarrow> 'fp AdmissionCoordinator \<Rightarrow> 'fp AdmissionCoordinator" where
  "addTerminal i until c =
     c\<lparr>AC_terminalExpiries := eq_add (AC_terminalExpiries c) admissionReceiptExpiry i until\<rparr>"

text \<open>The bodies of the two loops of \<open>expire\<close>.\<close>

definition expireLease ::
  "instant \<Rightarrow> expiryEntry \<Rightarrow> 'fp AdmissionCoordinator \<Rightarrow> 'fp AdmissionCoordinator" where
  "expireLease now expiry c =
     (case ee_kind expiry of
        admissionLeaseExpiry \<Rightarrow>
          (case mget (AC_leases c) (ee_id expiry) of None \<Rightarrow> c
           | Some lease \<Rightarrow>
               if LI_ExpiresAt lease \<noteq> ee_at expiry \<or> LI_ExpiresAt lease > now then c
               else
                 let c = removeLease c (ee_id expiry) in
                 (case mget (AC_receipts c) (ee_id expiry) of None \<Rightarrow> c
                  | Some receipt \<Rightarrow>
                      if rc_completed receipt then c
                      else
                        let until = retentionBoundary (AR_OperationStartedAt (rc_request receipt)) now
                        in addTerminal (ee_id expiry) until
                             (c\<lparr>AC_receipts := mput (ee_id expiry)
                                  (receipt\<lparr>rc_expired := True, rc_retainUntil := until\<rparr>)
                                  (AC_receipts c)\<rparr>)))
      | _ \<Rightarrow> c)"

definition expireReceipt ::
  "instant \<Rightarrow> expiryEntry \<Rightarrow> 'fp AdmissionCoordinator \<Rightarrow> 'fp AdmissionCoordinator" where
  "expireReceipt now expiry c =
     (case mget (AC_receipts c) (ee_id expiry) of None \<Rightarrow> c
      | Some receipt \<Rightarrow>
          if rc_retainUntil receipt = ee_at expiry \<and> \<not> rc_retainUntil receipt > now
          then c\<lparr>AC_receipts := mdel (ee_id expiry) (AC_receipts c)\<rparr> else c)"

text \<open>
  Each loop drains one queue; its body touches the other fields only, so the drained queue
  is written back once.
\<close>

definition expireLeases :: "'fp AdmissionCoordinator \<Rightarrow> instant \<Rightarrow> 'fp AdmissionCoordinator" where
  "expireLeases c now =
     (let (q, c) = eq_drain (expireLease now) now (AC_expiries c) c in c\<lparr>AC_expiries := q\<rparr>)"

definition expireReceipts :: "'fp AdmissionCoordinator \<Rightarrow> instant \<Rightarrow> 'fp AdmissionCoordinator" where
  "expireReceipts c now =
     (let (q, c) = eq_drain (expireReceipt now) now (AC_terminalExpiries c) c
      in c\<lparr>AC_terminalExpiries := q\<rparr>)"

definition expire :: "'fp AdmissionCoordinator \<Rightarrow> instant \<Rightarrow> 'fp AdmissionCoordinator" where
  "expire c now = expireReceipts (expireLeases c now) now"

text \<open>
  \<open>hasTerminalReceipt\<close> pops entries that no longer describe their receipt. It reads the
  receipts and shrinks the terminal queue.
\<close>

definition terminalEntry :: "(uuid, 'fp admissionReceipt) gomap \<Rightarrow> expiryEntry \<Rightarrow> bool" where
  "terminalEntry receipts e =
     (case mget receipts (ee_id e) of None \<Rightarrow> False
      | Some receipt \<Rightarrow> rc_retainUntil receipt \<noteq> 0 \<and> rc_retainUntil receipt = ee_at e)"

function dropStaleEntries ::
  "(uuid, 'fp admissionReceipt) gomap \<Rightarrow> expiryQueue \<Rightarrow> expiryQueue \<times> bool" where
  "dropStaleEntries receipts q =
     (if q = [] then (q, False)
      else if terminalEntry receipts (q ! 0) then (q, True)
      else dropStaleEntries receipts (snd (heap_pop q)))"
  by pat_completeness auto
termination by (relation "measure (\<lambda>(r, q). length q)") (simp_all add: heap_pop_length)

declare dropStaleEntries.simps [simp del]

definition hasTerminalReceipt ::
  "'fp AdmissionCoordinator \<Rightarrow> 'fp AdmissionCoordinator \<times> bool" where
  "hasTerminalReceipt c =
     (let (q, ok) = dropStaleEntries (AC_receipts c) (AC_terminalExpiries c)
      in (c\<lparr>AC_terminalExpiries := q\<rparr>, ok))"

lemma dropStaleEntries_length: "length (fst (dropStaleEntries r q)) \<le> length q"
  by (induction r q rule: dropStaleEntries.induct)
     (subst dropStaleEntries.simps, auto dest: heap_pop_length intro: le_trans less_imp_le)

function makeReceiptRoom :: "'fp AdmissionCoordinator \<Rightarrow> 'fp AdmissionCoordinator \<times> bool" where
  "makeReceiptRoom c =
     (if mlen (AC_receipts c) < AC_receiptCapacity c then (c, True)
      else
        let (c, ok) = hasTerminalReceipt c in
        if \<not> ok then (c, False)
        else
          (case eq_popOldest (AC_terminalExpiries c) of None \<Rightarrow> (c, False)
           | Some (expiry, q) \<Rightarrow>
               makeReceiptRoom (c\<lparr>AC_receipts := mdel (ee_id expiry) (AC_receipts c),
                                  AC_terminalExpiries := q\<rparr>)))"
  by pat_completeness auto

lemma makeReceiptRoom_shrinks:
  assumes "hasTerminalReceipt c = (c', ok)" and "eq_popOldest (AC_terminalExpiries c') = Some (e, q)"
  shows "length q < length (AC_terminalExpiries c)"
proof -
  have "AC_terminalExpiries c' = fst (dropStaleEntries (AC_receipts c) (AC_terminalExpiries c))"
    using assms(1) by (auto simp: hasTerminalReceipt_def split: prod.splits)
  moreover have "length q < length (AC_terminalExpiries c')"
    using assms(2) heap_pop_length [of "AC_terminalExpiries c'"]
    by (auto simp: eq_popOldest_def split: if_splits)
  ultimately show ?thesis using dropStaleEntries_length [of "AC_receipts c" "AC_terminalExpiries c"]
    by simp
qed

termination makeReceiptRoom
  by (relation "measure (\<lambda>c. length (AC_terminalExpiries c))")
     (auto dest: makeReceiptRoom_shrinks [OF sym])

declare makeReceiptRoom.simps [simp del]

section \<open>Rate buckets\<close>

text \<open>
  \<open>normalized\<close> returns a pointer into \<open>rates\<close>; here it returns the bucket and the state
  that holds it, and \<open>setBalance\<close> writes through the pointer.
\<close>

definition clientRates :: "'fp AdmissionCoordinator \<Rightarrow> int \<Rightarrow> (string, rateState) gomap" where
  "clientRates c clientID = (case mget (AC_rates c) clientID of None \<Rightarrow> mempty | Some m \<Rightarrow> m)"

definition putRate ::
  "'fp AdmissionCoordinator \<Rightarrow> int \<Rightarrow> string \<Rightarrow> rateState \<Rightarrow> 'fp AdmissionCoordinator" where
  "putRate c clientID kind s =
     c\<lparr>AC_rates := mput clientID (mput kind s (clientRates c clientID)) (AC_rates c)\<rparr>"

definition refill :: "rateState \<Rightarrow> int \<Rightarrow> instant \<Rightarrow> rateState" where
  "refill s capacity now =
     (let elapsed = of_int (time_Sub now (rs_at s)) / of_int second in
      if elapsed > 0 then
        let balance = rs_balance s + elapsed * of_int capacity / 60;
            balance = (if balance > of_int capacity then of_int capacity else balance)
        in s\<lparr>rs_balance := balance, rs_at := now\<rparr>
      else s)"

definition normalized ::
  "'fp AdmissionCoordinator \<Rightarrow> int \<Rightarrow> string \<Rightarrow> int \<Rightarrow> int \<Rightarrow> instant \<Rightarrow>
     'fp AdmissionCoordinator \<times> rateState" where
  "normalized c clientID kind revision capacity now =
     (let fresh = \<lparr>rs_revision = revision, rs_capacity = capacity,
                   rs_balance = of_int capacity, rs_at = now\<rparr>;
          s = (case mget (clientRates c clientID) kind of None \<Rightarrow> fresh
               | Some s \<Rightarrow>
                   if rs_revision s \<noteq> revision \<or> rs_capacity s \<noteq> capacity then fresh
                   else refill s capacity now)
      in (putRate c clientID kind s, s))"

definition addBalance ::
  "'fp AdmissionCoordinator \<Rightarrow> int \<Rightarrow> string \<Rightarrow> rateState \<Rightarrow> real \<Rightarrow> 'fp AdmissionCoordinator" where
  "addBalance c clientID kind s delta =
     putRate c clientID kind (s\<lparr>rs_balance := rs_balance s + delta\<rparr>)"

definition observeClientRatePolicy ::
  "'fp AdmissionCoordinator \<Rightarrow> ClientRatePolicy \<Rightarrow> 'fp AdmissionCoordinator \<times> ratePolicy" where
  "observeClientRatePolicy c candidate =
     (let new = \<lparr>rp_revision = CP_Revision candidate, rp_rpm = CP_RequestsPerMinute candidate,
                 rp_tpm = CP_TokensPerMinute candidate\<rparr> in
      case mget (AC_policies c) (CP_ClientID candidate) of
        None \<Rightarrow> (c\<lparr>AC_policies := mput (CP_ClientID candidate) new (AC_policies c)\<rparr>, new)
      | Some policy \<Rightarrow>
          if CP_Revision candidate > rp_revision policy
          then (c\<lparr>AC_policies := mput (CP_ClientID candidate) new (AC_policies c)\<rparr>, new)
          else (c, policy))"

definition observeRatePolicy ::
  "'fp AdmissionCoordinator \<Rightarrow> AdmissionRequest \<Rightarrow> 'fp AdmissionCoordinator \<times> ratePolicy" where
  "observeRatePolicy c request =
     observeClientRatePolicy c
       \<lparr>CP_ClientID = AR_ClientID request, CP_Revision = AR_ClientPolicyRevision request,
        CP_RequestsPerMinute = AR_RequestsPerMinute request,
        CP_TokensPerMinute = AR_TokensPerMinute request\<rparr>"

section \<open>Acquire\<close>

text \<open>The verdict of the checks of \<open>Acquire\<close>: a rejection with its scope, or admission.\<close>

datatype verdict = Reject Reason "instant option" "AdmissionScope option" | Admit

definition staleRequest :: "AdmissionRequest \<Rightarrow> instant \<Rightarrow> bool" where
  "staleRequest req now \<longleftrightarrow>
     AR_OperationStartedAt req > now + 5 * minute \<or>
     \<not> AR_OperationStartedAt req > now - receiptRetention"

definition badReserve :: "AdmissionRequest \<Rightarrow> bool" where
  "badReserve req \<longleftrightarrow>
     AR_PoolHighPriorityReserve req < 0 \<or>
     (AR_PoolHighPriorityReserve req > 0 \<and>
       (AR_PoolGatewayInflightLimit req \<le> 0 \<or>
        AR_PoolHighPriorityReserve req > AR_PoolGatewayInflightLimit req \<or>
        \<not> PriorityClass_Valid (AR_PriorityClass req))) \<or>
     (AR_PriorityClass req \<noteq> PriorityOther [] \<and> \<not> PriorityClass_Valid (AR_PriorityClass req))"

definition checkTPM ::
  "'fp AdmissionCoordinator \<Rightarrow> int \<Rightarrow> ratePolicy \<Rightarrow> instant \<Rightarrow> 'fp AdmissionCoordinator \<times> verdict" where
  "checkTPM c clientID policy now =
     (if rp_tpm policy > 0 then
        let (c, s) = normalized c clientID ''tpm'' (rp_revision policy) (rp_tpm policy) now in
        if rs_balance s < 1
        then (c, Reject ReasonTPMExhausted (Some (RateRetryAt (rs_balance s) (rp_tpm policy) now)) None)
        else (c, Admit)
      else (fst (normalized c clientID ''tpm'' (rp_revision policy) 0 now), Admit))"

definition checkRPM ::
  "'fp AdmissionCoordinator \<Rightarrow> int \<Rightarrow> ratePolicy \<Rightarrow> instant \<Rightarrow> 'fp AdmissionCoordinator \<times> verdict" where
  "checkRPM c clientID policy now =
     (if rp_rpm policy > 0 then
        let (c, s) = normalized c clientID ''rpm'' (rp_revision policy) (rp_rpm policy) now in
        if rs_balance s < 1
        then (c, Reject ReasonRPMExhausted (Some (RateRetryAt (rs_balance s) (rp_rpm policy) now)) None)
        else (addBalance c clientID ''rpm'' s (- 1), Admit)
      else (fst (normalized c clientID ''rpm'' (rp_revision policy) 0 now), Admit))"

definition checkCounts :: "'fp AdmissionCoordinator \<Rightarrow> AdmissionRequest \<Rightarrow> verdict" where
  "checkCounts c req =
     (if AR_EffectiveClientLimit req \<le> 0 \<or> AR_EffectiveClientLimit req > AR_ConfiguredClientLimit req
      then Reject ReasonConcurrencyExhausted None None
      else if AR_PoolGatewayInflightLimit req > 0 \<and>
              cget (AC_poolInflight c) (AR_PoolID req) \<ge> AR_PoolGatewayInflightLimit req
      then Reject ReasonConcurrencyExhausted None (Some AdmissionPoolScope)
      else if AR_PoolHighPriorityReserve req > 0 \<and> lowerPriority (AR_PriorityClass req) \<and>
              cget (AC_poolLowerInflight c) (AR_PoolID req) \<ge>
                AR_PoolGatewayInflightLimit req - AR_PoolHighPriorityReserve req
      then Reject ReasonPoolPriorityReserve None None
      else if cget (AC_clientInflight c) (AR_ClientID req) \<ge> AR_EffectiveClientLimit req
      then Reject ReasonConcurrencyExhausted None None
      else Admit)"

definition acquireVerdict ::
  "'fp AdmissionCoordinator \<Rightarrow> AdmissionRequest \<Rightarrow> instant \<Rightarrow> 'fp AdmissionCoordinator \<times> verdict" where
  "acquireVerdict c req now =
     (if staleRequest req now then (c, Reject ReasonStaleOperation None None)
      else if badReserve req then (c, Reject ReasonStaleConfiguration None None)
      else
        let (c, policy) = observeRatePolicy c req in
        case checkCounts c req of
          Reject r retry scope \<Rightarrow> (c, Reject r retry scope)
        | Admit \<Rightarrow>
            (case checkTPM c (AR_ClientID req) policy now of
               (c, Reject r retry scope) \<Rightarrow> (c, Reject r retry scope)
             | (c, Admit) \<Rightarrow> checkRPM c (AR_ClientID req) policy now))"

definition emptyDecision :: AdmissionDecision where
  "emptyDecision =
     \<lparr>AD_Lease = None, AD_Reason = NoReason, AD_RetryAt = None, AD_ConcurrencyScope = NoScope\<rparr>"

definition rejectDecision :: "Reason \<Rightarrow> instant option \<Rightarrow> AdmissionScope option \<Rightarrow> AdmissionDecision" where
  "rejectDecision reason retry scope =
     \<lparr>AD_Lease = None, AD_Reason = reason, AD_RetryAt = retry,
      AD_ConcurrencyScope =
        (if reason = ReasonConcurrencyExhausted
         then (case scope of None \<Rightarrow> AdmissionClientScope | Some s \<Rightarrow> s) else NoScope)\<rparr>"

definition rejectAcquire ::
  "'fp AdmissionCoordinator \<Rightarrow> 'fp admissionReceipt \<Rightarrow> AdmissionDecision \<Rightarrow> instant \<Rightarrow>
     'fp AdmissionCoordinator" where
  "rejectAcquire c receipt d now =
     (let req = rc_request receipt; until = retentionBoundary (AR_OperationStartedAt req) now
      in addTerminal (AR_LeaseID req) until
           (c\<lparr>AC_receipts := mput (AR_LeaseID req)
                (receipt\<lparr>rc_decision := d, rc_retainUntil := until\<rparr>) (AC_receipts c)\<rparr>))"

definition newLease :: "AdmissionRequest \<Rightarrow> instant \<Rightarrow> LeaseIdentity" where
  "newLease req now =
     \<lparr>LI_LeaseID = AR_LeaseID req, LI_ClientID = AR_ClientID req, LI_PoolID = AR_PoolID req,
      LI_RequestID = AR_RequestID req, LI_ReplicaID = AR_ReplicaID req,
      LI_ExpiresAt = now + AR_LeaseTTL req, LI_TTL = AR_LeaseTTL req\<rparr>"

definition admitAcquire ::
  "'fp AdmissionCoordinator \<Rightarrow> 'fp admissionReceipt \<Rightarrow> LeaseIdentity \<Rightarrow> 'fp AdmissionCoordinator" where
  "admitAcquire c receipt lease =
     (let req = rc_request receipt in
      c\<lparr>AC_leases := mput (AR_LeaseID req) lease (AC_leases c),
        AC_clientInflight := cinc (LI_ClientID lease) (AC_clientInflight c),
        AC_poolInflight := cinc (LI_PoolID lease) (AC_poolInflight c),
        AC_poolLowerInflight :=
          (if lowerPriority (AR_PriorityClass req)
           then cinc (LI_PoolID lease) (AC_poolLowerInflight c) else AC_poolLowerInflight c),
        AC_expiries :=
          eq_add (AC_expiries c) admissionLeaseExpiry (LI_LeaseID lease) (LI_ExpiresAt lease),
        AC_receipts :=
          mput (AR_LeaseID req) (receipt\<lparr>rc_decision := emptyDecision\<lparr>AD_Lease := Some lease\<rparr>\<rparr>)
            (AC_receipts c)\<rparr>)"

text \<open>A repeated acquisition is answered from its receipt.\<close>

definition replayAcquire ::
  "'fp AdmissionCoordinator \<Rightarrow> 'fp admissionReceipt \<Rightarrow> 'fp \<Rightarrow> uuid \<Rightarrow> instant \<Rightarrow> AdmissionDecision" where
  "replayAcquire c old fprint leaseID now =
     (if rc_fingerprint old \<noteq> fprint then emptyDecision\<lparr>AD_Reason := ReasonIdempotencyConflict\<rparr>
      else if rc_completed old \<or> rc_expired old then emptyDecision\<lparr>AD_Reason := ReasonLeaseLost\<rparr>
      else if AD_Lease (rc_decision old) \<noteq> None then
        (case mget (AC_leases c) leaseID of
           Some lease \<Rightarrow>
             if LI_ExpiresAt lease > now then emptyDecision\<lparr>AD_Lease := Some lease\<rparr>
             else emptyDecision\<lparr>AD_Reason := ReasonLeaseLost\<rparr>
         | None \<Rightarrow> emptyDecision\<lparr>AD_Reason := ReasonLeaseLost\<rparr>)
      else rc_decision old)"

definition newReceipt :: "'fp \<Rightarrow> AdmissionRequest \<Rightarrow> 'fp admissionReceipt" where
  "newReceipt fprint req =
     \<lparr>rc_fingerprint = fprint, rc_decision = emptyDecision, rc_completed = False,
      rc_completion = NoCompletion, rc_request = req, rc_expired = False, rc_retainUntil = 0\<rparr>"

definition Acquire ::
  "(AdmissionRequest \<Rightarrow> 'fp) \<Rightarrow> 'fp AdmissionCoordinator \<Rightarrow> go_error option \<Rightarrow> instant \<Rightarrow>
     AdmissionRequest \<Rightarrow> 'fp AdmissionCoordinator \<times> (go_error + AdmissionDecision)" where
  "Acquire fp c ctxErr now req =
     (case ctxErr of Some err \<Rightarrow> (c, Inl err)
      | None \<Rightarrow>
          let fprint = fp req; c = expire c now in
          (case mget (AC_receipts c) (AR_LeaseID req) of
             Some old \<Rightarrow> (c, Inr (replayAcquire c old fprint (AR_LeaseID req) now))
           | None \<Rightarrow>
               let (c, room) = makeReceiptRoom c in
               if \<not> room then (c, Inr (emptyDecision\<lparr>AD_Reason := ReasonCoordinationUnavailable\<rparr>))
               else
                 let receipt = newReceipt fprint req;
                     c = c\<lparr>AC_receipts := mput (AR_LeaseID req) receipt (AC_receipts c)\<rparr> in
                 (case acquireVerdict c req now of
                    (c, Reject reason retry scope) \<Rightarrow>
                      let d = rejectDecision reason retry scope
                      in (rejectAcquire c receipt d now, Inr d)
                  | (c, Admit) \<Rightarrow>
                      let lease = newLease req now
                      in (admitAcquire c receipt lease, Inr (emptyDecision\<lparr>AD_Lease := Some lease\<rparr>)))))"

section \<open>Renew, Complete and the read operations\<close>

definition renewOne ::
  "'fp AdmissionCoordinator \<Rightarrow> instant \<Rightarrow> LeaseIdentity \<Rightarrow> 'fp AdmissionCoordinator \<times> RenewResult" where
  "renewOne c now want =
     (let lost = \<lparr>RR_Lease = want, RR_Reason = ReasonLeaseLost\<rparr> in
      case mget (AC_leases c) (LI_LeaseID want) of
        None \<Rightarrow> (removeLease c (LI_LeaseID want), lost)
      | Some got \<Rightarrow>
          if LI_ClientID got \<noteq> LI_ClientID want \<or> LI_PoolID got \<noteq> LI_PoolID want \<or>
             \<not> LI_ExpiresAt got > now
          then (removeLease c (LI_LeaseID want), lost)
          else
            let ttl = (if LI_TTL got \<le> 0 then LI_TTL want else LI_TTL got) in
            if ttl \<le> 0 then (c, lost)
            else
              let got = got\<lparr>LI_ExpiresAt := now + ttl\<rparr> in
              (c\<lparr>AC_leases := mput (LI_LeaseID want) got (AC_leases c),
                 AC_expiries :=
                   eq_add (AC_expiries c) admissionLeaseExpiry (LI_LeaseID got) (LI_ExpiresAt got)\<rparr>,
               \<lparr>RR_Lease = got, RR_Reason = NoReason\<rparr>))"

text \<open>The loops of \<open>Renew\<close> and \<open>Complete\<close> thread the state and collect one result per item.\<close>

fun mapState :: "('s \<Rightarrow> 'a \<Rightarrow> 's \<times> 'b) \<Rightarrow> 's \<Rightarrow> 'a list \<Rightarrow> 's \<times> 'b list" where
  "mapState f s [] = (s, [])"
| "mapState f s (x # xs) =
     (let (s, y) = f s x; (s, ys) = mapState f s xs in (s, y # ys))"

definition Renew ::
  "'fp AdmissionCoordinator \<Rightarrow> go_error option \<Rightarrow> instant \<Rightarrow> LeaseIdentity list \<Rightarrow>
     'fp AdmissionCoordinator \<times> (go_error + RenewResult list)" where
  "Renew c ctxErr now leases =
     (case ctxErr of Some err \<Rightarrow> (c, Inl err)
      | None \<Rightarrow>
          let (c, out) = mapState (\<lambda>c. renewOne c now) (expire c now) leases in (c, Inr out))"

definition chargeUsage ::
  "'fp AdmissionCoordinator \<Rightarrow> instant \<Rightarrow> AdmissionRequest \<Rightarrow> TokenUsage option \<Rightarrow> 'fp AdmissionCoordinator" where
  "chargeUsage c now request usage =
     (case usage of None \<Rightarrow> c
      | Some u \<Rightarrow>
          if \<not> TokenUsage_Valid u then c
          else
            let policy = (case mget (AC_policies c) (AR_ClientID request) of
                            Some p \<Rightarrow> p
                          | None \<Rightarrow> \<lparr>rp_revision = AR_ClientPolicyRevision request,
                                     rp_rpm = AR_RequestsPerMinute request,
                                     rp_tpm = AR_TokensPerMinute request\<rparr>);
                (c, s) = normalized c (AR_ClientID request) ''tpm'' (rp_revision policy)
                           (rp_tpm policy) now
            in if rp_tpm policy > 0
               then addBalance c (AR_ClientID request) ''tpm'' s
                      (- (of_int (TU_InputTokens u) + of_int (TU_OutputTokens u)))
               else c)"

definition completeOne ::
  "'fp AdmissionCoordinator \<Rightarrow> instant \<Rightarrow> LeaseCompletion \<Rightarrow> 'fp AdmissionCoordinator \<times> CompleteResult" where
  "completeOne c now item =
     (let i = LI_LeaseID (LC_Lease item);
          result = \<lparr>CR_LeaseID = i, CR_Result = NoCompletion, CR_OriginalResult = NoCompletion,
                    CR_Reason = NoReason\<rparr> in
      case mget (AC_receipts c) i of
        None \<Rightarrow> (c, result\<lparr>CR_Reason := ReasonStaleOperation\<rparr>)
      | Some rec \<Rightarrow>
          if AD_Lease (rc_decision rec) = None
          then (c, result\<lparr>CR_Result := CompletionLeaseLost, CR_Reason := ReasonLeaseLost\<rparr>)
          else if rc_completed rec
          then (c, result\<lparr>CR_Result := CompletionAlreadyCompleted, CR_OriginalResult := rc_completion rec\<rparr>)
          else
            let active = (case mget (AC_leases c) i of None \<Rightarrow> False
                          | Some lease \<Rightarrow>
                              LI_ClientID lease = AR_ClientID (rc_request rec) \<and>
                              LI_PoolID lease = AR_PoolID (rc_request rec) \<and> LI_ExpiresAt lease > now);
                c = removeLease c i;
                c = chargeUsage c now (rc_request rec) (LC_Usage item);
                res = (if active then CompletionReleased else CompletionLeaseLost);
                until = retentionBoundary (AR_OperationStartedAt (rc_request rec)) now;
                c = c\<lparr>AC_receipts := mput i (rec\<lparr>rc_completed := True, rc_completion := res,
                                              rc_retainUntil := until\<rparr>) (AC_receipts c)\<rparr>
            in (addTerminal i until c, result\<lparr>CR_Result := res\<rparr>))"

definition Complete ::
  "'fp AdmissionCoordinator \<Rightarrow> go_error option \<Rightarrow> instant \<Rightarrow> LeaseCompletion list \<Rightarrow>
     'fp AdmissionCoordinator \<times> (go_error + CompleteResult list)" where
  "Complete c ctxErr now completions =
     (case ctxErr of Some err \<Rightarrow> (c, Inl err)
      | None \<Rightarrow>
          let (c, out) = mapState (\<lambda>c. completeOne c now) (expire c now) completions in (c, Inr out))"

definition AdmissionStatus ::
  "'fp AdmissionCoordinator \<Rightarrow> instant \<Rightarrow> 'fp AdmissionCoordinator \<times> Status" where
  "AdmissionStatus c now =
     (let c = expire c now;
          (c, available) = (if mlen (AC_receipts c) < AC_receiptCapacity c then (c, True)
                            else hasTerminalReceipt c)
      in (c, \<lparr>St_Backend = ''local'', St_Available = available, St_Degraded = False,
              St_Permanent = False, St_LastSuccess = now, St_Reason = NoReason\<rparr>))"

definition PoolInflight ::
  "'fp AdmissionCoordinator \<Rightarrow> instant \<Rightarrow> int \<Rightarrow> 'fp AdmissionCoordinator \<times> int" where
  "PoolInflight c now poolID =
     (let c = expire c now in (c, cget (AC_poolInflight c) poolID))"

definition ObserveClientRatePolicy ::
  "'fp AdmissionCoordinator \<Rightarrow> ClientRatePolicy \<Rightarrow> 'fp AdmissionCoordinator" where
  "ObserveClientRatePolicy c policy = fst (observeClientRatePolicy c policy)"

end
