(* ===== verification/Admission_Invariant.thy ===== *)
theory Admission_Invariant
  imports Local_Admission
begin

text \<open>
  The invariant of the in-process admission coordinator and its preservation by every
  operation: the in-flight counters count the live leases, every lease is backed by an open
  receipt and has its expiry scheduled, and the receipts stay within their capacity.
\<close>

named_theorems admission_simps \<open>definitions unfolded by the preservation proofs\<close>

section \<open>The invariant\<close>

definition backs :: "uuid \<Rightarrow> LeaseIdentity \<Rightarrow> 'fp admissionReceipt \<Rightarrow> bool" where
  "backs i l r \<longleftrightarrow> LI_LeaseID l = i \<and> AR_ClientID (rc_request r) = LI_ClientID l \<and>
     AR_PoolID (rc_request r) = LI_PoolID l \<and> AD_Lease (rc_decision r) \<noteq> None \<and>
     \<not> rc_completed r \<and> \<not> rc_expired r \<and> rc_retainUntil r = 0"

definition leases_backed ::
  "(uuid, LeaseIdentity) gomap \<Rightarrow> (uuid, 'fp admissionReceipt) gomap \<Rightarrow> bool" where
  "leases_backed leases receipts \<longleftrightarrow>
     (\<forall>i l. mget leases i = Some l \<longrightarrow> (\<exists>r. mget receipts i = Some r \<and> backs i l r))"

definition isLower :: "(uuid, 'fp admissionReceipt) gomap \<Rightarrow> uuid \<Rightarrow> bool" where
  "isLower receipts i =
     (case mget receipts i of None \<Rightarrow> False | Some r \<Rightarrow> lowerPriority (AR_PriorityClass (rc_request r)))"

definition counts_ok :: "'fp AdmissionCoordinator \<Rightarrow> bool" where
  "counts_ok c \<longleftrightarrow> (\<forall>k.
     cget (AC_clientInflight c) k = mcount (\<lambda>i l. LI_ClientID l = k) (AC_leases c) \<and>
     cget (AC_poolInflight c) k = mcount (\<lambda>i l. LI_PoolID l = k) (AC_leases c) \<and>
     cget (AC_poolLowerInflight c) k =
       mcount (\<lambda>i l. LI_PoolID l = k \<and> isLower (AC_receipts c) i) (AC_leases c))"

definition books_ok :: "'fp AdmissionCoordinator \<Rightarrow> bool" where
  "books_ok c \<longleftrightarrow> mwf (AC_leases c) \<and> mwf (AC_receipts c) \<and> \<not> AC_panicked c \<and>
     leases_backed (AC_leases c) (AC_receipts c) \<and> counts_ok c"

definition terminal_ok :: "expiryQueue \<Rightarrow> bool" where
  "terminal_ok q \<longleftrightarrow> is_heap q \<and> (\<forall>e \<in> set q. 0 < ee_at e)"

definition within_capacity :: "'fp AdmissionCoordinator \<Rightarrow> bool" where
  "within_capacity c \<longleftrightarrow> int (mlen (AC_receipts c)) \<le> AC_receiptCapacity c"

definition core_inv :: "'fp AdmissionCoordinator \<Rightarrow> bool" where
  "core_inv c \<longleftrightarrow> books_ok c \<and> terminal_ok (AC_terminalExpiries c) \<and> within_capacity c"

definition leaseEntry :: "uuid \<Rightarrow> LeaseIdentity \<Rightarrow> expiryEntry" where
  "leaseEntry i l = \<lparr>ee_at = LI_ExpiresAt l, ee_id = i, ee_kind = admissionLeaseExpiry\<rparr>"

definition scheduled :: "(uuid, LeaseIdentity) gomap \<Rightarrow> expiryQueue \<Rightarrow> bool" where
  "scheduled leases q \<longleftrightarrow> is_heap q \<and> (\<forall>i l. mget leases i = Some l \<longrightarrow> leaseEntry i l \<in> set q)"

definition admission_inv :: "'fp AdmissionCoordinator \<Rightarrow> bool" where
  "admission_inv c \<longleftrightarrow> core_inv c \<and> scheduled (AC_leases c) (AC_expiries c)"

definition all_live :: "'fp AdmissionCoordinator \<Rightarrow> instant \<Rightarrow> bool" where
  "all_live c now \<longleftrightarrow> (\<forall>i l. mget (AC_leases c) i = Some l \<longrightarrow> now < LI_ExpiresAt l)"

section \<open>Queues\<close>

lemma terminal_ok_add: "terminal_ok q \<Longrightarrow> 0 < t \<Longrightarrow> terminal_ok (eq_add q k i t)"
  by (simp add: terminal_ok_def eq_add_heap eq_add_set)

lemma heap_pop_set: "is_heap q \<Longrightarrow> q \<noteq> [] \<Longrightarrow> set q = insert (fst (heap_pop q)) (set (snd (heap_pop q)))"
  using heap_pop_spec [of q] by (metis set_mset_add_mset_insert set_mset_mset)

lemma terminal_ok_pop: "terminal_ok q \<Longrightarrow> q \<noteq> [] \<Longrightarrow> terminal_ok (snd (heap_pop q))"
  using heap_pop_spec [of q] heap_pop_set [of q] by (auto simp: terminal_ok_def)

lemma scheduled_add:
  "scheduled leases q \<Longrightarrow> LI_LeaseID l = i \<Longrightarrow>
     scheduled (mput i l leases) (eq_add q admissionLeaseExpiry (LI_LeaseID l) (LI_ExpiresAt l))"
  by (auto simp: scheduled_def eq_add_heap eq_add_set leaseEntry_def split: if_splits)

lemma scheduled_mdel: "scheduled leases q \<Longrightarrow> scheduled (mdel i leases) q"
  by (auto simp: scheduled_def split: if_splits)

lemma retentionBoundary_pos: "0 < now \<Longrightarrow> 0 < retentionBoundary op now"
  by (simp add: retentionBoundary_def receiptRetention_def Let_def)

section \<open>Removing and adding leases\<close>

lemma isLower_mput: "isLower (mput i r rs) j = (if j = i then lowerPriority (AR_PriorityClass (rc_request r)) else isLower rs j)"
  by (simp add: isLower_def)

lemma books_receipt:
  assumes "books_ok c" and "mget (AC_leases c) i = Some l"
  obtains r where "mget (AC_receipts c) i = Some r" and "backs i l r"
  using assms by (auto simp: books_ok_def leases_backed_def)

text \<open>The counters after a lease is removed: one slot less in each book it was entered in.\<close>

lemma removeLease_Some:
  assumes "mget (AC_leases c) i = Some l" and "mget (AC_receipts c) i = Some r"
  shows "removeLease c i = c\<lparr>AC_leases := mdel i (AC_leases c),
      AC_poolLowerInflight := (if isLower (AC_receipts c) i
        then cdec (LI_PoolID l) (AC_poolLowerInflight c) else AC_poolLowerInflight c),
      AC_clientInflight := cdec (LI_ClientID l) (AC_clientInflight c),
      AC_poolInflight := cdec (LI_PoolID l) (AC_poolInflight c)\<rparr>"
  using assms by (simp add: removeLease_def Let_def isLower_def)

lemma removeLease_None: "mget (AC_leases c) i = None \<Longrightarrow> removeLease c i = c"
  by (simp add: removeLease_def)

lemma counts_ok_mdel:
  assumes "counts_ok c" and "mwf (AC_leases c)" and "mget (AC_leases c) i = Some l"
  shows "counts_ok (c\<lparr>AC_leases := mdel i (AC_leases c),
      AC_poolLowerInflight := (if isLower (AC_receipts c) i
        then cdec (LI_PoolID l) (AC_poolLowerInflight c) else AC_poolLowerInflight c),
      AC_clientInflight := cdec (LI_ClientID l) (AC_clientInflight c),
      AC_poolInflight := cdec (LI_PoolID l) (AC_poolInflight c)\<rparr>)"
proof -
  have n: "mcount P (AC_leases c) = mcount P (mdel i (AC_leases c)) + (if P i l then 1 else 0)" for P
    by (rule mcount_mdel [OF assms(2,3)])
  have nonneg: "0 \<le> cget (AC_clientInflight c) k" "0 \<le> cget (AC_poolInflight c) k"
    "0 \<le> cget (AC_poolLowerInflight c) k" for k
    using assms(1) by (simp_all add: counts_ok_def)
  show ?thesis
    using assms(1) nonneg
    by (auto simp: counts_ok_def cget_cdec n)
qed

lemma books_removeLease: "books_ok c \<Longrightarrow> books_ok (removeLease c i)"
proof (cases "mget (AC_leases c) i")
  case (Some l)
  assume ok: "books_ok c"
  obtain r where r: "mget (AC_receipts c) i = Some r" using books_receipt [OF ok Some] .
  show ?thesis
    using ok counts_ok_mdel [OF _ _ Some] unfolding removeLease_Some [OF Some r]
    by (auto simp: books_ok_def leases_backed_def)
qed (simp add: removeLease_None)

lemma removeLease_frame [simp]:
  "AC_receipts (removeLease c i) = AC_receipts c"
  "AC_terminalExpiries (removeLease c i) = AC_terminalExpiries c"
  "AC_expiries (removeLease c i) = AC_expiries c"
  "AC_receiptCapacity (removeLease c i) = AC_receiptCapacity c"
  "AC_rates (removeLease c i) = AC_rates c"
  "AC_policies (removeLease c i) = AC_policies c"
  "AC_leases (removeLease c i) = mdel i (AC_leases c)"
  by (auto simp: removeLease_def Let_def mdel_absent split: option.splits)

text \<open>Receipts of ids without a lease may be replaced, added or dropped freely.\<close>

lemma counts_ok_receipts:
  assumes "counts_ok c" and "mwf (AC_leases c)"
    and "\<And>i l. mget (AC_leases c) i = Some l \<Longrightarrow> isLower rs i = isLower (AC_receipts c) i"
  shows "counts_ok (c\<lparr>AC_receipts := rs\<rparr>)"
proof -
  have "mcount (\<lambda>i l. LI_PoolID l = k \<and> isLower rs i) (AC_leases c) =
      mcount (\<lambda>i l. LI_PoolID l = k \<and> isLower (AC_receipts c) i) (AC_leases c)" for k
    by (rule mcount_cong) (use assms in auto)
  with assms(1) show ?thesis by (simp add: counts_ok_def)
qed

lemma books_receipts:
  assumes "books_ok c" and "mwf rs"
    and "\<And>i l. mget (AC_leases c) i = Some l \<Longrightarrow> mget rs i = mget (AC_receipts c) i"
  shows "books_ok (c\<lparr>AC_receipts := rs\<rparr>)"
  using assms counts_ok_receipts [of c rs]
  by (auto simp: books_ok_def leases_backed_def isLower_def)

lemma books_frame:
  assumes "books_ok c" and "AC_leases c' = AC_leases c" and "AC_receipts c' = AC_receipts c"
    and "AC_clientInflight c' = AC_clientInflight c" and "AC_poolInflight c' = AC_poolInflight c"
    and "AC_poolLowerInflight c' = AC_poolLowerInflight c" and "AC_panicked c' = AC_panicked c"
  shows "books_ok c'"
  using assms by (simp add: books_ok_def counts_ok_def)

lemma leases_backed_mput:
  "leases_backed leases receipts \<Longrightarrow> backs i l r \<Longrightarrow> leases_backed (mput i l leases) (mput i r receipts)"
  by (auto simp: leases_backed_def)

lemma books_admit:
  assumes ok: "books_ok c" and fresh: "mget (AC_leases c) i = None" and req: "AR_LeaseID (rc_request r) = i"
    and b: "backs i l (r\<lparr>rc_decision := emptyDecision\<lparr>AD_Lease := Some l\<rparr>\<rparr>)"
  shows "books_ok (admitAcquire c r l)"
proof -
  let ?r = "r\<lparr>rc_decision := emptyDecision\<lparr>AD_Lease := Some l\<rparr>\<rparr>"
  have "books_ok (c\<lparr>AC_receipts := mput i ?r (AC_receipts c)\<rparr>)" (is "books_ok ?c")
    by (rule books_receipts [OF ok]) (use ok fresh in \<open>auto simp: books_ok_def\<close>)
  then have c: "counts_ok ?c" "mwf (AC_leases c)" "mwf (AC_receipts ?c)"
    "leases_backed (AC_leases c) (AC_receipts ?c)" "\<not> AC_panicked c"
    by (simp_all add: books_ok_def)
  have low: "isLower (AC_receipts ?c) i = lowerPriority (AR_PriorityClass (rc_request r))"
    by (simp add: isLower_def)
  have "counts_ok (admitAcquire c r l)"
    using c(1) low fresh
    by (auto simp: counts_ok_def admitAcquire_def Let_def req mcount_mput_fresh)
  moreover have "leases_backed (mput i l (AC_leases c)) (mput i ?r (AC_receipts c))"
    by (rule leases_backed_mput [OF _ b]) (use ok in \<open>simp add: books_ok_def\<close>)
  ultimately show ?thesis
    using c by (simp add: books_ok_def admitAcquire_def Let_def req)
qed

section \<open>Expiry\<close>

lemma mlen_mput_present: "mget m k = Some v \<Longrightarrow> mlen (mput k w m) = mlen m"
  by (simp add: mlen_mput)

lemma core_removeLease: "core_inv c \<Longrightarrow> core_inv (removeLease c i)"
  by (simp add: core_inv_def books_removeLease within_capacity_def)

text \<open>Closing the receipt of an id without a lease, with its retention entry.\<close>

lemma core_close_receipt:
  assumes "core_inv c" and "mget (AC_leases c) i = None" and "mget (AC_receipts c) i \<noteq> None" and "0 < until"
  shows "core_inv (addTerminal i until (c\<lparr>AC_receipts := mput i r (AC_receipts c)\<rparr>))"
proof -
  have books: "books_ok c" and t: "terminal_ok (AC_terminalExpiries c)" and cap: "within_capacity c"
    using assms(1) by (simp_all add: core_inv_def)
  have "books_ok (c\<lparr>AC_receipts := mput i r (AC_receipts c)\<rparr>)"
    by (rule books_receipts [OF books]) (use books assms(2) in \<open>auto simp: books_ok_def\<close>)
  then have "books_ok (addTerminal i until (c\<lparr>AC_receipts := mput i r (AC_receipts c)\<rparr>))"
    by (rule books_frame) (simp_all add: addTerminal_def)
  with t cap assms(3,4) show ?thesis
    by (auto simp: core_inv_def within_capacity_def addTerminal_def terminal_ok_add mlen_mput)
qed

lemma expireLease_cases:
  "expireLease now e c = c \<or>
   (\<exists>l. mget (AC_leases c) (ee_id e) = Some l \<and> LI_ExpiresAt l \<le> now \<and>
     (expireLease now e c = removeLease c (ee_id e) \<or>
      (\<exists>r op. mget (AC_receipts c) (ee_id e) \<noteq> None \<and>
        expireLease now e c = addTerminal (ee_id e) (retentionBoundary op now)
          ((removeLease c (ee_id e))\<lparr>AC_receipts := mput (ee_id e) r (AC_receipts c)\<rparr>))))"
  by (cases "ee_kind e"; cases "mget (AC_leases c) (ee_id e)"; cases "mget (AC_receipts c) (ee_id e)")
     (auto simp: expireLease_def Let_def)

lemma expireLease_core:
  assumes "core_inv c" and "0 < now"
  shows "core_inv (expireLease now e c)"
proof -
  have "core_inv (removeLease c (ee_id e))" using core_removeLease [OF assms(1)] .
  with core_close_receipt [OF this, of "ee_id e"] assms show ?thesis
    using expireLease_cases [of now e c] by (auto simp: retentionBoundary_pos)
qed

lemma expireLease_frame [simp]:
  "AC_expiries (expireLease now e c) = AC_expiries c"
  "AC_rates (expireLease now e c) = AC_rates c"
  "AC_policies (expireLease now e c) = AC_policies c"
  "AC_receiptCapacity (expireLease now e c) = AC_receiptCapacity c"
  using expireLease_cases [of now e c] by (auto simp: addTerminal_def)

lemma expireLease_leases:
  "AC_leases (expireLease now e c) = AC_leases c \<or>
   (\<exists>l. mget (AC_leases c) (ee_id e) = Some l \<and> LI_ExpiresAt l \<le> now \<and>
        AC_leases (expireLease now e c) = mdel (ee_id e) (AC_leases c))"
  using expireLease_cases [of now e c] by (auto simp: addTerminal_def)

lemma expireLease_removes:
  "LI_ExpiresAt l \<le> now \<Longrightarrow> mget (AC_leases (expireLease now (leaseEntry i l) c)) i \<noteq> Some l"
  by (auto simp: expireLease_def leaseEntry_def Let_def addTerminal_def split: option.splits)

lemma core_AC_expiries [simp]: "core_inv (c\<lparr>AC_expiries := q\<rparr>) = core_inv c"
  by (simp add: core_inv_def books_ok_def counts_ok_def within_capacity_def)

lemma expireLeases_simps:
  "expireLeases c now =
     (snd (eq_drain (expireLease now) now (AC_expiries c) c))
       \<lparr>AC_expiries := fst (eq_drain (expireLease now) now (AC_expiries c) c)\<rparr>"
  by (simp add: expireLeases_def case_prod_unfold Let_def)

lemma expireLeases_inv:
  fixes c :: "'fp AdmissionCoordinator"
  assumes inv: "admission_inv c" and now: "0 < now"
  shows "admission_inv (expireLeases c now)" and "all_live (expireLeases c now) now"
proof -
  let ?d = "eq_drain (expireLease now) now (AC_expiries c) c"
  have heap: "is_heap (AC_expiries c)" and core: "core_inv c"
    and sched: "\<And>i l. mget (AC_leases c) i = Some l \<Longrightarrow> leaseEntry i l \<in> set (AC_expiries c)"
    using inv by (auto simp: admission_inv_def scheduled_def)
  have core': "core_inv (snd ?d)"
    by (rule eq.drain_invariant [where I = core_inv, OF heap]) (simp_all add: core expireLease_core now)
  have sub: "\<forall>i l. mget (AC_leases (snd ?d)) i = Some l \<longrightarrow> mget (AC_leases c) i = Some l"
  proof (rule eq.drain_invariant [OF heap])
    fix e and s :: "'fp AdmissionCoordinator"
    assume "\<forall>i l. mget (AC_leases s) i = Some l \<longrightarrow> mget (AC_leases c) i = Some l"
    then show "\<forall>i l. mget (AC_leases (expireLease now e s)) i = Some l \<longrightarrow> mget (AC_leases c) i = Some l"
      using expireLease_leases [of now e s] by (auto split: if_splits)
  qed simp
  have live: "now < LI_ExpiresAt l" if l: "mget (AC_leases (snd ?d)) i = Some l" for i l
  proof (rule ccontr)
    assume "\<not> now < LI_ExpiresAt l"
    then have due: "LI_ExpiresAt l \<le> now" by simp
    have "mget (AC_leases (snd ?d)) i \<noteq> Some l"
    proof (rule eq.drain_reaches [OF heap, of "leaseEntry i l"])
      show "leaseEntry i l \<in># mset (AC_expiries c)" using sched sub l by auto
      show "ee_at (leaseEntry i l) \<le> now" using due by (simp add: leaseEntry_def)
      show "mget (AC_leases (expireLease now (leaseEntry i l) s)) i \<noteq> Some l" for s :: "'fp AdmissionCoordinator"
        using expireLease_removes [OF due] .
      show "mget (AC_leases (expireLease now e s)) i \<noteq> Some l"
        if "mget (AC_leases s) i \<noteq> Some l" for e and s :: "'fp AdmissionCoordinator"
        using that expireLease_leases [of now e s] by (auto split: if_splits)
    qed
    with l show False by simp
  qed
  have q: "is_heap (fst ?d)" "mset (fst ?d) = {# e \<in># mset (AC_expiries c). now < ee_at e #}"
    by (simp_all add: eq.drain_entries [OF heap])
  then have "set (fst ?d) = {e \<in> set (AC_expiries c). now < ee_at e}"
    by (metis set_mset_filter set_mset_mset)
  then have "scheduled (AC_leases (snd ?d)) (fst ?d)"
    using sched sub live q(1) by (auto simp: scheduled_def leaseEntry_def)
  with core' live show "admission_inv (expireLeases c now)" "all_live (expireLeases c now) now"
    by (auto simp: expireLeases_simps admission_inv_def all_live_def)
qed

section \<open>Dropping closed receipts\<close>

text \<open>\<open>rs\<close> is the receipts of \<open>c\<close> without some that back no lease.\<close>

definition pruned :: "'fp AdmissionCoordinator \<Rightarrow> (uuid, 'fp admissionReceipt) gomap \<Rightarrow> bool" where
  "pruned c rs \<longleftrightarrow> mwf rs \<and> mlen rs \<le> mlen (AC_receipts c) \<and>
     (\<forall>i r. mget rs i = Some r \<longrightarrow> mget (AC_receipts c) i = Some r) \<and>
     (\<forall>i l. mget (AC_leases c) i = Some l \<longrightarrow> mget rs i = mget (AC_receipts c) i)"

lemma prunedD:
  assumes "pruned c rs"
  shows "mwf rs" and "mlen rs \<le> mlen (AC_receipts c)"
    and "mget rs i = Some r \<Longrightarrow> mget (AC_receipts c) i = Some r"
    and "mget (AC_leases c) i = Some l \<Longrightarrow> mget rs i = mget (AC_receipts c) i"
  using assms unfolding pruned_def by blast+

lemma pruned_refl: "books_ok c \<Longrightarrow> pruned c (AC_receipts c)"
  by (simp add: pruned_def books_ok_def)

lemma pruned_mdel:
  assumes books: "books_ok c" and p: "pruned c rs" and r: "mget rs i = Some r" "rc_retainUntil r \<noteq> 0"
  shows "pruned c (mdel i rs)"
proof -
  have free: "mget (AC_leases c) i = None"
  proof (rule ccontr)
    assume "mget (AC_leases c) i \<noteq> None"
    then obtain l r' where "mget (AC_receipts c) i = Some r'" "backs i l r'"
      using books_receipt [OF books] by blast
    with prunedD(3) [OF p r(1)] r(2) show False by (simp add: backs_def)
  qed
  show ?thesis unfolding pruned_def
  proof (intro conjI allI impI)
    show "mwf (mdel i rs)" using prunedD(1) [OF p] by simp
    show "mlen (mdel i rs) \<le> mlen (AC_receipts c)"
      using prunedD(2) [OF p] mlen_mdel_le [of i rs] by simp
    show "mget (AC_receipts c) j = Some v" if "mget (mdel i rs) j = Some v" for j v
      by (rule prunedD(3) [OF p]) (use that in \<open>simp split: if_splits\<close>)
    show "mget (mdel i rs) j = mget (AC_receipts c) j" if l: "mget (AC_leases c) j = Some l" for j l
    proof -
      have "j \<noteq> i" using l free by auto
      with prunedD(4) [OF p l] show ?thesis by simp
    qed
  qed
qed

lemma pruned_trans:
  assumes p: "pruned c rs" and p': "pruned (c\<lparr>AC_receipts := rs, AC_terminalExpiries := q\<rparr>) rs'"
  shows "pruned c rs'"
  unfolding pruned_def
proof (intro conjI allI impI)
  show "mwf rs'" by (rule prunedD(1) [OF p'])
  show "mlen rs' \<le> mlen (AC_receipts c)" using prunedD(2) [OF p] prunedD(2) [OF p'] by simp
  show "mget (AC_receipts c) j = Some v" if "mget rs' j = Some v" for j v
    by (rule prunedD(3) [OF p]) (use prunedD(3) [OF p' that] in simp)
  show "mget rs' j = mget (AC_receipts c) j" if "mget (AC_leases c) j = Some l" for j l
    using prunedD(4) [OF p that] prunedD(4) [OF p', of j l] that by simp
qed

lemma pruned_core:
  assumes "core_inv c" and "pruned c rs" and "terminal_ok q"
  shows "core_inv (c\<lparr>AC_receipts := rs, AC_terminalExpiries := q\<rparr>)"
proof -
  have "books_ok (c\<lparr>AC_receipts := rs\<rparr>)"
    using assms(1) by (intro books_receipts prunedD [OF assms(2)]) (simp_all add: core_inv_def)
  then have "books_ok (c\<lparr>AC_receipts := rs, AC_terminalExpiries := q\<rparr>)"
    by (rule books_frame) simp_all
  with assms(1,3) prunedD(2) [OF assms(2)] show ?thesis
    by (simp add: core_inv_def within_capacity_def)
qed

lemma expireReceipts_pruned:
  fixes c :: "'fp AdmissionCoordinator"
  assumes core: "core_inv c"
  obtains rs q where "expireReceipts c now = c\<lparr>AC_receipts := rs, AC_terminalExpiries := q\<rparr>"
    and "pruned c rs" and "terminal_ok q"
proof -
  let ?q = "AC_terminalExpiries c"
  let ?d = "eq_drain (expireReceipt now) now ?q c"
  let ?I = "\<lambda>s. \<exists>rs. s = c\<lparr>AC_receipts := rs\<rparr> \<and> pruned c rs"
  have heap: "is_heap ?q" and pos: "\<forall>e \<in> set ?q. 0 < ee_at e" and books: "books_ok c"
    using core by (auto simp: core_inv_def terminal_ok_def)
  have "?I (snd ?d)"
  proof (rule eq.drain_invariant [where I = ?I, OF heap])
    show "?I c" using pruned_refl [OF books] by (intro exI [of _ "AC_receipts c"]) simp
    fix e and s :: "'fp AdmissionCoordinator"
    assume e: "e \<in># mset ?q" and "?I s"
    then obtain rs where s: "s = c\<lparr>AC_receipts := rs\<rparr>" "pruned c rs" by blast
    have "ee_at e \<noteq> 0" using e pos by auto
    then have "mget rs (ee_id e) = Some r \<Longrightarrow> rc_retainUntil r = ee_at e \<Longrightarrow>
        pruned c (mdel (ee_id e) rs)" for r
      using pruned_mdel [OF books s(2)] by simp
    then have "pruned c (AC_receipts (expireReceipt now e s))"
      using s(2) unfolding s(1) by (auto simp: expireReceipt_def split: option.split)
    moreover have "expireReceipt now e s = c\<lparr>AC_receipts := AC_receipts (expireReceipt now e s)\<rparr>"
      unfolding s(1) by (simp add: expireReceipt_def split: option.split)
    ultimately show "?I (expireReceipt now e s)" by blast
  qed
  then obtain rs where rs: "snd ?d = c\<lparr>AC_receipts := rs\<rparr>" "pruned c rs" by blast
  have "is_heap (fst ?d)" "mset (fst ?d) = {# e \<in># mset ?q. now < ee_at e #}"
    by (simp_all add: eq.drain_entries [OF heap])
  moreover from this(2) have "set (fst ?d) = {e \<in> set ?q. now < ee_at e}"
    by (metis set_mset_filter set_mset_mset)
  ultimately have t: "terminal_ok (fst ?d)" using pos by (simp add: terminal_ok_def)
  have "expireReceipts c now = c\<lparr>AC_receipts := rs, AC_terminalExpiries := fst ?d\<rparr>"
    using rs(1) by (simp add: expireReceipts_def case_prod_unfold Let_def)
  from this rs(2) t show thesis by (rule that)
qed

lemma dropStale_ok:
  "terminal_ok q \<Longrightarrow> terminal_ok (fst (dropStaleEntries rs q)) \<and>
     (snd (dropStaleEntries rs q) \<longrightarrow>
       fst (dropStaleEntries rs q) \<noteq> [] \<and> terminalEntry rs (fst (dropStaleEntries rs q) ! 0))"
proof (induction rs q rule: dropStaleEntries.induct)
  case (1 rs q)
  show ?case
  proof (cases "q = [] \<or> terminalEntry rs (q ! 0)")
    case True
    then have "dropStaleEntries rs q = (q, q \<noteq> [])" by (subst dropStaleEntries.simps) auto
    with True "1.prems" show ?thesis by auto
  next
    case False
    then have "dropStaleEntries rs q = dropStaleEntries rs (snd (heap_pop q))"
      by (subst dropStaleEntries.simps) auto
    with False "1.IH" terminal_ok_pop [OF "1.prems"] show ?thesis by simp
  qed
qed

lemma makeReceiptRoom_pruned:
  assumes "core_inv c"
  shows "\<exists>rs q. fst (makeReceiptRoom c) = c\<lparr>AC_receipts := rs, AC_terminalExpiries := q\<rparr> \<and>
     pruned c rs \<and> terminal_ok q \<and>
     (snd (makeReceiptRoom c) \<longrightarrow> int (mlen rs) < AC_receiptCapacity c)"
  using assms
proof (induction c rule: makeReceiptRoom.induct)
  case (1 c)
  have books: "books_ok c" and t: "terminal_ok (AC_terminalExpiries c)"
    using "1.prems" by (auto simp: core_inv_def)
  obtain q ok where h: "dropStaleEntries (AC_receipts c) (AC_terminalExpiries c) = (q, ok)"
    by fastforce
  have q: "terminal_ok q" and top: "ok \<Longrightarrow> q \<noteq> [] \<and> terminalEntry (AC_receipts c) (q ! 0)"
    using dropStale_ok [OF t, of "AC_receipts c"] h by auto
  have hd: "hasTerminalReceipt c = (c\<lparr>AC_terminalExpiries := q\<rparr>, ok)"
    by (simp add: hasTerminalReceipt_def h)
  show ?case
  proof (cases "int (mlen (AC_receipts c)) < AC_receiptCapacity c")
    case True
    then have "makeReceiptRoom c = (c, True)" by (subst makeReceiptRoom.simps) simp
    with True show ?thesis using pruned_refl [OF books] t
      by (intro exI [of _ "AC_receipts c"] exI [of _ "AC_terminalExpiries c"]) simp
  next
    case full: False
    show ?thesis
    proof (cases ok)
      case False
      then have "makeReceiptRoom c = (c\<lparr>AC_terminalExpiries := q\<rparr>, False)"
        using full hd by (subst makeReceiptRoom.simps) simp
      then show ?thesis using pruned_refl [OF books] q
        by (intro exI [of _ "AC_receipts c"] exI [of _ q]) simp
    next
      case True
      let ?e = "fst (heap_pop q)" and ?q = "snd (heap_pop q)"
      let ?c = "c\<lparr>AC_receipts := mdel (ee_id ?e) (AC_receipts c), AC_terminalExpiries := ?q\<rparr>"
      have e: "?e = q ! 0" "q \<noteq> []" using heap_pop_spec [of q] q top True by (auto simp: terminal_ok_def)
      then obtain r where r: "mget (AC_receipts c) (ee_id ?e) = Some r" "rc_retainUntil r \<noteq> 0"
        using top True by (auto simp: terminalEntry_def split: option.splits)
      have p: "pruned c (mdel (ee_id ?e) (AC_receipts c))"
        by (rule pruned_mdel [OF books pruned_refl [OF books] r])
      have q': "terminal_ok ?q" using terminal_ok_pop [OF q e(2)] .
      have core: "core_inv ?c" using pruned_core [OF "1.prems" p q'] by simp
      have pop: "eq_popOldest (AC_terminalExpiries (c\<lparr>AC_terminalExpiries := q\<rparr>)) = Some (?e, ?q)"
        using e(2) by (simp add: eq_popOldest_def)
      obtain rs q' where
        "fst (makeReceiptRoom ?c) = c\<lparr>AC_receipts := rs, AC_terminalExpiries := q'\<rparr>"
        "pruned ?c rs" "terminal_ok q'" "snd (makeReceiptRoom ?c) \<longrightarrow> int (mlen rs) < AC_receiptCapacity c"
        using "1.IH" [OF full refl hd [symmetric] _ pop refl] core True by auto
      moreover have "makeReceiptRoom c = makeReceiptRoom ?c"
        using full hd True pop by (subst makeReceiptRoom.simps) (simp del: prod.collapse)
      moreover have "pruned c rs" by (rule pruned_trans [OF p]) fact
      ultimately show ?thesis by (intro exI [of _ rs] exI [of _ q']) simp
    qed
  qed
qed

section \<open>Operations that only release leases\<close>

text \<open>
  \<open>shrinks c c'\<close>: every lease of \<open>c'\<close> is a lease of \<open>c\<close>, of the same client, pool and
  priority. All counters can then only have gone down.
\<close>

definition shrinks :: "'fp AdmissionCoordinator \<Rightarrow> 'fp AdmissionCoordinator \<Rightarrow> bool" where
  "shrinks c c' \<longleftrightarrow>
     (\<forall>i l'. mget (AC_leases c') i = Some l' \<longrightarrow>
       (\<exists>l. mget (AC_leases c) i = Some l \<and> LI_PoolID l' = LI_PoolID l \<and>
            LI_ClientID l' = LI_ClientID l) \<and>
       isLower (AC_receipts c') i = isLower (AC_receipts c) i)"

lemma shrinks_refl [simp]: "shrinks c c"
  by (simp add: shrinks_def)

lemma shrinks_trans: "shrinks a b \<Longrightarrow> shrinks b c \<Longrightarrow> shrinks a c"
  unfolding shrinks_def by metis

lemma shrinks_removeLease [simp]: "shrinks c (removeLease c i)"
  by (simp add: shrinks_def)

lemma shrinks_frame:
  "AC_leases c' = AC_leases c \<Longrightarrow> AC_receipts c' = AC_receipts c \<Longrightarrow> shrinks c c'"
  by (simp add: shrinks_def)

lemma shrinks_receipt:
  "AC_leases c' = AC_leases c \<Longrightarrow> AC_receipts c' = mput i r (AC_receipts c) \<Longrightarrow>
     mget (AC_leases c) i = None \<Longrightarrow> shrinks c c'"
  by (auto simp: shrinks_def isLower_mput)

lemma shrinks_pruned:
  "AC_leases c' = AC_leases c \<Longrightarrow> pruned c (AC_receipts c') \<Longrightarrow> shrinks c c'"
  by (auto simp: shrinks_def isLower_def prunedD(4))

lemma shrinks_counts:
  assumes "shrinks c c'" and "books_ok c" and "books_ok c'"
  shows "cget (AC_clientInflight c') k \<le> cget (AC_clientInflight c) k"
    and "cget (AC_poolInflight c') k \<le> cget (AC_poolInflight c) k"
    and "cget (AC_poolLowerInflight c') k \<le> cget (AC_poolLowerInflight c) k"
proof -
  have wf: "mwf (AC_leases c)" "mwf (AC_leases c')" and n: "counts_ok c" "counts_ok c'"
    using assms(2,3) by (simp_all add: books_ok_def)
  have "mcount (\<lambda>i l. LI_ClientID l = k) (AC_leases c') \<le> mcount (\<lambda>i l. LI_ClientID l = k) (AC_leases c)"
    "mcount (\<lambda>i l. LI_PoolID l = k) (AC_leases c') \<le> mcount (\<lambda>i l. LI_PoolID l = k) (AC_leases c)"
    "mcount (\<lambda>i l. LI_PoolID l = k \<and> isLower (AC_receipts c') i) (AC_leases c') \<le>
       mcount (\<lambda>i l. LI_PoolID l = k \<and> isLower (AC_receipts c) i) (AC_leases c)"
    by (rule mcount_mono [OF wf(2,1)], use assms(1) in \<open>unfold shrinks_def, metis\<close>)+
  with n show "cget (AC_clientInflight c') k \<le> cget (AC_clientInflight c) k"
    "cget (AC_poolInflight c') k \<le> cget (AC_poolInflight c) k"
    "cget (AC_poolLowerInflight c') k \<le> cget (AC_poolLowerInflight c) k"
    by (simp_all add: counts_ok_def)
qed

lemma shrinks_expireLease: "shrinks c (expireLease now e c)"
proof -
  have "shrinks c (addTerminal (ee_id e) u
      ((removeLease c (ee_id e))\<lparr>AC_receipts := mput (ee_id e) r (AC_receipts c)\<rparr>))" for u r
    by (rule shrinks_trans [OF shrinks_removeLease
          shrinks_receipt [where c = "removeLease c (ee_id e)" and i = "ee_id e" and r = r]])
       (simp_all add: addTerminal_def)
  then show ?thesis
    using expireLease_cases [of now e c] by auto
qed

lemma shrinks_expireLeases:
  fixes c :: "'fp AdmissionCoordinator"
  assumes "is_heap (AC_expiries c)"
  shows "shrinks c (expireLeases c now)"
proof -
  have "shrinks c (snd (eq_drain (expireLease now) now (AC_expiries c) c))"
    by (rule eq.drain_invariant [where I = "shrinks c", OF assms])
       (auto intro: shrinks_trans shrinks_expireLease)
  then show ?thesis by (simp add: expireLeases_simps shrinks_def)
qed

text \<open>What the call to \<open>expire\<close> at the start of every operation establishes.\<close>

lemma expireLeases_frame [simp]:
  fixes c :: "'fp AdmissionCoordinator"
  assumes "is_heap (AC_expiries c)"
  shows "AC_rates (expireLeases c now) = AC_rates c" and "AC_policies (expireLeases c now) = AC_policies c"
    and "AC_receiptCapacity (expireLeases c now) = AC_receiptCapacity c"
proof -
  let ?I = "\<lambda>s :: 'fp AdmissionCoordinator. AC_rates s = AC_rates c \<and> AC_policies s = AC_policies c \<and>
    AC_receiptCapacity s = AC_receiptCapacity c"
  have "?I (snd (eq_drain (expireLease now) now (AC_expiries c) c))"
    by (rule eq.drain_invariant [where I = ?I, OF assms]) simp_all
  then show "AC_rates (expireLeases c now) = AC_rates c" "AC_policies (expireLeases c now) = AC_policies c"
    "AC_receiptCapacity (expireLeases c now) = AC_receiptCapacity c"
    by (simp_all add: expireLeases_simps)
qed

lemma expire_establishes:
  assumes inv: "admission_inv c" and now: "0 < now"
  shows "admission_inv (expire c now)" and "all_live (expire c now) now" and "shrinks c (expire c now)"
    and "AC_rates (expire c now) = AC_rates c" and "AC_policies (expire c now) = AC_policies c"
    and "AC_receiptCapacity (expire c now) = AC_receiptCapacity c"
proof -
  let ?c = "expireLeases c now"
  have heap: "is_heap (AC_expiries c)" using inv by (simp add: admission_inv_def scheduled_def)
  note inv' = expireLeases_inv [OF inv now]
  have core: "core_inv ?c" using inv'(1) by (simp add: admission_inv_def)
  obtain rs q where e: "expireReceipts ?c now = ?c\<lparr>AC_receipts := rs, AC_terminalExpiries := q\<rparr>"
    and p: "pruned ?c rs" and q: "terminal_ok q"
    using expireReceipts_pruned [OF core] by blast
  show "admission_inv (expire c now)"
    using inv'(1) pruned_core [OF core p q] by (simp add: expire_def e admission_inv_def)
  show "all_live (expire c now) now" using inv'(2) by (simp add: expire_def e all_live_def)
  have "shrinks ?c (expire c now)"
    by (rule shrinks_pruned) (simp_all add: expire_def e p)
  then show "shrinks c (expire c now)" using shrinks_expireLeases [OF heap] shrinks_trans by blast
  show "AC_rates (expire c now) = AC_rates c" "AC_policies (expire c now) = AC_policies c"
    "AC_receiptCapacity (expire c now) = AC_receiptCapacity c"
    using heap by (simp_all add: expire_def e)
qed

lemma makeReceiptRoom_inv:
  assumes inv: "admission_inv c"
  shows "admission_inv (fst (makeReceiptRoom c))" and "shrinks c (fst (makeReceiptRoom c))"
    and "\<And>now. all_live c now \<Longrightarrow> all_live (fst (makeReceiptRoom c)) now"
    and "snd (makeReceiptRoom c) \<Longrightarrow>
      int (mlen (AC_receipts (fst (makeReceiptRoom c)))) < AC_receiptCapacity (fst (makeReceiptRoom c))"
    and "mget (AC_receipts c) i = None \<Longrightarrow> mget (AC_receipts (fst (makeReceiptRoom c))) i = None"
    and "AC_rates (fst (makeReceiptRoom c)) = AC_rates c"
    and "AC_policies (fst (makeReceiptRoom c)) = AC_policies c"
proof -
  have core: "core_inv c" using inv by (simp add: admission_inv_def)
  obtain rs q where e: "fst (makeReceiptRoom c) = c\<lparr>AC_receipts := rs, AC_terminalExpiries := q\<rparr>"
    and p: "pruned c rs" and q: "terminal_ok q"
    and room: "snd (makeReceiptRoom c) \<longrightarrow> int (mlen rs) < AC_receiptCapacity c"
    using makeReceiptRoom_pruned [OF core] by blast
  show "admission_inv (fst (makeReceiptRoom c))"
    using inv pruned_core [OF core p q] by (simp add: e admission_inv_def)
  show "shrinks c (fst (makeReceiptRoom c))" by (rule shrinks_pruned) (simp_all add: e p)
  show "all_live (fst (makeReceiptRoom c)) now" if "all_live c now" for now
    using that by (simp add: e all_live_def)
  show "int (mlen (AC_receipts (fst (makeReceiptRoom c)))) < AC_receiptCapacity (fst (makeReceiptRoom c))"
    if "snd (makeReceiptRoom c)" using room that by (simp add: e)
  show "mget (AC_receipts (fst (makeReceiptRoom c))) i = None" if "mget (AC_receipts c) i = None"
    using prunedD(3) [OF p, of i] that by (cases "mget rs i") (simp_all add: e)
qed (use makeReceiptRoom_pruned [of c] inv in \<open>auto simp: admission_inv_def\<close>)

end
