(* ===== verification/Admission_Operations.thy ===== *)
theory Admission_Operations
  imports Admission_Invariant
begin

text \<open>
  Every operation of the in-process admission coordinator keeps the invariant of
  \<open>Admission_Invariant\<close>; sequences of operations with arbitrary clock readings; and the
  properties of the coordinator.
\<close>

section \<open>Acquire\<close>

text \<open>The checks of an acquisition write only the rate buckets and policies.\<close>

definition same_books :: "'fp AdmissionCoordinator \<Rightarrow> 'fp AdmissionCoordinator \<Rightarrow> bool" where
  "same_books c c' \<longleftrightarrow> c' = c\<lparr>AC_rates := AC_rates c', AC_policies := AC_policies c'\<rparr>"

lemma same_books_refl [simp]: "same_books c c"
  by (simp add: same_books_def)

lemma same_booksD:
  assumes "same_books c c'"
  shows "AC_receipts c' = AC_receipts c" "AC_leases c' = AC_leases c" "AC_expiries c' = AC_expiries c"
    "AC_terminalExpiries c' = AC_terminalExpiries c" "AC_clientInflight c' = AC_clientInflight c"
    "AC_poolInflight c' = AC_poolInflight c" "AC_poolLowerInflight c' = AC_poolLowerInflight c"
    "AC_receiptCapacity c' = AC_receiptCapacity c" "AC_panicked c' = AC_panicked c"
  by (subst assms [unfolded same_books_def], simp)+

lemma same_books_trans: "same_books a b \<Longrightarrow> same_books b c \<Longrightarrow> same_books a c"
  unfolding same_books_def
  by (metis (no_types, lifting) AdmissionCoordinator.fold_congs(9,10)
      AdmissionCoordinator.surjective AdmissionCoordinator.update_convs(9,10))

lemma same_books_putRate [simp]: "same_books c (putRate c k s r)"
  by (simp add: same_books_def putRate_def)

lemma same_books_normalized [simp]: "same_books c (fst (normalized c k s r n now))"
  by (simp add: normalized_def Let_def)

lemma same_books_addBalance [simp]: "same_books c (addBalance c k s st d)"
  by (simp add: addBalance_def)

lemma same_books_observe [simp]: "same_books c (fst (observeClientRatePolicy c p))"
  by (simp add: observeClientRatePolicy_def Let_def same_books_def split: option.split)

lemma same_books_checkTPM: "same_books c (fst (checkTPM c k p now))"
  using same_books_normalized [of c k "''tpm''" "rp_revision p" "rp_tpm p" now]
  by (auto simp: checkTPM_def case_prod_unfold Let_def)

lemma same_books_checkRPM: "same_books c (fst (checkRPM c k p now))"
  using same_books_trans [OF same_books_normalized [of c k "''rpm''" "rp_revision p" "rp_rpm p" now]
      same_books_addBalance]
  by (auto simp: checkRPM_def case_prod_unfold Let_def)

lemma same_books_acquireVerdict: "same_books c (fst (acquireVerdict c req now))"
proof -
  let ?c = "fst (observeRatePolicy c req)" and ?p = "snd (observeRatePolicy c req)"
  have 1: "same_books c ?c" by (simp add: observeRatePolicy_def)
  note 2 = same_books_trans [OF 1 same_books_checkTPM [of ?c "AR_ClientID req" ?p now]]
  note 3 = same_books_trans [OF 2 same_books_checkRPM [of _ "AR_ClientID req" ?p now]]
  show ?thesis
    using 1 2 3
    by (auto simp: acquireVerdict_def case_prod_unfold Let_def split: verdict.split)
qed

lemma checkCounts_same_books: "same_books c c' \<Longrightarrow> checkCounts c' req = checkCounts c req"
  by (simp add: checkCounts_def same_booksD)

lemma acquireVerdict_Admit:
  assumes "acquireVerdict c req now = (c', Admit)"
  shows "checkCounts c req = Admit" and "\<not> staleRequest req now" and "\<not> badReserve req"
proof -
  show stale: "\<not> staleRequest req now" and bad: "\<not> badReserve req"
    using assms by (auto simp: acquireVerdict_def split: if_splits)
  have "checkCounts (fst (observeRatePolicy c req)) req = Admit"
    using assms stale bad by (auto simp: acquireVerdict_def case_prod_unfold Let_def split: verdict.splits)
  then show "checkCounts c req = Admit"
    using checkCounts_same_books [of c "fst (observeRatePolicy c req)" req]
    by (simp add: observeRatePolicy_def)
qed

lemma inv_same_books: "admission_inv c \<Longrightarrow> same_books c c' \<Longrightarrow> admission_inv c'"
  by (simp add: admission_inv_def core_inv_def books_ok_def counts_ok_def within_capacity_def same_booksD)

text \<open>
  The two outcomes of an acquisition that reaches the checks, over the state \<open>c\<close> in which
  room for its receipt was made.
\<close>

lemma fresh_receipt_inv:
  assumes inv: "admission_inv c" and fresh: "mget (AC_receipts c) i = None"
    and room: "int (mlen (AC_receipts c)) < AC_receiptCapacity c"
  shows "admission_inv (c\<lparr>AC_receipts := mput i r (AC_receipts c)\<rparr>)"
    and "mget (AC_leases c) i = None"
proof -
  have books: "books_ok c" using inv by (simp add: admission_inv_def core_inv_def)
  show free: "mget (AC_leases c) i = None"
    using books_receipt [OF books, of i] fresh by fastforce
  have "books_ok (c\<lparr>AC_receipts := mput i r (AC_receipts c)\<rparr>)"
    by (rule books_receipts [OF books]) (use books free in \<open>auto simp: books_ok_def\<close>)
  with inv fresh room show "admission_inv (c\<lparr>AC_receipts := mput i r (AC_receipts c)\<rparr>)"
    by (simp add: admission_inv_def core_inv_def within_capacity_def mlen_mput)
qed

lemma reject_inv:
  assumes inv: "admission_inv c" and req: "AR_LeaseID (rc_request r) = i"
    and c: "mget (AC_leases c) i = None" "mget (AC_receipts c) i \<noteq> None" and now: "0 < now"
  shows "admission_inv (rejectAcquire c r d now)" and "shrinks c (rejectAcquire c r d now)"
proof -
  have "core_inv (rejectAcquire c r d now)"
    using core_close_receipt [of c i, OF _ c retentionBoundary_pos [OF now]] inv
    by (simp add: rejectAcquire_def Let_def req admission_inv_def)
  with inv show "admission_inv (rejectAcquire c r d now)"
    by (simp add: admission_inv_def rejectAcquire_def Let_def addTerminal_def)
  show "shrinks c (rejectAcquire c r d now)"
    by (auto simp: rejectAcquire_def Let_def addTerminal_def req c(1) intro!: shrinks_receipt)
qed

lemma admit_inv:
  assumes inv: "admission_inv c" and c: "mget (AC_leases c) (AR_LeaseID req) = None"
      "mget (AC_receipts c) (AR_LeaseID req) \<noteq> None"
  shows "admission_inv (admitAcquire c (newReceipt f req) (newLease req now))"
proof -
  let ?r = "newReceipt f req" and ?l = "newLease req now"
  have books: "books_ok (admitAcquire c ?r ?l)"
    by (rule books_admit [where i = "AR_LeaseID req"])
       (use inv c in \<open>simp_all add: admission_inv_def core_inv_def newReceipt_def newLease_def backs_def emptyDecision_def\<close>)
  have sched: "scheduled (AC_leases (admitAcquire c ?r ?l)) (AC_expiries (admitAcquire c ?r ?l))"
    using scheduled_add [of "AC_leases c" "AC_expiries c" ?l "AR_LeaseID req"] inv
    by (simp add: admission_inv_def admitAcquire_def Let_def newReceipt_def newLease_def)
  from inv books sched c show ?thesis
    by (auto simp: admission_inv_def core_inv_def within_capacity_def admitAcquire_def Let_def
        newReceipt_def mlen_mput)
qed

text \<open>The state in which the checks of an acquisition run: expired, with room, its receipt entered.\<close>

definition acquireEntry ::
  "(AdmissionRequest \<Rightarrow> 'fp) \<Rightarrow> 'fp AdmissionCoordinator \<Rightarrow> instant \<Rightarrow> AdmissionRequest \<Rightarrow> 'fp AdmissionCoordinator" where
  "acquireEntry fp c now req =
     (let c = fst (makeReceiptRoom (expire c now))
      in c\<lparr>AC_receipts := mput (AR_LeaseID req) (newReceipt (fp req) req) (AC_receipts c)\<rparr>)"

definition reachesChecks :: "'fp AdmissionCoordinator \<Rightarrow> instant \<Rightarrow> AdmissionRequest \<Rightarrow> bool" where
  "reachesChecks c now req \<longleftrightarrow>
     mget (AC_receipts (expire c now)) (AR_LeaseID req) = None \<and> snd (makeReceiptRoom (expire c now))"

lemma Acquire_replay:
  "mget (AC_receipts (expire c now)) (AR_LeaseID req) = Some old \<Longrightarrow>
     Acquire fp c None now req =
       (expire c now, Inr (replayAcquire (expire c now) old (fp req) (AR_LeaseID req) now))"
  by (simp add: Acquire_def Let_def)

lemma Acquire_no_room:
  "mget (AC_receipts (expire c now)) (AR_LeaseID req) = None \<Longrightarrow> \<not> snd (makeReceiptRoom (expire c now)) \<Longrightarrow>
     Acquire fp c None now req = (fst (makeReceiptRoom (expire c now)),
       Inr (emptyDecision\<lparr>AD_Reason := ReasonCoordinationUnavailable\<rparr>))"
  by (simp add: Acquire_def Let_def case_prod_unfold)

lemma Acquire_checks:
  "reachesChecks c now req \<Longrightarrow> Acquire fp c None now req =
     (case acquireVerdict (acquireEntry fp c now req) req now of
        (c, Reject reason retry scope) \<Rightarrow>
          (rejectAcquire c (newReceipt (fp req) req) (rejectDecision reason retry scope) now,
           Inr (rejectDecision reason retry scope))
      | (c, Admit) \<Rightarrow>
          (admitAcquire c (newReceipt (fp req) req) (newLease req now),
           Inr (emptyDecision\<lparr>AD_Lease := Some (newLease req now)\<rparr>)))"
  by (simp add: Acquire_def reachesChecks_def acquireEntry_def Let_def case_prod_unfold)

lemma acquireEntry_inv:
  assumes inv: "admission_inv c" and now: "0 < now" and r: "reachesChecks c now req"
  shows "admission_inv (acquireEntry fp c now req)" and "shrinks c (acquireEntry fp c now req)"
    and "mget (AC_leases (acquireEntry fp c now req)) (AR_LeaseID req) = None"
    and "mget (AC_receipts (acquireEntry fp c now req)) (AR_LeaseID req) \<noteq> None"
    and "all_live (acquireEntry fp c now req) now"
    and "AC_rates (acquireEntry fp c now req) = AC_rates c"
    and "AC_policies (acquireEntry fp c now req) = AC_policies c"
proof -
  let ?e = "expire c now" and ?m = "fst (makeReceiptRoom (expire c now))"
  note e = expire_establishes [OF inv now]
  note m = makeReceiptRoom_inv [OF e(1)]
  have fresh: "mget (AC_receipts ?m) (AR_LeaseID req) = None"
    by (rule m(5)) (use r in \<open>simp add: reachesChecks_def\<close>)
  have room: "int (mlen (AC_receipts ?m)) < AC_receiptCapacity ?m"
    by (rule m(4)) (use r in \<open>simp add: reachesChecks_def\<close>)
  note f = fresh_receipt_inv [OF m(1) fresh room]
  show "admission_inv (acquireEntry fp c now req)" using f(1) by (simp add: acquireEntry_def Let_def)
  have "shrinks ?m (acquireEntry fp c now req)"
    by (auto simp: acquireEntry_def Let_def f(2) intro!: shrinks_receipt)
  then show "shrinks c (acquireEntry fp c now req)" using e(3) m(2) shrinks_trans by blast
  show "all_live (acquireEntry fp c now req) now"
    using m(3) [OF e(2)] by (simp add: acquireEntry_def Let_def all_live_def)
  show "AC_rates (acquireEntry fp c now req) = AC_rates c"
    "AC_policies (acquireEntry fp c now req) = AC_policies c"
    by (simp_all add: acquireEntry_def Let_def m(6,7) e(4,5))
  show "mget (AC_leases (acquireEntry fp c now req)) (AR_LeaseID req) = None"
    "mget (AC_receipts (acquireEntry fp c now req)) (AR_LeaseID req) \<noteq> None"
    using f(2) by (simp_all add: acquireEntry_def Let_def)
qed

text \<open>Case analysis of an acquisition: it admits, or it leaves no new lease.\<close>

lemma Acquire_outcome:
  assumes inv: "admission_inv c" and now: "0 < now"
  obtains
    (keeps) "admission_inv (fst (Acquire fp c ctx now req))" and "shrinks c (fst (Acquire fp c ctx now req))"
      and "ctx = None \<longrightarrow> \<not> (reachesChecks c now req \<and> snd (acquireVerdict (acquireEntry fp c now req) req now) = Admit)"
  | (admits) c' where "ctx = None" and "reachesChecks c now req"
      and "acquireVerdict (acquireEntry fp c now req) req now = (c', Admit)"
      and "Acquire fp c ctx now req =
        (admitAcquire c' (newReceipt (fp req) req) (newLease req now),
         Inr (emptyDecision\<lparr>AD_Lease := Some (newLease req now)\<rparr>))"
      and "admission_inv c'" and "shrinks c c'" and "all_live c' now"
      and "admission_inv (fst (Acquire fp c ctx now req))"
proof (cases ctx)
  case (Some err)
  with inv keeps show thesis by (simp add: Acquire_def)
next
  case ctx: None
  note e = expire_establishes [OF inv now]
  show thesis
  proof (cases "reachesChecks c now req")
    case False
    have "fst (Acquire fp c None now req) \<in> {expire c now, fst (makeReceiptRoom (expire c now))}"
      using False Acquire_replay [of c now req] Acquire_no_room [of c now req]
      by (cases "mget (AC_receipts (expire c now)) (AR_LeaseID req)") (auto simp: reachesChecks_def)
    with False ctx e(1,3) makeReceiptRoom_inv(1,2) [OF e(1)] show thesis
      by (intro keeps) (auto intro: shrinks_trans)
  next
    case True
    note entry = acquireEntry_inv [OF inv now True, of fp]
    obtain c' v where v: "acquireVerdict (acquireEntry fp c now req) req now = (c', v)" by fastforce
    have same: "same_books (acquireEntry fp c now req) c'"
      using same_books_acquireVerdict [of "acquireEntry fp c now req" req now] v by simp
    have c': "admission_inv c'" "mget (AC_leases c') (AR_LeaseID req) = None"
      "mget (AC_receipts c') (AR_LeaseID req) \<noteq> None" "all_live c' now"
      using entry inv_same_books [OF entry(1) same] by (simp_all add: same_booksD [OF same] all_live_def)
    have sh: "shrinks c c'"
      using entry(2) shrinks_frame [of c'] same_booksD [OF same] shrinks_trans by blast
    show thesis
    proof (cases v)
      case (Reject reason retry scope)
      then have "Acquire fp c ctx now req =
          (rejectAcquire c' (newReceipt (fp req) req) (rejectDecision reason retry scope) now,
           Inr (rejectDecision reason retry scope))"
        using v ctx Acquire_checks [OF True, of fp] by simp
      with reject_inv [OF c'(1) _ c'(2,3) now, of "newReceipt (fp req) req"] sh v Reject show thesis
        by (intro keeps) (auto simp: newReceipt_def intro: shrinks_trans)
    next
      case Admit
      with v ctx Acquire_checks [OF True, of fp] admit_inv [OF c'(1-3)] c' sh True show thesis
        by (intro admits) auto
    qed
  qed
qed

section \<open>Renew, Complete and the read operations\<close>

lemma mapState_invariant:
  "(\<And>s x. I s \<Longrightarrow> I (fst (f s x))) \<Longrightarrow> I s \<Longrightarrow> I (fst (mapState f s xs))"
  by (induction xs arbitrary: s) (auto simp: case_prod_unfold Let_def)

lemma mapState_length: "length (snd (mapState f s xs)) = length xs"
  by (induction xs arbitrary: s) (auto simp: case_prod_unfold Let_def)

lemma inv_removeLease: "admission_inv c \<Longrightarrow> admission_inv (removeLease c i)"
  by (simp add: admission_inv_def core_removeLease scheduled_mdel)

lemma books_extend:
  assumes books: "books_ok c" and l: "mget (AC_leases c) i = Some l"
  shows "books_ok (c\<lparr>AC_leases := mput i (l\<lparr>LI_ExpiresAt := t\<rparr>) (AC_leases c)\<rparr>)"
proof -
  let ?l = "l\<lparr>LI_ExpiresAt := t\<rparr>"
  have wf: "mwf (AC_leases c)" using books by (simp add: books_ok_def)
  have n: "mcount P (mput i ?l (AC_leases c)) = mcount P (AC_leases c)" if "P i ?l = P i l" for P
    using mcount_mput_present [OF wf l, of P ?l] that by (simp split: if_splits)
  from books l show ?thesis
    by (auto simp: books_ok_def counts_ok_def leases_backed_def backs_def n)
qed

lemma renewOne_inv:
  assumes inv: "admission_inv c"
  shows "admission_inv (fst (renewOne c now want)) \<and> shrinks c (fst (renewOne c now want))"
proof (cases "mget (AC_leases c) (LI_LeaseID want)")
  case None
  with inv show ?thesis by (simp add: renewOne_def inv_removeLease)
next
  case (Some got)
  have books: "books_ok c" using inv by (simp add: admission_inv_def core_inv_def)
  have ident: "LI_LeaseID got = LI_LeaseID want"
    using books_receipt [OF books Some] by (auto simp: backs_def)
  have "admission_inv (c\<lparr>AC_leases := mput (LI_LeaseID want) (got\<lparr>LI_ExpiresAt := t\<rparr>) (AC_leases c),
      AC_expiries := eq_add (AC_expiries c) admissionLeaseExpiry (LI_LeaseID got) t\<rparr>)" for t
  proof -
    let ?c = "c\<lparr>AC_leases := mput (LI_LeaseID want) (got\<lparr>LI_ExpiresAt := t\<rparr>) (AC_leases c)\<rparr>"
    have "core_inv ?c" using inv books_extend [OF books Some]
      by (simp add: admission_inv_def core_inv_def within_capacity_def)
    moreover have "scheduled (AC_leases ?c)
        (eq_add (AC_expiries c) admissionLeaseExpiry (LI_LeaseID got) t)"
      using scheduled_add [of "AC_leases c" "AC_expiries c" "got\<lparr>LI_ExpiresAt := t\<rparr>"] inv ident
      by (simp add: admission_inv_def)
    ultimately show ?thesis by (simp add: admission_inv_def)
  qed
  moreover have "shrinks c (c\<lparr>AC_leases := mput (LI_LeaseID want) (got\<lparr>LI_ExpiresAt := t\<rparr>) (AC_leases c),
      AC_expiries := q\<rparr>)" for t q
    using Some by (auto simp: shrinks_def)
  ultimately show ?thesis
    using inv Some by (auto simp: renewOne_def Let_def inv_removeLease)
qed

lemma same_books_chargeUsage: "same_books c (chargeUsage c now req usage)"
proof (cases usage)
  case (Some u)
  show ?thesis
    using same_books_trans [OF same_books_normalized same_books_addBalance]
    by (auto simp: Some chargeUsage_def Let_def case_prod_unfold)
qed (simp add: chargeUsage_def)

text \<open>The state after the completion of an open receipt.\<close>

definition completed ::
  "'fp AdmissionCoordinator \<Rightarrow> instant \<Rightarrow> LeaseCompletion \<Rightarrow> 'fp admissionReceipt \<Rightarrow> CompletionResult \<Rightarrow>
     'fp AdmissionCoordinator" where
  "completed c now item r res =
     (let i = LI_LeaseID (LC_Lease item); until = retentionBoundary (AR_OperationStartedAt (rc_request r)) now;
          c = chargeUsage (removeLease c i) now (rc_request r) (LC_Usage item)
      in addTerminal i until
           (c\<lparr>AC_receipts := mput i (r\<lparr>rc_completed := True, rc_completion := res, rc_retainUntil := until\<rparr>)
              (AC_receipts c)\<rparr>))"

lemma completeOne_open:
  assumes "mget (AC_receipts c) (LI_LeaseID (LC_Lease item)) = Some r"
    and "AD_Lease (rc_decision r) \<noteq> None" and "\<not> rc_completed r"
  shows "\<exists>res \<in> {CompletionReleased, CompletionLeaseLost}.
    completeOne c now item = (completed c now item r res,
      \<lparr>CR_LeaseID = LI_LeaseID (LC_Lease item), CR_Result = res, CR_OriginalResult = NoCompletion, CR_Reason = NoReason\<rparr>)"
  using assms by (auto simp: completeOne_def completed_def Let_def)

lemma completed_inv:
  assumes inv: "admission_inv c" and now: "0 < now" and r: "mget (AC_receipts c) (LI_LeaseID (LC_Lease item)) \<noteq> None"
  shows "admission_inv (completed c now item r' res)" and "shrinks c (completed c now item r' res)"
proof -
  let ?i = "LI_LeaseID (LC_Lease item)"
  let ?c = "chargeUsage (removeLease c ?i) now (rc_request r') (LC_Usage item)"
  have same: "same_books (removeLease c ?i) ?c" by (rule same_books_chargeUsage)
  have inv': "admission_inv ?c" using inv_same_books [OF inv_removeLease [OF inv] same] .
  have free: "mget (AC_leases ?c) ?i = None" and rec: "mget (AC_receipts ?c) ?i \<noteq> None"
    using r by (simp_all add: same_booksD [OF same])
  have "core_inv (completed c now item r' res)"
    using core_close_receipt [OF _ free rec] inv' retentionBoundary_pos [OF now]
    by (simp add: completed_def Let_def admission_inv_def)
  with inv' show "admission_inv (completed c now item r' res)"
    by (simp add: completed_def Let_def admission_inv_def addTerminal_def)
  have "shrinks ?c (completed c now item r' res)"
    using free by (auto simp: completed_def Let_def addTerminal_def intro!: shrinks_receipt)
  moreover have "shrinks (removeLease c ?i) ?c"
    by (rule shrinks_frame) (simp_all add: same_booksD [OF same])
  ultimately show "shrinks c (completed c now item r' res)"
    using shrinks_removeLease shrinks_trans by blast
qed

lemma completeOne_inv:
  assumes inv: "admission_inv c" and now: "0 < now"
  shows "admission_inv (fst (completeOne c now item)) \<and> shrinks c (fst (completeOne c now item))"
proof (cases "mget (AC_receipts c) (LI_LeaseID (LC_Lease item))")
  case None
  with inv show ?thesis by (simp add: completeOne_def Let_def)
next
  case (Some r)
  show ?thesis
  proof (cases "AD_Lease (rc_decision r) = None \<or> rc_completed r")
    case True
    with Some inv show ?thesis by (auto simp: completeOne_def Let_def)
  next
    case False
    then obtain res where "fst (completeOne c now item) = completed c now item r res"
      using completeOne_open [OF Some, of now] by auto
    with completed_inv [OF inv now] Some show ?thesis by simp
  qed
qed

lemma hasTerminalReceipt_inv:
  assumes "admission_inv c"
  shows "admission_inv (fst (hasTerminalReceipt c)) \<and> shrinks c (fst (hasTerminalReceipt c))"
  using assms dropStale_ok [of "AC_terminalExpiries c" "AC_receipts c"]
  by (auto simp: hasTerminalReceipt_def case_prod_unfold Let_def admission_inv_def core_inv_def
      books_ok_def counts_ok_def within_capacity_def shrinks_def)

section \<open>Sequences of operations\<close>

datatype admission_op =
    OpAcquire AdmissionRequest
  | OpRenew "LeaseIdentity list"
  | OpComplete "LeaseCompletion list"
  | OpStatus
  | OpPoolInflight int
  | OpObserve ClientRatePolicy

text \<open>One call: its context error, its clock reading and the operation.\<close>

type_synonym admission_event = "go_error option \<times> instant \<times> admission_op"

fun admission_step ::
  "(AdmissionRequest \<Rightarrow> 'fp) \<Rightarrow> 'fp AdmissionCoordinator \<Rightarrow> admission_event \<Rightarrow> 'fp AdmissionCoordinator" where
  "admission_step fp c (ctx, now, OpAcquire req) = fst (Acquire fp c ctx now req)"
| "admission_step fp c (ctx, now, OpRenew ls) = fst (Renew c ctx now ls)"
| "admission_step fp c (ctx, now, OpComplete cs) = fst (Complete c ctx now cs)"
| "admission_step fp c (ctx, now, OpStatus) = fst (AdmissionStatus c now)"
| "admission_step fp c (ctx, now, OpPoolInflight p) = fst (PoolInflight c now p)"
| "admission_step fp c (ctx, now, OpObserve p) = ObserveClientRatePolicy c p"

definition admission_run ::
  "(AdmissionRequest \<Rightarrow> 'fp) \<Rightarrow> 'fp AdmissionCoordinator \<Rightarrow> admission_event list \<Rightarrow> 'fp AdmissionCoordinator" where
  "admission_run fp c evs = foldl (admission_step fp) c evs"

definition clock_ok :: "admission_event list \<Rightarrow> bool" where
  "clock_ok evs \<longleftrightarrow> list_all (\<lambda>(ctx, now, op). 0 < now) evs"

lemma Renew_inv:
  assumes inv: "admission_inv c" and now: "0 < now"
  shows "admission_inv (fst (Renew c ctx now ls)) \<and> shrinks c (fst (Renew c ctx now ls))"
proof (cases ctx)
  case None
  have "admission_inv (fst (mapState (\<lambda>c. renewOne c now) (expire c now) ls)) \<and>
      shrinks c (fst (mapState (\<lambda>c. renewOne c now) (expire c now) ls))"
    by (rule mapState_invariant)
       (use renewOne_inv expire_establishes [OF inv now] shrinks_trans in blast)+
  with None show ?thesis by (simp add: Renew_def case_prod_unfold Let_def)
qed (simp add: Renew_def inv)

lemma Complete_inv:
  assumes inv: "admission_inv c" and now: "0 < now"
  shows "admission_inv (fst (Complete c ctx now cs)) \<and> shrinks c (fst (Complete c ctx now cs))"
proof (cases ctx)
  case None
  have "admission_inv (fst (mapState (\<lambda>c. completeOne c now) (expire c now) cs)) \<and>
      shrinks c (fst (mapState (\<lambda>c. completeOne c now) (expire c now) cs))"
    by (rule mapState_invariant)
       (use completeOne_inv [OF _ now] expire_establishes [OF inv now] shrinks_trans in blast)+
  with None show ?thesis by (simp add: Complete_def case_prod_unfold Let_def)
qed (simp add: Complete_def inv)

lemma step_not_acquire:
  assumes inv: "admission_inv c" and now: "0 < now" and op: "\<And>req. op \<noteq> OpAcquire req"
  shows "admission_inv (admission_step fp c (ctx, now, op)) \<and> shrinks c (admission_step fp c (ctx, now, op))"
proof (cases op)
  case (OpAcquire req)
  with op show ?thesis by blast
next
  case OpStatus
  with expire_establishes [OF inv now] hasTerminalReceipt_inv [of "expire c now"] show ?thesis
    by (auto simp: AdmissionStatus_def Let_def case_prod_unfold intro: shrinks_trans)
next
  case (OpPoolInflight p)
  with expire_establishes [OF inv now] show ?thesis by (simp add: PoolInflight_def Let_def)
next
  case (OpObserve p)
  have "same_books c (ObserveClientRatePolicy c p)" by (simp add: ObserveClientRatePolicy_def)
  with OpObserve inv inv_same_books show ?thesis by (auto simp: same_booksD intro: shrinks_frame)
qed (use Renew_inv [OF inv now] Complete_inv [OF inv now] in simp_all)

lemma step_inv:
  assumes inv: "admission_inv c" and now: "0 < now"
  shows "admission_inv (admission_step fp c (ctx, now, op))"
proof (cases "\<exists>req. op = OpAcquire req")
  case True
  then obtain req where op: "op = OpAcquire req" by blast
  show ?thesis unfolding op
    by (rule Acquire_outcome [OF inv now, of fp ctx req]) simp_all
qed (use step_not_acquire [OF inv now] in blast)

lemma new_inv: "admission_inv (newAdmissionCoordinator cap)"
  by (simp add: admission_inv_def core_inv_def books_ok_def leases_backed_def counts_ok_def terminal_ok_def
      within_capacity_def scheduled_def newAdmissionCoordinator_def heap_upto_def mlen_def mempty_def
      defaultLocalAdmissionReceiptCapacity_def) (simp add: mget_def mcount_def cget_def mwf_def)

lemma run_inv: "clock_ok evs \<Longrightarrow> admission_inv c \<Longrightarrow> admission_inv (admission_run fp c evs)"
proof (induction evs arbitrary: c)
  case (Cons e evs)
  obtain ctx now op where e: "e = (ctx, now, op)" by (cases e)
  with Cons.prems step_inv [of c now fp ctx op] have "admission_inv (admission_step fp c e)"
    by (simp add: clock_ok_def)
  with Cons.IH Cons.prems(1) show ?case by (simp add: admission_run_def clock_ok_def)
qed (simp add: admission_run_def)

section \<open>What expiry keeps and drops\<close>

lemma expire_pruned:
  assumes "admission_inv c" and "0 < now"
  obtains rs q where "expire c now = (expireLeases c now)\<lparr>AC_receipts := rs, AC_terminalExpiries := q\<rparr>"
    and "pruned (expireLeases c now) rs"
proof -
  have "core_inv (expireLeases c now)"
    using expireLeases_inv [OF assms] by (simp add: admission_inv_def)
  from expireReceipts_pruned [OF this] obtain rs q where
    "expireReceipts (expireLeases c now) now = (expireLeases c now)\<lparr>AC_receipts := rs, AC_terminalExpiries := q\<rparr>"
    "pruned (expireLeases c now) rs" by blast
  with that show thesis by (simp add: expire_def)
qed

lemma expireLeases_keeps:
  fixes c :: "'fp AdmissionCoordinator"
  assumes heap: "is_heap (AC_expiries c)" and l: "mget (AC_leases c) i = Some l" "now < LI_ExpiresAt l"
  shows "mget (AC_leases (expireLeases c now)) i = Some l \<and>
    mget (AC_receipts (expireLeases c now)) i = mget (AC_receipts c) i"
proof -
  let ?I = "\<lambda>s :: 'fp AdmissionCoordinator. mget (AC_leases s) i = Some l \<and>
    mget (AC_receipts s) i = mget (AC_receipts c) i"
  have "?I (snd (eq_drain (expireLease now) now (AC_expiries c) c))"
  proof (rule eq.drain_invariant [where I = ?I, OF heap])
    fix e and s :: "'fp AdmissionCoordinator"
    assume "?I s"
    then show "?I (expireLease now e s)"
      using expireLease_cases [of now e s] l(2) by (cases "i = ee_id e") (auto simp: addTerminal_def)
  qed (use l in simp)
  then show ?thesis by (simp add: expireLeases_simps)
qed

lemma expireLeases_only:
  fixes c :: "'fp AdmissionCoordinator"
  assumes heap: "is_heap (AC_expiries c)" and l: "mget (AC_leases (expireLeases c now)) i = Some l"
  shows "mget (AC_leases c) i = Some l"
proof -
  let ?I = "\<lambda>s :: 'fp AdmissionCoordinator. mget (AC_leases s) i = Some l \<longrightarrow> mget (AC_leases c) i = Some l"
  have "?I (snd (eq_drain (expireLease now) now (AC_expiries c) c))"
  proof (rule eq.drain_invariant [where I = ?I, OF heap])
    fix e and s :: "'fp AdmissionCoordinator"
    assume "?I s"
    then show "?I (expireLease now e s)"
      using expireLease_leases [of now e s] by (auto split: if_splits)
  qed simp
  with l show ?thesis by (simp add: expireLeases_simps)
qed

lemma expire_leases:
  assumes inv: "admission_inv c" and now: "0 < now"
  shows "mget (AC_leases (expire c now)) i =
    (case mget (AC_leases c) i of None \<Rightarrow> None
     | Some l \<Rightarrow> if now < LI_ExpiresAt l then Some l else None)"
proof -
  have heap: "is_heap (AC_expiries c)" using inv by (simp add: admission_inv_def scheduled_def)
  obtain rs q where e: "expire c now = (expireLeases c now)\<lparr>AC_receipts := rs, AC_terminalExpiries := q\<rparr>"
    using expire_pruned [OF inv now] by blast
  have live: "mget (AC_leases (expire c now)) i = Some l \<Longrightarrow> now < LI_ExpiresAt l" for l
    using expire_establishes(2) [OF inv now] by (simp add: all_live_def)
  show ?thesis
  proof (cases "mget (AC_leases (expire c now)) i")
    case None
    then show ?thesis
      using expireLeases_keeps [OF heap, of i] by (auto simp: e split: option.split)
  next
    case (Some l)
    with live have "now < LI_ExpiresAt l" by simp
    moreover have "mget (AC_leases c) i = Some l"
      using expireLeases_only [OF heap, of now i l] Some by (simp add: e)
    ultimately show ?thesis using Some by simp
  qed
qed

lemma expire_keeps_live:
  assumes inv: "admission_inv c" and now: "0 < now" and l: "mget (AC_leases c) i = Some l" "now < LI_ExpiresAt l"
  shows "mget (AC_receipts (expire c now)) i = mget (AC_receipts c) i"
proof -
  have heap: "is_heap (AC_expiries c)" using inv by (simp add: admission_inv_def scheduled_def)
  obtain rs q where e: "expire c now = (expireLeases c now)\<lparr>AC_receipts := rs, AC_terminalExpiries := q\<rparr>"
    and p: "pruned (expireLeases c now) rs"
    using expire_pruned [OF inv now] by blast
  have k: "mget (AC_leases (expireLeases c now)) i = Some l"
    "mget (AC_receipts (expireLeases c now)) i = mget (AC_receipts c) i"
    using expireLeases_keeps [OF heap l] by auto
  with prunedD(4) [OF p k(1)] show ?thesis by (simp add: e)
qed

text \<open>A closed receipt is kept until its retention boundary.\<close>

lemma expire_keeps_closed:
  fixes c :: "'fp AdmissionCoordinator"
  assumes inv: "admission_inv c" and now: "0 < now"
    and r: "mget (AC_receipts c) i = Some r" "now < rc_retainUntil r"
  shows "mget (AC_receipts (expire c now)) i = Some r"
proof -
  have heap: "is_heap (AC_expiries c)" and t: "is_heap (AC_terminalExpiries (expireLeases c now))"
    using inv expireLeases_inv(1) [OF inv now]
    by (simp_all add: admission_inv_def scheduled_def core_inv_def terminal_ok_def)
  have free: "mget (AC_leases c) i = None"
  proof (rule ccontr)
    assume "mget (AC_leases c) i \<noteq> None"
    moreover have "books_ok c" using inv by (simp add: admission_inv_def core_inv_def)
    ultimately obtain l r' where "mget (AC_receipts c) i = Some r'" "backs i l r'"
      using books_receipt [of c i] by blast
    with r now show False by (simp add: backs_def)
  qed
  let ?I = "\<lambda>s :: 'fp AdmissionCoordinator. mget (AC_leases s) i = None \<and> mget (AC_receipts s) i = Some r"
  have "?I (snd (eq_drain (expireLease now) now (AC_expiries c) c))"
  proof (rule eq.drain_invariant [where I = ?I, OF heap])
    fix e and s :: "'fp AdmissionCoordinator"
    assume "?I s"
    then show "?I (expireLease now e s)"
      using expireLease_cases [of now e s] by (cases "i = ee_id e") (auto simp: addTerminal_def)
  qed (use r free in simp)
  then have 1: "mget (AC_receipts (expireLeases c now)) i = Some r" by (simp add: expireLeases_simps)
  let ?J = "\<lambda>s :: 'fp AdmissionCoordinator. mget (AC_receipts s) i = Some r"
  have "?J (snd (eq_drain (expireReceipt now) now (AC_terminalExpiries (expireLeases c now)) (expireLeases c now)))"
    by (rule eq.drain_invariant [where I = ?J, OF t])
       (use 1 r(2) in \<open>auto simp: expireReceipt_def split: option.split\<close>)
  then show ?thesis by (simp add: expire_def expireReceipts_def case_prod_unfold Let_def)
qed

end
