(* ===== verification/Admission_Properties.thy ===== *)
theory Admission_Properties
  imports Admission_Operations
begin

text \<open>
  Properties of the in-process admission coordinator over every sequence of operations:
  balanced books, pool limits and the high-priority reserve, exact in-flight counts,
  idempotent acquisition and exactly-once completion.
\<close>

section \<open>Pool limits\<close>

text \<open>All acquisitions for pool \<open>p\<close> carry the same inflight limit and reserve.\<close>

definition pool_configured :: "int \<Rightarrow> int \<Rightarrow> int \<Rightarrow> admission_event list \<Rightarrow> bool" where
  "pool_configured p lmt res evs \<longleftrightarrow>
     (\<forall>(ctx, now, op) \<in> set evs. case op of
        OpAcquire req \<Rightarrow> AR_PoolID req = p \<longrightarrow>
          AR_PoolGatewayInflightLimit req = lmt \<and> AR_PoolHighPriorityReserve req = res
      | _ \<Rightarrow> True)"

definition pool_bounded :: "int \<Rightarrow> int \<Rightarrow> int \<Rightarrow> 'fp AdmissionCoordinator \<Rightarrow> bool" where
  "pool_bounded p lmt res c \<longleftrightarrow> cget (AC_poolInflight c) p \<le> lmt \<and>
     (0 < res \<longrightarrow> cget (AC_poolLowerInflight c) p \<le> lmt - res)"

lemma pool_bounded_shrinks:
  "pool_bounded p lmt res c \<Longrightarrow> shrinks c c' \<Longrightarrow> admission_inv c \<Longrightarrow> admission_inv c' \<Longrightarrow>
     pool_bounded p lmt res c'"
  using shrinks_counts [of c c' p] by (auto simp: pool_bounded_def admission_inv_def core_inv_def)

lemma pool_bounded_admit:
  assumes b: "pool_bounded p lmt res c" and chk: "checkCounts c req = Admit" and lmt: "0 < lmt"
    and cfg: "AR_PoolID req = p \<Longrightarrow> AR_PoolGatewayInflightLimit req = lmt \<and> AR_PoolHighPriorityReserve req = res"
  shows "pool_bounded p lmt res (admitAcquire c (newReceipt f req) (newLease req now))"
proof (cases "AR_PoolID req = p")
  case True
  then have "cget (AC_poolInflight c) p < lmt"
    "0 < res \<Longrightarrow> lowerPriority (AR_PriorityClass req) \<Longrightarrow> cget (AC_poolLowerInflight c) p < lmt - res"
    using chk cfg lmt by (auto simp: checkCounts_def split: if_splits)
  with b True show ?thesis
    by (auto simp: pool_bounded_def admitAcquire_def Let_def newReceipt_def newLease_def)
next
  case False
  with b show ?thesis
    by (auto simp: pool_bounded_def admitAcquire_def Let_def newReceipt_def newLease_def)
qed

lemma admits_checkCounts:
  assumes "acquireVerdict c req now = (c', Admit)"
  shows "checkCounts c' req = Admit"
  using acquireVerdict_Admit(1) [OF assms] same_books_acquireVerdict [of c req now] assms
  by (simp add: checkCounts_same_books)

lemma pool_bounded_step:
  assumes b: "pool_bounded p lmt res c" and inv: "admission_inv c" and now: "0 < now" and lmt: "0 < lmt"
    and cfg: "pool_configured p lmt res [(ctx, now, op)]"
  shows "pool_bounded p lmt res (admission_step fp c (ctx, now, op))"
proof (cases "\<exists>req. op = OpAcquire req")
  case True
  then obtain req where op: "op = OpAcquire req" by blast
  show ?thesis
  proof (cases rule: Acquire_outcome [OF inv now, of fp ctx req])
    case 1
    with pool_bounded_shrinks [OF b] inv op show ?thesis by simp
  next
    case admits: (2 c')
    have "pool_bounded p lmt res c'" using pool_bounded_shrinks [OF b admits(6) inv admits(5)] .
    then show ?thesis
      using pool_bounded_admit [OF _ admits_checkCounts [OF admits(3)] lmt] cfg op admits(4)
      by (simp add: pool_configured_def)
  qed
next
  case False
  with step_not_acquire [OF inv now, of op fp ctx] pool_bounded_shrinks [OF b] inv show ?thesis by blast
qed

lemma pool_bounded_run:
  assumes "clock_ok evs" and "pool_configured p lmt res evs" and "0 < lmt"
  shows "admission_inv c \<Longrightarrow> pool_bounded p lmt res c \<Longrightarrow> pool_bounded p lmt res (admission_run fp c evs)"
  using assms(1,2)
proof (induction evs arbitrary: c)
  case (Cons e evs)
  obtain ctx now op where e: "e = (ctx, now, op)" by (cases e)
  with Cons.prems have now: "0 < now" and cfg: "pool_configured p lmt res [(ctx, now, op)]"
    "pool_configured p lmt res evs" "clock_ok evs"
    by (auto simp: clock_ok_def pool_configured_def)
  show ?case
    using Cons.IH [OF _ _ cfg(3,2)] step_inv [OF Cons.prems(1) now]
      pool_bounded_step [OF Cons.prems(2,1) now assms(3) cfg(1)] e
    by (simp add: admission_run_def)
qed (simp add: admission_run_def)

lemma new_bounded: "0 \<le> lmt \<Longrightarrow> res \<le> lmt \<Longrightarrow> pool_bounded p lmt res (newAdmissionCoordinator cap)"
  by (simp add: pool_bounded_def newAdmissionCoordinator_def)

text \<open>The requests of the worked examples: pool 1 with two slots, one reserved.\<close>

definition demo_request :: "uuid \<Rightarrow> PriorityClass \<Rightarrow> AdmissionRequest" where
  "demo_request i class =
     \<lparr>AR_LeaseID = i, AR_OperationStartedAt = 1000, AR_RequestID = ''r'', AR_ReplicaID = 1,
      AR_ConfigurationRevision = 1, AR_APIKeyID = 1, AR_ClientID = 7, AR_PoolID = 1,
      AR_ClientPolicyRevision = 1, AR_EffectiveClientLimit = 4, AR_ConfiguredClientLimit = 4,
      AR_PoolGatewayInflightLimit = 2, AR_PoolHighPriorityReserve = 1, AR_PriorityClass = class,
      AR_RequestsPerMinute = 3, AR_TokensPerMinute = 0, AR_LeaseTTL = 100\<rparr>"

definition demo_events :: "admission_event list" where
  "demo_events =
     [(None, 1000, OpAcquire (demo_request 11 PriorityNormal)),
      (None, 1001, OpAcquire (demo_request 12 PriorityNormal)),
      (None, 1002, OpAcquire (demo_request 13 PriorityHigh))]"

lemma demo_clock: "clock_ok demo_events"
  by (simp add: clock_ok_def demo_events_def)

lemma demo_configured: "pool_configured 1 2 1 demo_events"
  by (simp add: pool_configured_def demo_events_def demo_request_def)

lemma demo_counts:
  "let c = admission_run (\<lambda>_. ()) (newAdmissionCoordinator 8) demo_events
   in cget (AC_poolInflight c) 1 = 2 \<and> cget (AC_poolLowerInflight c) 1 = 1 \<and> mlen (AC_receipts c) = 3"
  by code_simp

section \<open>Decisions of single operations\<close>

lemma high_shrinks:
  assumes "shrinks c c'" and "admission_inv c" and "admission_inv c'"
  shows "cget (AC_poolInflight c') p - cget (AC_poolLowerInflight c') p \<le>
    cget (AC_poolInflight c) p - cget (AC_poolLowerInflight c) p"
proof -
  have books: "books_ok c" "books_ok c'" using assms(2,3) by (simp_all add: admission_inv_def core_inv_def)
  then have wf: "mwf (AC_leases c)" "mwf (AC_leases c')" and n: "counts_ok c" "counts_ok c'"
    by (simp_all add: books_ok_def)
  have diff: "cget (AC_poolInflight c) p - cget (AC_poolLowerInflight c) p =
      int (mcount (\<lambda>i l. LI_PoolID l = p \<and> \<not> isLower (AC_receipts c) i) (AC_leases c))"
    if "counts_ok c" for c :: "'a AdmissionCoordinator"
    using that mcount_split [of "\<lambda>i l. LI_PoolID l = p" "AC_leases c" "\<lambda>i l. isLower (AC_receipts c) i"]
    by (simp add: counts_ok_def)
  have "mcount (\<lambda>i l. LI_PoolID l = p \<and> \<not> isLower (AC_receipts c') i) (AC_leases c') \<le>
      mcount (\<lambda>i l. LI_PoolID l = p \<and> \<not> isLower (AC_receipts c) i) (AC_leases c)"
    by (rule mcount_mono [OF wf(2,1)]) (use assms(1) in \<open>unfold shrinks_def, metis\<close>)
  with diff n show ?thesis by simp
qed

text \<open>While the pool has a free slot, an urgent request is not refused for the pool's sake.\<close>

primrec poolRefusal :: "verdict \<Rightarrow> bool" where
  "poolRefusal (Reject reason retry scope) \<longleftrightarrow>
     reason = ReasonPoolPriorityReserve \<or> scope = Some AdmissionPoolScope"
| "poolRefusal Admit \<longleftrightarrow> False"

lemma rates_not_pool:
  "\<not> poolRefusal (snd (checkTPM c k p now))" "\<not> poolRefusal (snd (checkRPM c k p now))"
  by (simp_all add: checkTPM_def checkRPM_def case_prod_unfold Let_def)

lemma verdict_not_pool:
  assumes "cget (AC_poolInflight c) (AR_PoolID req) < AR_PoolGatewayInflightLimit req"
    and "\<not> lowerPriority (AR_PriorityClass req)"
  shows "\<not> poolRefusal (snd (acquireVerdict c req now))"
proof -
  let ?o = "fst (observeRatePolicy c req)" and ?p = "snd (observeRatePolicy c req)"
  have same: "same_books c ?o" by (simp add: observeRatePolicy_def)
  have "\<not> poolRefusal (checkCounts ?o req)"
    using assms by (simp add: checkCounts_def same_booksD [OF same])
  moreover have "\<not> poolRefusal (snd (checkTPM ?o (AR_ClientID req) ?p now))"
    "\<not> poolRefusal (snd (checkRPM b (AR_ClientID req) ?p now))" for b :: "'a AdmissionCoordinator"
    by (rule rates_not_pool)+
  ultimately show ?thesis
    by (auto simp: acquireVerdict_def case_prod_unfold Let_def split: verdict.splits)
qed

lemma Acquire_not_pool:
  assumes inv: "admission_inv c" and now: "0 < now" and b: "pool_bounded (AR_PoolID req) lmt res c"
    and cfg: "AR_PoolGatewayInflightLimit req = lmt" "0 < res"
    and high: "\<not> lowerPriority (AR_PriorityClass req)"
      "cget (AC_poolInflight c) (AR_PoolID req) - cget (AC_poolLowerInflight c) (AR_PoolID req) < res"
    and fresh: "reachesChecks c now req" and d: "snd (Acquire fp c None now req) = Inr d"
  shows "AD_Reason d \<noteq> ReasonPoolPriorityReserve \<and> AD_ConcurrencyScope d \<noteq> AdmissionPoolScope"
proof -
  let ?e = "acquireEntry fp c now req"
  note e = acquireEntry_inv [OF inv now fresh, of fp]
  have "cget (AC_poolInflight ?e) (AR_PoolID req) < AR_PoolGatewayInflightLimit req"
    using high_shrinks [OF e(2) inv e(1), of "AR_PoolID req"] high(2) cfg
      pool_bounded_shrinks [OF b e(2) inv e(1)] by (simp add: pool_bounded_def)
  then have v: "\<not> poolRefusal (snd (acquireVerdict ?e req now))"
    by (rule verdict_not_pool) (rule high(1))
  obtain c' w where w: "acquireVerdict ?e req now = (c', w)" by fastforce
  show ?thesis
    using v w d Acquire_checks [OF fresh, of fp]
    by (cases w) (auto simp: rejectDecision_def emptyDecision_def split: option.splits if_splits)
qed

lemma admitted_open:
  assumes inv: "admission_inv c" and now: "0 < now"
    and a: "Acquire fp c None now req = (c', Inr d)" "AD_Lease d = Some l"
  shows "d = emptyDecision\<lparr>AD_Lease := Some l\<rparr> \<and> mget (AC_leases c') (AR_LeaseID req) = Some l \<and>
    (\<exists>r. mget (AC_receipts c') (AR_LeaseID req) = Some r \<and> rc_fingerprint r = fp req)"
proof (cases rule: Acquire_outcome [OF inv now, of fp None req])
  case keeps: 1
  then have no: "\<not> (reachesChecks c now req \<and> snd (acquireVerdict (acquireEntry fp c now req) req now) = Admit)"
    by simp
  have "\<not> reachesChecks c now req"
    using no a Acquire_checks [of c now req fp]
    by (auto simp: rejectDecision_def split: verdict.splits prod.splits)
  then obtain old where old: "mget (AC_receipts (expire c now)) (AR_LeaseID req) = Some old"
    using a Acquire_no_room [of c now req fp]
    by (cases "mget (AC_receipts (expire c now)) (AR_LeaseID req)") (auto simp: reachesChecks_def emptyDecision_def)
  then have "c' = expire c now" "d = replayAcquire (expire c now) old (fp req) (AR_LeaseID req) now"
    using a Acquire_replay [OF old, of fp] by auto
  with old a(2) show ?thesis
    by (auto simp: replayAcquire_def emptyDecision_def split: if_splits option.splits)
next
  case (2 c'')
  with a show ?thesis
    by (auto simp: admitAcquire_def Let_def newReceipt_def emptyDecision_def)
qed

text \<open>Completing one lease: who is released, and what a second completion finds.\<close>

lemma Complete_one:
  "Complete c None now [item] = (fst (completeOne (expire c now) now item), Inr [snd (completeOne (expire c now) now item)])"
  by (simp add: Complete_def case_prod_unfold Let_def)

lemma completed_receipt:
  "mget (AC_receipts (completed c now item r res)) (LI_LeaseID (LC_Lease item)) =
     Some (r\<lparr>rc_completed := True, rc_completion := res,
             rc_retainUntil := retentionBoundary (AR_OperationStartedAt (rc_request r)) now\<rparr>)"
  "mget (AC_leases (completed c now item r res)) (LI_LeaseID (LC_Lease item)) = None"
  using same_booksD [OF same_books_chargeUsage [of "removeLease c (LI_LeaseID (LC_Lease item))" now "rc_request r" "LC_Usage item"]]
  by (simp_all add: completed_def Let_def addTerminal_def)

lemma completeOne_released:
  assumes inv: "admission_inv c"
  shows "CR_Result (snd (completeOne c now item)) = CompletionReleased \<longleftrightarrow>
    (\<exists>l. mget (AC_leases c) (LI_LeaseID (LC_Lease item)) = Some l \<and> now < LI_ExpiresAt l)"
proof -
  let ?i = "LI_LeaseID (LC_Lease item)"
  have books: "books_ok c" using inv by (simp add: admission_inv_def core_inv_def)
  show ?thesis
  proof (cases "mget (AC_leases c) ?i")
    case None
    then show ?thesis by (auto simp: completeOne_def Let_def split: option.split)
  next
    case (Some l)
    then obtain r where "mget (AC_receipts c) ?i = Some r" "backs ?i l r" using books_receipt [OF books] by blast
    with Some show ?thesis by (auto simp: completeOne_def Let_def backs_def)
  qed
qed

section \<open>Properties\<close>

text \<open>
  C1: After any sequence of acquisitions, renewals, completions, status reads and policy
  observations, with any clock readings after the zero time, the books balance: the client,
  pool and lower-priority counters are exactly the numbers of leases held, every lease is
  backed by an open receipt of the same client and pool, the receipts never exceed their
  capacity, and the nil dereference in \<open>removeLease\<close> never happens.
\<close>

theorem admission_books_balance:
  fixes fp :: "AdmissionRequest \<Rightarrow> 'fp" and cap :: int
  assumes "clock_ok evs"
  defines "c \<equiv> admission_run fp (newAdmissionCoordinator cap) evs"
  shows "\<not> AC_panicked c \<and>
    (\<forall>k. cget (AC_clientInflight c) k = mcount (\<lambda>i l. LI_ClientID l = k) (AC_leases c)) \<and>
    (\<forall>k. cget (AC_poolInflight c) k = mcount (\<lambda>i l. LI_PoolID l = k) (AC_leases c)) \<and>
    (\<forall>k. cget (AC_poolLowerInflight c) k =
       mcount (\<lambda>i l. LI_PoolID l = k \<and> isLower (AC_receipts c) i) (AC_leases c)) \<and>
    (\<forall>i l. mget (AC_leases c) i = Some l \<longrightarrow>
       (\<exists>r. mget (AC_receipts c) i = Some r \<and> AR_ClientID (rc_request r) = LI_ClientID l \<and>
            AR_PoolID (rc_request r) = LI_PoolID l \<and> \<not> rc_completed r \<and> \<not> rc_expired r)) \<and>
    int (mlen (AC_receipts c)) \<le> AC_receiptCapacity c"
proof -
  have "admission_inv c" unfolding c_def by (rule run_inv [OF assms(1) new_inv])
  then have books: "books_ok c" and cap: "within_capacity c"
    by (simp_all add: admission_inv_def core_inv_def)
  have "\<exists>r. mget (AC_receipts c) i = Some r \<and> AR_ClientID (rc_request r) = LI_ClientID l \<and>
      AR_PoolID (rc_request r) = LI_PoolID l \<and> \<not> rc_completed r \<and> \<not> rc_expired r"
    if "mget (AC_leases c) i = Some l" for i l
    using books_receipt [OF books that] by (auto simp: backs_def)
  with books cap show ?thesis
    unfolding books_ok_def counts_ok_def within_capacity_def by blast
qed

theorem admission_books_balance_witness:
  "let c = admission_run (\<lambda>_. ()) (newAdmissionCoordinator 8) demo_events
   in cget (AC_poolInflight c) 1 = mcount (\<lambda>i l. LI_PoolID l = 1) (AC_leases c) \<and>
      cget (AC_poolInflight c) 1 = 2"
  using admission_books_balance [OF demo_clock, where fp = "\<lambda>_. ()" and cap = 8] demo_counts by (simp add: Let_def)

text \<open>
  C2: With a fixed pool configuration, in every sequence of operations the pool never holds
  more leases than its inflight limit, and the leases below High never take more than the
  limit minus the high-priority reserve.
\<close>

theorem pool_limit_and_reserve:
  fixes fp :: "AdmissionRequest \<Rightarrow> 'fp" and cap :: int
  assumes "clock_ok evs" and "pool_configured p lmt res evs" and "0 < lmt" and "0 < res" and "res \<le> lmt"
  defines "c \<equiv> admission_run fp (newAdmissionCoordinator cap) evs"
  shows "int (mcount (\<lambda>i l. LI_PoolID l = p) (AC_leases c)) \<le> lmt \<and>
    int (mcount (\<lambda>i l. LI_PoolID l = p \<and> isLower (AC_receipts c) i) (AC_leases c)) \<le> lmt - res"
proof -
  have "admission_inv c" unfolding c_def by (rule run_inv [OF assms(1) new_inv])
  then have "counts_ok c" by (simp add: admission_inv_def core_inv_def books_ok_def)
  moreover have "pool_bounded p lmt res c"
    unfolding c_def by (rule pool_bounded_run [OF assms(1-3) new_inv new_bounded]) (use assms(3,5) in simp_all)
  ultimately show ?thesis using assms(4) by (simp add: pool_bounded_def counts_ok_def)
qed

theorem pool_limit_and_reserve_witness:
  "let c = admission_run (\<lambda>_. ()) (newAdmissionCoordinator 8) demo_events
   in length demo_events = 3 \<and> int (mcount (\<lambda>i l. LI_PoolID l = 1) (AC_leases c)) \<le> 2 \<and>
      int (mcount (\<lambda>i l. LI_PoolID l = 1 \<and> isLower (AC_receipts c) i) (AC_leases c)) \<le> 1"
  using pool_limit_and_reserve [OF demo_clock demo_configured, where fp = "\<lambda>_. ()" and cap = 8]
  by (simp add: Let_def demo_events_def)

text \<open>
  C30: The reserve does its job: under a fixed pool configuration, a High or Critical request
  that reaches the checks while fewer than \<open>res\<close> urgent leases are held in its pool is never
  refused because of the pool, however much lower-priority work is in flight.
\<close>

theorem reserve_admits_urgent:
  fixes fp :: "AdmissionRequest \<Rightarrow> 'fp" and cap :: int
  assumes "clock_ok evs" and "pool_configured (AR_PoolID req) lmt res evs" and "0 < res" and "res \<le> lmt"
    and "AR_PoolGatewayInflightLimit req = lmt"
    and "AR_PriorityClass req = PriorityHigh \<or> AR_PriorityClass req = PriorityCritical" and "0 < now"
  defines "c \<equiv> admission_run fp (newAdmissionCoordinator cap) evs"
  assumes "cget (AC_poolInflight c) (AR_PoolID req) - cget (AC_poolLowerInflight c) (AR_PoolID req) < res"
    and "mget (AC_receipts (expire c now)) (AR_LeaseID req) = None"
    and "snd (makeReceiptRoom (expire c now))"
    and "snd (Acquire fp c None now req) = Inr d"
  shows "AD_Reason d \<noteq> ReasonPoolPriorityReserve \<and> AD_ConcurrencyScope d \<noteq> AdmissionPoolScope"
proof -
  have inv: "admission_inv c" unfolding c_def by (rule run_inv [OF assms(1) new_inv])
  have b: "pool_bounded (AR_PoolID req) lmt res c"
    unfolding c_def by (rule pool_bounded_run [OF assms(1,2) _ new_inv new_bounded]) (use assms(3,4) in simp_all)
  have high: "\<not> lowerPriority (AR_PriorityClass req)" using assms(6) by (auto simp: lowerPriority_def)
  have "reachesChecks c now req" using assms(10,11) by (simp add: reachesChecks_def)
  then show ?thesis
    using Acquire_not_pool [OF inv assms(7) b assms(5,3) high assms(9) _ assms(12)] by simp
qed

lemma demo_urgent:
  "let c = admission_run (\<lambda>_. ()) (newAdmissionCoordinator 8) (take 2 demo_events)
   in cget (AC_poolInflight c) 1 - cget (AC_poolLowerInflight c) 1 = 0 \<and>
      mget (AC_receipts (expire c 1002)) 13 = None \<and> snd (makeReceiptRoom (expire c 1002)) \<and>
      snd (Acquire (\<lambda>_. ()) c None 1002 (demo_request 13 PriorityHigh)) =
        Inr (emptyDecision\<lparr>AD_Lease := Some (newLease (demo_request 13 PriorityHigh) 1002)\<rparr>)"
  by code_simp

theorem reserve_admits_urgent_witness:
  "AD_Reason (emptyDecision\<lparr>AD_Lease := Some (newLease (demo_request 13 PriorityHigh) 1002)\<rparr>) \<noteq>
     ReasonPoolPriorityReserve"
proof -
  have "clock_ok (take 2 demo_events)" "pool_configured 1 2 1 (take 2 demo_events)"
    by (simp_all add: clock_ok_def pool_configured_def demo_events_def demo_request_def)
  then show ?thesis
    using reserve_admits_urgent [where evs = "take 2 demo_events" and req = "demo_request 13 PriorityHigh"
        and lmt = 2 and res = 1 and now = 1002 and fp = "\<lambda>_. ()" and cap = 8
        and d = "emptyDecision\<lparr>AD_Lease := Some (newLease (demo_request 13 PriorityHigh) 1002)\<rparr>"] demo_urgent
    by (simp add: Let_def demo_request_def)
qed

text \<open>
  C29: Acquisition is idempotent: after an acquisition was admitted, repeating it before the
  lease expires returns the same lease and takes no further slot; a different request that
  reuses the lease id is answered with an idempotency conflict.
\<close>

theorem Acquire_idempotent:
  fixes fp :: "AdmissionRequest \<Rightarrow> 'fp" and cap :: int
  assumes "clock_ok evs" and "0 < now" and "0 < now'"
  defines "c \<equiv> admission_run fp (newAdmissionCoordinator cap) evs"
  assumes "Acquire fp c None now req = (c', Inr d)" and "AD_Lease d = Some l" and "now' < LI_ExpiresAt l"
    and "AR_LeaseID req' = AR_LeaseID req"
  shows "Acquire fp c' None now' req' =
    (expire c' now', Inr (if fp req' = fp req then d else emptyDecision\<lparr>AD_Reason := ReasonIdempotencyConflict\<rparr>))"
proof -
  let ?i = "AR_LeaseID req"
  have inv: "admission_inv c" unfolding c_def by (rule run_inv [OF assms(1) new_inv])
  have inv': "admission_inv c'"
    using step_inv [OF inv assms(2), of fp None "OpAcquire req"] assms(5) by simp
  obtain r where d: "d = emptyDecision\<lparr>AD_Lease := Some l\<rparr>" and l: "mget (AC_leases c') ?i = Some l"
    and r: "mget (AC_receipts c') ?i = Some r" "rc_fingerprint r = fp req"
    using admitted_open [OF inv assms(2,5,6)] by blast
  have "books_ok c'" using inv' by (simp add: admission_inv_def core_inv_def)
  then have b: "backs ?i l r" using books_receipt [OF _ l] r(1) by force
  have "mget (AC_receipts (expire c' now')) ?i = Some r"
    using expire_keeps_live [OF inv' assms(3) l assms(7)] r(1) by simp
  moreover have "mget (AC_leases (expire c' now')) ?i = Some l"
    using expire_leases [OF inv' assms(3), of ?i] l assms(7) by simp
  ultimately show ?thesis
    using Acquire_replay [of c' now' req' r fp] b r(2) d assms(7,8)
    by (simp add: replayAcquire_def backs_def)
qed

lemma demo_admitted:
  "let (c', d) = Acquire (\<lambda>r. AR_PriorityClass r) (admission_run (\<lambda>r. AR_PriorityClass r) (newAdmissionCoordinator 8) []) None 1000
                   (demo_request 11 PriorityNormal)
   in d = Inr (emptyDecision\<lparr>AD_Lease := Some (newLease (demo_request 11 PriorityNormal) 1000)\<rparr>)"
  by code_simp

theorem Acquire_idempotent_witness:
  "snd (Acquire (\<lambda>r. AR_PriorityClass r)
     (fst (Acquire (\<lambda>r. AR_PriorityClass r) (admission_run (\<lambda>r. AR_PriorityClass r) (newAdmissionCoordinator 8) [])
        None 1000 (demo_request 11 PriorityNormal))) None 1050 (demo_request 11 PriorityNormal)) =
   Inr (emptyDecision\<lparr>AD_Lease := Some (newLease (demo_request 11 PriorityNormal) 1000)\<rparr>)"
proof -
  let ?c = "admission_run (\<lambda>r. AR_PriorityClass r) (newAdmissionCoordinator 8) []"
  let ?d = "emptyDecision\<lparr>AD_Lease := Some (newLease (demo_request 11 PriorityNormal) 1000)\<rparr>"
  have "Acquire (\<lambda>r. AR_PriorityClass r) ?c None 1000 (demo_request 11 PriorityNormal) =
      (fst (Acquire (\<lambda>r. AR_PriorityClass r) ?c None 1000 (demo_request 11 PriorityNormal)), Inr ?d)"
    using demo_admitted by (simp add: case_prod_unfold prod_eq_iff)
  from Acquire_idempotent [OF _ _ _ this, where now' = 1050 and l = "newLease (demo_request 11 PriorityNormal) 1000"
      and req' = "demo_request 11 PriorityNormal"]
  show ?thesis by (simp add: clock_ok_def newLease_def demo_request_def)
qed

text \<open>
  C6: Completion happens exactly once. The first completion of an admitted lease reports
  \<open>released\<close> exactly if the lease has not expired, and removes it. A later completion of
  the same lease, within the receipt retention of a day, reports \<open>already_completed\<close> with
  the first result, and changes nothing: in particular no tokens are charged twice.
\<close>

theorem Complete_exactly_once:
  fixes fp :: "AdmissionRequest \<Rightarrow> 'fp" and cap :: int
  assumes "clock_ok evs" and "0 < now" and "0 < now'" and "now' < now + receiptRetention"
  defines "c \<equiv> admission_run fp (newAdmissionCoordinator cap) evs"
  assumes "Complete c None now [item] = (c1, Inr [out])"
    and "CR_Result out \<in> {CompletionReleased, CompletionLeaseLost}" and "CR_Reason out = NoReason"
    and "LI_LeaseID (LC_Lease item') = LI_LeaseID (LC_Lease item)"
  shows "(CR_Result out = CompletionReleased \<longleftrightarrow>
      (\<exists>l. mget (AC_leases c) (LI_LeaseID (LC_Lease item)) = Some l \<and> now < LI_ExpiresAt l)) \<and>
    mget (AC_leases c1) (LI_LeaseID (LC_Lease item)) = None \<and>
    Complete c1 None now' [item'] =
      (expire c1 now', Inr [out\<lparr>CR_Result := CompletionAlreadyCompleted, CR_OriginalResult := CR_Result out\<rparr>])"
proof -
  let ?i = "LI_LeaseID (LC_Lease item)" and ?e = "expire c now"
  have inv: "admission_inv c" unfolding c_def by (rule run_inv [OF assms(1) new_inv])
  have inv': "admission_inv ?e" by (rule expire_establishes(1) [OF inv assms(2)])
  have c1: "c1 = fst (completeOne ?e now item)" and out: "out = snd (completeOne ?e now item)"
    using assms(6) Complete_one [of c now item] by auto
  obtain r where r: "mget (AC_receipts ?e) ?i = Some r" "AD_Lease (rc_decision r) \<noteq> None" "\<not> rc_completed r"
    using assms(7,8) unfolding out
    by (auto simp: completeOne_def Let_def split: option.splits if_splits)
  obtain res where c1': "c1 = completed ?e now item r res"
    and out': "out = \<lparr>CR_LeaseID = ?i, CR_Result = res, CR_OriginalResult = NoCompletion, CR_Reason = NoReason\<rparr>"
    using completeOne_open [OF r, of now] c1 out by auto
  have inv1: "admission_inv c1" unfolding c1' by (rule completed_inv [OF inv' assms(2)]) (use r in simp)
  let ?r = "r\<lparr>rc_completed := True, rc_completion := res,
    rc_retainUntil := retentionBoundary (AR_OperationStartedAt (rc_request r)) now\<rparr>"
  have "mget (AC_receipts (expire c1 now')) ?i = Some ?r"
    by (rule expire_keeps_closed [OF inv1 assms(3)])
       (use assms(4) in \<open>simp_all add: c1' completed_receipt retentionBoundary_def Let_def\<close>)
  then have "Complete c1 None now' [item'] =
      (expire c1 now', Inr [out\<lparr>CR_Result := CompletionAlreadyCompleted, CR_OriginalResult := CR_Result out\<rparr>])"
    using r(2) out' assms(9) by (simp add: Complete_one completeOne_def Let_def)
  moreover have "CR_Result out = CompletionReleased \<longleftrightarrow> (\<exists>l. mget (AC_leases c) ?i = Some l \<and> now < LI_ExpiresAt l)"
    using completeOne_released [OF inv', of now item] expire_leases [OF inv assms(2), of ?i] out
    by (auto split: option.splits if_splits)
  ultimately show ?thesis by (simp add: c1' completed_receipt)
qed

definition demo_completion :: LeaseCompletion where
  "demo_completion =
     \<lparr>LC_Lease = newLease (demo_request 13 PriorityHigh) 1002,
      LC_Usage = Some \<lparr>TU_InputTokens = 5, TU_OutputTokens = 2, TU_CacheReadTokens = 0\<rparr>\<rparr>"

lemma demo_complete:
  "let c = admission_run (\<lambda>_. ()) (newAdmissionCoordinator 8) demo_events;
       (c1, out) = Complete c None 1050 [demo_completion]
   in out = Inr [\<lparr>CR_LeaseID = 13, CR_Result = CompletionReleased, CR_OriginalResult = NoCompletion, CR_Reason = NoReason\<rparr>]"
  by code_simp

theorem Complete_exactly_once_witness:
  "snd (Complete (fst (Complete (admission_run (\<lambda>_. ()) (newAdmissionCoordinator 8) demo_events) None 1050 [demo_completion]))
     None 2000 [demo_completion]) =
   Inr [\<lparr>CR_LeaseID = 13, CR_Result = CompletionAlreadyCompleted, CR_OriginalResult = CompletionReleased, CR_Reason = NoReason\<rparr>]"
proof -
  let ?c = "admission_run (\<lambda>_. ()) (newAdmissionCoordinator 8) demo_events"
  let ?out = "\<lparr>CR_LeaseID = 13, CR_Result = CompletionReleased, CR_OriginalResult = NoCompletion, CR_Reason = NoReason\<rparr>"
  have "Complete ?c None 1050 [demo_completion] = (fst (Complete ?c None 1050 [demo_completion]), Inr [?out])"
    using demo_complete by (simp add: case_prod_unfold prod_eq_iff Let_def)
  from Complete_exactly_once [OF demo_clock _ _ _ this, where now' = 2000 and item' = demo_completion] show ?thesis
    by (simp add: receiptRetention_def)
qed

text \<open>
  \<open>PoolInflight\<close> reports exactly the unexpired leases of the pool: after any sequence of
  operations, the value read at \<open>now\<close> is the number of leases held in the pool whose
  expiry lies after \<open>now\<close>, and every expired lease has been removed.
\<close>

theorem PoolInflight_exact:
  fixes fp :: "AdmissionRequest \<Rightarrow> 'fp" and cap :: int
  assumes "clock_ok evs" and "0 < now"
  defines "c \<equiv> admission_run fp (newAdmissionCoordinator cap) evs"
  shows "snd (PoolInflight c now p) = int (mcount (\<lambda>i l. LI_PoolID l = p \<and> now < LI_ExpiresAt l) (AC_leases c)) \<and>
    (\<forall>i l. mget (AC_leases (fst (PoolInflight c now p))) i = Some l \<longrightarrow> now < LI_ExpiresAt l)"
proof -
  have inv: "admission_inv c" unfolding c_def by (rule run_inv [OF assms(1) new_inv])
  note e = expire_establishes [OF inv assms(2)]
  have wf: "mwf (AC_leases c)" "mwf (AC_leases (expire c now))" and n: "counts_ok (expire c now)"
    using inv e(1) by (simp_all add: admission_inv_def core_inv_def books_ok_def)
  have "mcount (\<lambda>i l. LI_PoolID l = p) (AC_leases (expire c now)) =
      mcount (\<lambda>i l. LI_PoolID l = p \<and> now < LI_ExpiresAt l) (AC_leases c)"
    by (simp add: mcount_card wf expire_leases [OF inv assms(2)])
       (rule arg_cong [where f = card], auto split: option.splits if_splits)
  with n e(2) show ?thesis by (simp add: PoolInflight_def Let_def counts_ok_def all_live_def)
qed

theorem PoolInflight_exact_witness:
  "(let c = admission_run (\<lambda>_. ()) (newAdmissionCoordinator 8) demo_events
    in snd (PoolInflight c 1101 1) = int (mcount (\<lambda>i l. LI_PoolID l = 1 \<and> 1101 < LI_ExpiresAt l) (AC_leases c)))"
  using PoolInflight_exact [OF demo_clock, where now = 1101 and fp = "\<lambda>_. ()" and cap = 8 and p = 1]
  by (simp add: Let_def)

end
