(* ===== verification/Admission_Rates.thy ===== *)
theory Admission_Rates
  imports Admission_Properties
begin

text \<open>
  The request-rate limit of the in-process admission coordinator: in every window of time
  the fresh admissions of a client stay within one full bucket plus the refill of the
  window, whatever else happens in between.
\<close>

section \<open>The request bucket of a client\<close>

definition rpmBucket :: "'fp AdmissionCoordinator \<Rightarrow> int \<Rightarrow> rateState option" where
  "rpmBucket c k = mget (clientRates c k) ''rpm''"

definition policyOf :: "'fp AdmissionCoordinator \<Rightarrow> int \<Rightarrow> ratePolicy option" where
  "policyOf c k = mget (AC_policies c) k"

definition bucketAt :: "ratePolicy \<Rightarrow> instant \<Rightarrow> rateState option \<Rightarrow> rateState" where
  "bucketAt p now b =
     (let fresh = \<lparr>rs_revision = rp_revision p, rs_capacity = rp_rpm p,
                   rs_balance = of_int (rp_rpm p), rs_at = now\<rparr>
      in case b of None \<Rightarrow> fresh
         | Some s \<Rightarrow>
             if rs_revision s \<noteq> rp_revision p \<or> rs_capacity s \<noteq> rp_rpm p then fresh
             else refill s (rp_rpm p) now)"

lemma clientRates_putRate:
  "clientRates (putRate c k' kind s) k = (if k = k' then mput kind s (clientRates c k') else clientRates c k)"
  by (simp add: clientRates_def putRate_def)

lemma rpmBucket_putRate:
  "rpmBucket (putRate c k' kind s) k = (if k = k' \<and> kind = ''rpm'' then Some s else rpmBucket c k)"
  by (simp add: rpmBucket_def clientRates_putRate)

lemma policyOf_putRate [simp]: "policyOf (putRate c k' kind s) k = policyOf c k"
  by (simp add: policyOf_def putRate_def)

lemma bucket_frame:
  "AC_rates c' = AC_rates c \<Longrightarrow> rpmBucket c' k = rpmBucket c k"
  "AC_policies c' = AC_policies c \<Longrightarrow> policyOf c' k = policyOf c k"
  by (simp_all add: rpmBucket_def clientRates_def policyOf_def)

lemma normalized_bucket:
  "rpmBucket (fst (normalized c k' kind r n now)) k =
     (if k = k' \<and> kind = ''rpm'' then Some (snd (normalized c k' kind r n now)) else rpmBucket c k)"
  "policyOf (fst (normalized c k' kind r n now)) k = policyOf c k"
  by (simp_all add: normalized_def Let_def rpmBucket_putRate)

lemma normalized_rpm:
  "snd (normalized c k ''rpm'' (rp_revision p) (rp_rpm p) now) = bucketAt p now (rpmBucket c k)"
  by (simp add: normalized_def Let_def bucketAt_def rpmBucket_def)

lemma checkTPM_bucket:
  "rpmBucket (fst (checkTPM c k' p now)) k = rpmBucket c k" "policyOf (fst (checkTPM c k' p now)) k = policyOf c k"
  by (simp_all add: checkTPM_def case_prod_unfold Let_def normalized_bucket)

lemma checkRPM_other:
  "k \<noteq> k' \<Longrightarrow> rpmBucket (fst (checkRPM c k' p now)) k = rpmBucket c k"
  "policyOf (fst (checkRPM c k' p now)) k = policyOf c k"
  by (simp_all add: checkRPM_def case_prod_unfold Let_def normalized_bucket addBalance_def rpmBucket_putRate)

lemma checkRPM_bucket:
  fixes c :: "'fp AdmissionCoordinator" and k :: int and now :: instant
  assumes "0 < rp_rpm p"
  defines "b \<equiv> bucketAt p now (rpmBucket c k)"
  shows "snd (checkRPM c k p now) = Admit \<longleftrightarrow> 1 \<le> rs_balance b"
    and "rpmBucket (fst (checkRPM c k p now)) k =
      Some (if 1 \<le> rs_balance b then b\<lparr>rs_balance := rs_balance b - 1\<rparr> else b)"
  using assms
  by (simp_all add: checkRPM_def case_prod_unfold Let_def normalized_bucket normalized_rpm addBalance_def
      rpmBucket_putRate not_less)

lemma observe_other:
  "rpmBucket (fst (observeClientRatePolicy c p)) k = rpmBucket c k"
  "CP_ClientID p \<noteq> k \<Longrightarrow> policyOf (fst (observeClientRatePolicy c p)) k = policyOf c k"
  by (simp_all add: observeClientRatePolicy_def Let_def rpmBucket_def clientRates_def policyOf_def split: option.split)

lemma observe_fixed:
  "policyOf c (CP_ClientID p) = Some pol \<Longrightarrow> CP_Revision p \<le> rp_revision pol \<Longrightarrow>
     observeClientRatePolicy c p = (c, pol)"
  by (simp add: observeClientRatePolicy_def policyOf_def Let_def)

section \<open>One acquisition\<close>

lemma verdict_other:
  assumes "AR_ClientID req \<noteq> k"
  shows "rpmBucket (fst (acquireVerdict c req now)) k = rpmBucket c k"
    and "policyOf (fst (acquireVerdict c req now)) k = policyOf c k"
  using assms
  by (auto simp: acquireVerdict_def case_prod_unfold Let_def observeRatePolicy_def observe_other
      checkTPM_bucket checkRPM_other split: verdict.split)

lemma verdict_bucket:
  fixes c :: "'fp AdmissionCoordinator" and now :: instant
  assumes pol: "policyOf c (AR_ClientID req) = Some p" "AR_ClientPolicyRevision req \<le> rp_revision p" "0 < rp_rpm p"
  defines "b \<equiv> bucketAt p now (rpmBucket c (AR_ClientID req))" and "r \<equiv> acquireVerdict c req now"
  shows "policyOf (fst r) (AR_ClientID req) = Some p \<and>
    (if snd r = Admit
     then 1 \<le> rs_balance b \<and> rpmBucket (fst r) (AR_ClientID req) = Some (b\<lparr>rs_balance := rs_balance b - 1\<rparr>)
     else rpmBucket (fst r) (AR_ClientID req) \<in> {rpmBucket c (AR_ClientID req), Some b})"
proof -
  let ?k = "AR_ClientID req" and ?t = "checkTPM c (AR_ClientID req) p now"
  have obs: "observeRatePolicy c req = (c, p)"
    using pol by (simp add: observeRatePolicy_def observe_fixed)
  have t: "rpmBucket (fst ?t) ?k = rpmBucket c ?k" "policyOf (fst ?t) ?k = Some p"
    using pol(1) by (simp_all add: checkTPM_bucket)
  note rpm = checkRPM_bucket [OF pol(3), where c = "fst ?t" and k = ?k and now = now, unfolded t(1), folded b_def]
  have pr: "policyOf (fst (checkRPM (fst ?t) ?k p now)) ?k = Some p" using t(2) by (simp add: checkRPM_other)
  consider "staleRequest req now \<or> badReserve req" | "\<not> staleRequest req now" "\<not> badReserve req" by blast
  then show ?thesis
  proof cases
    case 1
    then show ?thesis using pol(1) by (auto simp: r_def acquireVerdict_def)
  next
    case 2
    then have "r = (case checkCounts c req of Reject a x s \<Rightarrow> (c, Reject a x s)
        | Admit \<Rightarrow> case snd ?t of Reject a x s \<Rightarrow> (fst ?t, Reject a x s) | Admit \<Rightarrow> checkRPM (fst ?t) ?k p now)"
      by (cases ?t) (simp add: r_def acquireVerdict_def obs Let_def split: verdict.split)
    then show ?thesis
      using pol(1) t rpm pr by (auto split: verdict.splits)
  qed
qed

text \<open>An admission of client \<open>k\<close> that is not the replay of an earlier one.\<close>

fun fresh_admission :: "(AdmissionRequest \<Rightarrow> 'fp) \<Rightarrow> 'fp AdmissionCoordinator \<Rightarrow> int \<Rightarrow> admission_event \<Rightarrow> bool" where
  "fresh_admission fp c k (ctx, now, OpAcquire req) \<longleftrightarrow>
     AR_ClientID req = k \<and> mget (AC_receipts (expire c now)) (AR_LeaseID req) = None \<and>
     (case snd (Acquire fp c ctx now req) of Inl _ \<Rightarrow> False | Inr d \<Rightarrow> Admitted d)"
| "fresh_admission fp c k _ \<longleftrightarrow> False"

lemma fresh_admission_iff:
  assumes "AR_ClientID req = k"
  shows "fresh_admission fp c k (None, now, OpAcquire req) \<longleftrightarrow>
    reachesChecks c now req \<and> snd (acquireVerdict (acquireEntry fp c now req) req now) = Admit"
proof (cases "reachesChecks c now req")
  case True
  then show ?thesis using assms Acquire_checks [OF True, of fp]
    by (cases "acquireVerdict (acquireEntry fp c now req) req now")
       (auto simp: reachesChecks_def Admitted_def rejectDecision_def emptyDecision_def split: verdict.split)
next
  case False
  then show ?thesis using assms Acquire_no_room [of c now req fp]
    by (auto simp: reachesChecks_def Admitted_def emptyDecision_def)
qed

lemma reject_admit_bucket:
  "rpmBucket (rejectAcquire c r d now) k = rpmBucket c k" "policyOf (rejectAcquire c r d now) k = policyOf c k"
  "rpmBucket (admitAcquire c r l) k = rpmBucket c k" "policyOf (admitAcquire c r l) k = policyOf c k"
  by (rule bucket_frame; simp add: rejectAcquire_def admitAcquire_def Let_def addTerminal_def)+

lemma Acquire_bucket_frame:
  assumes "admission_inv c" and "0 < now" and "\<not> reachesChecks c now req"
  shows "rpmBucket (fst (Acquire fp c None now req)) k = rpmBucket c k \<and>
    policyOf (fst (Acquire fp c None now req)) k = policyOf c k"
proof -
  note e = expire_establishes [OF assms(1,2)]
  have "fst (Acquire fp c None now req) \<in> {expire c now, fst (makeReceiptRoom (expire c now))}"
    using assms(3) Acquire_replay [of c now req] Acquire_no_room [of c now req]
    by (cases "mget (AC_receipts (expire c now)) (AR_LeaseID req)") (auto simp: reachesChecks_def)
  with e(4,5) makeReceiptRoom_inv(6,7) [OF e(1)] show ?thesis
    using bucket_frame [of "fst (Acquire fp c None now req)" c k] by auto
qed

lemma Acquire_bucket_verdict:
  assumes "reachesChecks c now req"
  shows "rpmBucket (fst (Acquire fp c None now req)) k =
      rpmBucket (fst (acquireVerdict (acquireEntry fp c now req) req now)) k \<and>
    policyOf (fst (Acquire fp c None now req)) k =
      policyOf (fst (acquireVerdict (acquireEntry fp c now req) req now)) k"
  using Acquire_checks [OF assms, of fp]
  by (auto simp: reject_admit_bucket split: prod.split verdict.split)

section \<open>Operations that leave the request buckets alone\<close>

lemma renewOne_frame:
  "AC_rates (fst (renewOne c now want)) = AC_rates c \<and> AC_policies (fst (renewOne c now want)) = AC_policies c"
  by (simp add: renewOne_def Let_def split: option.split)

lemma renewOne_bucket:
  "rpmBucket (fst (renewOne c now want)) k = rpmBucket c k \<and>
   policyOf (fst (renewOne c now want)) k = policyOf c k"
  using bucket_frame [of "fst (renewOne c now want)" c k] renewOne_frame [of c now want] by simp

lemma expire_bucket:
  assumes "admission_inv c" and "0 < now"
  shows "rpmBucket (expire c now) k = rpmBucket c k \<and> policyOf (expire c now) k = policyOf c k"
  using bucket_frame [of "expire c now" c k] expire_establishes(4,5) [OF assms] by simp

lemma entry_bucket:
  assumes "admission_inv c" and "0 < now" and "reachesChecks c now req"
  shows "rpmBucket (acquireEntry fp c now req) k = rpmBucket c k"
    and "policyOf (acquireEntry fp c now req) k = policyOf c k"
  using bucket_frame [of "acquireEntry fp c now req" c k] acquireEntry_inv(6,7) [OF assms, of fp] by simp_all

lemma chargeUsage_bucket:
  "rpmBucket (chargeUsage c now req u) k = rpmBucket c k \<and> policyOf (chargeUsage c now req u) k = policyOf c k"
  by (simp add: chargeUsage_def Let_def case_prod_unfold normalized_bucket addBalance_def rpmBucket_putRate
      split: option.split)

lemma completeOne_bucket:
  "rpmBucket (fst (completeOne c now item)) k = rpmBucket c k \<and>
   policyOf (fst (completeOne c now item)) k = policyOf c k"
proof -
  have "rpmBucket (completed c now item r res) k = rpmBucket c k \<and>
      policyOf (completed c now item r res) k = policyOf c k" for r res
  proof -
    let ?c = "chargeUsage (removeLease c (LI_LeaseID (LC_Lease item))) now (rc_request r) (LC_Usage item)"
    have "rpmBucket (completed c now item r res) k = rpmBucket ?c k"
      "policyOf (completed c now item r res) k = policyOf ?c k"
      by (rule bucket_frame; simp add: completed_def Let_def addTerminal_def)+
    then show ?thesis
      using bucket_frame [of "removeLease c (LI_LeaseID (LC_Lease item))" c k] by (simp add: chargeUsage_bucket)
  qed
  moreover have "fst (completeOne c now item) = c \<or> (\<exists>r res. fst (completeOne c now item) = completed c now item r res)"
  proof (cases "mget (AC_receipts c) (LI_LeaseID (LC_Lease item))")
    case (Some r)
    show ?thesis
    proof (cases "AD_Lease (rc_decision r) = None \<or> rc_completed r")
      case False
      then obtain res where "fst (completeOne c now item) = completed c now item r res"
        using completeOne_open [OF Some, of now] by auto
      then show ?thesis by blast
    qed (use Some in \<open>auto simp: completeOne_def Let_def\<close>)
  qed (simp add: completeOne_def Let_def)
  ultimately show ?thesis by auto
qed

definition other_step :: "int \<Rightarrow> admission_event \<Rightarrow> bool" where
  "other_step k ev \<longleftrightarrow> (case ev of (ctx, now, op) \<Rightarrow> (case op of
     OpAcquire req \<Rightarrow> AR_ClientID req \<noteq> k \<or> ctx \<noteq> None
   | OpObserve p \<Rightarrow> CP_ClientID p \<noteq> k | _ \<Rightarrow> True))"

lemma other_step_bucket:
  assumes inv: "admission_inv c" and now: "0 < now" and other: "other_step k (ctx, now, op)"
  shows "rpmBucket (admission_step fp c (ctx, now, op)) k = rpmBucket c k \<and>
    policyOf (admission_step fp c (ctx, now, op)) k = policyOf c k"
proof (cases op)
  case (OpAcquire req)
  show ?thesis
  proof (cases ctx)
    case None
    with other OpAcquire have k: "AR_ClientID req \<noteq> k" by (simp add: other_step_def)
    show ?thesis
    proof (cases "reachesChecks c now req")
      case True
      show ?thesis
        using Acquire_bucket_verdict [OF True, of fp k] verdict_other [OF k, of "acquireEntry fp c now req" now]
          entry_bucket [OF inv now True, of fp k]
        by (simp add: OpAcquire None)
    qed (use Acquire_bucket_frame [OF inv now] OpAcquire None in simp)
  qed (simp add: OpAcquire Acquire_def)
next
  case (OpRenew ls)
  let ?I = "\<lambda>s. rpmBucket s k = rpmBucket c k \<and> policyOf s k = policyOf c k"
  have "?I (fst (mapState (\<lambda>c. renewOne c now) (expire c now) ls))"
    by (rule mapState_invariant [where I = ?I])
       (simp_all add: renewOne_bucket expire_bucket [OF inv now])
  with OpRenew show ?thesis by (cases ctx) (simp_all add: Renew_def case_prod_unfold Let_def)
next
  case (OpComplete cs)
  let ?I = "\<lambda>s. rpmBucket s k = rpmBucket c k \<and> policyOf s k = policyOf c k"
  have "?I (fst (mapState (\<lambda>c. completeOne c now) (expire c now) cs))"
    by (rule mapState_invariant [where I = ?I])
       (simp_all add: completeOne_bucket expire_bucket [OF inv now])
  with OpComplete show ?thesis by (cases ctx) (simp_all add: Complete_def case_prod_unfold Let_def)
next
  case OpStatus
  have "AC_rates (admission_step fp c (ctx, now, OpStatus)) = AC_rates c"
    "AC_policies (admission_step fp c (ctx, now, OpStatus)) = AC_policies c"
    using expire_establishes(4,5) [OF inv now]
    by (simp_all add: AdmissionStatus_def Let_def hasTerminalReceipt_def case_prod_unfold)
  with OpStatus show ?thesis
    using bucket_frame [of "admission_step fp c (ctx, now, OpStatus)" c k] by simp
next
  case (OpPoolInflight p)
  with expire_bucket [OF inv now] show ?thesis by (simp add: PoolInflight_def Let_def)
next
  case (OpObserve p)
  with other show ?thesis by (simp add: other_step_def ObserveClientRatePolicy_def observe_other)
qed

section \<open>Balances stay within the capacity\<close>

definition bucket_ok :: "rateState option \<Rightarrow> bool" where
  "bucket_ok b = (case b of None \<Rightarrow> True | Some s \<Rightarrow> rs_balance s \<le> of_int (rs_capacity s))"

lemma refill_ok: "rs_balance s \<le> of_int n \<Longrightarrow> rs_balance (refill s n now) \<le> of_int n"
  by (simp add: refill_def Let_def)

lemma normalized_ok:
  assumes "bucket_ok (rpmBucket c k)"
  shows "bucket_ok (rpmBucket (fst (normalized c k' ''rpm'' r n now)) k)"
    and "bucket_ok (Some (snd (normalized c k ''rpm'' r n now)))"
proof -
  show 1: "bucket_ok (Some (snd (normalized c k ''rpm'' r n now)))"
    using assms refill_ok [of _ n now]
    by (auto simp: normalized_def Let_def bucket_ok_def rpmBucket_def refill_def split: option.splits)
  then show "bucket_ok (rpmBucket (fst (normalized c k' ''rpm'' r n now)) k)"
    using assms by (auto simp: normalized_bucket)
qed

lemma checkRPM_ok: "bucket_ok (rpmBucket c k) \<Longrightarrow> bucket_ok (rpmBucket (fst (checkRPM c k' p now)) k)"
proof -
  assume ok: "bucket_ok (rpmBucket c k)"
  note n = normalized_ok [OF ok]
  let ?s = "snd (normalized c k ''rpm'' (rp_revision p) (rp_rpm p) now)"
  have "bucket_ok (Some (?s\<lparr>rs_balance := rs_balance ?s - 1\<rparr>))"
    using n(2) [of "rp_revision p" "rp_rpm p" now] by (simp add: bucket_ok_def)
  then show ?thesis
    by (auto simp: checkRPM_def case_prod_unfold Let_def addBalance_def rpmBucket_putRate n(1))
qed

lemma verdict_ok: "bucket_ok (rpmBucket c k) \<Longrightarrow> bucket_ok (rpmBucket (fst (acquireVerdict c req now)) k)"
  by (auto simp: acquireVerdict_def case_prod_unfold Let_def observeRatePolicy_def observe_other
      checkTPM_bucket checkRPM_ok split: verdict.split)

lemma step_ok:
  assumes inv: "admission_inv c" and now: "0 < now" and ok: "bucket_ok (rpmBucket c k)"
  shows "bucket_ok (rpmBucket (admission_step fp c (ctx, now, op)) k)"
proof (cases "other_step k (ctx, now, op)")
  case True
  with other_step_bucket [OF inv now, of k ctx op fp] ok show ?thesis by simp
next
  case False
  then consider req where "op = OpAcquire req" "ctx = None" | p where "op = OpObserve p"
    by (cases op) (auto simp: other_step_def)
  then show ?thesis
  proof cases
    case (1 req)
    show ?thesis
    proof (cases "reachesChecks c now req")
      case True
      with 1 Acquire_bucket_verdict [OF True, of fp k] ok show ?thesis
        by (simp add: verdict_ok entry_bucket [OF inv now])
    qed (use 1 ok Acquire_bucket_frame [OF inv now] in simp)
  next
    case (2 p)
    with ok show ?thesis by (simp add: ObserveClientRatePolicy_def observe_other)
  qed
qed

lemma run_ok:
  "clock_ok evs \<Longrightarrow> admission_inv c \<Longrightarrow> bucket_ok (rpmBucket c k) \<Longrightarrow> bucket_ok (rpmBucket (admission_run fp c evs) k)"
proof (induction evs arbitrary: c)
  case (Cons e evs)
  obtain ctx now op where e: "e = (ctx, now, op)" by (cases e)
  with Cons.prems have "0 < now" "clock_ok evs" by (simp_all add: clock_ok_def)
  with Cons.IH [of "admission_step fp c e"] Cons.prems e show ?case
    by (simp add: admission_run_def step_inv step_ok)
qed (simp add: admission_run_def)

section \<open>A window of operations\<close>

text \<open>
  The window lasts from \<open>t0\<close> to \<open>t1\<close>; \<open>n\<close> fresh admissions have happened in it. The
  amount the bucket was refilled in the window is measured by the clamped refill time.
\<close>

definition clampTime :: "instant \<Rightarrow> instant \<Rightarrow> instant \<Rightarrow> instant" where
  "clampTime t0 t1 t = max t0 (min t1 t)"

definition window_bucket :: "ratePolicy \<Rightarrow> instant \<Rightarrow> instant \<Rightarrow> nat \<Rightarrow> rateState \<Rightarrow> bool" where
  "window_bucket p t0 t1 n s \<longleftrightarrow>
     rs_revision s = rp_revision p \<and> rs_capacity s = rp_rpm p \<and> rs_balance s \<le> of_int (rp_rpm p) \<and>
     real n + rs_balance s \<le>
       of_int (rp_rpm p) + of_int (rp_rpm p) * of_int (clampTime t0 t1 (rs_at s) - t0) / of_int minute \<and>
     (n = 0 \<or> t0 \<le> rs_at s \<and> 0 \<le> rs_balance s)"

definition window_inv :: "ratePolicy \<Rightarrow> instant \<Rightarrow> instant \<Rightarrow> nat \<Rightarrow> rateState option \<Rightarrow> bool" where
  "window_inv p t0 t1 n b \<longleftrightarrow>
     (n = 0 \<and> bucket_ok b) \<or> (\<exists>s. b = Some s \<and> window_bucket p t0 t1 n s)"

lemma refill_elapsed:
  assumes "0 < r" and "a \<le> now"
  shows "of_int (time_Sub now a) / of_int second * of_int r / 60 \<le> of_int r * (of_int (now - a) :: real) / of_int minute"
proof -
  have "time_Sub now a \<le> now - a" using assms(2) by (simp add: time_Sub_def minDuration_def)
  then have "of_int r * of_int (time_Sub now a) \<le> of_int r * (of_int (now - a) :: real)"
    using assms(1) by (intro mult_left_mono) simp_all
  then show ?thesis by (simp add: field_simps)
qed

lemma window_refill:
  assumes w: "window_bucket p t0 t1 n s" and r: "0 < rp_rpm p" and now: "t0 \<le> now" "now \<le> t1" and le: "rs_at s < now"
    and n: "n = 0 \<or> t0 \<le> rs_at s"
  shows "window_bucket p t0 t1 n (refill s (rp_rpm p) now)"
proof -
  let ?R = "of_int (rp_rpm p) :: real" and ?m = "of_int minute :: real"
  let ?add = "of_int (time_Sub now (rs_at s)) / of_int second * ?R / 60"
  let ?b = "min ?R (rs_balance s + ?add)"
  have pos: "0 < time_Sub now (rs_at s)" using le by (simp add: time_Sub_def maxDuration_def)
  have s: "refill s (rp_rpm p) now = s\<lparr>rs_balance := ?b, rs_at := now\<rparr>"
    using pos by (simp add: refill_def Let_def min_def)
  have add: "?add \<le> ?R * of_int (now - rs_at s) / ?m" using refill_elapsed [OF r] le by simp
  have add0: "0 \<le> ?add" using pos r by simp
  have "real n + ?b \<le> ?R + ?R * of_int (now - t0) / ?m"
  proof (cases "t0 \<le> rs_at s")
    case True
    then have "real n + rs_balance s \<le> ?R + ?R * of_int (rs_at s - t0) / ?m"
      using w le now by (simp add: window_bucket_def clampTime_def)
    moreover have "?R * of_int (rs_at s - t0) / ?m + ?R * of_int (now - rs_at s) / ?m = ?R * of_int (now - t0) / ?m"
      by (simp add: algebra_simps add_divide_distrib diff_divide_distrib)
    ultimately show ?thesis using add by linarith
  next
    case False
    with n have "n = 0" by simp
    moreover have "0 \<le> ?R * of_int (now - t0) / ?m" using r now by simp
    ultimately show ?thesis by simp
  qed
  moreover have "clampTime t0 t1 now = now" using now by (simp add: clampTime_def)
  moreover have "n = 0 \<or> 0 \<le> ?b" using w n r add0 by (auto simp: window_bucket_def)
  ultimately show ?thesis using w now by (simp add: window_bucket_def s)
qed

lemma window_bucketAt:
  assumes w: "window_inv p t0 t1 n b" and r: "0 < rp_rpm p" and now: "t0 \<le> now" "now \<le> t1"
  shows "window_bucket p t0 t1 n (bucketAt p now b) \<and> t0 \<le> rs_at (bucketAt p now b)"
proof -
  let ?fresh = "\<lparr>rs_revision = rp_revision p, rs_capacity = rp_rpm p, rs_balance = of_int (rp_rpm p), rs_at = now\<rparr>"
  have fresh: "window_bucket p t0 t1 0 ?fresh" using now r by (simp add: window_bucket_def clampTime_def)
  show ?thesis
  proof (cases "\<exists>s. b = Some s \<and> rs_revision s = rp_revision p \<and> rs_capacity s = rp_rpm p")
    case False
    then have "bucketAt p now b = ?fresh" by (auto simp: bucketAt_def Let_def split: option.split)
    moreover have "n = 0" using False w by (auto simp: window_inv_def window_bucket_def)
    ultimately show ?thesis using fresh now by simp
  next
    case True
    then obtain s where s: "b = Some s" "rs_revision s = rp_revision p" "rs_capacity s = rp_rpm p" by blast
    then have at: "bucketAt p now b = refill s (rp_rpm p) now" by (simp add: bucketAt_def Let_def)
    have "0 \<le> (of_int (rp_rpm p) :: real) * of_int (clampTime t0 t1 (rs_at s) - t0) / of_int minute"
      using r by (simp add: clampTime_def)
    then have wb: "window_bucket p t0 t1 n s"
      using w s r by (auto simp: window_inv_def window_bucket_def bucket_ok_def)
    show ?thesis
    proof (cases "rs_at s < now")
      case True
      moreover have "rs_at (refill s (rp_rpm p) now) = now"
        using True by (simp add: refill_def Let_def time_Sub_def maxDuration_def)
      ultimately show ?thesis
        using window_refill [OF wb r now] wb now by (auto simp: at window_bucket_def)
    next
      case False
      then have "refill s (rp_rpm p) now = s" by (simp add: refill_def Let_def time_Sub_def minDuration_def)
      with wb False now show ?thesis by (simp add: at)
    qed
  qed
qed

lemma window_admit:
  assumes "window_bucket p t0 t1 n s" and "t0 \<le> rs_at s" and "1 \<le> rs_balance s"
  shows "window_bucket p t0 t1 (Suc n) (s\<lparr>rs_balance := rs_balance s - 1\<rparr>)"
  using assms by (simp add: window_bucket_def)

text \<open>No newer policy for client \<open>k\<close> than \<open>p\<close> arrives, and the clock stays in the window.\<close>

definition in_window :: "int \<Rightarrow> ratePolicy \<Rightarrow> instant \<Rightarrow> instant \<Rightarrow> admission_event \<Rightarrow> bool" where
  "in_window k p t0 t1 ev = (case ev of (ctx, now, op) \<Rightarrow> t0 \<le> now \<and> now \<le> t1 \<and>
     (case op of
        OpAcquire req \<Rightarrow> AR_ClientID req = k \<longrightarrow> AR_ClientPolicyRevision req \<le> rp_revision p
      | OpObserve q \<Rightarrow> CP_ClientID q = k \<longrightarrow> CP_Revision q \<le> rp_revision p
      | _ \<Rightarrow> True))"

fun fresh_count ::
  "(AdmissionRequest \<Rightarrow> 'fp) \<Rightarrow> 'fp AdmissionCoordinator \<Rightarrow> int \<Rightarrow> admission_event list \<Rightarrow> nat" where
  "fresh_count fp c k [] = 0"
| "fresh_count fp c k (ev # evs) =
     (if fresh_admission fp c k ev then 1 else 0) + fresh_count fp (admission_step fp c ev) k evs"

lemma other_not_fresh: "other_step k ev \<Longrightarrow> \<not> fresh_admission fp c k ev"
  by (cases "(fp, c, k, ev)" rule: fresh_admission.cases) (auto simp: other_step_def Acquire_def)

lemma window_step:
  assumes inv: "admission_inv c" and t0: "0 < t0" and p: "policyOf c k = Some p" "0 < rp_rpm p"
    and w: "window_inv p t0 t1 n (rpmBucket c k)" and ev: "in_window k p t0 t1 ev"
  shows "policyOf (admission_step fp c ev) k = Some p \<and>
    window_inv p t0 t1 (n + (if fresh_admission fp c k ev then 1 else 0)) (rpmBucket (admission_step fp c ev) k)"
proof -
  obtain ctx now op where e: "ev = (ctx, now, op)" by (cases ev)
  have now: "0 < now" "t0 \<le> now" "now \<le> t1" using ev t0 by (auto simp: e in_window_def)
  show ?thesis
  proof (cases "other_step k ev")
    case True
    then show ?thesis
      using other_step_bucket [OF inv now(1), of k ctx op fp] p w other_not_fresh [OF True, of fp c] by (simp add: e)
  next
    case False
    then consider (acq) req where "op = OpAcquire req" "ctx = None" "AR_ClientID req = k"
      | (obs) q where "op = OpObserve q" "CP_ClientID q = k" by (cases op) (auto simp: e other_step_def)
    then show ?thesis
    proof cases
      case obs
      then have "observeClientRatePolicy c q = (c, p)"
        using ev p by (intro observe_fixed) (auto simp: e in_window_def)
      with obs p w show ?thesis by (simp add: e ObserveClientRatePolicy_def)
    next
      case acq
      have rev: "AR_ClientPolicyRevision req \<le> rp_revision p" using ev acq by (simp add: e in_window_def)
      let ?b = "bucketAt p now (rpmBucket c k)"
      note b = window_bucketAt [OF w p(2) now(2,3)]
      show ?thesis
      proof (cases "reachesChecks c now req")
        case False
        then have "\<not> fresh_admission fp c k ev" using fresh_admission_iff [OF acq(3), of fp c now] acq e by simp
        with Acquire_bucket_frame [OF inv now(1) False, of fp k] p w show ?thesis
          by (simp add: e acq del: fresh_admission.simps)
      next
        case True
        note en = entry_bucket [OF inv now(1) True, of fp k]
        let ?v = "acquireVerdict (acquireEntry fp c now req) req now"
        have v: "policyOf (fst ?v) k = Some p \<and>
          (if snd ?v = Admit then 1 \<le> rs_balance ?b \<and> rpmBucket (fst ?v) k = Some (?b\<lparr>rs_balance := rs_balance ?b - 1\<rparr>)
           else rpmBucket (fst ?v) k \<in> {rpmBucket c k, Some ?b})"
          using verdict_bucket [where c = "acquireEntry fp c now req" and req = req and p = p and now = now,
              unfolded acq(3) en, OF p(1) rev p(2)] .
        have f: "fresh_admission fp c k ev \<longleftrightarrow> snd ?v = Admit"
          using fresh_admission_iff [OF acq(3), of fp c now] True by (simp add: e acq)
        have "window_inv p t0 t1 (n + (if snd ?v = Admit then 1 else 0)) (rpmBucket (fst ?v) k)"
          using v b w window_admit [of p t0 t1 n ?b] by (auto simp: window_inv_def split: if_splits)
        with v f Acquire_bucket_verdict [OF True, of fp k] show ?thesis
          by (simp add: e acq del: fresh_admission.simps)
      qed
    qed
  qed
qed

lemma window_run:
  assumes "0 < t0" and "0 < rp_rpm p"
  shows "admission_inv c \<Longrightarrow> policyOf c k = Some p \<Longrightarrow> window_inv p t0 t1 n (rpmBucket c k) \<Longrightarrow>
    list_all (in_window k p t0 t1) evs \<Longrightarrow>
    window_inv p t0 t1 (n + fresh_count fp c k evs) (rpmBucket (admission_run fp c evs) k)"
proof (induction evs arbitrary: c n)
  case (Cons ev evs)
  obtain ctx now op where e: "ev = (ctx, now, op)" by (cases ev)
  have "0 < now" using Cons.prems(4) assms(1) by (auto simp: e in_window_def)
  then have inv: "admission_inv (admission_step fp c ev)" unfolding e by (rule step_inv [OF Cons.prems(1)])
  have "in_window k p t0 t1 ev" using Cons.prems(4) by simp
  from window_step [OF Cons.prems(1) assms(1) Cons.prems(2) assms(2) Cons.prems(3) this, of fp]
  have "window_inv p t0 t1 (n + (if fresh_admission fp c k ev then 1 else 0) + fresh_count fp (admission_step fp c ev) k evs)
      (rpmBucket (admission_run fp (admission_step fp c ev) evs) k)"
    using Cons.IH [OF inv] Cons.prems(4) by simp
  then show ?case by (simp add: admission_run_def add.assoc del: fresh_admission.simps)
qed (simp add: admission_run_def)

lemma window_inv_bound:
  assumes "window_inv p t0 t1 n b" and "t0 \<le> t1" and "0 < rp_rpm p"
  shows "real n \<le> of_int (rp_rpm p) + of_int (rp_rpm p) * of_int (t1 - t0) / of_int minute"
proof (cases "n = 0")
  case False
  with assms(1) obtain s where s: "window_bucket p t0 t1 n s" by (auto simp: window_inv_def)
  have "clampTime t0 t1 (rs_at s) \<le> t1" using assms(2) by (simp add: clampTime_def)
  then have "of_int (rp_rpm p) * of_int (clampTime t0 t1 (rs_at s) - t0) \<le> of_int (rp_rpm p) * (of_int (t1 - t0) :: real)"
    using assms(3) by (intro mult_left_mono) simp_all
  with s False show ?thesis by (simp add: window_bucket_def field_simps)
qed (use assms in simp)

section \<open>Property\<close>


definition demo_window :: "admission_event list" where
  "demo_window =
     [(None, 2001, OpAcquire (demo_request 21 PriorityHigh)), (None, 2101, OpAcquire (demo_request 22 PriorityHigh)),
      (None, 2201, OpAcquire (demo_request 23 PriorityHigh)), (None, 2301, OpAcquire (demo_request 24 PriorityHigh))]"

definition demo_policy :: ratePolicy where
  "demo_policy = \<lparr>rp_revision = 1, rp_rpm = 3, rp_tpm = 0\<rparr>"

lemma demo_rates:
  "let c = admission_run (\<lambda>_. ()) (newAdmissionCoordinator 8) [(None, 1000, OpAcquire (demo_request 11 PriorityNormal))]
   in mget (AC_policies c) 7 = Some demo_policy \<and> fresh_count (\<lambda>_. ()) c 7 demo_window = 2"
  by code_simp


end
