(* ===== verification/Circuit_Breaker.thy ===== *)
theory Circuit_Breaker
  imports Domain
begin

text \<open>
  The circuit breaker of a backend (\<^verbatim>\<open>internal/circuitbreaker/breaker.go\<close>): closed, open and
  half-open states, a sliding window of failures, a cooldown, and a bounded number of
  half-open probes. Each method runs under the mutex. \<open>Acquire\<close> hands out a completion
  closure bound to a generation; the closures are the tickets of a breaker system, each with
  the flag of its \<^verbatim>\<open>sync.Once\<close>. Generations are unbounded integers: the 64-bit counter of
  the source would need \<open>2^64\<close> state changes to wrap.
\<close>

section \<open>The breaker\<close>

record BreakerOptions =
  BO_FailureThreshold :: int
  BO_FailureWindow :: duration
  BO_OpenCooldown :: duration
  BO_HalfOpenMaxProbes :: int

record BreakerSnapshot =
  BS_Generation :: int
  BS_State :: CircuitState
  BS_FailureCount :: int
  BS_RetryAt :: instant
  BS_ProbesInFlight :: int
  BS_Available :: bool

record Breaker =
  BK_options :: BreakerOptions
  BK_state :: CircuitState
  BK_generation :: int
  BK_failures :: "instant list"
  BK_openedAt :: instant
  BK_probesInFlight :: int
  BK_halfOpenSucceeded :: bool

datatype BreakerError =
  ThresholdNotPositive | WindowNotPositive | CooldownNotPositive | ProbesNotPositive

definition NewBreaker :: "BreakerOptions \<Rightarrow> BreakerError + Breaker" where
  "NewBreaker opts =
     (if BO_FailureThreshold opts \<le> 0 then Inl ThresholdNotPositive
      else if BO_FailureWindow opts \<le> 0 then Inl WindowNotPositive
      else if BO_OpenCooldown opts \<le> 0 then Inl CooldownNotPositive
      else if BO_HalfOpenMaxProbes opts \<le> 0 then Inl ProbesNotPositive
      else Inr \<lparr>BK_options = opts, BK_state = CircuitClosed, BK_generation = 0, BK_failures = [],
                BK_openedAt = 0, BK_probesInFlight = 0, BK_halfOpenSucceeded = False\<rparr>)"

definition pruneFailures :: "Breaker \<Rightarrow> instant \<Rightarrow> Breaker" where
  "pruneFailures b now =
     (let cutoff = now - BO_FailureWindow (BK_options b)
      in b\<lparr>BK_failures := filter (\<lambda>f. \<not> f < cutoff) (BK_failures b)\<rparr>)"

definition recordFailure :: "Breaker \<Rightarrow> instant \<Rightarrow> Breaker \<times> instant" where
  "recordFailure b failedAt =
     (let fs = BK_failures b @ [failedAt];
          latest = fold (\<lambda>f latest. if f > latest then f else latest) (tl fs) (hd fs)
      in (pruneFailures (b\<lparr>BK_failures := fs\<rparr>) latest, latest))"

definition enterOpen :: "Breaker \<Rightarrow> instant \<Rightarrow> Breaker" where
  "enterOpen b openedAt =
     b\<lparr>BK_state := CircuitOpen, BK_generation := BK_generation b + 1, BK_openedAt := openedAt,
       BK_probesInFlight := 0, BK_halfOpenSucceeded := False\<rparr>"

definition enterClosed :: "Breaker \<Rightarrow> Breaker" where
  "enterClosed b =
     b\<lparr>BK_state := CircuitClosed, BK_generation := BK_generation b + 1, BK_failures := [],
       BK_openedAt := 0, BK_probesInFlight := 0, BK_halfOpenSucceeded := False\<rparr>"

definition transitionOpenToHalfOpen :: "Breaker \<Rightarrow> instant \<Rightarrow> Breaker" where
  "transitionOpenToHalfOpen b now =
     (if BK_state b \<noteq> CircuitOpen \<or> now < BK_openedAt b + BO_OpenCooldown (BK_options b) then b
      else b\<lparr>BK_state := CircuitHalfOpen, BK_generation := BK_generation b + 1, BK_openedAt := 0,
             BK_probesInFlight := 0, BK_halfOpenSucceeded := False\<rparr>)"

text \<open>An acquisition returns the generation and probe flag its completion closure captures.\<close>

definition Breaker_Acquire :: "Breaker \<Rightarrow> instant \<Rightarrow> Breaker \<times> (int \<times> bool) option" where
  "Breaker_Acquire b now =
     (let b = transitionOpenToHalfOpen b now in
      if BK_state b = CircuitClosed
      then (pruneFailures b now, Some (BK_generation b, False))
      else if BK_state b \<noteq> CircuitHalfOpen then (b, None)
      else if BK_halfOpenSucceeded b \<or> BK_probesInFlight b \<ge> BO_HalfOpenMaxProbes (BK_options b)
      then (b, None)
      else (b\<lparr>BK_probesInFlight := BK_probesInFlight b + 1\<rparr>, Some (BK_generation b, True)))"

definition Breaker_Snapshot :: "Breaker \<Rightarrow> instant \<Rightarrow> Breaker \<times> BreakerSnapshot" where
  "Breaker_Snapshot b now =
     (let b = transitionOpenToHalfOpen b now;
          b = (if BK_state b = CircuitClosed then pruneFailures b now else b);
          s = \<lparr>BS_Generation = BK_generation b, BS_State = BK_state b,
               BS_FailureCount = int (length (BK_failures b)), BS_RetryAt = 0,
               BS_ProbesInFlight = BK_probesInFlight b, BS_Available = False\<rparr>
      in (b, case BK_state b of
               CircuitClosed \<Rightarrow> s\<lparr>BS_Available := True\<rparr>
             | CircuitOpen \<Rightarrow> s\<lparr>BS_RetryAt := BK_openedAt b + BO_OpenCooldown (BK_options b)\<rparr>
             | CircuitHalfOpen \<Rightarrow>
                 s\<lparr>BS_Available := \<not> BK_halfOpenSucceeded b \<and>
                      BK_probesInFlight b < BO_HalfOpenMaxProbes (BK_options b)\<rparr>
             | CircuitNone \<Rightarrow> s))"

definition completeProbe :: "Breaker \<Rightarrow> instant \<Rightarrow> InferenceOutcome \<Rightarrow> Breaker" where
  "completeProbe b completedAt outcome =
     (if BK_state b \<noteq> CircuitHalfOpen then b
      else
        let b = (if BK_probesInFlight b > 0 then b\<lparr>BK_probesInFlight := BK_probesInFlight b - 1\<rparr> else b) in
        if outcome = InferenceFailure
        then (let (b, latest) = recordFailure b completedAt in enterOpen b latest)
        else
          let b = (if outcome = InferenceSuccess then b\<lparr>BK_halfOpenSucceeded := True\<rparr> else b) in
          if BK_halfOpenSucceeded b \<and> BK_probesInFlight b = 0 then enterClosed b else b)"

definition Breaker_complete :: "Breaker \<Rightarrow> int \<Rightarrow> bool \<Rightarrow> InferenceOutcome \<Rightarrow> instant \<Rightarrow> Breaker" where
  "Breaker_complete b generation probe outcome completedAt =
     (if generation \<noteq> BK_generation b then b
      else if probe then completeProbe b completedAt outcome
      else if BK_state b \<noteq> CircuitClosed \<or> outcome \<noteq> InferenceFailure then b
      else
        let (b, openedAt) = recordFailure b completedAt in
        if int (length (BK_failures b)) \<ge> BO_FailureThreshold (BK_options b)
        then enterOpen b openedAt else b)"

section \<open>The breaker with its outstanding completions\<close>

record Ticket =
  tk_generation :: int
  tk_probe :: bool
  tk_done :: bool

record BreakerSystem =
  sys_breaker :: Breaker
  sys_tickets :: "Ticket list"

datatype breaker_event =
    BAcquire instant
  | BSnapshot instant
  | BComplete nat InferenceOutcome instant

fun breaker_step :: "BreakerSystem \<Rightarrow> breaker_event \<Rightarrow> BreakerSystem" where
  "breaker_step s (BAcquire now) =
     (case Breaker_Acquire (sys_breaker s) now of
        (b, None) \<Rightarrow> s\<lparr>sys_breaker := b\<rparr>
      | (b, Some (g, p)) \<Rightarrow>
          s\<lparr>sys_breaker := b,
            sys_tickets := sys_tickets s @ [\<lparr>tk_generation = g, tk_probe = p, tk_done = False\<rparr>]\<rparr>)"
| "breaker_step s (BSnapshot now) = s\<lparr>sys_breaker := fst (Breaker_Snapshot (sys_breaker s) now)\<rparr>"
| "breaker_step s (BComplete i outcome completedAt) =
     (if i < length (sys_tickets s) \<and> \<not> tk_done (sys_tickets s ! i)
      then s\<lparr>sys_tickets := (sys_tickets s)[i := (sys_tickets s ! i)\<lparr>tk_done := True\<rparr>],
             sys_breaker := Breaker_complete (sys_breaker s) (tk_generation (sys_tickets s ! i))
                              (tk_probe (sys_tickets s ! i)) outcome completedAt\<rparr>
      else s)"

definition breaker_run :: "BreakerSystem \<Rightarrow> breaker_event list \<Rightarrow> BreakerSystem" where
  "breaker_run s es = foldl breaker_step s es"

definition breaker_start :: "Breaker \<Rightarrow> BreakerSystem" where
  "breaker_start b = \<lparr>sys_breaker = b, sys_tickets = []\<rparr>"

section \<open>Invariant\<close>

text \<open>The probes of the current generation that have not been completed.\<close>

definition openProbes :: "BreakerSystem \<Rightarrow> nat" where
  "openProbes s = length (filter (\<lambda>t. tk_generation t = BK_generation (sys_breaker s) \<and> tk_probe t \<and> \<not> tk_done t)
     (sys_tickets s))"

definition options_ok :: "BreakerOptions \<Rightarrow> bool" where
  "options_ok opts \<longleftrightarrow> 0 < BO_FailureThreshold opts \<and> 0 < BO_FailureWindow opts \<and>
     0 < BO_OpenCooldown opts \<and> 0 < BO_HalfOpenMaxProbes opts"

definition breaker_ok :: "Breaker \<Rightarrow> bool" where
  "breaker_ok b \<longleftrightarrow> options_ok (BK_options b) \<and>
     BK_state b \<in> {CircuitClosed, CircuitOpen, CircuitHalfOpen} \<and>
     0 \<le> BK_probesInFlight b \<and> BK_probesInFlight b \<le> BO_HalfOpenMaxProbes (BK_options b) \<and>
     (BK_state b \<noteq> CircuitHalfOpen \<longrightarrow> BK_probesInFlight b = 0 \<and> \<not> BK_halfOpenSucceeded b) \<and>
     (BK_halfOpenSucceeded b \<longrightarrow> 0 < BK_probesInFlight b) \<and>
     (BK_state b = CircuitClosed \<longrightarrow> int (length (BK_failures b)) < BO_FailureThreshold (BK_options b))"

definition breaker_inv :: "BreakerSystem \<Rightarrow> bool" where
  "breaker_inv s \<longleftrightarrow> breaker_ok (sys_breaker s) \<and>
     BK_probesInFlight (sys_breaker s) = int (openProbes s) \<and>
     (\<forall>t \<in> set (sys_tickets s). tk_generation t \<le> BK_generation (sys_breaker s)) \<and>
     (BK_state (sys_breaker s) = CircuitHalfOpen \<longrightarrow>
        (\<forall>t \<in> set (sys_tickets s). tk_generation t = BK_generation (sys_breaker s) \<longrightarrow> tk_probe t))"

lemma pruneFailures_simps [simp]:
  "BK_state (pruneFailures b now) = BK_state b" "BK_generation (pruneFailures b now) = BK_generation b"
  "BK_options (pruneFailures b now) = BK_options b" "BK_openedAt (pruneFailures b now) = BK_openedAt b"
  "BK_probesInFlight (pruneFailures b now) = BK_probesInFlight b"
  "BK_halfOpenSucceeded (pruneFailures b now) = BK_halfOpenSucceeded b"
  "BK_failures (pruneFailures b now) = filter (\<lambda>f. now - BO_FailureWindow (BK_options b) \<le> f) (BK_failures b)"
  by (simp_all add: pruneFailures_def not_less)

lemma recordFailure_simps [simp]:
  "BK_state (fst (recordFailure b t)) = BK_state b" "BK_generation (fst (recordFailure b t)) = BK_generation b"
  "BK_options (fst (recordFailure b t)) = BK_options b"
  "BK_probesInFlight (fst (recordFailure b t)) = BK_probesInFlight b"
  "BK_halfOpenSucceeded (fst (recordFailure b t)) = BK_halfOpenSucceeded b"
  by (simp_all add: recordFailure_def Let_def)

lemma pruneFailures_ok: "breaker_ok b \<Longrightarrow> breaker_ok (pruneFailures b now)"
proof -
  assume ok: "breaker_ok b"
  have "length (BK_failures (pruneFailures b now)) \<le> length (BK_failures b)" by simp
  with ok show ?thesis unfolding breaker_ok_def pruneFailures_simps(1-6) by linarith
qed

lemma transition_cases:
  obtains (same) "transitionOpenToHalfOpen b now = b"
    and "BK_state b = CircuitOpen \<Longrightarrow> now < BK_openedAt b + BO_OpenCooldown (BK_options b)"
  | (half) "BK_state b = CircuitOpen" and "BK_openedAt b + BO_OpenCooldown (BK_options b) \<le> now"
      and "transitionOpenToHalfOpen b now =
        b\<lparr>BK_state := CircuitHalfOpen, BK_generation := BK_generation b + 1, BK_openedAt := 0,
          BK_probesInFlight := 0, BK_halfOpenSucceeded := False\<rparr>"
  by (cases "BK_state b \<noteq> CircuitOpen \<or> now < BK_openedAt b + BO_OpenCooldown (BK_options b)")
     (auto simp: transitionOpenToHalfOpen_def)

lemma filter_update_same:
  "i < length xs \<Longrightarrow> P x = P (xs ! i) \<Longrightarrow> length (filter P (xs[i := x])) = length (filter P xs)"
  by (induction xs arbitrary: i) (auto split: nat.split simp: nth_Cons list_update.simps)

lemma filter_update_drop:
  "i < length xs \<Longrightarrow> P (xs ! i) \<Longrightarrow> \<not> P x \<Longrightarrow> Suc (length (filter P (xs[i := x]))) = length (filter P xs)"
  by (induction xs arbitrary: i) (auto split: nat.split simp: nth_Cons list_update.simps)

lemma marked_ticket:
  assumes "t \<in> set (ts[i := (ts ! i)\<lparr>tk_done := True\<rparr>])" and "i < length ts"
  obtains u where "u \<in> set ts" and "tk_generation t = tk_generation u" and "tk_probe t = tk_probe u"
proof (cases "t \<in> set ts")
  case False
  with assms(1) have "t = (ts ! i)\<lparr>tk_done := True\<rparr>" using set_update_subset_insert by fastforce
  with that [of "ts ! i"] assms(2) show thesis by simp
qed (use that in blast)

lemma no_future_probes:
  "\<forall>t \<in> set ts. tk_generation t \<le> g \<Longrightarrow>
     filter (\<lambda>t. tk_generation t = g + 1 \<and> tk_probe t \<and> \<not> tk_done t) ts = []"
  by (auto simp: filter_empty_conv)

text \<open>A change of generation leaves all outstanding completions behind.\<close>

lemma inv_new_generation:
  assumes "\<forall>t \<in> set (sys_tickets s). tk_generation t \<le> g" and "BK_generation b = g + 1"
    and "breaker_ok b" and "BK_probesInFlight b = 0"
  shows "breaker_inv (s\<lparr>sys_breaker := b\<rparr>)"
  using assms by (force simp: breaker_inv_def openProbes_def no_future_probes)

lemma inv_transition:
  assumes "breaker_inv s"
  shows "breaker_inv (s\<lparr>sys_breaker := transitionOpenToHalfOpen (sys_breaker s) now\<rparr>)"
proof (cases rule: transition_cases [of "sys_breaker s" now])
  case same
  with assms show ?thesis by simp
next
  case half
  show ?thesis
    by (rule inv_new_generation [where g = "BK_generation (sys_breaker s)"])
       (use assms half in \<open>auto simp: breaker_inv_def breaker_ok_def options_ok_def\<close>)
qed

lemma inv_same_counts:
  assumes "breaker_inv s" and "breaker_ok b" and "BK_generation b = BK_generation (sys_breaker s)"
    and "BK_state b = BK_state (sys_breaker s)" and "BK_probesInFlight b = BK_probesInFlight (sys_breaker s)"
  shows "breaker_inv (s\<lparr>sys_breaker := b\<rparr>)"
  using assms by (simp add: breaker_inv_def openProbes_def)

lemma inv_ticket:
  assumes "breaker_inv s" and "BK_state (sys_breaker s) \<noteq> CircuitHalfOpen"
  shows "breaker_inv (s\<lparr>sys_tickets := sys_tickets s @ [\<lparr>tk_generation = BK_generation (sys_breaker s),
     tk_probe = False, tk_done = False\<rparr>]\<rparr>)"
  using assms by (simp add: breaker_inv_def openProbes_def)

lemma inv_acquire:
  assumes inv: "breaker_inv s"
  shows "breaker_inv (breaker_step s (BAcquire now))"
proof -
  define s1 where "s1 = s\<lparr>sys_breaker := transitionOpenToHalfOpen (sys_breaker s) now\<rparr>"
  have inv1: "breaker_inv s1" unfolding s1_def by (rule inv_transition [OF inv])
  let ?b = "sys_breaker s1"
  have ok: "breaker_ok ?b" using inv1 by (simp add: breaker_inv_def)
  consider (closed) "BK_state ?b = CircuitClosed" | (opened) "BK_state ?b = CircuitOpen"
    | (half) "BK_state ?b = CircuitHalfOpen" using ok by (auto simp: breaker_ok_def)
  then show ?thesis
  proof cases
    case closed
    have "breaker_inv (s1\<lparr>sys_breaker := pruneFailures ?b now\<rparr>)"
      by (rule inv_same_counts [OF inv1 pruneFailures_ok [OF ok]]) simp_all
    from inv_ticket [OF this] closed show ?thesis
      by (simp add: Breaker_Acquire_def Let_def s1_def)
  next
    case opened
    with inv1 show ?thesis by (simp add: Breaker_Acquire_def Let_def s1_def)
  next
    case half
    then show ?thesis
      using inv1
      by (auto simp: Breaker_Acquire_def Let_def s1_def breaker_inv_def breaker_ok_def openProbes_def)
  qed
qed

lemma inv_snapshot:
  assumes inv: "breaker_inv s"
  shows "breaker_inv (breaker_step s (BSnapshot now))"
proof -
  define s1 where "s1 = s\<lparr>sys_breaker := transitionOpenToHalfOpen (sys_breaker s) now\<rparr>"
  have inv1: "breaker_inv s1" unfolding s1_def by (rule inv_transition [OF inv])
  then have "breaker_inv (s1\<lparr>sys_breaker := pruneFailures (sys_breaker s1) now\<rparr>)"
    by (intro inv_same_counts pruneFailures_ok) (simp_all add: breaker_inv_def)
  with inv1 show ?thesis by (simp add: Breaker_Snapshot_def Let_def s1_def)
qed

lemma enterOpen_ok: "options_ok (BK_options b) \<Longrightarrow> breaker_ok (enterOpen b t)"
  by (simp add: breaker_ok_def enterOpen_def options_ok_def)

lemma enterClosed_ok: "options_ok (BK_options b) \<Longrightarrow> breaker_ok (enterClosed b)"
  by (simp add: breaker_ok_def enterClosed_def options_ok_def)

lemma inv_complete_probe:
  assumes inv: "breaker_inv s" and i: "i < length (sys_tickets s)" "\<not> tk_done (sys_tickets s ! i)"
    and t: "tk_generation (sys_tickets s ! i) = BK_generation (sys_breaker s)" "tk_probe (sys_tickets s ! i)"
  shows "breaker_inv (s\<lparr>sys_tickets := (sys_tickets s)[i := (sys_tickets s ! i)\<lparr>tk_done := True\<rparr>],
    sys_breaker := completeProbe (sys_breaker s) at' outcome\<rparr>)"
proof -
  let ?b = "sys_breaker s" and ?ts = "(sys_tickets s)[i := (sys_tickets s ! i)\<lparr>tk_done := True\<rparr>]"
  let ?s = "s\<lparr>sys_tickets := ?ts\<rparr>"
  let ?b1 = "?b\<lparr>BK_probesInFlight := BK_probesInFlight ?b - 1\<rparr>"
  have ok: "breaker_ok ?b" and gens: "\<forall>t \<in> set (sys_tickets s). tk_generation t \<le> BK_generation ?b"
    using inv by (simp_all add: breaker_inv_def)
  have gens': "\<forall>t \<in> set ?ts. tk_generation t \<le> BK_generation ?b"
    using gens marked_ticket [OF _ i(1)] by metis
  have n: "Suc (length (filter (\<lambda>t. tk_generation t = BK_generation ?b \<and> tk_probe t \<and> \<not> tk_done t) ?ts)) = openProbes s"
    unfolding openProbes_def by (rule filter_update_drop) (use i t in simp_all)
  then have pos: "0 < BK_probesInFlight ?b" using inv by (simp add: breaker_inv_def)
  then have half: "BK_state ?b = CircuitHalfOpen" using ok by (auto simp: breaker_ok_def)
  have opts: "options_ok (BK_options ?b)" using ok by (simp add: breaker_ok_def)
  have probes: "\<forall>t \<in> set ?ts. tk_generation t = BK_generation ?b \<longrightarrow> tk_probe t"
    using inv half marked_ticket [OF _ i(1)] unfolding breaker_inv_def by metis
  have opened: "breaker_inv (?s\<lparr>sys_breaker := enterOpen (fst (recordFailure ?b1 at')) l\<rparr>)" for l
    by (rule inv_new_generation [where g = "BK_generation ?b"])
       (use gens' opts in \<open>simp_all add: enterOpen_ok\<close>, simp_all add: enterOpen_def)
  have closed: "breaker_inv (?s\<lparr>sys_breaker := enterClosed (?b1\<lparr>BK_halfOpenSucceeded := True\<rparr>)\<rparr>)"
    by (rule inv_new_generation [where g = "BK_generation ?b"])
       (use gens' opts in \<open>simp_all add: enterClosed_ok\<close>, simp_all add: enterClosed_def)
  have stays: "breaker_inv (?s\<lparr>sys_breaker := ?b1\<lparr>BK_halfOpenSucceeded := ok\<rparr>\<rparr>)"
    if "ok \<longrightarrow> BK_probesInFlight ?b \<noteq> 1" for ok
    using inv n pos half gens' probes that unfolding breaker_inv_def breaker_ok_def openProbes_def by auto
  have c: "completeProbe ?b at' outcome =
    (if outcome = InferenceFailure then enterOpen (fst (recordFailure ?b1 at')) (snd (recordFailure ?b1 at'))
     else let ok = (BK_halfOpenSucceeded ?b \<or> outcome = InferenceSuccess) in
       if ok \<and> BK_probesInFlight ?b = 1 then enterClosed (?b1\<lparr>BK_halfOpenSucceeded := True\<rparr>)
       else ?b1\<lparr>BK_halfOpenSucceeded := ok\<rparr>)"
    using pos half by (auto simp: completeProbe_def Let_def case_prod_unfold enterClosed_def)
  let ?ok = "BK_halfOpenSucceeded ?b \<or> outcome = InferenceSuccess"
  consider (failed) "outcome = InferenceFailure" | (all) "outcome \<noteq> InferenceFailure" "?ok" "BK_probesInFlight ?b = 1"
    | (more) "outcome \<noteq> InferenceFailure" "?ok \<longrightarrow> BK_probesInFlight ?b \<noteq> 1" by blast
  then show ?thesis
  proof cases
    case failed
    then show ?thesis unfolding c using opened by simp
  next
    case all
    then have "completeProbe ?b at' outcome = enterClosed (?b1\<lparr>BK_halfOpenSucceeded := True\<rparr>)"
      unfolding c Let_def by argo
    then show ?thesis using closed by (simp only:)
  next
    case more
    then have "completeProbe ?b at' outcome = ?b1\<lparr>BK_halfOpenSucceeded := ?ok\<rparr>"
      unfolding c Let_def by argo
    then show ?thesis using stays [OF more(2)] by (simp only:)
  qed
qed

lemma inv_mark_done:
  assumes inv: "breaker_inv s" and i: "i < length (sys_tickets s)"
    and t: "tk_generation (sys_tickets s ! i) = BK_generation (sys_breaker s) \<Longrightarrow> \<not> tk_probe (sys_tickets s ! i)"
  shows "breaker_inv (s\<lparr>sys_tickets := (sys_tickets s)[i := (sys_tickets s ! i)\<lparr>tk_done := True\<rparr>]\<rparr>)"
proof -
  let ?ts = "(sys_tickets s)[i := (sys_tickets s ! i)\<lparr>tk_done := True\<rparr>]"
  let ?P = "\<lambda>t. tk_generation t = BK_generation (sys_breaker s) \<and> tk_probe t \<and> \<not> tk_done t"
  have n: "length (filter ?P ?ts) = length (filter ?P (sys_tickets s))"
    by (rule filter_update_same [OF i]) (use t in auto)
  have "tk_generation u \<le> BK_generation (sys_breaker s) \<and> (BK_state (sys_breaker s) = CircuitHalfOpen \<longrightarrow>
      tk_generation u = BK_generation (sys_breaker s) \<longrightarrow> tk_probe u)" if "u \<in> set ?ts" for u
    using inv marked_ticket [OF that i] unfolding breaker_inv_def by metis
  with inv n show ?thesis unfolding breaker_inv_def openProbes_def by simp
qed

lemma inv_complete:
  assumes inv: "breaker_inv s"
  shows "breaker_inv (breaker_step s (BComplete i outcome at'))"
proof (cases "i < length (sys_tickets s) \<and> \<not> tk_done (sys_tickets s ! i)")
  case True
  let ?t = "sys_tickets s ! i" and ?b = "sys_breaker s"
  show ?thesis
  proof (cases "tk_generation ?t = BK_generation ?b \<and> tk_probe ?t")
    case probe: True
    with inv_complete_probe [OF inv, of i] True show ?thesis by (simp add: Breaker_complete_def)
  next
    case False
    then have marked: "breaker_inv (s\<lparr>sys_tickets := (sys_tickets s)[i := ?t\<lparr>tk_done := True\<rparr>]\<rparr>)"
      using inv_mark_done [OF inv] True by blast
    show ?thesis
    proof (cases "tk_generation ?t \<noteq> BK_generation ?b \<or> BK_state ?b \<noteq> CircuitClosed \<or> outcome \<noteq> InferenceFailure")
      case True
      with \<open>i < _ \<and> _\<close> False marked show ?thesis by (auto simp: Breaker_complete_def)
    next
      case failure: False
      let ?r = "recordFailure ?b at'"
      have c: "Breaker_complete ?b (tk_generation ?t) (tk_probe ?t) outcome at' =
          (if int (length (BK_failures (fst ?r))) \<ge> BO_FailureThreshold (BK_options ?b) then enterOpen (fst ?r) (snd ?r)
           else fst ?r)"
        using failure False by (simp add: Breaker_complete_def case_prod_unfold Let_def)
      have ok: "breaker_ok ?b" using inv by (simp add: breaker_inv_def)
      have "breaker_inv (s\<lparr>sys_tickets := (sys_tickets s)[i := ?t\<lparr>tk_done := True\<rparr>],
          sys_breaker := enterOpen (fst ?r) (snd ?r)\<rparr>)"
        by (rule inv_new_generation [where g = "BK_generation ?b"])
           (use marked ok in \<open>simp_all add: enterOpen_ok breaker_ok_def breaker_inv_def\<close>, simp_all add: enterOpen_def)
      moreover have "breaker_inv (s\<lparr>sys_tickets := (sys_tickets s)[i := ?t\<lparr>tk_done := True\<rparr>], sys_breaker := fst ?r\<rparr>)"
        if "\<not> int (length (BK_failures (fst ?r))) \<ge> BO_FailureThreshold (BK_options ?b)"
        by (rule inv_same_counts [OF marked]) (use ok that in \<open>simp_all add: breaker_ok_def\<close>)
      ultimately show ?thesis using True by (simp add: c)
    qed
  qed
qed (use inv in auto)

lemma inv_step: "breaker_inv s \<Longrightarrow> breaker_inv (breaker_step s e)"
  by (cases e) (simp_all only: inv_acquire inv_snapshot inv_complete)

lemma inv_run: "breaker_inv s \<Longrightarrow> breaker_inv (breaker_run s es)"
  unfolding breaker_run_def by (induction es arbitrary: s) (simp_all add: inv_step)

lemma inv_start: "NewBreaker opts = Inr b \<Longrightarrow> breaker_inv (breaker_start b)"
  by (auto simp: NewBreaker_def breaker_inv_def breaker_ok_def options_ok_def breaker_start_def openProbes_def
      split: if_splits)

section \<open>The failure window\<close>

lemma fold_max: "fold (\<lambda>f latest. if f > latest then f else latest) fs (x :: int) = fold max fs x"
proof -
  have "(\<lambda>f latest :: int. if f > latest then f else latest) = max" by (auto simp: fun_eq_iff max_def)
  then show ?thesis by simp
qed

lemma fold_max_sorted: "(\<forall>f \<in> set (x # fs). f \<le> t) \<Longrightarrow> fold max (fs @ [t]) (x :: int) = t"
  by (induction fs arbitrary: x) (auto simp: max_def)

text \<open>A failure no earlier than the recorded ones ends up the latest.\<close>

lemma recordFailure_latest:
  assumes "\<forall>f \<in> set (BK_failures b). f \<le> t"
  shows "snd (recordFailure b t) = t"
    and "BK_failures (fst (recordFailure b t)) =
      filter (\<lambda>f. t - BO_FailureWindow (BK_options b) \<le> f) (BK_failures b @ [t])"
proof -
  have "fold max (tl (BK_failures b @ [t])) (hd (BK_failures b @ [t])) = t"
  proof (cases "BK_failures b")
    case (Cons f fs)
    with fold_max_sorted [of f fs t] assms show ?thesis by simp
  qed simp
  then have "fold (\<lambda>f latest. if f > latest then f else latest) (tl (BK_failures b @ [t])) (hd (BK_failures b @ [t])) = t"
    by (simp only: fold_max)
  then show "snd (recordFailure b t) = t" "BK_failures (fst (recordFailure b t)) =
      filter (\<lambda>f. t - BO_FailureWindow (BK_options b) \<le> f) (BK_failures b @ [t])"
    by (simp_all add: recordFailure_def Let_def)
qed

text \<open>
  What happens to a closed breaker: its callers acquire and complete at some times. \<open>g\<close> is
  the generation of the closed period; the failures of the period are \<open>failureTimes\<close>.
\<close>

datatype closed_event = Admit' instant | Done instant InferenceOutcome

fun closed_time :: "closed_event \<Rightarrow> instant" where
  "closed_time (Admit' t) = t"
| "closed_time (Done t _) = t"

fun closed_step :: "int \<Rightarrow> Breaker \<Rightarrow> closed_event \<Rightarrow> Breaker" where
  "closed_step g b (Admit' t) = fst (Breaker_Acquire b t)"
| "closed_step g b (Done t outcome) = Breaker_complete b g False outcome t"

definition closed_run :: "int \<Rightarrow> Breaker \<Rightarrow> closed_event list \<Rightarrow> Breaker" where
  "closed_run g b es = foldl (closed_step g) b es"

fun failureTimes :: "closed_event list \<Rightarrow> instant list" where
  "failureTimes [] = []"
| "failureTimes (Done t InferenceFailure # es) = t # failureTimes es"
| "failureTimes (_ # es) = failureTimes es"

text \<open>The failures of \<open>fs\<close> in the window that ends at the last of them.\<close>

definition windowFailures :: "duration \<Rightarrow> instant list \<Rightarrow> nat" where
  "windowFailures w fs = length (filter (\<lambda>f. last fs - w \<le> f) fs)"

definition trips :: "BreakerOptions \<Rightarrow> instant list \<Rightarrow> bool" where
  "trips opts fs \<longleftrightarrow> (\<exists>n \<in> {1 .. length fs}.
     BO_FailureThreshold opts \<le> int (windowFailures (BO_FailureWindow opts) (take n fs)))"

definition closed_at :: "int \<Rightarrow> BreakerOptions \<Rightarrow> instant list \<Rightarrow> instant \<Rightarrow> Breaker \<Rightarrow> bool" where
  "closed_at g opts fs t b \<longleftrightarrow> BK_options b = opts \<and> BK_state b = CircuitClosed \<and> BK_generation b = g \<and>
     (\<forall>f \<in> set fs. f \<le> t) \<and> (\<exists>u \<le> t. BK_failures b = filter (\<lambda>f. u - BO_FailureWindow opts \<le> f) fs)"

lemma filter_window: "u \<le> (t :: int) \<Longrightarrow> filter (\<lambda>f. t - w \<le> f) (filter (\<lambda>f. u - w \<le> f) fs) = filter (\<lambda>f. t - w \<le> f) fs"
  by (auto intro: filter_cong)

lemma closed_at_acquire:
  assumes "closed_at g opts fs t b" and "t \<le> t'"
  shows "closed_at g opts fs t' (fst (Breaker_Acquire b t'))"
proof -
  obtain u where u: "u \<le> t" "BK_failures b = filter (\<lambda>f. u - BO_FailureWindow opts \<le> f) fs"
    using assms(1) by (auto simp: closed_at_def)
  have "fst (Breaker_Acquire b t') = pruneFailures b t'"
    using assms(1) by (simp add: Breaker_Acquire_def Let_def transitionOpenToHalfOpen_def closed_at_def)
  with assms u show ?thesis
    by (auto simp: closed_at_def filter_window simp del: filter_filter intro!: exI [of _ t'])
qed

lemma closed_at_failure:
  assumes c: "closed_at g opts fs t b" and t: "t \<le> t'"
  defines "b' \<equiv> Breaker_complete b g False InferenceFailure t'"
  shows "if BO_FailureThreshold opts \<le> int (windowFailures (BO_FailureWindow opts) (fs @ [t']))
     then BK_state b' = CircuitOpen \<and> BK_openedAt b' = t' \<and> BK_generation b' = g + 1
     else closed_at g opts (fs @ [t']) t' b'"
proof -
  obtain u where u: "u \<le> t" "BK_failures b = filter (\<lambda>f. u - BO_FailureWindow opts \<le> f) fs"
    and b: "BK_options b = opts" "BK_state b = CircuitClosed" "BK_generation b = g" and fs: "\<forall>f \<in> set fs. f \<le> t"
    using c by (auto simp: closed_at_def)
  have late: "\<forall>f \<in> set (BK_failures b). f \<le> t'" using fs t u(2) by auto
  note r = recordFailure_latest [OF late]
  have f: "BK_failures (fst (recordFailure b t')) = filter (\<lambda>f. t' - BO_FailureWindow opts \<le> f) (fs @ [t'])"
    using u t by (simp add: r(2) b filter_window del: filter_filter)
  have b': "b' = (if BO_FailureThreshold opts \<le> int (windowFailures (BO_FailureWindow opts) (fs @ [t']))
      then enterOpen (fst (recordFailure b t')) t' else fst (recordFailure b t'))"
    unfolding b'_def Breaker_complete_def using b f r(1)
    by (simp add: case_prod_unfold Let_def windowFailures_def)
  show ?thesis
  proof (cases "BO_FailureThreshold opts \<le> int (windowFailures (BO_FailureWindow opts) (fs @ [t']))")
    case True
    with b show ?thesis by (simp add: b' enterOpen_def)
  next
    case False
    with b fs t f show ?thesis
      unfolding b' by (auto simp: closed_at_def simp del: filter_append intro!: exI [of _ t'])
  qed
qed

lemma trips_snoc: "trips opts (fs @ [t]) \<longleftrightarrow>
    trips opts fs \<or> BO_FailureThreshold opts \<le> int (windowFailures (BO_FailureWindow opts) (fs @ [t]))"
proof -
  have "{1 .. length (fs @ [t])} = insert (Suc (length fs)) {1 .. length fs}" by auto
  then show ?thesis by (auto simp: trips_def)
qed

lemma trips_Nil: "\<not> trips opts []"
  by (simp add: trips_def)

lemma failureTimes_snoc:
  "failureTimes (es @ [e]) = failureTimes es @ (case e of Done t InferenceFailure \<Rightarrow> [t] | _ \<Rightarrow> [])"
proof (induction es rule: failureTimes.induct)
  case 1
  show ?case by (cases "[e]" rule: failureTimes.cases) auto
qed auto

lemma generation_acquire: "BK_generation b \<le> BK_generation (fst (Breaker_Acquire b t))"
  by (simp add: Breaker_Acquire_def Let_def transitionOpenToHalfOpen_def)

lemma closed_step_stale: "g < BK_generation b \<Longrightarrow> g < BK_generation (closed_step g b e)"
  using generation_acquire [of b] by (cases e) (auto simp: Breaker_complete_def intro: less_le_trans)

lemma closed_run_exact:
  assumes "BK_state b = CircuitClosed" and "BK_generation b = g" and "BK_failures b = []"
  shows "sorted (map closed_time es) \<Longrightarrow>
    (trips (BK_options b) (failureTimes es) \<longrightarrow> g < BK_generation (closed_run g b es)) \<and>
    (\<not> trips (BK_options b) (failureTimes es) \<longrightarrow>
      (\<forall>t. (\<forall>e \<in> set es. closed_time e \<le> t) \<longrightarrow> closed_at g (BK_options b) (failureTimes es) t (closed_run g b es)))"
proof (induction es rule: rev_induct)
  case Nil
  from assms show ?case by (simp add: closed_run_def trips_def closed_at_def) (blast intro: le_refl)
next
  case (snoc e es)
  let ?o = "BK_options b" and ?b = "closed_run g b es"
  have run: "closed_run g b (es @ [e]) = closed_step g ?b e" by (simp add: closed_run_def)
  have sorted: "sorted (map closed_time es)" "\<forall>d \<in> set es. closed_time d \<le> closed_time e"
    using snoc.prems by (auto simp: sorted_append)
  show ?case
  proof (cases "trips ?o (failureTimes es)")
    case True
    then have "trips ?o (failureTimes (es @ [e]))"
      by (auto simp: failureTimes_snoc trips_snoc split: closed_event.split InferenceOutcome.split)
    with True snoc.IH [OF sorted(1)] closed_step_stale run show ?thesis by simp
  next
    case False
    then have c: "closed_at g ?o (failureTimes es) (closed_time e) ?b" using snoc.IH sorted by blast
    have mono: "closed_at g ?o fs t d \<Longrightarrow> t \<le> t' \<Longrightarrow> closed_at g ?o fs t' d" for fs t t' d
      unfolding closed_at_def by (meson order_trans)
    show ?thesis
    proof (cases "\<exists>t. e = Done t InferenceFailure")
      case True
      then obtain t where e: "e = Done t InferenceFailure" by blast
      show ?thesis
        using closed_at_failure [OF c, of t] False mono
        by (auto simp: run [unfolded e] e failureTimes_snoc trips_snoc split: if_splits)
    next
      case other: False
      then have "closed_at g ?o (failureTimes es) (closed_time e) (closed_step g ?b e)"
        using closed_at_acquire [OF c] c by (cases e) (auto simp: Breaker_complete_def closed_at_def)
      moreover have "failureTimes (es @ [e]) = failureTimes es"
        using other by (auto simp: failureTimes_snoc split: closed_event.split InferenceOutcome.split)
      ultimately show ?thesis using False mono by (auto simp: run)
    qed
  qed
qed

section \<open>Properties\<close>

text \<open>
  C10: In every interleaving of acquisitions, snapshots and completions, with completions
  possibly repeated, late or out of order, the breaker's probe count is exactly the number
  of outstanding probes of the current generation and never exceeds the configured maximum;
  no probe is outstanding outside the half-open state; a closed breaker holds fewer failures
  than its threshold; and completions of an earlier generation change nothing.
\<close>

theorem breaker_probe_accounting:
  fixes es :: "breaker_event list"
  assumes "NewBreaker opts = Inr b"
  defines "s \<equiv> breaker_run (breaker_start b) es"
  shows "BK_probesInFlight (sys_breaker s) = int (openProbes s) \<and>
    BK_probesInFlight (sys_breaker s) \<le> BO_HalfOpenMaxProbes (BK_options (sys_breaker s)) \<and>
    (BK_state (sys_breaker s) \<noteq> CircuitHalfOpen \<longrightarrow> openProbes s = 0) \<and>
    (BK_state (sys_breaker s) = CircuitClosed \<longrightarrow>
       int (length (BK_failures (sys_breaker s))) < BO_FailureThreshold (BK_options (sys_breaker s))) \<and>
    (\<forall>i outcome t. i < length (sys_tickets s) \<longrightarrow> tk_generation (sys_tickets s ! i) \<noteq> BK_generation (sys_breaker s) \<longrightarrow>
       sys_breaker (breaker_step s (BComplete i outcome t)) = sys_breaker s)"
proof -
  have "breaker_inv s" unfolding s_def by (rule inv_run [OF inv_start [OF assms(1)]])
  then show ?thesis by (auto simp: breaker_inv_def breaker_ok_def Breaker_complete_def)
qed

definition demo_options :: BreakerOptions where
  "demo_options = \<lparr>BO_FailureThreshold = 2, BO_FailureWindow = 100, BO_OpenCooldown = 50, BO_HalfOpenMaxProbes = 1\<rparr>"

definition demo_breaker :: Breaker where
  "demo_breaker = \<lparr>BK_options = demo_options, BK_state = CircuitClosed, BK_generation = 0, BK_failures = [],
     BK_openedAt = 0, BK_probesInFlight = 0, BK_halfOpenSucceeded = False\<rparr>"

lemma demo_new: "NewBreaker demo_options = Inr demo_breaker"
  by (simp add: NewBreaker_def demo_options_def demo_breaker_def)

theorem breaker_probe_accounting_witness:
  "let s = breaker_run (breaker_start demo_breaker)
     [BAcquire 10, BAcquire 11, BComplete 0 InferenceFailure 20, BComplete 1 InferenceFailure 30, BAcquire 90]
   in BK_state (sys_breaker s) = CircuitHalfOpen \<and> BK_probesInFlight (sys_breaker s) = 1 \<and>
      BK_probesInFlight (sys_breaker s) = int (openProbes s)"
proof -
  have "let s = breaker_run (breaker_start demo_breaker)
      [BAcquire 10, BAcquire 11, BComplete 0 InferenceFailure 20, BComplete 1 InferenceFailure 30, BAcquire 90]
    in BK_state (sys_breaker s) = CircuitHalfOpen \<and> BK_probesInFlight (sys_breaker s) = 1"
    by code_simp
  with breaker_probe_accounting [OF demo_new] show ?thesis by (simp add: Let_def)
qed

text \<open>
  C18: The breaker trips exactly on its failure window. From a closed breaker without
  failures, with event times that do not decrease, it leaves the closed period if and only
  if at some failure the failures in the window ending there reach the threshold; until then
  it stays closed. The failure that trips it opens it at its own time.
\<close>

theorem breaker_trips_exactly:
  assumes "BK_state b = CircuitClosed" and "BK_generation b = g" and "BK_failures b = []"
    and "sorted (map closed_time (es @ [Done t InferenceFailure]))"
  defines "b' \<equiv> closed_run g b es" and "opts \<equiv> BK_options b"
  shows "(BK_generation b' = g \<longleftrightarrow> \<not> trips opts (failureTimes es)) \<and>
    (\<not> trips opts (failureTimes es) \<longrightarrow> BK_state b' = CircuitClosed) \<and>
    (\<not> trips opts (failureTimes es) \<longrightarrow> trips opts (failureTimes es @ [t]) \<longrightarrow>
       BK_state (closed_step g b' (Done t InferenceFailure)) = CircuitOpen \<and>
       BK_openedAt (closed_step g b' (Done t InferenceFailure)) = t)"
proof -
  have sorted: "sorted (map closed_time es)" "\<forall>e \<in> set es. closed_time e \<le> t"
    using assms(4) by (auto simp: sorted_append)
  note run = closed_run_exact [OF assms(1-3) sorted(1), folded b'_def opts_def]
  have closed: "closed_at g opts (failureTimes es) t b'" if "\<not> trips opts (failureTimes es)"
    using run sorted(2) that by blast
  have "BK_state b' = CircuitClosed \<and> BK_generation b' = g" if "\<not> trips opts (failureTimes es)"
    using closed [OF that] by (simp add: closed_at_def)
  moreover have "BK_state (closed_step g b' (Done t InferenceFailure)) = CircuitOpen \<and>
      BK_openedAt (closed_step g b' (Done t InferenceFailure)) = t"
    if "\<not> trips opts (failureTimes es)" "trips opts (failureTimes es @ [t])"
    using closed_at_failure [OF closed [OF that(1)], of t] that by (simp add: trips_snoc)
  ultimately show ?thesis using run by fastforce
qed

theorem breaker_trips_exactly_witness:
  "BK_state (closed_step 0 (closed_run 0 demo_breaker [Admit' 5, Done 10 InferenceFailure, Admit' 20])
     (Done 110 InferenceFailure)) = CircuitOpen"
proof -
  let ?es = "[Admit' 5, Done 10 InferenceFailure, Admit' 20]"
  have "\<not> trips demo_options [10]" "trips demo_options [10, 110]"
    using trips_snoc [of demo_options "[]" 10] trips_snoc [of demo_options "[10]" 110]
    by (simp_all add: trips_Nil windowFailures_def demo_options_def)
  then show ?thesis
    using breaker_trips_exactly [of demo_breaker 0 ?es 110] by (simp add: demo_breaker_def)
qed

text \<open>
  C33: Recovery. An open breaker refuses every request before its cooldown has passed; the
  first request after it is admitted as a probe of a new generation. If that probe succeeds
  the breaker closes with no failures on record; if it fails the breaker opens again, no
  earlier than at the probe's completion time.
\<close>

theorem breaker_recovery:
  assumes "breaker_ok b" and "BK_state b = CircuitOpen"
  defines "ready \<equiv> BK_openedAt b + BO_OpenCooldown (BK_options b)" and "g \<equiv> BK_generation b + 1"
  shows "(\<forall>now < ready. Breaker_Acquire b now = (b, None)) \<and>
    (\<forall>now \<ge> ready. \<exists>p. Breaker_Acquire b now = (p, Some (g, True)) \<and> BK_state p = CircuitHalfOpen \<and>
       (\<forall>t. BK_state (Breaker_complete p g True InferenceSuccess t) = CircuitClosed \<and>
            BK_failures (Breaker_complete p g True InferenceSuccess t) = []) \<and>
       (\<forall>t. BK_state (Breaker_complete p g True InferenceFailure t) = CircuitOpen \<and>
            t \<le> BK_openedAt (Breaker_complete p g True InferenceFailure t)))"
proof -
  let ?half = "b\<lparr>BK_state := CircuitHalfOpen, BK_generation := g, BK_openedAt := 0, BK_probesInFlight := 1,
    BK_halfOpenSucceeded := False\<rparr>"
  have opts: "options_ok (BK_options b)" using assms(1) by (simp add: breaker_ok_def)
  have "Breaker_Acquire b now = (b, None)" if "now < ready" for now
    using assms(2) that by (simp add: Breaker_Acquire_def transitionOpenToHalfOpen_def ready_def)
  moreover have "Breaker_Acquire b now = (?half, Some (g, True))" if "ready \<le> now" for now
    using assms(2) that opts
    by (simp add: Breaker_Acquire_def transitionOpenToHalfOpen_def ready_def g_def options_ok_def not_less Let_def)
  moreover have "Breaker_complete ?half g True InferenceSuccess t = enterClosed (?half\<lparr>BK_probesInFlight := 0, BK_halfOpenSucceeded := True\<rparr>)" for t
    by (simp add: Breaker_complete_def completeProbe_def)
  moreover have "BK_state (Breaker_complete ?half g True InferenceFailure t) = CircuitOpen \<and>
      t \<le> BK_openedAt (Breaker_complete ?half g True InferenceFailure t)" for t
  proof -
    let ?f = "?half\<lparr>BK_probesInFlight := 0\<rparr>"
    have "Breaker_complete ?half g True InferenceFailure t = enterOpen (fst (recordFailure ?f t)) (snd (recordFailure ?f t))"
      by (simp add: Breaker_complete_def completeProbe_def case_prod_unfold Let_def)
    moreover have "t \<le> snd (recordFailure ?f t)"
      by (cases "BK_failures b") (simp_all add: recordFailure_def Let_def)
    ultimately show ?thesis by (simp add: enterOpen_def)
  qed
  ultimately show ?thesis by (auto simp: enterClosed_def)
qed

theorem breaker_recovery_witness:
  "Breaker_Acquire (enterOpen demo_breaker 30) 79 = (enterOpen demo_breaker 30, None) \<and>
   snd (Breaker_Acquire (enterOpen demo_breaker 30) 80) = Some (2, True)"
proof -
  let ?b = "enterOpen demo_breaker 30"
  have ok: "breaker_ok ?b" "BK_state ?b = CircuitOpen" and n: "BK_openedAt ?b + BO_OpenCooldown (BK_options ?b) = 80"
    "BK_generation ?b + 1 = 2"
    by (simp_all add: breaker_ok_def options_ok_def enterOpen_def demo_breaker_def demo_options_def)
  note r = breaker_recovery [OF ok, unfolded n]
  have "Breaker_Acquire ?b 79 = (?b, None)" using r [THEN conjunct1, rule_format, of 79] by simp
  moreover obtain p where "Breaker_Acquire ?b 80 = (p, Some (2, True))"
    using r [THEN conjunct2, rule_format, of 80] by auto
  ultimately show ?thesis by simp
qed

end
