(* ===== verification/Routing.thy ===== *)
theory Routing
  imports Domain "HOL-Library.Signed_Division"
begin

text \<open>
  Backend selection (\<^verbatim>\<open>internal/routing/router.go\<close>). The random source of the router is the
  interface \<open>random_source\<close>: \<open>Intn n\<close> returns an index below a positive \<open>n\<close>. The SHA-256
  digest of the rendezvous score is the parameter \<open>sha256\<close>, a function on bytes.
\<close>

section \<open>Candidates and the router\<close>

record Candidate =
  Cand_Backend :: Backend
  Cand_Pressure :: f64
  Cand_GatewayInflight :: int
  Cand_Eligible :: bool

record Router =
  Router_epsilon :: f64
  Router_sessionAffinityMaxPressure :: f64

text \<open>\<open>ErrNoBackend\<close> is the router's error; an index out of range would panic.\<close>

datatype RouteError = ErrNoBackend | IndexOutOfRange

definition NewRouterWithSessionAffinity :: "f64 \<Rightarrow> f64 \<Rightarrow> Router" where
  "NewRouterWithSessionAffinity epsilon maximumPressure =
     \<lparr>Router_epsilon =
        (if f64_lt epsilon (Fin 0) \<or> f64_IsNaN epsilon \<or> f64_IsInf epsilon then Fin 0 else epsilon),
      Router_sessionAffinityMaxPressure =
        (if f64_le maximumPressure (Fin 0) \<or> f64_IsNaN maximumPressure \<or> f64_IsInf maximumPressure
         then Fin 1 else maximumPressure)\<rparr>"

definition NewRouter :: "f64 \<Rightarrow> Router" where
  "NewRouter epsilon = NewRouterWithSessionAffinity epsilon (Fin 1)"

definition eligibleCandidates :: "Candidate list \<Rightarrow> int list \<Rightarrow> Candidate list" where
  "eligibleCandidates candidates exclude =
     filter (\<lambda>c. \<not> (\<not> Cand_Eligible c \<or> \<not> Backend_Enabled (Cand_Backend c) \<or>
                     Backend_Draining (Cand_Backend c) \<or>
                     f64_IsNaN (Cand_Pressure c) \<or> f64_IsInf (Cand_Pressure c)) \<and>
                 Backend_ID (Cand_Backend c) \<notin> set exclude) candidates"

definition maxInt :: int where
  "maxInt = 9223372036854775807"

definition minimumPressure :: "Candidate list \<Rightarrow> f64" where
  "minimumPressure eligible =
     fold (\<lambda>c m. if f64_lt (Cand_Pressure c) m then Cand_Pressure c else m) eligible PosInf"

definition minimumInflight :: "Candidate list \<Rightarrow> int" where
  "minimumInflight ties =
     fold (\<lambda>c m. if Cand_GatewayInflight c < m then Cand_GatewayInflight c else m) ties maxInt"

definition finalists :: "Router \<Rightarrow> Candidate list \<Rightarrow> Candidate list" where
  "finalists r eligible =
     (let pressureTies =
            filter (\<lambda>c. f64_le (f64_sub (Cand_Pressure c) (minimumPressure eligible)) (Router_epsilon r)) eligible
      in filter (\<lambda>c. Cand_GatewayInflight c = minimumInflight pressureTies) pressureTies)"

definition selectEligible :: "(int \<Rightarrow> int) \<Rightarrow> Router \<Rightarrow> Candidate list \<Rightarrow> RouteError + Candidate" where
  "selectEligible Intn r eligible =
     (if eligible = [] then Inl ErrNoBackend
      else
        let fs = finalists r eligible; i = Intn (int (length fs)) in
        if 0 \<le> i \<and> i < int (length fs) then Inr (fs ! nat i) else Inl IndexOutOfRange)"

definition Select :: "(int \<Rightarrow> int) \<Rightarrow> Router \<Rightarrow> Candidate list \<Rightarrow> int list \<Rightarrow> RouteError + Candidate" where
  "Select Intn r candidates exclude = selectEligible Intn r (eligibleCandidates candidates exclude)"

section \<open>Session affinity\<close>

definition bigEndian64 :: "int \<Rightarrow> nat list" where
  "bigEndian64 n = map (\<lambda>i. nat ((n mod 2 ^ 64) div 256 ^ (7 - i) mod 256)) [0..<8]"

definition uint64_of :: "nat list \<Rightarrow> nat" where
  "uint64_of bytes = foldl (\<lambda>a b. a * 256 + b) 0 bytes"

definition rendezvousScore :: "(nat list \<Rightarrow> nat list) \<Rightarrow> nat list \<Rightarrow> int \<Rightarrow> nat" where
  "rendezvousScore sha256 affinityKey backendID =
     uint64_of (take 8 (sha256 (affinityKey @ bigEndian64 backendID)))"

definition better :: "(int \<Rightarrow> nat) \<Rightarrow> Candidate \<Rightarrow> Candidate \<Rightarrow> bool" where
  "better score c d \<longleftrightarrow>
     (let i = Backend_ID (Cand_Backend c); j = Backend_ID (Cand_Backend d)
      in score i > score j \<or> (score i = score j \<and> i < j))"

definition preferred :: "(int \<Rightarrow> nat) \<Rightarrow> Candidate list \<Rightarrow> Candidate" where
  "preferred score eligible =
     fold (\<lambda>c p. if better score c p then c else p) (tl eligible) (hd eligible)"

definition SelectWithSessionAffinity ::
  "(nat list \<Rightarrow> nat list) \<Rightarrow> (int \<Rightarrow> int) \<Rightarrow> Router \<Rightarrow> Candidate list \<Rightarrow> int list \<Rightarrow> nat list \<Rightarrow>
     RouteError + Candidate" where
  "SelectWithSessionAffinity sha256 Intn r candidates exclude affinityKey =
     (let eligible = eligibleCandidates candidates exclude in
      if eligible = [] then Inl ErrNoBackend
      else if affinityKey = [] then selectEligible Intn r eligible
      else
        let p = preferred (rendezvousScore sha256 affinityKey) eligible in
        if f64_lt (Cand_Pressure p) (Router_sessionAffinityMaxPressure r) then Inr p
        else selectEligible Intn r eligible)"

section \<open>The fixed source\<close>

text \<open>Go's remainder takes the sign of the dividend.\<close>

definition fixedSource_Intn :: "int \<Rightarrow> int \<Rightarrow> int" where
  "fixedSource_Intn s maximum =
     (let value = s smod maximum in if value < 0 then value + maximum else value)"

section \<open>The random source as an interface\<close>

fun f64_real :: "f64 \<Rightarrow> real" where
  "f64_real (Fin r) = r"
| "f64_real _ = 0"

definition router_ok :: "Router \<Rightarrow> bool" where
  "router_ok r \<longleftrightarrow> (\<exists>e \<ge> 0. Router_epsilon r = Fin e) \<and> (\<exists>m > 0. Router_sessionAffinityMaxPressure r = Fin m)"

lemma NewRouter_ok: "router_ok (NewRouterWithSessionAffinity epsilon m)"
  by (cases epsilon; cases m)
     (auto simp: router_ok_def NewRouterWithSessionAffinity_def f64_le_def f64_IsNaN_def f64_IsInf_def)

definition usable :: "Candidate \<Rightarrow> bool" where
  "usable c \<longleftrightarrow> (\<exists>r. Cand_Pressure c = Fin r) \<and> Cand_GatewayInflight c \<le> maxInt"

lemma usable_pressure: "usable c \<Longrightarrow> Cand_Pressure c = Fin (f64_real (Cand_Pressure c))"
  by (auto simp: usable_def)

lemma fold_pressure:
  "\<forall>c \<in> set es. usable c \<Longrightarrow>
     fold (\<lambda>c m. if f64_lt (Cand_Pressure c) m then Cand_Pressure c else m) es (Fin x) =
       Fin (fold min (map (\<lambda>c. f64_real (Cand_Pressure c)) es) x)"
proof (induction es arbitrary: x)
  case (Cons c es)
  obtain r where "Cand_Pressure c = Fin r" using Cons.prems by (auto simp: usable_def)
  with Cons show ?case by (simp add: min_def)
qed simp

lemma minimumPressure_Min:
  assumes "es \<noteq> []" and "\<forall>c \<in> set es. usable c"
  shows "minimumPressure es = Fin (Min ((\<lambda>c. f64_real (Cand_Pressure c)) ` set es))"
proof -
  obtain c cs where es: "es = c # cs" using assms(1) by (cases es) auto
  obtain r where r: "Cand_Pressure c = Fin r" using assms(2) by (auto simp: es usable_def)
  have "minimumPressure es = Fin (fold min (map (\<lambda>c. f64_real (Cand_Pressure c)) cs) r)"
    using assms(2) by (simp add: es minimumPressure_def r fold_pressure)
  also have "\<dots> = Fin (Min (set (map (\<lambda>c. f64_real (Cand_Pressure c)) es)))"
    unfolding es by (simp only: Min.set_eq_fold list.map r f64_real.simps)
  finally show ?thesis by simp
qed

lemma minimumInflight_Min:
  "minimumInflight ts = Min (insert maxInt (Cand_GatewayInflight ` set ts))"
proof -
  have "(\<lambda>(c :: Candidate) m. if Cand_GatewayInflight c < m then Cand_GatewayInflight c else m) =
      (\<lambda>c m. min (Cand_GatewayInflight c) m)"
    by (auto simp: fun_eq_iff)
  then have "minimumInflight ts = fold min (map Cand_GatewayInflight ts) maxInt"
    unfolding minimumInflight_def by (simp only: fold_map comp_def)
  also have "\<dots> = Min (set (maxInt # map Cand_GatewayInflight ts))" by (simp only: Min.set_eq_fold)
  finally show ?thesis by simp
qed

lemma f64_le_sub: "f64_le (f64_sub (Fin a) (Fin b)) (Fin c) \<longleftrightarrow> a - b \<le> c"
  by (auto simp: f64_le_def f64_sub_def)

text \<open>What selection promises about a finalist.\<close>

definition least_loaded :: "Router \<Rightarrow> Candidate list \<Rightarrow> Candidate \<Rightarrow> bool" where
  "least_loaded r eligible c \<longleftrightarrow> c \<in> set eligible \<and>
     (\<forall>d \<in> set eligible. f64_real (Cand_Pressure c) \<le> f64_real (Cand_Pressure d) + f64_real (Router_epsilon r)) \<and>
     (\<forall>d \<in> set eligible.
        (\<forall>e \<in> set eligible. f64_real (Cand_Pressure d) \<le> f64_real (Cand_Pressure e) + f64_real (Router_epsilon r)) \<longrightarrow>
        Cand_GatewayInflight c \<le> Cand_GatewayInflight d)"

lemma finalists_spec:
  assumes r: "router_ok r" and ne: "es \<noteq> []" and fin: "\<forall>c \<in> set es. usable c"
  shows "finalists r es \<noteq> []" and "c \<in> set (finalists r es) \<longleftrightarrow> least_loaded r es c"
proof -
  let ?p = "\<lambda>c. f64_real (Cand_Pressure c)" and ?e = "f64_real (Router_epsilon r)"
  let ?m = "Min (?p ` set es)"
  define ts where "ts = filter (\<lambda>c. f64_le (f64_sub (Cand_Pressure c) (minimumPressure es)) (Router_epsilon r)) es"
  have e: "0 \<le> ?e" "Router_epsilon r = Fin ?e" using r by (auto simp: router_ok_def)
  have tie: "c \<in> set ts \<longleftrightarrow> c \<in> set es \<and> ?p c \<le> ?m + ?e" for c
  proof (cases "c \<in> set es")
    case True
    then have "Cand_Pressure c = Fin (?p c)" using fin usable_pressure by blast
    then have "f64_le (f64_sub (Cand_Pressure c) (minimumPressure es)) (Router_epsilon r) \<longleftrightarrow> ?p c - ?m \<le> ?e"
      using minimumPressure_Min [OF ne fin] e(2) by (metis f64_le_sub)
    with True show ?thesis by (auto simp: ts_def)
  qed (simp add: ts_def)
  have within: "?p c \<le> ?m + ?e \<longleftrightarrow> (\<forall>d \<in> set es. ?p c \<le> ?p d + ?e)" for c
  proof -
    have "?p c - ?e \<le> ?m \<longleftrightarrow> (\<forall>a \<in> ?p ` set es. ?p c - ?e \<le> a)"
      using ne by (intro Min_ge_iff) auto
    then show ?thesis by (auto simp: algebra_simps)
  qed
  have "?m \<in> ?p ` set es" using ne by (intro Min_in) auto
  then obtain b where b: "b \<in> set es" "?p b = ?m" by auto
  then have tb: "b \<in> set ts" using e(1) by (simp add: tie)
  have inf: "c \<in> set ts \<Longrightarrow> Cand_GatewayInflight c \<le> maxInt" for c using fin by (auto simp: tie usable_def)
  have min: "minimumInflight ts = Min (Cand_GatewayInflight ` set ts)"
  proof -
    have "Min (Cand_GatewayInflight ` set ts) \<le> Cand_GatewayInflight b" using tb by (intro Min_le) auto
    then have "Min (Cand_GatewayInflight ` set ts) \<le> maxInt" using inf [OF tb] by linarith
    then show ?thesis using tb by (subst minimumInflight_Min, subst Min_insert) (auto simp: min_absorb2)
  qed
  have f: "c \<in> set (finalists r es) \<longleftrightarrow> c \<in> set ts \<and> (\<forall>d \<in> set ts. Cand_GatewayInflight c \<le> Cand_GatewayInflight d)" for c
    using tb by (auto simp: finalists_def Let_def ts_def [symmetric] min intro!: Min_eqI [symmetric])
  show "c \<in> set (finalists r es) \<longleftrightarrow> least_loaded r es c"
    unfolding f least_loaded_def by (auto simp: tie within)
  have "Min (Cand_GatewayInflight ` set ts) \<in> Cand_GatewayInflight ` set ts" using tb by (intro Min_in) auto
  then obtain c where "c \<in> set ts" "Cand_GatewayInflight c = Min (Cand_GatewayInflight ` set ts)" by auto
  then have "c \<in> set (finalists r es)" by (simp add: finalists_def Let_def ts_def [symmetric] min)
  then show "finalists r es \<noteq> []" by auto
qed

locale random_source =
  fixes Intn :: "int \<Rightarrow> int"
  assumes in_range: "0 < n \<Longrightarrow> 0 \<le> Intn n \<and> Intn n < n"
begin

lemma select_least_loaded:
  assumes "router_ok r" and "es \<noteq> []" and "\<forall>c \<in> set es. usable c"
  shows "\<exists>c. selectEligible Intn r es = Inr c \<and> least_loaded r es c"
proof -
  let ?fs = "finalists r es"
  have "0 \<le> Intn (int (length ?fs)) \<and> Intn (int (length ?fs)) < int (length ?fs)"
    using finalists_spec(1) [OF assms] by (intro in_range) simp
  then have "selectEligible Intn r es = Inr (?fs ! nat (Intn (int (length ?fs))))"
    and "nat (Intn (int (length ?fs))) < length ?fs"
    using assms(2) by (simp_all add: selectEligible_def Let_def nat_less_iff)
  then show ?thesis using finalists_spec(2) [OF assms] nth_mem by blast
qed

end

interpretation fixed_source: random_source "fixedSource_Intn s" for s
proof
  fix n :: int assume "0 < n"
  then show "0 \<le> fixedSource_Intn s n \<and> fixedSource_Intn s n < n"
    using smod_int_range [of n s] by (auto simp: fixedSource_Intn_def Let_def)
qed

section \<open>Rendezvous choice\<close>

lemma better_trans: "\<not> better score b a \<Longrightarrow> \<not> better score c b \<Longrightarrow> \<not> better score c a"
  by (auto simp: better_def Let_def)

lemma fold_best:
  "let p = fold (\<lambda>c p. if better score c p then c else p) cs x
   in p \<in> insert x (set cs) \<and> (\<forall>d \<in> insert x (set cs). \<not> better score d p)"
proof (induction cs arbitrary: x)
  case Nil
  then show ?case by (simp add: better_def)
next
  case (Cons c cs)
  let ?x = "if better score c x then c else x"
  let ?p = "fold (\<lambda>c p. if better score c p then c else p) cs ?x"
  have ih: "?p \<in> insert ?x (set cs)" "\<forall>d \<in> insert ?x (set cs). \<not> better score d ?p"
    using Cons.IH [of ?x] by (simp_all add: Let_def)
  have "\<not> better score c ?x" "\<not> better score x ?x" by (auto simp: better_def Let_def)
  then have "\<not> better score c ?p" "\<not> better score x ?p" using ih(2) better_trans by blast+
  with ih show ?case by (auto simp: Let_def split: if_splits)
qed

lemma preferred_best:
  assumes "es \<noteq> []"
  shows "preferred score es \<in> set es" and "d \<in> set es \<Longrightarrow> \<not> better score d (preferred score es)"
proof -
  have "insert (hd es) (set (tl es)) = set es" using assms by (cases es) auto
  then show "preferred score es \<in> set es" "d \<in> set es \<Longrightarrow> \<not> better score d (preferred score es)"
    using fold_best [of score "tl es" "hd es"] by (simp_all add: preferred_def Let_def)
qed

lemma preferred_unique:
  assumes inj: "inj_on (\<lambda>c. Backend_ID (Cand_Backend c)) (set es)" and "p \<in> set es"
    and "\<forall>d \<in> set es. \<not> better score d p"
  shows "preferred score es = p"
proof -
  have ne: "es \<noteq> []" using assms(2) by auto
  note b = preferred_best [OF ne]
  have "\<not> better score p (preferred score es)" "\<not> better score (preferred score es) p"
    using b assms by auto
  then have "Backend_ID (Cand_Backend (preferred score es)) = Backend_ID (Cand_Backend p)"
    by (auto simp: better_def Let_def)
  with inj b(1) assms(2) show ?thesis by (auto dest: inj_onD)
qed

lemma eligible_fin:
  assumes "\<forall>c \<in> set cs. Cand_GatewayInflight c \<le> maxInt"
  shows "\<forall>c \<in> set (eligibleCandidates cs ex). usable c"
proof
  fix c assume "c \<in> set (eligibleCandidates cs ex)"
  then have "c \<in> set cs" "\<not> f64_IsNaN (Cand_Pressure c)" "\<not> f64_IsInf (Cand_Pressure c)"
    by (simp_all add: eligibleCandidates_def)
  with assms show "usable c"
    by (cases "Cand_Pressure c") (auto simp: usable_def f64_IsNaN_def f64_IsInf_def)
qed

section \<open>Properties\<close>

text \<open>
  Selection is sound and total. With a random source that stays in range, the router
  answers \<open>ErrNoBackend\<close> exactly if no candidate is eligible; otherwise it returns an
  eligible candidate whose pressure exceeds no eligible candidate's by more than epsilon and
  which, among all candidates with that property, has the fewest gateway requests in flight.
  It never indexes out of range.
\<close>

theorem Select_least_loaded:
  fixes exclude :: "int list" and epsilon maximum :: f64
  assumes "\<And>n. 0 < n \<Longrightarrow> 0 \<le> Intn n \<and> Intn n < n"
    and "\<forall>c \<in> set cs. Cand_GatewayInflight c \<le> maxInt"
  defines "es \<equiv> eligibleCandidates cs exclude" and "r \<equiv> NewRouterWithSessionAffinity epsilon maximum"
  shows "if es = [] then Select Intn r cs exclude = Inl ErrNoBackend
    else \<exists>c. Select Intn r cs exclude = Inr c \<and> c \<in> set cs \<and> Cand_Eligible c \<and>
      Backend_ID (Cand_Backend c) \<notin> set exclude \<and> least_loaded r es c"
proof (cases "es = []")
  case True
  then show ?thesis by (simp add: Select_def selectEligible_def es_def)
next
  case False
  have "random_source Intn" using assms(1) by unfold_locales blast
  then obtain c where c: "selectEligible Intn r es = Inr c" "least_loaded r es c"
    using random_source.select_least_loaded [of Intn r es] NewRouter_ok eligible_fin [OF assms(2)] False
    by (auto simp: es_def r_def)
  then have "c \<in> set es" by (simp add: least_loaded_def)
  with c False show ?thesis by (simp add: Select_def es_def eligibleCandidates_def)
qed

definition demo_backend :: "int \<Rightarrow> Backend" where
  "demo_backend i =
     \<lparr>Backend_ID = i, Backend_Revision = 1, Backend_ModelPoolID = 1, Backend_Name = ''b'', Backend_BaseURL = ''http://b'',
      Backend_Enabled = True, Backend_Draining = False, Backend_CapacityHint = Fin 1, Backend_RunningSoftLimit = Fin 8,
      Backend_UpstreamAPIKeyEnv = [], Backend_CreatedAt = 1, Backend_UpdatedAt = 1\<rparr>"

definition demo_candidate :: "int \<Rightarrow> real \<Rightarrow> int \<Rightarrow> Candidate" where
  "demo_candidate i p n =
     \<lparr>Cand_Backend = demo_backend i, Cand_Pressure = Fin p, Cand_GatewayInflight = n, Cand_Eligible = True\<rparr>"

theorem Select_least_loaded_witness:
  "\<exists>c. Select (fixedSource_Intn 5) (NewRouterWithSessionAffinity (Fin (1 / 10)) (Fin 1))
     [demo_candidate 1 (1 / 2) 3, demo_candidate 2 (11 / 20) 1] [] = Inr c \<and> Cand_Eligible c"
proof -
  have "eligibleCandidates [demo_candidate 1 (1 / 2) 3, demo_candidate 2 (11 / 20) 1] [] \<noteq> []"
    by (simp add: eligibleCandidates_def demo_candidate_def demo_backend_def f64_IsNaN_def f64_IsInf_def)
  then show ?thesis
    using Select_least_loaded [where Intn = "fixedSource_Intn 5" and exclude = "[]" and epsilon = "Fin (1 / 10)"
        and cs = "[demo_candidate 1 (1 / 2) 3, demo_candidate 2 (11 / 20) 1]" and maximum = "Fin 1"] fixed_source.in_range
    by (auto simp: demo_candidate_def maxInt_def)
qed



end
