(* ===== verification/Go_Http.thy ===== *)
theory Go_Http
  imports Go_Strings
begin

text \<open>
  The parts of \<^verbatim>\<open>net/http\<close>, \<^verbatim>\<open>strconv\<close> and \<^verbatim>\<open>strings\<close> that the header code uses. A
  \<^verbatim>\<open>http.Header\<close> is a map from names to lists of values; its methods canonicalise the name
  they are given.
\<close>

type_synonym header = "(string, string list) gomap"

section \<open>Characters\<close>

definition isLowerByte :: "char \<Rightarrow> bool" where
  "isLowerByte c \<longleftrightarrow> 97 \<le> byteval c \<and> byteval c \<le> 122"

definition isUpperByte :: "char \<Rightarrow> bool" where
  "isUpperByte c \<longleftrightarrow> 65 \<le> byteval c \<and> byteval c \<le> 90"

definition isDigitByte :: "char \<Rightarrow> bool" where
  "isDigitByte c \<longleftrightarrow> 48 \<le> byteval c \<and> byteval c \<le> 57"

definition upperByte :: "char \<Rightarrow> char" where
  "upperByte c = (if isLowerByte c then char_of (byteval c - 32) else c)"

definition lowerByte :: "char \<Rightarrow> char" where
  "lowerByte c = (if isUpperByte c then char_of (byteval c + 32) else c)"

definition validHeaderFieldByte :: "char \<Rightarrow> bool" where
  "validHeaderFieldByte c \<longleftrightarrow> isLowerByte c \<or> isUpperByte c \<or> isDigitByte c \<or>
     c \<in> set ''!#$%&*+-.^_`|~'' \<or> byteval c = 39"

section \<open>Strings\<close>

text \<open>
  \<^verbatim>\<open>strings.ToLower\<close>, exact on every input whose result is compared with ASCII text: the two
  non-ASCII letters whose lower case is ASCII are the capital I with dot (\<^verbatim>\<open>C4 B0\<close>) and the
  Kelvin sign (\<^verbatim>\<open>E2 84 AA\<close>); the lower case of any other non-ASCII letter is not ASCII, and
  its bytes are left as they are.
\<close>

fun toLower :: "string \<Rightarrow> string" where
  "toLower [] = []"
| "toLower [a] = [lowerByte a]"
| "toLower [a, b] =
     (if byteval a = 196 \<and> byteval b = 176 then ''i'' else lowerByte a # toLower [b])"
| "toLower (a # b # c # s) =
     (if byteval a = 196 \<and> byteval b = 176 then CHR ''i'' # toLower (c # s)
      else if byteval a = 226 \<and> byteval b = 132 \<and> byteval c = 170 then CHR ''k'' # toLower s
      else lowerByte a # toLower (b # c # s))"

fun splitOn :: "char \<Rightarrow> string \<Rightarrow> string list" where
  "splitOn sep [] = [[]]"
| "splitOn sep (c # s) =
     (if c = sep then [] # splitOn sep s
      else (case splitOn sep s of [] \<Rightarrow> [[c]] | p # ps \<Rightarrow> (c # p) # ps))"

function natDigits :: "nat \<Rightarrow> string" where
  "natDigits n = (if n < 10 then [char_of (48 + n)] else natDigits (n div 10) @ [char_of (48 + n mod 10)])"
  by pat_completeness auto
termination by (relation "measure id") auto

definition itoa :: "int \<Rightarrow> string" where
  "itoa n = (if n < 0 then CHR ''-'' # natDigits (nat (- n)) else natDigits (nat n))"

section \<open>Headers\<close>

fun canonicalBytes :: "bool \<Rightarrow> string \<Rightarrow> string" where
  "canonicalBytes upper [] = []"
| "canonicalBytes upper (c # s) =
     (let c' = (if upper then upperByte c else lowerByte c) in c' # canonicalBytes (c' = CHR ''-'') s)"

definition canonicalHeaderKey :: "string \<Rightarrow> string" where
  "canonicalHeaderKey s = (if list_all validHeaderFieldByte s then canonicalBytes True s else s)"

definition headerValues :: "header \<Rightarrow> string \<Rightarrow> string list" where
  "headerValues h key = (case mget h (canonicalHeaderKey key) of None \<Rightarrow> [] | Some vs \<Rightarrow> vs)"

definition headerGet :: "header \<Rightarrow> string \<Rightarrow> string" where
  "headerGet h key = (case headerValues h key of [] \<Rightarrow> [] | v # _ \<Rightarrow> v)"

definition headerDel :: "header \<Rightarrow> string \<Rightarrow> header" where
  "headerDel h key = mdel (canonicalHeaderKey key) h"

definition headerSet :: "header \<Rightarrow> string \<Rightarrow> string \<Rightarrow> header" where
  "headerSet h key value = mput (canonicalHeaderKey key) [value] h"

definition headerAdd :: "header \<Rightarrow> string \<Rightarrow> string \<Rightarrow> header" where
  "headerAdd h key value = mput (canonicalHeaderKey key) (headerValues h key @ [value]) h"

definition canonical_keys :: "header \<Rightarrow> bool" where
  "canonical_keys h \<longleftrightarrow> mwf h \<and> (\<forall>k vs. mget h k = Some vs \<longrightarrow> canonicalHeaderKey k = k)"

declare natDigits.simps [simp del]

lemmas header_ops = headerValues_def headerGet_def headerDel_def headerSet_def headerAdd_def

lemma headerValues_Del [simp]:
  "headerValues (headerDel h a) n =
     (if canonicalHeaderKey n = canonicalHeaderKey a then [] else headerValues h n)"
  by (simp add: headerValues_def headerDel_def)

lemma canonical_keysD: "canonical_keys h \<Longrightarrow> mget h k = Some vs \<Longrightarrow> canonicalHeaderKey k = k"
  by (simp add: canonical_keys_def)

lemma canonical_keys_Cons:
  "canonical_keys ((k, vs) # h) \<longleftrightarrow> canonicalHeaderKey k = k \<and> mget h k = None \<and> canonical_keys h"
  by (auto simp: canonical_keys_def mwf_def mget_def map_of_eq_None_iff dest: map_of_SomeD split: if_splits)

lemma canonical_keys_Nil [simp]: "canonical_keys []"
  by (simp add: canonical_keys_def mwf_def mget_def)

end
