(* ===== verification/Proxy_Headers.thy ===== *)
theory Proxy_Headers
  imports Go_Http
begin

text \<open>
  Header preparation of the proxy (\<^verbatim>\<open>internal/proxy/headers.go\<close>): which headers of a request
  reach the backend and which headers of a response reach the client. A loop over a Go map
  visits the entries of the association list in some order; the theorems hold for every list
  that represents the map.
\<close>

definition hopByHopHeaders :: "string list" where
  "hopByHopHeaders =
     [''Connection'', ''Proxy-Connection'', ''Keep-Alive'', ''Proxy-Authenticate'',
      ''Proxy-Authorization'', ''Te'', ''Trailer'', ''Transfer-Encoding'', ''Upgrade'']"

definition connectionTokens :: "header \<Rightarrow> string list" where
  "connectionTokens source =
     filter (\<lambda>token. token \<noteq> [])
       (map (\<lambda>token. canonicalHeaderKey (trimSpace token))
         (concat (map (splitOn (CHR '','')) (headerValues source ''Connection''))))"

definition hopSet :: "header \<Rightarrow> string list" where
  "hopSet source = map canonicalHeaderKey hopByHopHeaders @ connectionTokens source"

definition cloneEndToEndHeaders :: "header \<Rightarrow> header" where
  "cloneEndToEndHeaders source =
     fold (\<lambda>(key, values) destination.
             if canonicalHeaderKey key \<in> set (hopSet source) then destination
             else mput (canonicalHeaderKey key) values destination)
       source mempty"

definition PrepareUpstreamHeaders :: "header \<Rightarrow> string \<Rightarrow> int \<Rightarrow> string \<Rightarrow> header" where
  "PrepareUpstreamHeaders source requestID priority upstreamAPIKey =
     (let headers = cloneEndToEndHeaders source;
          headers = headerDel headers ''Authorization'';
          headers = headerSet headers ''X-Request-Id'' requestID;
          headers = headerSet headers ''X-Vllm-Priority'' (itoa priority)
      in if upstreamAPIKey \<noteq> [] then headerSet headers ''Authorization'' (''Bearer '' @ upstreamAPIKey)
         else headers)"

definition PrepareTokenizationHeaders :: "header \<Rightarrow> string \<Rightarrow> string \<Rightarrow> header" where
  "PrepareTokenizationHeaders source requestID upstreamAPIKey =
     (let headers = cloneEndToEndHeaders source;
          headers = fold (\<lambda>key h. headerDel h key)
            [''Authorization'', ''X-Vllm-Priority'', ''X-LLM-Session-Id'', ''X-Session-Id'',
             ''Content-Length'', ''Idempotency-Key'', ''X-Idempotency-Key''] headers;
          headers = headerSet headers ''X-Request-Id'' requestID;
          headers = headerSet headers ''Content-Type'' ''application/json''
      in if upstreamAPIKey \<noteq> [] then headerSet headers ''Authorization'' (''Bearer '' @ upstreamAPIKey)
         else headers)"

definition CopyResponseHeaders :: "header \<Rightarrow> header \<Rightarrow> header" where
  "CopyResponseHeaders destination source =
     fold (\<lambda>(key, values) destination.
             fold (\<lambda>value h. headerAdd h key value) values (headerDel destination key))
       (cloneEndToEndHeaders source) destination"

section \<open>End-to-end headers\<close>

lemma fold_clone:
  "canonical_keys source \<Longrightarrow>
     mget (fold (\<lambda>(key, values) destination.
             if canonicalHeaderKey key \<in> H then destination
             else mput (canonicalHeaderKey key) values destination) source d) k =
       (if k \<in> H then mget d k
        else case mget source k of None \<Rightarrow> mget d k | Some vs \<Rightarrow> Some vs)"
proof (induction source arbitrary: d)
  case (Cons kv source)
  obtain key vs where kv: "kv = (key, vs)" by (cases kv)
  with Cons.prems have "canonicalHeaderKey key = key" "mget source key = None" "canonical_keys source"
    by (simp_all add: canonical_keys_Cons)
  with Cons.IH show ?case
    by (auto simp: kv mget_Cons split: option.splits)
qed (simp add: mget_def)

lemma mget_clone:
  "canonical_keys source \<Longrightarrow>
     mget (cloneEndToEndHeaders source) k = (if k \<in> set (hopSet source) then None else mget source k)"
  unfolding cloneEndToEndHeaders_def by (subst fold_clone) (auto split: option.splits)

lemma fold_clone_wf:
  "mwf d \<Longrightarrow> mwf (fold (\<lambda>(key, values) destination.
             if canonicalHeaderKey key \<in> H then destination
             else mput (canonicalHeaderKey key) values destination) source d)"
  by (induction source arbitrary: d) auto

lemma clone_canonical: "canonical_keys source \<Longrightarrow> canonical_keys (cloneEndToEndHeaders source)"
  unfolding canonical_keys_def [of "cloneEndToEndHeaders source"]
  by (auto simp: mget_clone canonical_keysD split: if_splits)
     (simp add: cloneEndToEndHeaders_def fold_clone_wf)

lemma canonical_constants:
  "canonicalHeaderKey ''Authorization'' = ''Authorization''"
  "canonicalHeaderKey ''X-Request-Id'' = ''X-Request-Id''"
  "canonicalHeaderKey ''X-Vllm-Priority'' = ''X-Vllm-Priority''"
  "canonicalHeaderKey ''X-LLM-Session-Id'' = ''X-Llm-Session-Id''"
  "canonicalHeaderKey ''X-Session-Id'' = ''X-Session-Id''"
  "canonicalHeaderKey ''Content-Length'' = ''Content-Length''"
  "canonicalHeaderKey ''Content-Type'' = ''Content-Type''"
  "canonicalHeaderKey ''Idempotency-Key'' = ''Idempotency-Key''"
  "canonicalHeaderKey ''X-Idempotency-Key'' = ''X-Idempotency-Key''"
  "canonicalHeaderKey ''Connection'' = ''Connection''"
  by code_simp+

lemma hop_constants: "map canonicalHeaderKey hopByHopHeaders = hopByHopHeaders"
  by code_simp

lemma fold_add:
  "mget (fold (\<lambda>value h. headerAdd h key value) values h) k =
     (if k = canonicalHeaderKey key \<and> values \<noteq> [] then Some (headerValues h key @ values) else mget h k)"
  by (induction "values" arbitrary: h) (auto simp: headerAdd_def headerValues_def)

lemma fold_copy:
  "canonical_keys clean \<Longrightarrow>
     mget (fold (\<lambda>(key, values) destination.
             fold (\<lambda>value h. headerAdd h key value) values (headerDel destination key)) clean d) k =
       (case mget clean k of None \<Rightarrow> mget d k | Some vs \<Rightarrow> if vs = [] then None else Some vs)"
proof (induction clean arbitrary: d)
  case (Cons kv clean)
  obtain key vs where kv: "kv = (key, vs)" by (cases kv)
  with Cons.prems have *: "canonicalHeaderKey key = key" "mget clean key = None" "canonical_keys clean"
    by (simp_all add: canonical_keys_Cons)
  then have "mget (fold (\<lambda>value h. headerAdd h key value) vs (headerDel d key)) k =
      (if k = key then if vs = [] then None else Some vs else mget d k)"
    by (simp add: fold_add headerDel_def headerValues_def)
  with Cons.IH * show ?case
    by (auto simp: kv mget_Cons split: option.splits)
qed (simp add: mget_def)

section \<open>What is forwarded\<close>

lemmas prepare_simps = headerDel_def headerSet_def canonical_constants mget_clone hopSet_def hop_constants

text \<open>C36: the headers sent to a backend are exactly the client's end-to-end headers with the
  gateway's own request id and priority, and with the client's credential replaced by the
  backend's (or removed): no hop-by-hop header and no header the client listed in
  \<^verbatim>\<open>Connection\<close> is forwarded, and every other header keeps its values.\<close>

theorem upstream_headers_sanitised:
  assumes "canonical_keys source"
  shows "mget (PrepareUpstreamHeaders source requestID priority apiKey) k =
    (if k = ''X-Vllm-Priority'' then Some [itoa priority]
     else if k = ''X-Request-Id'' then Some [requestID]
     else if k = ''Authorization'' then (if apiKey = [] then None else Some [''Bearer '' @ apiKey])
     else if k \<in> set hopByHopHeaders \<or> k \<in> set (connectionTokens source) then None
     else mget source k)"
  using assms by (simp add: PrepareUpstreamHeaders_def Let_def prepare_simps)

theorem upstream_headers_sanitised_witness:
  "\<forall>k. mget (PrepareUpstreamHeaders
      [(''Authorization'', [''Bearer client'']), (''Connection'', [''close, x-Secret'']),
       (''X-Secret'', [''1'']), (''Accept'', [''a'', ''b''])] ''r1'' (- 12) ''up'') k =
    (if k = ''X-Vllm-Priority'' then Some [''-12'']
     else if k = ''X-Request-Id'' then Some [''r1'']
     else if k = ''Authorization'' then Some [''Bearer up'']
     else if k = ''Accept'' then Some [''a'', ''b''] else None)" (is "\<forall>k. ?P k")
proof -
  let ?h = "[(''Authorization'', [''Bearer client'']), (''Connection'', [''close, x-Secret'']),
       (''X-Secret'', [''1'']), (''Accept'', [''a'', ''b''])]"
  have c: "canonical_keys ?h"
    by (simp add: canonical_keys_Cons mget_Cons) code_simp
  have t: "connectionTokens ?h = [''Close'', ''X-Secret'']" by code_simp
  have i: "itoa (- 12) = ''-12''" by code_simp
  show ?thesis
  proof
    fix k
    show "?P k"
      using upstream_headers_sanitised [OF c, of "''r1''" "- 12" "''up''" k]
      by (auto simp: t i hopByHopHeaders_def mget_Cons mget_def)
  qed
qed

text \<open>The headers of a tokenization request carry neither the client's credential nor its
  session, priority or idempotency headers, and always declare a JSON body.\<close>

theorem tokenization_headers_sanitised:
  assumes "canonical_keys source"
  shows "mget (PrepareTokenizationHeaders source requestID apiKey) k =
    (if k = ''Authorization'' then (if apiKey = [] then None else Some [''Bearer '' @ apiKey])
     else if k = ''Content-Type'' then Some [''application/json'']
     else if k = ''X-Request-Id'' then Some [requestID]
     else if k \<in> {''X-Vllm-Priority'', ''X-Llm-Session-Id'', ''X-Session-Id'', ''Content-Length'',
                  ''Idempotency-Key'', ''X-Idempotency-Key''} then None
     else if k \<in> set hopByHopHeaders \<or> k \<in> set (connectionTokens source) then None
     else mget source k)"
  using assms by (simp add: PrepareTokenizationHeaders_def Let_def prepare_simps)

theorem tokenization_headers_sanitised_witness:
  "\<forall>k. mget (PrepareTokenizationHeaders [(''X-Session-Id'', [''s'']), (''Accept'', [''a''])] ''r1'' []) k =
    (if k = ''Content-Type'' then Some [''application/json'']
     else if k = ''X-Request-Id'' then Some [''r1'']
     else if k = ''Accept'' then Some [''a''] else None)" (is "\<forall>k. ?P k")
proof -
  let ?h = "[(''X-Session-Id'', [''s'']), (''Accept'', [''a''])]"
  have c: "canonical_keys ?h"
    by (simp add: canonical_keys_Cons mget_Cons) code_simp
  have t: "connectionTokens ?h = []" by code_simp
  show ?thesis
  proof
    fix k
    show "?P k"
      using tokenization_headers_sanitised [OF c, of "''r1''" "[]" k]
      by (auto simp: t hopByHopHeaders_def mget_Cons mget_def)
  qed
qed

text \<open>Copying a backend's response headers replaces the destination's values of every
  end-to-end header of the response and touches nothing else; a hop-by-hop header of the
  response never reaches the client.\<close>

theorem response_headers_copied:
  assumes "canonical_keys source"
  shows "mget (CopyResponseHeaders destination source) k =
    (if k \<in> set hopByHopHeaders \<or> k \<in> set (connectionTokens source) then mget destination k
     else case mget source k of
            None \<Rightarrow> mget destination k
          | Some vs \<Rightarrow> if vs = [] then None else Some vs)"
  unfolding CopyResponseHeaders_def using assms
  by (subst fold_copy) (auto simp: clone_canonical mget_clone hopSet_def hop_constants)

theorem response_headers_copied_witness:
  "\<forall>k. mget (CopyResponseHeaders [(''Server'', [''gateway'']), (''Vary'', [''x''])]
      [(''Server'', [''vllm'']), (''Trailer'', [''t''])]) k =
    (if k = ''Server'' then Some [''vllm''] else if k = ''Vary'' then Some [''x''] else None)" (is "\<forall>k. ?P k")
proof -
  let ?h = "[(''Server'', [''vllm'']), (''Trailer'', [''t''])]"
  have c: "canonical_keys ?h"
    by (simp add: canonical_keys_Cons mget_Cons) code_simp
  have t: "connectionTokens ?h = []" by code_simp
  show ?thesis
  proof
    fix k
    show "?P k"
      using response_headers_copied [OF c, of _ k]
      by (auto simp: t hopByHopHeaders_def mget_Cons mget_def)
  qed
qed

end
