(* ===== verification/Gateway_Types.thy ===== *)
theory Gateway_Types
  imports Coordination_Types Go_Http
begin

text \<open>
  The errors the gateway answers with (\<^verbatim>\<open>internal/gateway/service.go\<close>) and the bounded
  decision reasons it reports (\<^verbatim>\<open>internal/gateway/observer.go\<close>). The empty decision reason
  is \<open>NoDecision\<close>.
\<close>

datatype DecisionReason =
    NoDecision
  | DecisionPoolWaitingLimit
  | DecisionPoolInflightLimit
  | DecisionPoolPriorityReserve
  | DecisionPriorityConcurrencyLimit
  | DecisionPoolUnavailable
  | DecisionNoEligibleBackend
  | DecisionGatewayBackpressure
  | DecisionModelNotAllowed
  | DecisionInvalidRequest
  | DecisionInvalidAPIKey
  | DecisionUpstreamFailure

datatype QueueOutcome = NoQueueOutcome | QueueSelected | QueueRejected

record APIError =
  AE_HTTPStatus :: int
  AE_Message :: string
  AE_Type :: string
  AE_Code :: string
  AE_RetryAfter :: duration
  AE_DecisionReason :: DecisionReason

definition Reason_string :: "Reason \<Rightarrow> string" where
  "Reason_string r = (case r of
     NoReason \<Rightarrow> []
   | ReasonConcurrencyExhausted \<Rightarrow> ''concurrency_exhausted''
   | ReasonPoolPriorityReserve \<Rightarrow> ''pool_priority_reserve''
   | ReasonRPMExhausted \<Rightarrow> ''rpm_exhausted''
   | ReasonTPMExhausted \<Rightarrow> ''tpm_exhausted''
   | ReasonStaleConfiguration \<Rightarrow> ''stale_configuration''
   | ReasonStaleBackend \<Rightarrow> ''stale_backend''
   | ReasonCircuitOpen \<Rightarrow> ''circuit_open''
   | ReasonProbeCapacityExhausted \<Rightarrow> ''probe_capacity_exhausted''
   | ReasonCoordinationUnavailable \<Rightarrow> ''coordination_unavailable''
   | ReasonLeaseLost \<Rightarrow> ''lease_lost''
   | ReasonStaleOperation \<Rightarrow> ''stale_operation''
   | ReasonIdempotencyConflict \<Rightarrow> ''idempotency_conflict'')"

definition invalidAPIKey :: APIError where
  "invalidAPIKey = \<lparr>AE_HTTPStatus = 401, AE_Message = ''Invalid API key'',
     AE_Type = ''authentication_error'', AE_Code = ''invalid_api_key'',
     AE_RetryAfter = 0, AE_DecisionReason = DecisionInvalidAPIKey\<rparr>"

definition invalidRequest :: "string \<Rightarrow> APIError" where
  "invalidRequest message = \<lparr>AE_HTTPStatus = 400, AE_Message = message,
     AE_Type = ''invalid_request_error'', AE_Code = ''invalid_request_error'',
     AE_RetryAfter = 0, AE_DecisionReason = DecisionInvalidRequest\<rparr>"

definition modelNotAllowed :: APIError where
  "modelNotAllowed = \<lparr>AE_HTTPStatus = 403,
     AE_Message = ''The requested model is not available to this client'',
     AE_Type = ''invalid_request_error'', AE_Code = ''model_not_allowed'',
     AE_RetryAfter = 0, AE_DecisionReason = DecisionModelNotAllowed\<rparr>"

definition overloadedError :: "duration \<Rightarrow> DecisionReason \<Rightarrow> APIError" where
  "overloadedError retryAfter reason = \<lparr>AE_HTTPStatus = 429,
     AE_Message = ''Inference cluster is currently overloaded'',
     AE_Type = ''rate_limit_error'', AE_Code = ''gateway_overloaded'',
     AE_RetryAfter = retryAfter, AE_DecisionReason = reason\<rparr>"

definition backendUnavailable :: "duration \<Rightarrow> DecisionReason \<Rightarrow> APIError" where
  "backendUnavailable retryAfter reason = \<lparr>AE_HTTPStatus = 503,
     AE_Message = ''No healthy inference backend is currently available'',
     AE_Type = ''server_error'', AE_Code = ''backend_unavailable'',
     AE_RetryAfter = retryAfter, AE_DecisionReason = reason\<rparr>"

definition gatewayUnavailable :: "duration \<Rightarrow> APIError" where
  "gatewayUnavailable retryAfter = \<lparr>AE_HTTPStatus = 503,
     AE_Message = ''The gateway is temporarily unable to accept requests'',
     AE_Type = ''server_error'', AE_Code = ''gateway_unavailable'',
     AE_RetryAfter = retryAfter, AE_DecisionReason = DecisionGatewayBackpressure\<rparr>"

definition upstreamError :: APIError where
  "upstreamError = \<lparr>AE_HTTPStatus = 502,
     AE_Message = ''The inference backend could not complete the request'',
     AE_Type = ''server_error'', AE_Code = ''upstream_error'',
     AE_RetryAfter = 0, AE_DecisionReason = DecisionUpstreamFailure\<rparr>"

definition coordinationAPIError :: "Reason \<Rightarrow> duration \<Rightarrow> instant option \<Rightarrow> instant \<Rightarrow> APIError" where
  "coordinationAPIError reason retryAfter0 retryAt now =
     (let retryAfter = (case retryAt of
            None \<Rightarrow> retryAfter0
          | Some t \<Rightarrow> if time_Sub t now > 0 then time_Sub t now else retryAfter0)
      in case reason of
           ReasonRPMExhausted \<Rightarrow> \<lparr>AE_HTTPStatus = 429, AE_Message = ''Rate limit exceeded'',
             AE_Type = ''rate_limit_exceeded'', AE_Code = Reason_string reason,
             AE_RetryAfter = retryAfter, AE_DecisionReason = NoDecision\<rparr>
         | ReasonTPMExhausted \<Rightarrow> \<lparr>AE_HTTPStatus = 429, AE_Message = ''Rate limit exceeded'',
             AE_Type = ''rate_limit_exceeded'', AE_Code = Reason_string reason,
             AE_RetryAfter = retryAfter, AE_DecisionReason = NoDecision\<rparr>
         | ReasonPoolPriorityReserve \<Rightarrow> overloadedError retryAfter DecisionPoolPriorityReserve
         | ReasonConcurrencyExhausted \<Rightarrow> overloadedError retryAfter DecisionPriorityConcurrencyLimit
         | _ \<Rightarrow> gatewayUnavailable retryAfter)"

end
