(* ===== verification/Session_Affinity.thy ===== *)
theory Session_Affinity
  imports Gateway_Types
begin

text \<open>
  Session identifiers of a request (\<^verbatim>\<open>internal/gateway/session_affinity.go\<close>): extraction with
  its precedence and size limit, and removal before the request is forwarded.
\<close>

definition SessionAffinityHeader :: string where
  "SessionAffinityHeader = ''X-LLM-Session-Id''"

definition MaxSessionAffinityIDBytes :: nat where
  "MaxSessionAffinityIDBytes = 256"

definition piSessionAffinityFallbackHeader :: string where
  "piSessionAffinityFallbackHeader = ''X-Client-Request-Id''"

definition piUserAgentPrefix :: string where
  "piUserAgentPrefix = ''pi (''"

definition sessionAffinityHeaders :: "string list" where
  "sessionAffinityHeaders =
     [SessionAffinityHeader, ''X-Opencode-Session'', ''X-Claude-Code-Session-Id'', ''Session-Id'',
      ''Session_id'', ''X-Session-Affinity'', ''X-Session-Id'']"

fun validatedValues :: "string \<Rightarrow> string \<Rightarrow> string list \<Rightarrow> APIError + string" where
  "validatedValues name identifier [] = Inr identifier"
| "validatedValues name identifier (raw # rest) =
     (let value = trimSpace raw in
      if length value > MaxSessionAffinityIDBytes
      then Inl (invalidRequest (name @ '' must not exceed 256 bytes''))
      else if value = [] then validatedValues name identifier rest
      else if identifier \<noteq> [] \<and> identifier \<noteq> value
      then Inl (invalidRequest (name @ '' must not contain conflicting session identifiers''))
      else validatedValues name value rest)"

definition validatedSessionAffinityHeader :: "header \<Rightarrow> string \<Rightarrow> APIError + string" where
  "validatedSessionAffinityHeader headers name = validatedValues name [] (headerValues headers name)"

definition isPiCodingAgent :: "header \<Rightarrow> bool" where
  "isPiCodingAgent headers \<longleftrightarrow>
     hasPrefix (toLower (trimSpace (headerGet headers ''User-Agent''))) piUserAgentPrefix"

fun selectAffinity :: "header \<Rightarrow> string \<Rightarrow> string list \<Rightarrow> APIError + string" where
  "selectAffinity headers selected [] = Inr selected"
| "selectAffinity headers selected (name # names) =
     (case validatedSessionAffinityHeader headers name of
        Inl apiErr \<Rightarrow> Inl apiErr
      | Inr identifier \<Rightarrow>
          selectAffinity headers (if selected = [] then identifier else selected) names)"

definition sessionAffinityID :: "header \<Rightarrow> APIError + string" where
  "sessionAffinityID headers =
     (case selectAffinity headers [] sessionAffinityHeaders of
        Inl apiErr \<Rightarrow> Inl apiErr
      | Inr selected \<Rightarrow>
          if isPiCodingAgent headers
          then selectAffinity headers selected [piSessionAffinityFallbackHeader]
          else Inr selected)"

definition stripSessionAffinityHeaders :: "header \<Rightarrow> header" where
  "stripSessionAffinityHeaders headers0 =
     (let headers = fold (\<lambda>name h. headerDel h name) sessionAffinityHeaders headers0 in
      if isPiCodingAgent headers then headerDel headers piSessionAffinityFallbackHeader else headers)"

section \<open>Validation of one header\<close>

lemma validatedValues_ok:
  "validatedValues nm ident raws = Inr v \<Longrightarrow>
     (\<forall>raw \<in> set raws. length (trimSpace raw) \<le> MaxSessionAffinityIDBytes \<and> trimSpace raw \<in> {[], v}) \<and>
     (v = ident \<or> ident = [] \<and> v \<in> trimSpace ` set raws)"
proof (induction raws arbitrary: ident)
  case (Cons raw rest)
  show ?case
  proof (cases "trimSpace raw = []")
    case True
    with Cons show ?thesis by (auto simp: Let_def MaxSessionAffinityIDBytes_def split: if_splits)
  next
    case False
    with Cons show ?thesis by (auto simp: Let_def split: if_splits)
  qed
qed simp

lemma validated_bounded:
  assumes "validatedSessionAffinityHeader h name = Inr v"
  shows "length v \<le> 256 \<and> trimSpace v = v"
proof (cases "v = []")
  case True
  then show ?thesis by (simp add: trimSpace_def)
next
  case False
  with assms validatedValues_ok [of name "[]" "headerValues h name" v] show ?thesis
    by (auto simp: validatedSessionAffinityHeader_def MaxSessionAffinityIDBytes_def trimSpace_idem)
qed

lemma validated_absent:
  "headerValues h name = [] \<Longrightarrow> validatedSessionAffinityHeader h name = Inr []"
  by (simp add: validatedSessionAffinityHeader_def)

lemma selectAffinity_bounded:
  "selectAffinity h s names = Inr v \<Longrightarrow> length s \<le> 256 \<and> trimSpace s = s \<Longrightarrow>
     length v \<le> 256 \<and> trimSpace v = v"
  by (induction h s names rule: selectAffinity.induct)
     (auto split: sum.splits if_splits dest: validated_bounded)

text \<open>The first header of the list with an identifier wins.\<close>

lemma selectAffinity_first:
  "selectAffinity h s names = Inr v \<Longrightarrow>
     v = (if s \<noteq> [] then s
          else case filter (\<lambda>n. validatedSessionAffinityHeader h n \<noteq> Inr []) names of
                 [] \<Rightarrow> []
               | n # _ \<Rightarrow> projr (validatedSessionAffinityHeader h n))"
  by (induction h s names rule: selectAffinity.induct) (auto split: sum.splits if_splits list.splits)

lemma selectAffinity_valid:
  "selectAffinity h s names = Inr v \<Longrightarrow> n \<in> set names \<Longrightarrow>
     \<exists>x. validatedSessionAffinityHeader h n = Inr x"
  by (induction h s names rule: selectAffinity.induct) (auto split: sum.splits)

lemma selectAffinity_nonempty:
  "selectAffinity h s names = Inr v \<Longrightarrow>
     filter (\<lambda>n. validatedSessionAffinityHeader h n \<noteq> Inr []) names = n # ns \<Longrightarrow>
     projr (validatedSessionAffinityHeader h n) \<noteq> []"
  by (metis (mono_tags, lifting) filter_eq_ConsD in_set_conv_decomp selectAffinity_valid sum.sel(2))

lemma selectAffinity_absent:
  "(\<And>n. n \<in> set names \<Longrightarrow> headerValues h n = []) \<Longrightarrow> selectAffinity h [] names = Inr []"
  by (induction names) (simp_all add: validated_absent)

section \<open>Properties\<close>

text \<open>A session identifier the gateway uses has at most 256 bytes and no surrounding
  space, and it comes from the first header of the precedence list that carries one (the fallback
  header of one agent coming last).\<close>

theorem session_id_valid:
  assumes "sessionAffinityID headers = Inr v"
  defines "names \<equiv> sessionAffinityHeaders @
    (if isPiCodingAgent headers then [piSessionAffinityFallbackHeader] else [])"
  shows "length v \<le> 256 \<and> trimSpace v = v \<and>
    v = (case filter (\<lambda>n. validatedSessionAffinityHeader headers n \<noteq> Inr []) names of
           [] \<Rightarrow> []
         | n # _ \<Rightarrow> projr (validatedSessionAffinityHeader headers n))"
proof -
  obtain s where s: "selectAffinity headers [] sessionAffinityHeaders = Inr s"
    using assms(1) by (auto simp: sessionAffinityID_def split: sum.splits)
  have b: "length s \<le> 256 \<and> trimSpace s = s"
    using selectAffinity_bounded [OF s] by (simp add: trimSpace_def)
  note f = selectAffinity_first [OF s, simplified]
  show ?thesis
  proof (cases "isPiCodingAgent headers")
    case True
    then have v: "selectAffinity headers s [piSessionAffinityFallbackHeader] = Inr v"
      using assms(1) s by (simp add: sessionAffinityID_def del: selectAffinity.simps)
    show ?thesis
      using selectAffinity_bounded [OF v b] selectAffinity_first [OF v] f True
      by (auto simp: names_def split: list.splits if_splits dest: selectAffinity_nonempty [OF s])
  next
    case False
    with assms(1) s have "v = s" by (simp add: sessionAffinityID_def)
    with f b False show ?thesis by (simp add: names_def)
  qed
qed

theorem session_id_valid_witness:
  "sessionAffinityID [(''Session-Id'', ['' s1 '', ''s1'']), (''X-Session-Id'', [''s2''])] = Inr ''s1'' \<and>
   length ''s1'' \<le> 256 \<and> trimSpace ''s1'' = ''s1''"
proof -
  have "sessionAffinityID [(''Session-Id'', ['' s1 '', ''s1'']), (''X-Session-Id'', [''s2''])] = Inr ''s1''"
    by code_simp
  from session_id_valid [OF this] this show ?thesis by simp
qed

lemma strip_get:
  "headerValues (fold (\<lambda>name h. headerDel h name) names h) n =
     (if canonicalHeaderKey n \<in> canonicalHeaderKey ` set names then [] else headerValues h n)"
  by (induction names arbitrary: h) auto

lemma strip_user_agent: "canonicalHeaderKey ''User-Agent'' \<notin> canonicalHeaderKey ` set sessionAffinityHeaders"
  by code_simp

lemma fallback_not_agent: "canonicalHeaderKey ''User-Agent'' \<noteq> canonicalHeaderKey piSessionAffinityFallbackHeader"
  by code_simp

lemma isPi_fold: "isPiCodingAgent (fold (\<lambda>name h. headerDel h name) sessionAffinityHeaders h) = isPiCodingAgent h"
  using strip_user_agent by (simp add: isPiCodingAgent_def headerGet_def strip_get)

lemma isPi_strip: "isPiCodingAgent (stripSessionAffinityHeaders h) = isPiCodingAgent h"
  unfolding stripSessionAffinityHeaders_def Let_def isPi_fold using fallback_not_agent strip_user_agent
  by (simp add: isPiCodingAgent_def headerGet_def strip_get)

text \<open>After stripping, no session identifier is left to extract, and every other header
  is untouched: what the gateway reads as a session identifier never reaches a backend.\<close>

theorem session_headers_stripped:
  "sessionAffinityID (stripSessionAffinityHeaders headers) = Inr [] \<and>
   (canonicalHeaderKey n \<notin> canonicalHeaderKey ` set (piSessionAffinityFallbackHeader # sessionAffinityHeaders) \<longrightarrow>
      headerValues (stripSessionAffinityHeaders headers) n = headerValues headers n)"
proof -
  let ?s = "stripSessionAffinityHeaders headers"
  have v: "headerValues ?s n =
      (if canonicalHeaderKey n \<in> canonicalHeaderKey ` set sessionAffinityHeaders \<or>
          isPiCodingAgent headers \<and> canonicalHeaderKey n = canonicalHeaderKey piSessionAffinityFallbackHeader
       then [] else headerValues headers n)" for n
    unfolding stripSessionAffinityHeaders_def Let_def isPi_fold by (simp add: strip_get)
  have "selectAffinity ?s [] sessionAffinityHeaders = Inr []"
    by (rule selectAffinity_absent) (simp add: v)
  moreover have "selectAffinity ?s [] [piSessionAffinityFallbackHeader] = Inr []" if "isPiCodingAgent headers"
    by (rule selectAffinity_absent) (simp add: v that)
  ultimately have "sessionAffinityID ?s = Inr []"
    by (simp add: sessionAffinityID_def isPi_strip del: selectAffinity.simps)
  then show ?thesis by (auto simp: v)
qed

theorem session_headers_stripped_witness:
  "headerValues (stripSessionAffinityHeaders [(''Accept'', [''a'']), (''Session-Id'', [''s''])]) ''accept'' = [''a'']"
proof -
  have "canonicalHeaderKey ''accept'' \<notin>
      canonicalHeaderKey ` set (piSessionAffinityFallbackHeader # sessionAffinityHeaders)"
    by code_simp
  moreover have "headerValues [(''Accept'', [''a'']), (''Session-Id'', [''s''])] ''accept'' = [''a'']"
    by code_simp
  ultimately show ?thesis
    using session_headers_stripped [of "[(''Accept'', [''a'']), (''Session-Id'', [''s''])]" "''accept''"]
    by simp
qed

end
