(* ===== verification/Registry.thy ===== *)
theory Registry
  imports Domain
begin

text \<open>
  The in-memory configuration registry (\<^verbatim>\<open>internal/registry\<close>). \<open>indexData\<close> checks and indexes
  the rows loaded from the store; \<open>Reload\<close> publishes the result when its revision is newer, after
  merging the revocations and last-use times already published. Every writer holds the
  publication mutex, so its compare-and-swap loop runs once: a publication is one function of
  the current snapshot. \<open>RevisionGuard\<close> latches a fault when the revision of the store goes back.
\<close>

record Data =
  Data_Revision :: int
  Data_Clients :: "Client list"
  Data_Keys :: "APIKey list"
  Data_Pools :: "ModelPool list"
  Data_Access :: "ClientModelAccess list"
  Data_Backends :: "Backend list"

record Snapshot =
  Snap_Revision :: int
  Snap_Clients :: "(int, Client) gomap"
  Snap_KeyCandidates :: "(string, APIKey list) gomap"
  Snap_PoolsByID :: "(int, ModelPool) gomap"
  Snap_PoolsByName :: "(string, ModelPool) gomap"
  Snap_Access :: "(int, (int, bool) gomap) gomap"
  Snap_BackendsByID :: "(int, Backend) gomap"
  Snap_BackendsByPool :: "(int, Backend list) gomap"

datatype RegistryError =
    LoadFailed string
  | DuplicateClientID int
  | DuplicatePoolID int
  | DuplicatePublicModelName string
  | KeyMissingClient int int
  | AccessMissingClient int
  | AccessMissingPool int
  | BackendMissingPool int int
  | DuplicateBackendID int

definition mgetl :: "('k, 'v list) gomap \<Rightarrow> 'k \<Rightarrow> 'v list" where
  "mgetl m k = (case mget m k of None \<Rightarrow> [] | Some vs \<Rightarrow> vs)"

definition newSnapshot :: Snapshot where
  "newSnapshot = \<lparr>Snap_Revision = 0, Snap_Clients = mempty, Snap_KeyCandidates = mempty,
     Snap_PoolsByID = mempty, Snap_PoolsByName = mempty, Snap_Access = mempty,
     Snap_BackendsByID = mempty, Snap_BackendsByPool = mempty\<rparr>"

section \<open>Indexing\<close>

fun indexClients :: "Client list \<Rightarrow> Snapshot \<Rightarrow> RegistryError + Snapshot" where
  "indexClients [] s = Inr s"
| "indexClients (client # rest) s =
     (if mget (Snap_Clients s) (Client_ID client) \<noteq> None then Inl (DuplicateClientID (Client_ID client))
      else indexClients rest (s\<lparr>Snap_Clients := mput (Client_ID client) client (Snap_Clients s)\<rparr>))"

fun indexPools :: "ModelPool list \<Rightarrow> Snapshot \<Rightarrow> RegistryError + Snapshot" where
  "indexPools [] s = Inr s"
| "indexPools (pool # rest) s =
     (if mget (Snap_PoolsByID s) (Pool_ID pool) \<noteq> None then Inl (DuplicatePoolID (Pool_ID pool))
      else if mget (Snap_PoolsByName s) (Pool_PublicModelName pool) \<noteq> None
      then Inl (DuplicatePublicModelName (Pool_PublicModelName pool))
      else indexPools rest
        (s\<lparr>Snap_PoolsByID := mput (Pool_ID pool) pool (Snap_PoolsByID s),
           Snap_PoolsByName := mput (Pool_PublicModelName pool) pool (Snap_PoolsByName s)\<rparr>))"

fun indexKeys :: "APIKey list \<Rightarrow> Snapshot \<Rightarrow> RegistryError + Snapshot" where
  "indexKeys [] s = Inr s"
| "indexKeys (key # rest) s =
     (if mget (Snap_Clients s) (APIKey_ClientID key) = None
      then Inl (KeyMissingClient (APIKey_ID key) (APIKey_ClientID key))
      else indexKeys rest
        (s\<lparr>Snap_KeyCandidates := mput (APIKey_Prefix key)
             (mgetl (Snap_KeyCandidates s) (APIKey_Prefix key) @ [key]) (Snap_KeyCandidates s)\<rparr>))"

fun indexAccess :: "ClientModelAccess list \<Rightarrow> Snapshot \<Rightarrow> RegistryError + Snapshot" where
  "indexAccess [] s = Inr s"
| "indexAccess (access # rest) s =
     (if mget (Snap_Clients s) (Access_ClientID access) = None
      then Inl (AccessMissingClient (Access_ClientID access))
      else if mget (Snap_PoolsByID s) (Access_ModelPoolID access) = None
      then Inl (AccessMissingPool (Access_ModelPoolID access))
      else indexAccess rest
        (s\<lparr>Snap_Access := mput (Access_ClientID access)
             (mput (Access_ModelPoolID access) (Access_Enabled access)
               (case mget (Snap_Access s) (Access_ClientID access) of None \<Rightarrow> mempty | Some m \<Rightarrow> m))
             (Snap_Access s)\<rparr>))"

fun indexBackends :: "Backend list \<Rightarrow> Snapshot \<Rightarrow> RegistryError + Snapshot" where
  "indexBackends [] s = Inr s"
| "indexBackends (backend # rest) s =
     (if mget (Snap_PoolsByID s) (Backend_ModelPoolID backend) = None
      then Inl (BackendMissingPool (Backend_ID backend) (Backend_ModelPoolID backend))
      else if mget (Snap_BackendsByID s) (Backend_ID backend) \<noteq> None
      then Inl (DuplicateBackendID (Backend_ID backend))
      else indexBackends rest
        (s\<lparr>Snap_BackendsByID := mput (Backend_ID backend) backend (Snap_BackendsByID s),
           Snap_BackendsByPool := mput (Backend_ModelPoolID backend)
             (mgetl (Snap_BackendsByPool s) (Backend_ModelPoolID backend) @ [backend])
             (Snap_BackendsByPool s)\<rparr>))"

definition indexData :: "Data \<Rightarrow> RegistryError + Snapshot" where
  "indexData data =
     (case indexClients (Data_Clients data) (newSnapshot\<lparr>Snap_Revision := Data_Revision data\<rparr>) of
        Inl e \<Rightarrow> Inl e
      | Inr s \<Rightarrow> (case indexPools (Data_Pools data) s of
        Inl e \<Rightarrow> Inl e
      | Inr s \<Rightarrow> (case indexKeys (Data_Keys data) s of
        Inl e \<Rightarrow> Inl e
      | Inr s \<Rightarrow> (case indexAccess (Data_Access data) s of
        Inl e \<Rightarrow> Inl e
      | Inr s \<Rightarrow> indexBackends (Data_Backends data) s))))"

section \<open>Publication\<close>

definition NewRegistry :: Snapshot where
  "NewRegistry = newSnapshot\<lparr>Snap_Revision := - 1\<rparr>"

definition keysByID :: "Snapshot \<Rightarrow> (int, APIKey) gomap" where
  "keysByID current =
     fold (\<lambda>(prefix, candidates) m. fold (\<lambda>key m. mput (APIKey_ID key) key m) candidates m)
       (Snap_KeyCandidates current) mempty"

definition mergeKey :: "(int, APIKey) gomap \<Rightarrow> APIKey \<Rightarrow> APIKey" where
  "mergeKey currentByID key =
     (case mget currentByID (APIKey_ID key) of
        None \<Rightarrow> key
      | Some state \<Rightarrow>
          let key = (if APIKey_RevokedAt key = None \<and> APIKey_RevokedAt state \<noteq> None
                     then key\<lparr>APIKey_RevokedAt := APIKey_RevokedAt state\<rparr> else key)
          in (case APIKey_LastUsedAt state of
                None \<Rightarrow> key
              | Some u \<Rightarrow> (case APIKey_LastUsedAt key of
                    None \<Rightarrow> key\<lparr>APIKey_LastUsedAt := Some u\<rparr>
                  | Some u' \<Rightarrow> if u > u' then key\<lparr>APIKey_LastUsedAt := Some u\<rparr> else key)))"

definition mapKeys :: "(APIKey \<Rightarrow> APIKey) \<Rightarrow> Snapshot \<Rightarrow> Snapshot" where
  "mapKeys f s = s\<lparr>Snap_KeyCandidates := map (\<lambda>(prefix, ks). (prefix, map f ks)) (Snap_KeyCandidates s)\<rparr>"

definition mergeKeyRuntimeState :: "Snapshot \<Rightarrow> Snapshot \<Rightarrow> Snapshot" where
  "mergeKeyRuntimeState candidate current = mapKeys (mergeKey (keysByID current)) candidate"

definition Reload :: "RegistryError + Data \<Rightarrow> Snapshot \<Rightarrow> Snapshot \<times> RegistryError option" where
  "Reload loaded current =
     (case loaded of
        Inl e \<Rightarrow> (current, Some e)
      | Inr data \<Rightarrow> (case indexData data of
          Inl e \<Rightarrow> (current, Some e)
        | Inr snapshot \<Rightarrow>
            if Snap_Revision snapshot \<le> Snap_Revision current then (current, None)
            else (mergeKeyRuntimeState snapshot current, None)))"

definition snapshot_keys :: "Snapshot \<Rightarrow> APIKey list" where
  "snapshot_keys s = concat (map snd (Snap_KeyCandidates s))"

definition updateKey :: "int \<Rightarrow> (APIKey \<Rightarrow> APIKey) \<Rightarrow> Snapshot \<Rightarrow> Snapshot \<times> bool" where
  "updateKey id' update current =
     (if list_ex (\<lambda>key. APIKey_ID key = id') (snapshot_keys current)
      then (mapKeys (\<lambda>key. if APIKey_ID key = id' then update key else key) current, True)
      else (current, False))"

definition MarkKeyRevoked :: "int \<Rightarrow> instant \<Rightarrow> Snapshot \<Rightarrow> Snapshot \<times> bool" where
  "MarkKeyRevoked id' now = updateKey id' (\<lambda>key. key\<lparr>APIKey_RevokedAt := Some now\<rparr>)"

definition MarkKeyUsed :: "int \<Rightarrow> instant \<Rightarrow> Snapshot \<Rightarrow> Snapshot \<times> bool" where
  "MarkKeyUsed id' now = updateKey id' (\<lambda>key. key\<lparr>APIKey_LastUsedAt := Some now\<rparr>)"

definition MarkBackendDeleted :: "int \<Rightarrow> Snapshot \<Rightarrow> Snapshot \<times> bool" where
  "MarkBackendDeleted id' current =
     (case mget (Snap_BackendsByID current) id' of
        None \<Rightarrow> (current, False)
      | Some backend \<Rightarrow>
          (current\<lparr>Snap_BackendsByID := filter (\<lambda>(backendID, _). backendID \<noteq> id') (Snap_BackendsByID current),
             Snap_BackendsByPool :=
               filter (\<lambda>(poolID, copied). copied \<noteq> [] \<or> poolID \<noteq> Backend_ModelPoolID backend)
                 (map (\<lambda>(poolID, candidates). (poolID, filter (\<lambda>b. Backend_ID b \<noteq> id') candidates))
                   (Snap_BackendsByPool current))\<rparr>,
           True))"

datatype Publication =
    PubReload "RegistryError + Data"
  | PubKeyRevoked int instant
  | PubKeyUsed int instant
  | PubBackendDeleted int

fun publish :: "Publication \<Rightarrow> Snapshot \<Rightarrow> Snapshot" where
  "publish (PubReload l) s = fst (Reload l s)"
| "publish (PubKeyRevoked i t) s = fst (MarkKeyRevoked i t s)"
| "publish (PubKeyUsed i t) s = fst (MarkKeyUsed i t s)"
| "publish (PubBackendDeleted i) s = fst (MarkBackendDeleted i s)"

section \<open>The revision guard\<close>

record RevisionGuard =
  RG_highest :: int
  RG_faulted :: bool

definition ObservePublished :: "int \<Rightarrow> RevisionGuard \<Rightarrow> RevisionGuard" where
  "ObservePublished revision g =
     (if revision \<le> RG_highest g then g else g\<lparr>RG_highest := revision\<rparr>)"

definition VerifyFresh :: "int \<Rightarrow> int \<Rightarrow> RevisionGuard \<Rightarrow> RevisionGuard \<times> string option" where
  "VerifyFresh capturedHighest freshRevision g =
     (if RG_faulted g then (g, Some ''configuration revision consistency fault'')
      else if freshRevision < capturedHighest
      then (g\<lparr>RG_faulted := True\<rparr>, Some ''configuration revision regressed on writable primary'')
      else (ObservePublished freshRevision g, None))"

end
