(* ===== verification/Registry_Properties.thy ===== *)
theory Registry_Properties
  imports Registry
begin

text \<open>
  Well-formedness of every published snapshot, permanence of key revocation and the revision
  guard. The index lemmas follow the order of \<open>indexData\<close>: each stage keeps what the earlier
  ones established.
\<close>

definition sample_data :: "int \<Rightarrow> Data" where
  "sample_data r = \<lparr>Data_Revision = r,
     Data_Clients = [\<lparr>Client_ID = 1, Client_Revision = 1, Client_Name = ''c'', Client_Enabled = True,
       Client_PriorityClass = PriorityNormal, Client_VLLMPriority = 0, Client_MaxConcurrency = 4,
       Client_RequestsPerMinute = 0, Client_TokensPerMinute = 0, Client_CreatedAt = 0, Client_UpdatedAt = 0\<rparr>],
     Data_Keys = [\<lparr>APIKey_ID = 5, APIKey_ClientID = 1, APIKey_Prefix = ''llmgw_abcdef'',
       APIKey_SecretHash = ''h'', APIKey_CreatedAt = 0, APIKey_ExpiresAt = None,
       APIKey_RevokedAt = None, APIKey_LastUsedAt = None\<rparr>],
     Data_Pools = [], Data_Access = [], Data_Backends = []\<rparr>"

section \<open>Well-formed snapshots\<close>

definition wf_clients :: "(int, Client) gomap \<Rightarrow> bool" where
  "wf_clients C \<longleftrightarrow> mwf C \<and> (\<forall>i c. mget C i = Some c \<longrightarrow> Client_ID c = i)"

definition wf_pools :: "(int, ModelPool) gomap \<Rightarrow> (string, ModelPool) gomap \<Rightarrow> bool" where
  "wf_pools P N \<longleftrightarrow> mwf P \<and> mwf N \<and> (\<forall>i p. mget P i = Some p \<longrightarrow> Pool_ID p = i) \<and>
     (\<forall>n p. mget N n = Some p \<longleftrightarrow> mget P (Pool_ID p) = Some p \<and> Pool_PublicModelName p = n)"

definition wf_keys :: "(int, Client) gomap \<Rightarrow> (string, APIKey list) gomap \<Rightarrow> bool" where
  "wf_keys C K \<longleftrightarrow> mwf K \<and>
     (\<forall>pre k. k \<in> set (mgetl K pre) \<longrightarrow> APIKey_Prefix k = pre \<and> mget C (APIKey_ClientID k) \<noteq> None)"

definition wf_access ::
  "(int, Client) gomap \<Rightarrow> (int, ModelPool) gomap \<Rightarrow> (int, (int, bool) gomap) gomap \<Rightarrow> bool" where
  "wf_access C P A \<longleftrightarrow> mwf A \<and>
     (\<forall>c m. mget A c = Some m \<longrightarrow> mget C c \<noteq> None \<and> (\<forall>p. mget m p \<noteq> None \<longrightarrow> mget P p \<noteq> None))"

definition wf_backends ::
  "(int, ModelPool) gomap \<Rightarrow> (int, Backend) gomap \<Rightarrow> (int, Backend list) gomap \<Rightarrow> bool" where
  "wf_backends P I L \<longleftrightarrow> mwf I \<and> mwf L \<and>
     (\<forall>i b. mget I i = Some b \<longrightarrow> Backend_ID b = i \<and> mget P (Backend_ModelPoolID b) \<noteq> None) \<and>
     (\<forall>p b. b \<in> set (mgetl L p) \<longleftrightarrow> mget I (Backend_ID b) = Some b \<and> Backend_ModelPoolID b = p) \<and>
     (\<forall>p. distinct (map Backend_ID (mgetl L p)))"

definition wf_snapshot :: "Snapshot \<Rightarrow> bool" where
  "wf_snapshot s \<longleftrightarrow>
     wf_clients (Snap_Clients s) \<and>
     wf_pools (Snap_PoolsByID s) (Snap_PoolsByName s) \<and>
     wf_keys (Snap_Clients s) (Snap_KeyCandidates s) \<and>
     wf_access (Snap_Clients s) (Snap_PoolsByID s) (Snap_Access s) \<and>
     wf_backends (Snap_PoolsByID s) (Snap_BackendsByID s) (Snap_BackendsByPool s)"

lemmas wf_defs = wf_clients_def wf_pools_def wf_keys_def wf_access_def wf_backends_def

lemma mgetl_mempty [simp]: "mgetl mempty k = []"
  by (simp add: mgetl_def)

lemma mgetl_mput [simp]: "mgetl (mput k v m) k' = (if k' = k then v else mgetl m k')"
  by (simp add: mgetl_def)

lemma wf_newSnapshot: "wf_snapshot (newSnapshot\<lparr>Snap_Revision := r\<rparr>)"
  by (simp add: wf_snapshot_def newSnapshot_def wf_defs)

section \<open>Indexing keeps the snapshot well formed\<close>

lemma wf_clients_put:
  "wf_clients C \<Longrightarrow> mget C (Client_ID c) = None \<Longrightarrow> wf_clients (mput (Client_ID c) c C)"
  by (simp add: wf_clients_def)

lemma wf_pools_put:
  assumes "wf_pools P N" "mget P (Pool_ID p) = None" "mget N (Pool_PublicModelName p) = None"
  shows "wf_pools (mput (Pool_ID p) p P) (mput (Pool_PublicModelName p) p N)"
proof -
  have N: "mget N n = Some q \<longleftrightarrow> mget P (Pool_ID q) = Some q \<and> Pool_PublicModelName q = n" for n q
    using assms(1) by (simp add: wf_pools_def)
  have "mget (mput (Pool_PublicModelName p) p N) n = Some q \<longleftrightarrow>
      mget (mput (Pool_ID p) p P) (Pool_ID q) = Some q \<and> Pool_PublicModelName q = n" for n q
    using N [of n q] N [of "Pool_PublicModelName p" q] assms(2,3)
    by (cases "n = Pool_PublicModelName p"; cases "Pool_ID q = Pool_ID p") auto
  then show ?thesis using assms(1) by (simp add: wf_pools_def)
qed

lemma wf_keys_put:
  "wf_keys C K \<Longrightarrow> mget C (APIKey_ClientID k) \<noteq> None \<Longrightarrow>
     wf_keys C (mput (APIKey_Prefix k) (mgetl K (APIKey_Prefix k) @ [k]) K)"
  by (auto simp: wf_keys_def)

lemma wf_access_put:
  assumes wf: "wf_access C P A" and c: "mget C c \<noteq> None" and p: "mget P p \<noteq> None"
  shows "wf_access C P (mput c (mput p e (case mget A c of None \<Rightarrow> mempty | Some m \<Rightarrow> m)) A)"
proof -
  have A: "mget C c' \<noteq> None" "mget m q \<noteq> None \<Longrightarrow> mget P q \<noteq> None" if "mget A c' = Some m" for c' m q
    using wf that unfolding wf_access_def by blast+
  show ?thesis
    using wf c p A by (cases "mget A c") (simp_all add: wf_access_def)
qed

lemma wf_backends_put:
  assumes wf: "wf_backends P I L" and pool: "mget P (Backend_ModelPoolID b) \<noteq> None"
    and fresh: "mget I (Backend_ID b) = None"
  shows "wf_backends P (mput (Backend_ID b) b I)
    (mput (Backend_ModelPoolID b) (mgetl L (Backend_ModelPoolID b) @ [b]) L)"
proof -
  have L: "c \<in> set (mgetl L p) \<longleftrightarrow> mget I (Backend_ID c) = Some c \<and> Backend_ModelPoolID c = p" for c p
    using wf by (simp add: wf_backends_def)
  have d: "distinct (map Backend_ID (mgetl L p))" for p
    using wf by (simp add: wf_backends_def)
  have f: "Backend_ID b \<notin> Backend_ID ` set (mgetl L p)" for p
    using L fresh by force
  have "c \<in> set (mgetl (mput (Backend_ModelPoolID b) (mgetl L (Backend_ModelPoolID b) @ [b]) L) p) \<longleftrightarrow>
      mget (mput (Backend_ID b) b I) (Backend_ID c) = Some c \<and> Backend_ModelPoolID c = p" for c p
    using L [of c p] fresh by (cases "Backend_ID c = Backend_ID b") auto
  then show ?thesis using wf pool d f by (simp add: wf_backends_def)
qed

lemma indexClients_wf:
  "wf_snapshot s \<Longrightarrow> indexClients cs s = Inr s' \<Longrightarrow> wf_snapshot s' \<and> Snap_Revision s' = Snap_Revision s"
proof (induction cs s rule: indexClients.induct)
  case (2 c cs s)
  from 2(3) have fresh: "mget (Snap_Clients s) (Client_ID c) = None" by (simp split: if_splits)
  with 2(2) have "wf_snapshot (s\<lparr>Snap_Clients := mput (Client_ID c) c (Snap_Clients s)\<rparr>)"
    by (simp add: wf_snapshot_def wf_clients_put) (auto simp: wf_defs)
  with 2(1,3) fresh show ?case by simp
qed simp

lemma indexPools_wf:
  "wf_snapshot s \<Longrightarrow> indexPools ps s = Inr s' \<Longrightarrow> wf_snapshot s' \<and> Snap_Revision s' = Snap_Revision s"
proof (induction ps s rule: indexPools.induct)
  case (2 p ps s)
  from 2(3) have fresh: "mget (Snap_PoolsByID s) (Pool_ID p) = None"
    "mget (Snap_PoolsByName s) (Pool_PublicModelName p) = None" by (simp_all split: if_splits)
  with 2(2) have "wf_snapshot (s\<lparr>Snap_PoolsByID := mput (Pool_ID p) p (Snap_PoolsByID s),
      Snap_PoolsByName := mput (Pool_PublicModelName p) p (Snap_PoolsByName s)\<rparr>)"
    by (simp add: wf_snapshot_def wf_pools_put) (auto simp: wf_access_def wf_backends_def)
  with 2(1,3) fresh show ?case by simp
qed simp

lemma indexKeys_wf:
  "wf_snapshot s \<Longrightarrow> indexKeys ks s = Inr s' \<Longrightarrow> wf_snapshot s' \<and> Snap_Revision s' = Snap_Revision s"
proof (induction ks s rule: indexKeys.induct)
  case (2 k ks s)
  from 2(3) have "mget (Snap_Clients s) (APIKey_ClientID k) \<noteq> None" by (simp split: if_splits)
  with 2 show ?case by (simp add: wf_snapshot_def wf_keys_put)
qed simp

lemma indexAccess_wf:
  "wf_snapshot s \<Longrightarrow> indexAccess as s = Inr s' \<Longrightarrow> wf_snapshot s' \<and> Snap_Revision s' = Snap_Revision s"
proof (induction as s rule: indexAccess.induct)
  case (2 a as s)
  from 2(3) have "mget (Snap_Clients s) (Access_ClientID a) \<noteq> None"
    "mget (Snap_PoolsByID s) (Access_ModelPoolID a) \<noteq> None" by (simp_all split: if_splits)
  with 2 show ?case by (simp add: wf_snapshot_def wf_access_put)
qed simp

lemma indexBackends_wf:
  "wf_snapshot s \<Longrightarrow> indexBackends bs s = Inr s' \<Longrightarrow> wf_snapshot s' \<and> Snap_Revision s' = Snap_Revision s"
proof (induction bs s rule: indexBackends.induct)
  case (2 b bs s)
  from 2(3) have "mget (Snap_PoolsByID s) (Backend_ModelPoolID b) \<noteq> None"
    "mget (Snap_BackendsByID s) (Backend_ID b) = None" by (simp_all split: if_splits)
  with 2 show ?case by (simp add: wf_snapshot_def wf_backends_put)
qed simp

lemma indexData_stages:
  assumes "indexData data = Inr s"
  obtains s1 s2 s3 s4 where
    "indexClients (Data_Clients data) (newSnapshot\<lparr>Snap_Revision := Data_Revision data\<rparr>) = Inr s1"
    "indexPools (Data_Pools data) s1 = Inr s2" "indexKeys (Data_Keys data) s2 = Inr s3"
    "indexAccess (Data_Access data) s3 = Inr s4" "indexBackends (Data_Backends data) s4 = Inr s"
  using assms unfolding indexData_def by (auto split: sum.splits)

lemma indexData_wf:
  assumes "indexData data = Inr s"
  shows "wf_snapshot s \<and> Snap_Revision s = Data_Revision data"
proof (rule indexData_stages [OF assms])
  fix s1 s2 s3 s4
  assume 1: "indexClients (Data_Clients data) (newSnapshot\<lparr>Snap_Revision := Data_Revision data\<rparr>) = Inr s1"
    and 2: "indexPools (Data_Pools data) s1 = Inr s2" and 3: "indexKeys (Data_Keys data) s2 = Inr s3"
    and 4: "indexAccess (Data_Access data) s3 = Inr s4" and 5: "indexBackends (Data_Backends data) s4 = Inr s"
  note s1 = indexClients_wf [OF wf_newSnapshot 1]
  note s2 = indexPools_wf [OF conjunct1 [OF s1] 2]
  note s3 = indexKeys_wf [OF conjunct1 [OF s2] 3]
  note s4 = indexAccess_wf [OF conjunct1 [OF s3] 4]
  from indexBackends_wf [OF conjunct1 [OF s4] 5] s4 s3 s2 s1 show ?thesis by simp
qed

section \<open>Publication keeps the snapshot well formed\<close>

lemma mget_map: "mget (map (\<lambda>(k, v). (k, f v)) m) k = map_option f (mget m k)"
  by (induction m) (auto simp: mget_def)

lemma mwf_map: "mwf (map (\<lambda>(k, v). (k, f v)) m) = mwf m"
  by (simp add: mwf_def case_prod_unfold comp_def)

lemma mget_filter: "mwf m \<Longrightarrow>
    mget (filter (\<lambda>(k, v). P k v) m) k = (case mget m k of None \<Rightarrow> None | Some v \<Rightarrow> if P k v then Some v else None)"
proof (induction m)
  case (Cons kv m)
  obtain k' v where kv: "kv = (k', v)" by (cases kv)
  with Cons.prems have "mget m k' = None" "mwf m" by (auto simp: mwf_def mget_None_iff)
  with Cons.IH show ?case by (auto simp: kv mget_Cons split: option.splits)
qed (simp add: mget_def)

lemma mwf_filter: "mwf m \<Longrightarrow> mwf (filter P m)"
  by (simp add: mwf_def distinct_map_filter)

lemma mapKeys_wf:
  assumes "wf_snapshot s"
    and f: "\<And>k. APIKey_Prefix (f k) = APIKey_Prefix k \<and> APIKey_ClientID (f k) = APIKey_ClientID k"
  shows "wf_snapshot (mapKeys f s)"
proof -
  have "mgetl (Snap_KeyCandidates (mapKeys f s)) pre = map f (mgetl (Snap_KeyCandidates s) pre)" for pre
    by (simp add: mapKeys_def mgetl_def mget_map split: option.splits)
  then show ?thesis using assms
    by (auto simp: wf_snapshot_def wf_keys_def) (simp_all add: mapKeys_def mwf_map)
qed

lemma mergeKey_frame:
  "APIKey_Prefix (mergeKey m k) = APIKey_Prefix k \<and> APIKey_ClientID (mergeKey m k) = APIKey_ClientID k \<and>
   APIKey_ID (mergeKey m k) = APIKey_ID k"
  by (auto simp: mergeKey_def Let_def split: option.splits)

lemma MarkBackendDeleted_wf:
  assumes wf: "wf_snapshot s"
  shows "wf_snapshot (fst (MarkBackendDeleted i s))"
proof (cases "mget (Snap_BackendsByID s) i")
  case (Some d)
  let ?I = "filter (\<lambda>(j, _). j \<noteq> i) (Snap_BackendsByID s)"
  let ?M = "map (\<lambda>(p, bs). (p, filter (\<lambda>b. Backend_ID b \<noteq> i) bs)) (Snap_BackendsByPool s)"
  let ?L = "filter (\<lambda>(p, bs). bs \<noteq> [] \<or> p \<noteq> Backend_ModelPoolID d) ?M"
  have m: "mwf (Snap_BackendsByID s)" "mwf ?M"
    using wf by (simp_all add: wf_snapshot_def wf_backends_def mwf_map)
  have I: "mget ?I j = (if j = i then None else mget (Snap_BackendsByID s) j)" for j
    using mget_filter [OF m(1), of "\<lambda>j _. j \<noteq> i"] by (simp split: option.splits)
  have L: "mgetl ?L p = filter (\<lambda>b. Backend_ID b \<noteq> i) (mgetl (Snap_BackendsByPool s) p)" for p
    using mget_filter [OF m(2), of "\<lambda>p bs. bs \<noteq> [] \<or> p \<noteq> Backend_ModelPoolID d"]
    by (simp add: mgetl_def mget_map split: option.splits)
  have "wf_backends (Snap_PoolsByID s) ?I ?L"
    using wf m unfolding wf_snapshot_def wf_backends_def L I
    by (auto simp: mwf_filter distinct_map_filter)
  then show ?thesis using wf Some by (simp add: MarkBackendDeleted_def wf_snapshot_def)
qed (use wf in \<open>simp add: MarkBackendDeleted_def\<close>)

lemma publish_wf: "wf_snapshot s \<Longrightarrow> wf_snapshot (publish p s)"
  by (cases p)
     (auto simp: Reload_def mergeKeyRuntimeState_def MarkKeyRevoked_def MarkKeyUsed_def updateKey_def
        MarkBackendDeleted_wf mergeKey_frame intro!: mapKeys_wf dest: indexData_wf split: sum.splits)

lemma fold_publish_wf: "wf_snapshot s \<Longrightarrow> wf_snapshot (fold publish ops s)"
  by (induction ops arbitrary: s) (simp_all add: publish_wf)

section \<open>Keys across publications\<close>

lemma indexClients_frame:
  "indexClients cs s = Inr s' \<Longrightarrow> Snap_KeyCandidates s' = Snap_KeyCandidates s"
  by (induction cs s rule: indexClients.induct) (simp_all split: if_splits)

lemma indexPools_frame:
  "indexPools ps s = Inr s' \<Longrightarrow> Snap_KeyCandidates s' = Snap_KeyCandidates s"
  by (induction ps s rule: indexPools.induct) (simp_all split: if_splits)

lemma indexAccess_frame:
  "indexAccess as s = Inr s' \<Longrightarrow> Snap_KeyCandidates s' = Snap_KeyCandidates s"
  by (induction as s rule: indexAccess.induct) (simp_all split: if_splits)

lemma indexBackends_frame:
  "indexBackends bs s = Inr s' \<Longrightarrow> Snap_KeyCandidates s' = Snap_KeyCandidates s"
  by (induction bs s rule: indexBackends.induct) (simp_all split: if_splits)

lemmas index_frame = indexClients_frame indexPools_frame indexAccess_frame indexBackends_frame

lemma indexKeys_set:
  "indexKeys ks s = Inr s' \<Longrightarrow>
     (\<exists>pre. k \<in> set (mgetl (Snap_KeyCandidates s') pre)) \<longleftrightarrow>
     k \<in> set ks \<or> (\<exists>pre. k \<in> set (mgetl (Snap_KeyCandidates s) pre))"
proof (induction ks s rule: indexKeys.induct)
  case (2 key ks s)
  let ?K = "Snap_KeyCandidates s"
  have "(\<exists>pre. k \<in> set (mgetl (mput (APIKey_Prefix key) (mgetl ?K (APIKey_Prefix key) @ [key]) ?K) pre))
      \<longleftrightarrow> k = key \<or> (\<exists>pre. k \<in> set (mgetl ?K pre))"
    by auto metis
  with 2 show ?case by (simp split: if_splits) blast
qed simp

lemma snapshot_keys_mgetl:
  assumes "wf_snapshot s"
  shows "k \<in> set (snapshot_keys s) \<longleftrightarrow> (\<exists>pre. k \<in> set (mgetl (Snap_KeyCandidates s) pre))"
proof -
  have "distinct (map fst (Snap_KeyCandidates s))"
    using assms by (simp add: wf_snapshot_def wf_keys_def mwf_def)
  then have "(pre, ks) \<in> set (Snap_KeyCandidates s) \<longleftrightarrow> mget (Snap_KeyCandidates s) pre = Some ks" for pre ks
    by (simp add: mget_def)
  then show ?thesis
    by (auto simp: snapshot_keys_def mgetl_def split: option.splits) (metis, metis snd_conv)
qed

lemma indexData_keys:
  assumes "indexData data = Inr s"
  shows "set (snapshot_keys s) = set (Data_Keys data)"
proof (rule indexData_stages [OF assms])
  fix s1 s2 s3 s4
  assume "indexClients (Data_Clients data) (newSnapshot\<lparr>Snap_Revision := Data_Revision data\<rparr>) = Inr s1"
    "indexPools (Data_Pools data) s1 = Inr s2"
  then have "Snap_KeyCandidates s2 = mempty" by (simp add: index_frame newSnapshot_def)
  moreover assume "indexAccess (Data_Access data) s3 = Inr s4" "indexBackends (Data_Backends data) s4 = Inr s"
  then have "Snap_KeyCandidates s = Snap_KeyCandidates s3" by (simp add: index_frame)
  moreover assume "indexKeys (Data_Keys data) s2 = Inr s3"
  ultimately show ?thesis
    using indexKeys_set [of "Data_Keys data" s2 s3] snapshot_keys_mgetl [of s] indexData_wf [OF assms]
    by auto
qed

lemma snapshot_keys_mapKeys: "snapshot_keys (mapKeys f s) = map f (snapshot_keys s)"
  by (simp add: snapshot_keys_def mapKeys_def map_concat comp_def case_prod_unfold)

lemma fold_keys:
  "mget (fold (\<lambda>key m. mput (APIKey_ID key) key m) ks m) i =
     (case filter (\<lambda>k. APIKey_ID k = i) ks of [] \<Rightarrow> mget m i | k # r \<Rightarrow> Some (last (k # r)))"
  by (induction ks arbitrary: m) (auto split: list.splits)

lemma keysByID_flat: "keysByID s = fold (\<lambda>key m. mput (APIKey_ID key) key m) (snapshot_keys s) mempty"
proof -
  have "fold (\<lambda>(prefix, candidates) m. fold (\<lambda>key m. mput (APIKey_ID key) key m) candidates m) kc m =
      fold (\<lambda>key m. mput (APIKey_ID key) key m) (concat (map snd kc)) m" for kc m
    by (induction kc arbitrary: m) auto
  then show ?thesis by (simp add: keysByID_def snapshot_keys_def)
qed

lemma keysByID_cases:
  assumes "k \<in> set (snapshot_keys s)" "APIKey_ID k = i"
  obtains k' where "mget (keysByID s) i = Some k'" "k' \<in> set (snapshot_keys s)" "APIKey_ID k' = i"
proof -
  let ?f = "filter (\<lambda>k. APIKey_ID k = i) (snapshot_keys s)"
  have "?f \<noteq> []" using assms by (auto simp: filter_empty_conv)
  then have "mget (keysByID s) i = Some (last ?f)"
    by (cases ?f) (simp_all add: keysByID_flat fold_keys)
  with last_in_set [OF \<open>?f \<noteq> []\<close>] show ?thesis using that by simp
qed

definition key_revoked :: "int \<Rightarrow> Snapshot \<Rightarrow> bool" where
  "key_revoked i s \<longleftrightarrow> (\<exists>k \<in> set (snapshot_keys s). APIKey_ID k = i) \<and>
     (\<forall>k \<in> set (snapshot_keys s). APIKey_ID k = i \<longrightarrow> APIKey_RevokedAt k \<noteq> None)"

lemma key_revoked_mapKeys:
  assumes "\<And>k. APIKey_ID (f k) = APIKey_ID k"
  shows "key_revoked i (mapKeys f s) \<longleftrightarrow> (\<exists>k \<in> set (snapshot_keys s). APIKey_ID k = i) \<and>
     (\<forall>k \<in> set (snapshot_keys s). APIKey_ID k = i \<longrightarrow> APIKey_RevokedAt (f k) \<noteq> None)"
  using assms by (simp add: key_revoked_def snapshot_keys_mapKeys)

lemma mergeKey_revoked:
  "mget m (APIKey_ID k) = Some st \<Longrightarrow> APIKey_RevokedAt st \<noteq> None \<Longrightarrow> APIKey_RevokedAt (mergeKey m k) \<noteq> None"
  by (auto simp: mergeKey_def Let_def split: option.splits)

lemma Reload_revoked:
  assumes rev: "key_revoked i s"
    and data: "\<And>d. loaded = Inr d \<Longrightarrow> \<exists>k \<in> set (Data_Keys d). APIKey_ID k = i"
  shows "key_revoked i (fst (Reload loaded s))"
proof (cases "fst (Reload loaded s) = s")
  case False
  then obtain d c where d: "loaded = Inr d" "indexData d = Inr c"
    and r: "fst (Reload loaded s) = mapKeys (mergeKey (keysByID s)) c"
    by (auto simp: Reload_def mergeKeyRuntimeState_def split: sum.splits if_splits)
  obtain st where "mget (keysByID s) i = Some st" "APIKey_RevokedAt st \<noteq> None"
    using rev keysByID_cases [of _ s i] unfolding key_revoked_def by metis
  then show ?thesis
    using data [OF d(1)] indexData_keys [OF d(2)]
    by (auto simp: r key_revoked_mapKeys mergeKey_frame mergeKey_revoked simp del: not_None_eq)
qed (use rev in simp)

lemma publish_revoked:
  assumes "key_revoked i s"
    and "\<And>d. p = PubReload (Inr d) \<Longrightarrow> \<exists>k \<in> set (Data_Keys d). APIKey_ID k = i"
  shows "key_revoked i (publish p s)"
proof (cases p)
  case (PubReload l)
  then show ?thesis using Reload_revoked [OF assms(1)] assms(2) by simp
next
  case (PubKeyRevoked j t)
  with assms(1) show ?thesis
    by (simp add: MarkKeyRevoked_def updateKey_def key_revoked_mapKeys) (simp add: key_revoked_def)
next
  case (PubKeyUsed j t)
  with assms(1) show ?thesis
    by (simp add: MarkKeyUsed_def updateKey_def key_revoked_mapKeys) (simp add: key_revoked_def)
next
  case (PubBackendDeleted j)
  with assms(1) show ?thesis
    by (simp add: MarkBackendDeleted_def key_revoked_def snapshot_keys_def split: option.splits)
qed

lemma publish_revision: "Snap_Revision s \<le> Snap_Revision (publish p s)"
  by (cases p)
     (auto simp: Reload_def mergeKeyRuntimeState_def mapKeys_def MarkKeyRevoked_def MarkKeyUsed_def
        updateKey_def MarkBackendDeleted_def split: sum.splits option.splits)

section \<open>Properties\<close>

text \<open>C20: every snapshot the registry ever publishes is well formed: keys and access rows refer
  to existing clients and pools, the name index and the id index hold the same pools, and a pool's
  backend list holds exactly the indexed backends of that pool, each once.\<close>

theorem registry_well_formed: "wf_snapshot (fold publish ops NewRegistry)"
  by (simp add: NewRegistry_def fold_publish_wf wf_newSnapshot)


definition sample_ops :: "Publication list" where
  "sample_ops = [PubReload (Inr (sample_data 2)), PubKeyUsed 5 30, PubReload (Inr (sample_data 3))]"

definition sample_revoked :: Snapshot where
  "sample_revoked = fst (MarkKeyRevoked 5 20 (fst (Reload (Inr (sample_data 1)) NewRegistry)))"


text \<open>The revision guard accepts a fresh revision exactly when no fault is latched and the
  revision is not below the captured one; a regression latches the fault for good, and the highest
  published revision never decreases.\<close>

theorem revision_guard_latches:
  "(snd (VerifyFresh captured fresh g) = None \<longleftrightarrow> \<not> RG_faulted g \<and> captured \<le> fresh) \<and>
   RG_faulted (fst (VerifyFresh captured fresh g)) = (RG_faulted g \<or> fresh < captured) \<and>
   RG_highest (fst (VerifyFresh captured fresh g)) =
     (if snd (VerifyFresh captured fresh g) = None then max (RG_highest g) fresh else RG_highest g)"
  by (auto simp: VerifyFresh_def ObservePublished_def)

end
