(* ===== verification/Local_Circuit.thy ===== *)
theory Local_Circuit
  imports Circuit_Breaker Coordination_Types Local_Admission
begin

text \<open>
  The in-process circuit coordinator (\<^verbatim>\<open>internal/coordination/local/circuit.go\<close>): one breaker
  per backend identity, attempts that make acquisition and completion idempotent, and probe
  permits with a time to live.

  Entries and attempts share breakers: an entry points to its breaker and an attempt keeps the
  completion closure of one acquisition. The breakers live in \<open>CC_heap\<close>, addressed by position,
  each together with the closures it has handed out; \<open>at_complete\<close> is the address of the breaker
  and the index of the closure. Every method takes the mutex and reads the clock once.
\<close>

section \<open>State\<close>

definition defaultLocalCircuitAttemptCapacity :: int where
  "defaultLocalCircuitAttemptCapacity = 65536"

record circuitEntry =
  ce_identity :: BackendIdentity
  ce_breaker :: nat

record 'fp circuitAttempt =
  at_fingerprint :: 'fp
  at_backend :: BackendIdentity
  at_generation :: int
  at_permit :: "ProbeIdentity option"
  at_complete :: "nat \<times> nat"
  at_ttl :: duration
  at_terminal :: bool
  at_completion :: "CircuitCompletion option"
  at_acquiredAt :: instant
  at_retainUntil :: instant

record 'fp CircuitCoordinator =
  CC_options :: BreakerOptions
  CC_heap :: "BreakerSystem list"
  CC_circuits :: "(int, circuitEntry) gomap"
  CC_attempts :: "(uuid, 'fp circuitAttempt) gomap"
  CC_expiries :: expiryQueue
  CC_terminalExpiries :: expiryQueue
  CC_attemptCapacity :: int

datatype CircuitError =
    CircuitContext go_error
  | CircuitOptions BreakerError
  | CircuitDuplicateBackend int
  | CircuitReason Reason

definition newCircuitCoordinator :: "BreakerOptions \<Rightarrow> int \<Rightarrow> CircuitError + 'fp CircuitCoordinator" where
  "newCircuitCoordinator options attemptCapacity =
     (case NewBreaker options of
        Inl e \<Rightarrow> Inl (CircuitOptions e)
      | Inr _ \<Rightarrow> Inr \<lparr>CC_options = options, CC_heap = [], CC_circuits = mempty, CC_attempts = mempty,
          CC_expiries = [], CC_terminalExpiries = [],
          CC_attemptCapacity = (if attemptCapacity \<le> 0 then defaultLocalCircuitAttemptCapacity
                                else attemptCapacity)\<rparr>)"

definition NewCircuitCoordinator :: "BreakerOptions \<Rightarrow> CircuitError + 'fp CircuitCoordinator" where
  "NewCircuitCoordinator options = newCircuitCoordinator options defaultLocalCircuitAttemptCapacity"

section \<open>Breakers and snapshots\<close>

definition stepBreaker :: "nat \<Rightarrow> breaker_event \<Rightarrow> 'fp CircuitCoordinator \<Rightarrow> 'fp CircuitCoordinator" where
  "stepBreaker a e c = c\<lparr>CC_heap := (CC_heap c)[a := breaker_step (CC_heap c ! a) e]\<rparr>"

definition toCircuitSnapshot :: "BackendIdentity \<Rightarrow> BreakerSnapshot \<Rightarrow> CircuitSnapshot" where
  "toCircuitSnapshot ident s =
     \<lparr>CS_Backend = ident, CS_State = BS_State s, CS_Generation = BS_Generation s,
      CS_FailureCount = BS_FailureCount s, CS_RetryAt = BS_RetryAt s,
      CS_ProbesInFlight = BS_ProbesInFlight s, CS_Available = BS_Available s\<rparr>"

definition absentSnapshot :: "int \<Rightarrow> CircuitSnapshot" where
  "absentSnapshot i =
     \<lparr>CS_Backend = \<lparr>BI_ID = i, BI_Revision = 0, BI_Enabled = False, BI_Draining = False\<rparr>,
      CS_State = CircuitOpen, CS_Generation = 0, CS_FailureCount = 0, CS_RetryAt = 0,
      CS_ProbesInFlight = 0, CS_Available = False\<rparr>"

definition noSnapshot :: CircuitSnapshot where
  "noSnapshot = (absentSnapshot 0)\<lparr>CS_State := CircuitNone\<rparr>"

definition breakerSnapshot ::
  "circuitEntry \<Rightarrow> instant \<Rightarrow> 'fp CircuitCoordinator \<Rightarrow> 'fp CircuitCoordinator \<times> CircuitSnapshot" where
  "breakerSnapshot e now c =
     (stepBreaker (ce_breaker e) (BSnapshot now) c,
      toCircuitSnapshot (ce_identity e) (snd (Breaker_Snapshot (sys_breaker (CC_heap c ! ce_breaker e)) now)))"

definition circuit_snapshot ::
  "int \<Rightarrow> instant \<Rightarrow> 'fp CircuitCoordinator \<Rightarrow> 'fp CircuitCoordinator \<times> CircuitSnapshot" where
  "circuit_snapshot i now c =
     (case mget (CC_circuits c) i of
        None \<Rightarrow> (c, absentSnapshot i)
      | Some e \<Rightarrow> breakerSnapshot e now c)"

section \<open>Attempts\<close>

definition circuitRetentionBoundary :: "instant list \<Rightarrow> instant" where
  "circuitRetentionBoundary values =
     fold (\<lambda>value latest. if value > latest then value else latest) (tl values) (hd values) + receiptRetention"

definition putAttempt :: "uuid \<Rightarrow> 'fp circuitAttempt \<Rightarrow> 'fp CircuitCoordinator \<Rightarrow> 'fp CircuitCoordinator" where
  "putAttempt i a c = c\<lparr>CC_attempts := mput i a (CC_attempts c)\<rparr>"

definition addTerminalExpiry :: "uuid \<Rightarrow> instant \<Rightarrow> 'fp CircuitCoordinator \<Rightarrow> 'fp CircuitCoordinator" where
  "addTerminalExpiry i until c =
     c\<lparr>CC_terminalExpiries := eq_add (CC_terminalExpiries c) circuitAttemptExpiry i until\<rparr>"

definition callComplete ::
  "'fp circuitAttempt \<Rightarrow> InferenceOutcome \<Rightarrow> instant \<Rightarrow> 'fp CircuitCoordinator \<Rightarrow> 'fp CircuitCoordinator" where
  "callComplete a outcome completedAt =
     stepBreaker (fst (at_complete a)) (BComplete (snd (at_complete a)) outcome completedAt)"

text \<open>The bodies of the two loops of \<open>expire\<close>.\<close>

definition expirePermit ::
  "instant \<Rightarrow> expiryEntry \<Rightarrow> 'fp CircuitCoordinator \<Rightarrow> 'fp CircuitCoordinator" where
  "expirePermit now expiry c =
     (case mget (CC_attempts c) (ee_id expiry) of
        None \<Rightarrow> c
      | Some attempt \<Rightarrow>
          if ee_kind expiry \<noteq> circuitPermitExpiry \<or> at_terminal attempt then c
          else (case at_permit attempt of
              None \<Rightarrow> c
            | Some permit \<Rightarrow>
                if PI_ExpiresAt permit \<noteq> ee_at expiry \<or> PI_ExpiresAt permit > now then c
                else
                  let c = callComplete attempt InferenceFailure (PI_ExpiresAt permit) c;
                      until = circuitRetentionBoundary [now, at_acquiredAt attempt, PI_ExpiresAt permit]
                  in addTerminalExpiry (ee_id expiry) until
                       (putAttempt (ee_id expiry)
                         (attempt\<lparr>at_terminal := True, at_retainUntil := until\<rparr>) c)))"

definition expireAttempt ::
  "instant \<Rightarrow> expiryEntry \<Rightarrow> 'fp CircuitCoordinator \<Rightarrow> 'fp CircuitCoordinator" where
  "expireAttempt now expiry c =
     (case mget (CC_attempts c) (ee_id expiry) of
        None \<Rightarrow> c
      | Some attempt \<Rightarrow>
          if at_terminal attempt \<and> at_retainUntil attempt = ee_at expiry \<and> \<not> at_retainUntil attempt > now
          then c\<lparr>CC_attempts := mdel (ee_id expiry) (CC_attempts c)\<rparr> else c)"

definition expirePermits :: "instant \<Rightarrow> 'fp CircuitCoordinator \<Rightarrow> 'fp CircuitCoordinator" where
  "expirePermits now c =
     (let (q, c) = eq_drain (expirePermit now) now (CC_expiries c) c in c\<lparr>CC_expiries := q\<rparr>)"

definition expireAttempts :: "instant \<Rightarrow> 'fp CircuitCoordinator \<Rightarrow> 'fp CircuitCoordinator" where
  "expireAttempts now c =
     (let (q, c) = eq_drain (expireAttempt now) now (CC_terminalExpiries c) c
      in c\<lparr>CC_terminalExpiries := q\<rparr>)"

definition circuit_expire :: "instant \<Rightarrow> 'fp CircuitCoordinator \<Rightarrow> 'fp CircuitCoordinator" where
  "circuit_expire now c = expireAttempts now (expirePermits now c)"

definition invalidateOne ::
  "int \<Rightarrow> instant \<Rightarrow> uuid \<times> 'fp circuitAttempt \<Rightarrow> 'fp CircuitCoordinator \<Rightarrow> 'fp CircuitCoordinator" where
  "invalidateOne i now = (\<lambda>(attemptID, a) c.
     if BI_ID (at_backend a) = i \<and> \<not> at_terminal a
     then let until = circuitRetentionBoundary [now, at_acquiredAt a]
          in addTerminalExpiry attemptID until
               (putAttempt attemptID (a\<lparr>at_terminal := True, at_retainUntil := until\<rparr>) c)
     else c)"

definition invalidate :: "int \<Rightarrow> instant \<Rightarrow> 'fp CircuitCoordinator \<Rightarrow> 'fp CircuitCoordinator" where
  "invalidate i now c = fold (invalidateOne i now) (CC_attempts c) c"

definition terminalAttempt :: "(uuid, 'fp circuitAttempt) gomap \<Rightarrow> expiryEntry \<Rightarrow> bool" where
  "terminalAttempt attempts e =
     (case mget attempts (ee_id e) of None \<Rightarrow> False
      | Some attempt \<Rightarrow> at_terminal attempt \<and> at_retainUntil attempt \<noteq> 0 \<and> at_retainUntil attempt = ee_at e)"

function dropStaleAttempts ::
  "(uuid, 'fp circuitAttempt) gomap \<Rightarrow> expiryQueue \<Rightarrow> expiryQueue \<times> bool" where
  "dropStaleAttempts attempts q =
     (if q = [] then (q, False)
      else if terminalAttempt attempts (q ! 0) then (q, True)
      else dropStaleAttempts attempts (snd (heap_pop q)))"
  by pat_completeness auto
termination by (relation "measure (\<lambda>(r, q). length q)") (simp_all add: heap_pop_length)

declare dropStaleAttempts.simps [simp del]

definition hasTerminalAttempt :: "'fp CircuitCoordinator \<Rightarrow> 'fp CircuitCoordinator \<times> bool" where
  "hasTerminalAttempt c =
     (let (q, ok) = dropStaleAttempts (CC_attempts c) (CC_terminalExpiries c)
      in (c\<lparr>CC_terminalExpiries := q\<rparr>, ok))"

lemma dropStaleAttempts_length: "length (fst (dropStaleAttempts r q)) \<le> length q"
  by (induction r q rule: dropStaleAttempts.induct)
     (subst dropStaleAttempts.simps, auto dest: heap_pop_length intro: le_trans less_imp_le)

function makeAttemptRoom :: "'fp CircuitCoordinator \<Rightarrow> 'fp CircuitCoordinator \<times> bool" where
  "makeAttemptRoom c =
     (if mlen (CC_attempts c) < CC_attemptCapacity c then (c, True)
      else
        let (c, ok) = hasTerminalAttempt c in
        if \<not> ok then (c, False)
        else
          (case eq_popOldest (CC_terminalExpiries c) of
             None \<Rightarrow> (c, False)
           | Some (expiry, q) \<Rightarrow>
               makeAttemptRoom (c\<lparr>CC_attempts := mdel (ee_id expiry) (CC_attempts c),
                                  CC_terminalExpiries := q\<rparr>)))"
  by pat_completeness auto

lemma makeAttemptRoom_shrinks:
  assumes "hasTerminalAttempt c = (c', ok)" and "eq_popOldest (CC_terminalExpiries c') = Some (e, q)"
  shows "length q < length (CC_terminalExpiries c)"
proof -
  have "CC_terminalExpiries c' = fst (dropStaleAttempts (CC_attempts c) (CC_terminalExpiries c))"
    using assms(1) by (auto simp: hasTerminalAttempt_def split: prod.splits)
  moreover have "length q < length (CC_terminalExpiries c')"
    using assms(2) heap_pop_length [of "CC_terminalExpiries c'"]
    by (auto simp: eq_popOldest_def split: if_splits)
  ultimately show ?thesis using dropStaleAttempts_length [of "CC_attempts c" "CC_terminalExpiries c"]
    by simp
qed

termination makeAttemptRoom
  by (relation "measure (\<lambda>c. length (CC_terminalExpiries c))")
     (auto dest: makeAttemptRoom_shrinks [OF sym])

declare makeAttemptRoom.simps [simp del]

section \<open>Operations\<close>

definition circuit_Status :: "instant \<Rightarrow> 'fp CircuitCoordinator \<Rightarrow> 'fp CircuitCoordinator \<times> Status" where
  "circuit_Status now c =
     (let c = circuit_expire now c;
          room = mlen (CC_attempts c) < CC_attemptCapacity c;
          (c, available) = (if room then (c, True) else hasTerminalAttempt c)
      in (c, \<lparr>St_Backend = ''local'', St_Available = available, St_Degraded = False,
              St_Permanent = False, St_LastSuccess = now, St_Reason = NoReason\<rparr>))"

fun reconcileValues ::
  "instant \<Rightarrow> int list \<Rightarrow> BackendIdentity list \<Rightarrow> 'fp CircuitCoordinator \<Rightarrow>
     'fp CircuitCoordinator \<times> (CircuitError + int list)" where
  "reconcileValues now seen [] c = (c, Inr seen)"
| "reconcileValues now seen (value # rest) c =
     (if BI_ID value \<in> set seen then (c, Inl (CircuitDuplicateBackend (BI_ID value)))
      else
        let seen = BI_ID value # seen; old = mget (CC_circuits c) (BI_ID value) in
        if \<not> BI_Enabled value \<or> BI_Draining value
        then reconcileValues now seen rest
               (invalidate (BI_ID value) now (c\<lparr>CC_circuits := mdel (BI_ID value) (CC_circuits c)\<rparr>))
        else if (case old of None \<Rightarrow> False | Some e \<Rightarrow> ce_identity e = value)
        then reconcileValues now seen rest c
        else (case NewBreaker (CC_options c) of
            Inl e \<Rightarrow> (c, Inl (CircuitOptions e))
          | Inr b \<Rightarrow>
              let c = invalidate (BI_ID value) now c;
                  e = \<lparr>ce_identity = value, ce_breaker = length (CC_heap c)\<rparr>
              in reconcileValues now seen rest
                   (c\<lparr>CC_heap := CC_heap c @ [breaker_start b],
                      CC_circuits := mput (BI_ID value) e (CC_circuits c)\<rparr>)))"

definition dropUnseen ::
  "instant \<Rightarrow> int list \<Rightarrow> 'fp CircuitCoordinator \<Rightarrow> 'fp CircuitCoordinator" where
  "dropUnseen now seen c =
     fold (\<lambda>i c. if i \<in> set seen then c
                 else invalidate i now (c\<lparr>CC_circuits := mdel i (CC_circuits c)\<rparr>))
       (map fst (CC_circuits c)) c"

definition Reconcile ::
  "go_error option \<Rightarrow> instant \<Rightarrow> BackendIdentity list \<Rightarrow> 'fp CircuitCoordinator \<Rightarrow>
     'fp CircuitCoordinator \<times> CircuitError option" where
  "Reconcile ctxErr now values c =
     (case ctxErr of
        Some e \<Rightarrow> (c, Some (CircuitContext e))
      | None \<Rightarrow>
          let c = circuit_expire now c in
          (case reconcileValues now [] values c of
             (c, Inl e) \<Rightarrow> (c, Some e)
           | (c, Inr seen) \<Rightarrow> (dropUnseen now seen c, None)))"

definition circuit_Snapshot ::
  "int \<Rightarrow> instant \<Rightarrow> 'fp CircuitCoordinator \<Rightarrow> 'fp CircuitCoordinator \<times> CircuitSnapshot" where
  "circuit_Snapshot backendID now c = circuit_snapshot backendID now (circuit_expire now c)"

definition withSnapshot ::
  "int \<Rightarrow> instant \<Rightarrow> (CircuitSnapshot \<Rightarrow> 'r) \<Rightarrow> 'fp CircuitCoordinator \<Rightarrow> 'fp CircuitCoordinator \<times> 'r" where
  "withSnapshot i now k c = (let (c, s) = circuit_snapshot i now c in (c, k s))"

definition staleCircuitTime :: "instant \<Rightarrow> instant \<Rightarrow> bool" where
  "staleCircuitTime t now \<longleftrightarrow> t > now + 5 * minute \<or> \<not> t > now - receiptRetention"

definition refuse :: "CircuitSnapshot \<Rightarrow> Reason \<Rightarrow> CircuitDecision" where
  "refuse s r = \<lparr>CD_Snapshot = s, CD_Permit = None, CD_Reason = r\<rparr>"

text \<open>The part of \<open>Acquire\<close> after the guards: ask the breaker and record the attempt.\<close>

definition acquireBreaker ::
  "'fp \<Rightarrow> instant \<Rightarrow> CircuitAcquireRequest \<Rightarrow> circuitEntry \<Rightarrow> 'fp CircuitCoordinator \<Rightarrow>
     'fp CircuitCoordinator \<times> CircuitDecision" where
  "acquireBreaker f now req entry c =
     (let sys = CC_heap c ! ce_breaker entry;
          acquired = snd (Breaker_Acquire (sys_breaker sys) now);
          c = stepBreaker (ce_breaker entry) (BAcquire now) c;
          (c, snap) = breakerSnapshot entry now c
      in case acquired of
           None \<Rightarrow> (c, refuse snap (if CS_State snap = CircuitHalfOpen then ReasonProbeCapacityExhausted
                                   else ReasonCircuitOpen))
         | Some _ \<Rightarrow>
             let attempt = \<lparr>at_fingerprint = f, at_backend = CA_Backend req,
                   at_generation = CS_Generation snap, at_permit = None,
                   at_complete = (ce_breaker entry, length (sys_tickets sys)), at_ttl = 0,
                   at_terminal = False, at_completion = None,
                   at_acquiredAt = CA_AcquisitionStartedAt req, at_retainUntil = 0\<rparr>
             in if CS_State snap = CircuitHalfOpen
                then let permit = \<lparr>PI_PermitID = CA_AttemptID req, PI_Backend = CA_Backend req,
                           PI_Generation = CS_Generation snap, PI_ReplicaID = CA_ReplicaID req,
                           PI_ExpiresAt = now + CA_ProbeTTL req, PI_TTL = CA_ProbeTTL req\<rparr>
                     in (putAttempt (CA_AttemptID req)
                           (attempt\<lparr>at_permit := Some permit, at_ttl := CA_ProbeTTL req\<rparr>)
                           (c\<lparr>CC_expiries := eq_add (CC_expiries c) circuitPermitExpiry
                                (CA_AttemptID req) (PI_ExpiresAt permit)\<rparr>),
                         \<lparr>CD_Snapshot = snap, CD_Permit = Some permit, CD_Reason = NoReason\<rparr>)
                else (putAttempt (CA_AttemptID req) attempt c,
                      \<lparr>CD_Snapshot = snap, CD_Permit = None, CD_Reason = NoReason\<rparr>))"

definition circuit_Acquire ::
  "(CircuitAcquireRequest \<Rightarrow> 'fp) \<Rightarrow> go_error option \<Rightarrow> instant \<Rightarrow> CircuitAcquireRequest \<Rightarrow>
     'fp CircuitCoordinator \<Rightarrow> 'fp CircuitCoordinator \<times> (CircuitError + CircuitDecision)" where
  "circuit_Acquire fingerprint ctxErr now req c =
     (case ctxErr of
        Some e \<Rightarrow> (c, Inl (CircuitContext e))
      | None \<Rightarrow>
          let c = circuit_expire now c; i = BI_ID (CA_Backend req) in
          (case mget (CC_attempts c) (CA_AttemptID req) of
             Some old \<Rightarrow>
               if at_fingerprint old \<noteq> fingerprint req
               then (c, Inr (refuse noSnapshot ReasonIdempotencyConflict))
               else if at_terminal old
               then withSnapshot i now (\<lambda>s. Inr (refuse s ReasonLeaseLost)) c
               else withSnapshot i now
                      (\<lambda>s. Inr \<lparr>CD_Snapshot = s, CD_Permit = at_permit old, CD_Reason = NoReason\<rparr>) c
           | None \<Rightarrow>
               (case makeAttemptRoom c of
                  (c, False) \<Rightarrow> withSnapshot i now (\<lambda>s. Inr (refuse s ReasonCoordinationUnavailable)) c
                | (c, True) \<Rightarrow>
                    (case mget (CC_circuits c) i of
                       None \<Rightarrow> (c, Inr (refuse noSnapshot ReasonStaleBackend))
                     | Some entry \<Rightarrow>
                         if ce_identity entry \<noteq> CA_Backend req \<or> \<not> BI_Enabled (CA_Backend req) \<or>
                            BI_Draining (CA_Backend req)
                         then (c, Inr (refuse noSnapshot ReasonStaleBackend))
                         else if staleCircuitTime (CA_AcquisitionStartedAt req) now
                         then (c, Inr (refuse noSnapshot ReasonStaleOperation))
                         else let (c, d) = acquireBreaker (fingerprint req) now req entry c
                              in (c, Inr d)))))"

definition finishAttempt ::
  "instant \<Rightarrow> CircuitCompletion \<Rightarrow> 'fp circuitAttempt \<Rightarrow> 'fp CircuitCoordinator \<Rightarrow> 'fp CircuitCoordinator" where
  "finishAttempt now value attempt c =
     (let c = (if at_terminal attempt then c
               else callComplete attempt (CC_Outcome value) (CC_ReportedOutcomeAt value) c);
          until = circuitRetentionBoundary [now, at_acquiredAt attempt, CC_ReportedOutcomeAt value]
      in addTerminalExpiry (CC_AttemptID value) until
           (putAttempt (CC_AttemptID value)
             (attempt\<lparr>at_completion := Some value, at_terminal := True, at_retainUntil := until\<rparr>) c))"

definition circuit_Complete ::
  "go_error option \<Rightarrow> instant \<Rightarrow> CircuitCompletion \<Rightarrow> 'fp CircuitCoordinator \<Rightarrow>
     'fp CircuitCoordinator \<times> (CircuitSnapshot \<times> CircuitError option)" where
  "circuit_Complete ctxErr now value c =
     (case ctxErr of
        Some e \<Rightarrow> (c, noSnapshot, Some (CircuitContext e))
      | None \<Rightarrow>
          let c = circuit_expire now c; i = BI_ID (CC_Backend value);
              failWith = (\<lambda>r s. (s, Some (CircuitReason r)));
              stale = staleCircuitTime (CC_ReportedOutcomeAt value) now
          in (case mget (CC_attempts c) (CC_AttemptID value) of
                None \<Rightarrow>
                  if stale then withSnapshot i now (failWith ReasonStaleOperation) c
                  else withSnapshot i now (\<lambda>s. (s, None)) c
              | Some attempt \<Rightarrow>
                  (case at_completion attempt of
                     Some done \<Rightarrow>
                       if done \<noteq> value then withSnapshot i now (failWith ReasonIdempotencyConflict) c
                       else withSnapshot i now (\<lambda>s. (s, None)) c
                   | None \<Rightarrow>
                       if stale then withSnapshot i now (failWith ReasonStaleOperation) c
                       else if at_backend attempt \<noteq> CC_Backend value \<or> at_generation attempt \<noteq> CC_Generation value
                       then withSnapshot i now (failWith ReasonIdempotencyConflict) c
                       else withSnapshot i now (\<lambda>s. (s, None)) (finishAttempt now value attempt c))))"

definition noLease :: LeaseIdentity where
  "noLease = \<lparr>LI_LeaseID = 0, LI_ClientID = 0, LI_PoolID = 0, LI_RequestID = [], LI_ReplicaID = 0,
     LI_ExpiresAt = 0, LI_TTL = 0\<rparr>"

definition renewProbe ::
  "instant \<Rightarrow> ProbeIdentity \<Rightarrow> 'fp CircuitCoordinator \<Rightarrow> 'fp CircuitCoordinator \<times> RenewResult" where
  "renewProbe now p c =
     (case mget (CC_attempts c) (PI_PermitID p) of
        None \<Rightarrow> (c, \<lparr>RR_Lease = noLease, RR_Reason = ReasonLeaseLost\<rparr>)
      | Some a \<Rightarrow>
          (case (if at_terminal a then None else at_permit a) of
             None \<Rightarrow> (c, \<lparr>RR_Lease = noLease, RR_Reason = ReasonLeaseLost\<rparr>)
           | Some permit \<Rightarrow>
               if PI_Generation permit \<noteq> PI_Generation p
               then (c, \<lparr>RR_Lease = noLease, RR_Reason = ReasonLeaseLost\<rparr>)
               else
                 let ttl = (if at_ttl a \<le> 0 then PI_TTL p else at_ttl a) in
                 if ttl \<le> 0
                 then (c, \<lparr>RR_Lease = noLease\<lparr>LI_LeaseID := PI_PermitID p\<rparr>, RR_Reason = ReasonLeaseLost\<rparr>)
                 else
                   let c = putAttempt (PI_PermitID p) (a\<lparr>at_permit := Some (permit\<lparr>PI_ExpiresAt := now + ttl\<rparr>)\<rparr>) c;
                       c = c\<lparr>CC_expiries := eq_add (CC_expiries c) circuitPermitExpiry (PI_PermitID p) (now + ttl)\<rparr>
                   in (c, \<lparr>RR_Lease = noLease\<lparr>LI_LeaseID := PI_PermitID p, LI_ExpiresAt := now + ttl, LI_TTL := ttl\<rparr>,
                           RR_Reason = NoReason\<rparr>)))"

fun renewEach ::
  "instant \<Rightarrow> ProbeIdentity list \<Rightarrow> 'fp CircuitCoordinator \<Rightarrow> 'fp CircuitCoordinator \<times> RenewResult list" where
  "renewEach now [] c = (c, [])"
| "renewEach now (p # ps) c =
     (let (c, r) = renewProbe now p c; (c, rs) = renewEach now ps c in (c, r # rs))"

definition RenewProbes ::
  "go_error option \<Rightarrow> instant \<Rightarrow> ProbeIdentity list \<Rightarrow> 'fp CircuitCoordinator \<Rightarrow>
     'fp CircuitCoordinator \<times> (CircuitError + RenewResult list)" where
  "RenewProbes ctxErr now probes c =
     (case ctxErr of
        Some e \<Rightarrow> (c, Inl (CircuitContext e))
      | None \<Rightarrow> let (c, out) = renewEach now probes (circuit_expire now c) in (c, Inr out))"

end
