(* ===== verification/Circuit_Invariant.thy ===== *)
theory Circuit_Invariant
  imports Local_Circuit
begin

text \<open>
  The invariant of the circuit coordinator. \<open>core_ok\<close> relates breakers, entries and attempts: a
  live (not terminal) attempt holds an unused completion closure of the breaker of its backend, no
  two live attempts share one, and every unused closure of a current breaker is held by a live
  attempt. It depends on the maps only through their lookups.
\<close>

section \<open>Breakers, entries and attempts\<close>

definition live :: "(uuid, 'fp circuitAttempt) gomap \<Rightarrow> uuid \<Rightarrow> 'fp circuitAttempt \<Rightarrow> bool" where
  "live A k a \<longleftrightarrow> mget A k = Some a \<and> \<not> at_terminal a"

definition entries_ok :: "BreakerSystem list \<Rightarrow> (int, circuitEntry) gomap \<Rightarrow> bool" where
  "entries_ok H C \<longleftrightarrow> (\<forall>s \<in> set H. breaker_inv s) \<and>
     (\<forall>i e. mget C i = Some e \<longrightarrow> ce_breaker e < length H \<and> BI_ID (ce_identity e) = i) \<and>
     (\<forall>i j e f. mget C i = Some e \<longrightarrow> mget C j = Some f \<longrightarrow> ce_breaker e = ce_breaker f \<longrightarrow> i = j)"

definition holds_ticket ::
  "BreakerSystem list \<Rightarrow> (int, circuitEntry) gomap \<Rightarrow> 'fp circuitAttempt \<Rightarrow> bool" where
  "holds_ticket H C a \<longleftrightarrow>
     (\<exists>e x t ts. mget C (BI_ID (at_backend a)) = Some e \<and> ce_identity e = at_backend a \<and>
        at_complete a = (x, t) \<and> x = ce_breaker e \<and> ts = sys_tickets (H ! x) \<and> t < length ts \<and>
        tk_generation (ts ! t) = at_generation a \<and> \<not> tk_done (ts ! t) \<and>
        (tk_probe (ts ! t) \<longleftrightarrow> at_permit a \<noteq> None))"

definition core_ok ::
  "BreakerSystem list \<Rightarrow> (int, circuitEntry) gomap \<Rightarrow> (uuid, 'fp circuitAttempt) gomap \<Rightarrow> bool" where
  "core_ok H C A \<longleftrightarrow> entries_ok H C \<and>
     (\<forall>k a. live A k a \<longrightarrow> holds_ticket H C a) \<and>
     (\<forall>k k' a a'. live A k a \<longrightarrow> live A k' a' \<longrightarrow> at_complete a = at_complete a' \<longrightarrow> k = k') \<and>
     (\<forall>i e t. mget C i = Some e \<longrightarrow> t < length (sys_tickets (H ! ce_breaker e)) \<longrightarrow>
        \<not> tk_done (sys_tickets (H ! ce_breaker e) ! t) \<longrightarrow>
        (\<exists>k a. live A k a \<and> at_complete a = (ce_breaker e, t)))"

lemma holds_ticketI:
  assumes "mget C (BI_ID (at_backend a)) = Some e" "ce_identity e = at_backend a"
    "at_complete a = (ce_breaker e, t)" "t < length (sys_tickets (H ! ce_breaker e))"
    "tk_generation (sys_tickets (H ! ce_breaker e) ! t) = at_generation a"
    "\<not> tk_done (sys_tickets (H ! ce_breaker e) ! t)"
    "tk_probe (sys_tickets (H ! ce_breaker e) ! t) \<longleftrightarrow> at_permit a \<noteq> None"
  shows "holds_ticket H C a"
  using assms unfolding holds_ticket_def by blast

lemma holds_ticketE:
  assumes "holds_ticket H C a"
  obtains e t where "mget C (BI_ID (at_backend a)) = Some e" "ce_identity e = at_backend a"
    "at_complete a = (ce_breaker e, t)" "t < length (sys_tickets (H ! ce_breaker e))"
    "tk_generation (sys_tickets (H ! ce_breaker e) ! t) = at_generation a"
    "\<not> tk_done (sys_tickets (H ! ce_breaker e) ! t)"
    "tk_probe (sys_tickets (H ! ce_breaker e) ! t) \<longleftrightarrow> at_permit a \<noteq> None"
  using assms unfolding holds_ticket_def by blast

lemma core_okI:
  assumes "entries_ok H C"
    and "\<And>k a. live A k a \<Longrightarrow> holds_ticket H C a"
    and "\<And>k k' a a'. live A k a \<Longrightarrow> live A k' a' \<Longrightarrow> at_complete a = at_complete a' \<Longrightarrow> k = k'"
    and "\<And>i e t. mget C i = Some e \<Longrightarrow> t < length (sys_tickets (H ! ce_breaker e)) \<Longrightarrow>
      \<not> tk_done (sys_tickets (H ! ce_breaker e) ! t) \<Longrightarrow> \<exists>k a. live A k a \<and> at_complete a = (ce_breaker e, t)"
  shows "core_ok H C A"
  using assms unfolding core_ok_def by blast

lemma core_okD:
  assumes "core_ok H C A"
  shows "entries_ok H C"
    and "live A k a \<Longrightarrow> holds_ticket H C a"
    and "live A k a \<Longrightarrow> live A k' a' \<Longrightarrow> at_complete a = at_complete a' \<Longrightarrow> k = k'"
    and "mget C i = Some e \<Longrightarrow> t < length (sys_tickets (H ! ce_breaker e)) \<Longrightarrow>
      \<not> tk_done (sys_tickets (H ! ce_breaker e) ! t) \<Longrightarrow> \<exists>k a. live A k a \<and> at_complete a = (ce_breaker e, t)"
  using assms unfolding core_ok_def by blast+

lemma entries_okD:
  assumes "entries_ok H C"
  shows "x < length H \<Longrightarrow> breaker_inv (H ! x)"
    and "mget C i = Some e \<Longrightarrow> ce_breaker e < length H"
    and "mget C i = Some e \<Longrightarrow> BI_ID (ce_identity e) = i"
    and "mget C i = Some e \<Longrightarrow> mget C j = Some f \<Longrightarrow> ce_breaker e = ce_breaker f \<Longrightarrow> i = j"
  using assms unfolding entries_ok_def by (metis nth_mem, blast+)

lemma entries_step: "entries_ok H C \<Longrightarrow> x < length H \<Longrightarrow> entries_ok (H[x := breaker_step (H ! x) ev]) C"
  unfolding entries_ok_def by (auto dest!: subsetD [OF set_update_subset_insert] intro: inv_step)

lemma core_cong:
  assumes "core_ok H C A" "\<And>j. mget C' j = mget C j" "\<And>k a. live A' k a \<longleftrightarrow> live A k a"
  shows "core_ok H C' A'"
  using assms unfolding core_ok_def entries_ok_def holds_ticket_def by simp

section \<open>Steps\<close>

text \<open>A step of a breaker that leaves its closures alone.\<close>

lemma core_same_tickets:
  assumes core: "core_ok H C A" and x: "x < length H"
    and same: "sys_tickets (breaker_step (H ! x) ev) = sys_tickets (H ! x)"
  shows "core_ok (H[x := breaker_step (H ! x) ev]) C A"
proof -
  have t: "sys_tickets (H[x := breaker_step (H ! x) ev] ! y) = sys_tickets (H ! y)" for y
    using x same by (cases "y = x") simp_all
  show ?thesis
    using core entries_step [OF core_okD(1) [OF core] x] unfolding core_ok_def holds_ticket_def t by blast
qed

text \<open>Using the closure of a live attempt and making the attempt terminal.\<close>

lemma core_finish:
  assumes core: "core_ok H C A" and a: "live A k a" and a': "at_terminal a'"
    and xt: "at_complete a = (x, t)"
  shows "core_ok (H[x := breaker_step (H ! x) (BComplete t outcome when)]) C (mput k a' A)"
proof -
  define H' where "H' = H[x := breaker_step (H ! x) (BComplete t outcome when)]"
  obtain e where e: "mget C (BI_ID (at_backend a)) = Some e" "x = ce_breaker e"
    and t: "t < length (sys_tickets (H ! x))" "\<not> tk_done (sys_tickets (H ! x) ! t)"
    using xt by (auto intro: holds_ticketE [OF core_okD(2) [OF core a]])
  have x: "x < length H" using entries_okD(2) [OF core_okD(1) [OF core] e(1)] e(2) by simp
  have ts: "sys_tickets (H' ! y) = (if y = x then (sys_tickets (H ! x))[t := (sys_tickets (H ! x) ! t)\<lparr>tk_done := True\<rparr>]
      else sys_tickets (H ! y))" for y
    using x t by (simp add: H'_def)
  have live': "live (mput k a' A) j b \<longleftrightarrow> live A j b \<and> j \<noteq> k" for j b
    using a' by (auto simp: live_def)
  have other: "at_complete b \<noteq> (x, t)" if "live A j b" "j \<noteq> k" for j b
    using core_okD(3) [OF core a that(1)] xt that(2) by metis
  show ?thesis unfolding H'_def [symmetric]
  proof (rule core_okI)
    show "entries_ok H' C" unfolding H'_def by (rule entries_step [OF core_okD(1) [OF core] x])
  next
    fix j b assume "live (mput k a' A) j b"
    then have jb: "live A j b" "j \<noteq> k" by (simp_all add: live')
    from core_okD(2) [OF core jb(1)] obtain f u where f: "mget C (BI_ID (at_backend b)) = Some f"
      "ce_identity f = at_backend b" "at_complete b = (ce_breaker f, u)"
      "u < length (sys_tickets (H ! ce_breaker f))"
      "tk_generation (sys_tickets (H ! ce_breaker f) ! u) = at_generation b"
      "\<not> tk_done (sys_tickets (H ! ce_breaker f) ! u)"
      "tk_probe (sys_tickets (H ! ce_breaker f) ! u) \<longleftrightarrow> at_permit b \<noteq> None"
      by (rule holds_ticketE)
    have "sys_tickets (H' ! ce_breaker f) ! u = sys_tickets (H ! ce_breaker f) ! u"
      using other [OF jb] f(3) unfolding ts by (cases "ce_breaker f = x") simp_all
    moreover have "length (sys_tickets (H' ! ce_breaker f)) = length (sys_tickets (H ! ce_breaker f))"
      unfolding ts by simp
    ultimately show "holds_ticket H' C b" using f by (intro holds_ticketI [where e = f and t = u]) simp_all
  next
    fix j j' b b' assume "live (mput k a' A) j b" "live (mput k a' A) j' b'" "at_complete b = at_complete b'"
    then show "j = j'" unfolding live' by (blast intro: core_okD(3) [OF core])
  next
    fix i f u assume f: "mget C i = Some f" "u < length (sys_tickets (H' ! ce_breaker f))"
      "\<not> tk_done (sys_tickets (H' ! ce_breaker f) ! u)"
    have neq: "(ce_breaker f, u) \<noteq> (x, t)" using f(3) t(1) unfolding ts by (cases "ce_breaker f = x") auto
    then have "u < length (sys_tickets (H ! ce_breaker f))" "\<not> tk_done (sys_tickets (H ! ce_breaker f) ! u)"
      using f(2,3) unfolding ts by (auto simp: nth_list_update split: if_splits)
    from core_okD(4) [OF core f(1) this] obtain j b where jb: "live A j b" "at_complete b = (ce_breaker f, u)"
      by blast
    moreover have "j \<noteq> k"
      using jb a neq xt by (auto simp: live_def)
    ultimately show "\<exists>j b. live (mput k a' A) j b \<and> at_complete b = (ce_breaker f, u)"
      by (auto simp: live')
  qed
qed

lemma core_terminal:
  assumes "core_ok H C A" "\<And>a. \<not> live A k a" "at_terminal a'"
  shows "core_ok H C (mput k a' A)"
  using assms(2,3) by (auto intro!: core_cong [OF assms(1)] simp: live_def split: if_splits)

text \<open>Dropping the entry of a backend with all its live attempts.\<close>

lemma core_drop:
  assumes core: "core_ok H C A"
    and A': "\<And>k a. live A' k a \<longleftrightarrow> live A k a \<and> BI_ID (at_backend a) \<noteq> i"
    and C': "\<And>j. mget C' j = (if j = i then None else mget C j)"
  shows "core_ok H C' A'"
proof (rule core_okI)
  show "entries_ok H C'" using core_okD(1) [OF core] unfolding entries_ok_def C' by (auto split: if_splits)
next
  fix k a assume "live A' k a"
  with core_okD(2) [OF core] show "holds_ticket H C' a"
    unfolding A' holds_ticket_def C' by auto
next
  fix k k' a a' assume "live A' k a" "live A' k' a'" "at_complete a = at_complete a'"
  then show "k = k'" unfolding A' by (blast intro: core_okD(3) [OF core])
next
  fix j e t assume e: "mget C' j = Some e" and t: "t < length (sys_tickets (H ! ce_breaker e))"
    "\<not> tk_done (sys_tickets (H ! ce_breaker e) ! t)"
  from e have j: "j \<noteq> i" "mget C j = Some e" by (auto simp: C' split: if_splits)
  obtain k a where ka: "live A k a" "at_complete a = (ce_breaker e, t)"
    using core_okD(4) [OF core j(2) t] by blast
  from core_okD(2) [OF core ka(1)] obtain f u where f: "mget C (BI_ID (at_backend a)) = Some f"
    "at_complete a = (ce_breaker f, u)" by (elim holds_ticketE)
  then have "j = BI_ID (at_backend a)"
    using entries_okD(4) [OF core_okD(1) [OF core] j(2) f(1)] ka(2) by simp
  with ka j show "\<exists>k a. live A' k a \<and> at_complete a = (ce_breaker e, t)" by (auto simp: A')
qed

lemma core_add:
  assumes core: "core_ok H C A" and i: "mget C i = None"
    and s: "breaker_inv s" "sys_tickets s = []" and e: "ce_breaker e = length H" "BI_ID (ce_identity e) = i"
    and C': "\<And>j. mget C' j = (if j = i then Some e else mget C j)"
  shows "core_ok (H @ [s]) C' A"
proof -
  note ent = entries_okD [OF core_okD(1) [OF core]]
  have old: "(H @ [s]) ! ce_breaker f = H ! ce_breaker f" if "mget C j = Some f" for j f
    using ent(2) [OF that] by (simp add: nth_append)
  show ?thesis
  proof (rule core_okI)
    show "entries_ok (H @ [s]) C'"
      using core_okD(1) [OF core] s e unfolding entries_ok_def C'
      by (auto split: if_splits) (metis less_irrefl less_SucI)+
  next
    fix k a assume "live A k a"
    from core_okD(2) [OF core this] show "holds_ticket (H @ [s]) C' a"
      using i old by (elim holds_ticketE) (rule holds_ticketI, auto simp: C')
  next
    fix k k' a a' assume "live A k a" "live A k' a'" "at_complete a = at_complete a'"
    then show "k = k'" by (rule core_okD(3) [OF core])
  next
    fix j f t assume f: "mget C' j = Some f" and t: "t < length (sys_tickets ((H @ [s]) ! ce_breaker f))"
      "\<not> tk_done (sys_tickets ((H @ [s]) ! ce_breaker f) ! t)"
    show "\<exists>k a. live A k a \<and> at_complete a = (ce_breaker f, t)"
      using core_okD(4) [OF core] f t s e old by (cases "j = i") (simp_all add: C')
  qed
qed

text \<open>A granted acquisition, recorded as a new attempt.\<close>

lemma core_acquire:
  assumes core: "core_ok H C A" and e: "mget C i = Some e" and fresh: "mget A k = None"
    and acq: "sys_tickets (breaker_step (H ! ce_breaker e) ev) =
      sys_tickets (H ! ce_breaker e) @ [\<lparr>tk_generation = at_generation a, tk_probe = p, tk_done = False\<rparr>]"
    and a: "at_backend a = ce_identity e" "p \<longleftrightarrow> at_permit a \<noteq> None" "\<not> at_terminal a"
      "at_complete a = (ce_breaker e, length (sys_tickets (H ! ce_breaker e)))"
  shows "core_ok (H[ce_breaker e := breaker_step (H ! ce_breaker e) ev]) C (mput k a A)"
proof -
  let ?x = "ce_breaker e" and ?ts = "sys_tickets (H ! ce_breaker e)"
  define H' where "H' = H[?x := breaker_step (H ! ?x) ev]"
  have x: "?x < length H" using entries_okD(2) [OF core_okD(1) [OF core] e] .
  have i: "BI_ID (ce_identity e) = i" using entries_okD(3) [OF core_okD(1) [OF core] e] .
  have ts: "sys_tickets (H' ! y) = (if y = ?x then ?ts @ [\<lparr>tk_generation = at_generation a, tk_probe = p, tk_done = False\<rparr>]
      else sys_tickets (H ! y))" for y
    using x acq by (simp add: H'_def)
  have live': "live (mput k a A) j b \<longleftrightarrow> live A j b \<or> j = k \<and> b = a" for j b
    using a(3) fresh by (auto simp: live_def)
  have old: "at_complete b \<noteq> at_complete a" if "live A j b" for j b
    by (rule holds_ticketE [OF core_okD(2) [OF core that]]) (auto simp: a(4))
  show ?thesis unfolding H'_def [symmetric]
  proof (rule core_okI)
    show "entries_ok H' C" unfolding H'_def by (rule entries_step [OF core_okD(1) [OF core] x])
  next
    fix j b assume jb: "live (mput k a A) j b"
    show "holds_ticket H' C b"
    proof (cases "live A j b")
      case True
      then show ?thesis
        by (rule holds_ticketE [OF core_okD(2) [OF core]])
           (rule holds_ticketI, auto simp: ts nth_append)
    next
      case False
      then have "b = a" using jb by (simp add: live')
      then show ?thesis
        using e a i by (intro holds_ticketI [where e = e and t = "length ?ts"]) (simp_all add: ts)
    qed
  next
    fix j j' b b' assume "live (mput k a A) j b" "live (mput k a A) j' b'" "at_complete b = at_complete b'"
    then show "j = j'" unfolding live' using old by (metis core_okD(3) [OF core])
  next
    fix j f u assume f: "mget C j = Some f" "u < length (sys_tickets (H' ! ce_breaker f))"
      "\<not> tk_done (sys_tickets (H' ! ce_breaker f) ! u)"
    show "\<exists>j b. live (mput k a A) j b \<and> at_complete b = (ce_breaker f, u)"
    proof (cases "ce_breaker f = ?x \<and> u = length ?ts")
      case True
      with a(4) show ?thesis by (auto simp: live')
    next
      case False
      then have "u < length (sys_tickets (H ! ce_breaker f))" "\<not> tk_done (sys_tickets (H ! ce_breaker f) ! u)"
        using f(2,3) by (auto simp: ts nth_append split: if_splits)
      from core_okD(4) [OF core f(1) this] show ?thesis by (auto simp: live')
    qed
  qed
qed

lemma acquire_tickets:
  "snd (Breaker_Acquire (sys_breaker s) now) = None \<Longrightarrow>
     sys_tickets (breaker_step s (BAcquire now)) = sys_tickets s"
  "snd (Breaker_Acquire (sys_breaker s) now) = Some (g, p) \<Longrightarrow>
     sys_tickets (breaker_step s (BAcquire now)) =
       sys_tickets s @ [\<lparr>tk_generation = g, tk_probe = p, tk_done = False\<rparr>]"
  by (cases "Breaker_Acquire (sys_breaker s) now", simp)+

lemma acquire_snapshot:
  "snd (Breaker_Acquire b now) = Some (g, p) \<Longrightarrow>
     BS_Generation (snd (Breaker_Snapshot (fst (Breaker_Acquire b now)) now)) = g \<and>
     (BS_State (snd (Breaker_Snapshot (fst (Breaker_Acquire b now)) now)) = CircuitHalfOpen \<longleftrightarrow> p)"
  by (auto simp: Breaker_Acquire_def Breaker_Snapshot_def Let_def transitionOpenToHalfOpen_def split: if_splits)

lemma acquire_breaker: "sys_breaker (breaker_step s (BAcquire now)) = fst (Breaker_Acquire (sys_breaker s) now)"
  by (cases "Breaker_Acquire (sys_breaker s) now") (auto split: option.splits)

section \<open>The invariant of the coordinator\<close>

definition permits_ok :: "(uuid, 'fp circuitAttempt) gomap \<Rightarrow> expiryQueue \<Rightarrow> bool" where
  "permits_ok A q \<longleftrightarrow> (\<forall>k a p. live A k a \<longrightarrow> at_permit a = Some p \<longrightarrow>
     \<lparr>ee_at = PI_ExpiresAt p, ee_id = k, ee_kind = circuitPermitExpiry\<rparr> \<in> set q)"

definition attempts_ok :: "'fp CircuitCoordinator \<Rightarrow> bool" where
  "attempts_ok c \<longleftrightarrow> core_ok (CC_heap c) (CC_circuits c) (CC_attempts c) \<and>
     permits_ok (CC_attempts c) (CC_expiries c) \<and>
     mwf (CC_attempts c) \<and> int (mlen (CC_attempts c)) \<le> CC_attemptCapacity c"

definition circuit_inv :: "'fp CircuitCoordinator \<Rightarrow> bool" where
  "circuit_inv c \<longleftrightarrow> attempts_ok c \<and> is_heap (CC_expiries c) \<and> is_heap (CC_terminalExpiries c) \<and>
     options_ok (CC_options c)"

lemma attempts_okD:
  assumes "attempts_ok c"
  shows "core_ok (CC_heap c) (CC_circuits c) (CC_attempts c)"
    and "live (CC_attempts c) k a \<Longrightarrow> at_permit a = Some p \<Longrightarrow>
      \<lparr>ee_at = PI_ExpiresAt p, ee_id = k, ee_kind = circuitPermitExpiry\<rparr> \<in> set (CC_expiries c)"
    and "mwf (CC_attempts c)" and "int (mlen (CC_attempts c)) \<le> CC_attemptCapacity c"
  using assms by (auto simp: attempts_ok_def permits_ok_def)

text \<open>Two coordinators with the same breakers, entries, attempts and permit queue.\<close>

lemma attempts_ok_terminal [simp]: "attempts_ok (addTerminalExpiry i t c) = attempts_ok c"
  "attempts_ok (c\<lparr>CC_terminalExpiries := q\<rparr>) = attempts_ok c"
  by (simp_all add: attempts_ok_def addTerminalExpiry_def)

lemma attempts_ok_step:
  assumes "attempts_ok c" "x < length (CC_heap c)"
    "sys_tickets (breaker_step (CC_heap c ! x) ev) = sys_tickets (CC_heap c ! x)"
  shows "attempts_ok (stepBreaker x ev c)"
  using assms core_same_tickets by (auto simp: attempts_ok_def stepBreaker_def)

lemma attempts_ok_snapshot:
  assumes "attempts_ok c" "mget (CC_circuits c) i = Some e"
  shows "attempts_ok (fst (breakerSnapshot e now c))"
  unfolding breakerSnapshot_def fst_conv
  by (rule attempts_ok_step)
     (use assms entries_okD(2) [OF core_okD(1) [OF attempts_okD(1) [OF assms(1)]] assms(2)] in simp_all)

text \<open>An attempt that is replaced by a terminal one, whether or not its closure is used.\<close>

lemma attempts_ok_finish:
  assumes ok: "attempts_ok c" and a: "live (CC_attempts c) k a" and a': "at_terminal a'"
  shows "attempts_ok (putAttempt k a' (callComplete a outcome when c))"
proof -
  have "core_ok ((CC_heap c)[fst (at_complete a) := breaker_step (CC_heap c ! fst (at_complete a))
      (BComplete (snd (at_complete a)) outcome when)]) (CC_circuits c) (mput k a' (CC_attempts c))"
    by (rule core_finish [OF attempts_okD(1) [OF ok] a a']) simp
  moreover have "permits_ok (mput k a' (CC_attempts c)) (CC_expiries c)"
    using attempts_okD(2) [OF ok] a' unfolding permits_ok_def live_def by auto
  moreover have "mlen (mput k a' (CC_attempts c)) = mlen (CC_attempts c)"
    using a by (simp add: mlen_mput live_def)
  ultimately show ?thesis
    using attempts_okD(3,4) [OF ok] by (simp add: attempts_ok_def putAttempt_def callComplete_def stepBreaker_def)
qed

lemma attempts_ok_terminal_put:
  assumes ok: "attempts_ok c" and a: "mget (CC_attempts c) k = Some a" "at_terminal a" and a': "at_terminal a'"
  shows "attempts_ok (putAttempt k a' c)"
proof -
  have "permits_ok (mput k a' (CC_attempts c)) (CC_expiries c)"
    using attempts_okD(2) [OF ok] a' unfolding permits_ok_def live_def by auto
  moreover have "core_ok (CC_heap c) (CC_circuits c) (mput k a' (CC_attempts c))"
    by (rule core_terminal [OF attempts_okD(1) [OF ok] _ a']) (use a in \<open>auto simp: live_def\<close>)
  ultimately show ?thesis
    using a attempts_okD(3,4) [OF ok] by (simp add: attempts_ok_def putAttempt_def mlen_mput)
qed

lemma attempts_ok_delete:
  assumes ok: "attempts_ok c" and a: "\<And>a. \<not> live (CC_attempts c) k a"
  shows "attempts_ok (c\<lparr>CC_attempts := mdel k (CC_attempts c)\<rparr>)"
proof -
  have "core_ok (CC_heap c) (CC_circuits c) (mdel k (CC_attempts c))"
    by (rule core_cong [OF attempts_okD(1) [OF ok]]) (use a in \<open>auto simp: live_def split: if_splits\<close>)
  moreover have "permits_ok (mdel k (CC_attempts c)) (CC_expiries c)"
    using attempts_okD(2) [OF ok] unfolding permits_ok_def live_def by (auto split: if_splits)
  moreover have "mlen (mdel k (CC_attempts c)) \<le> mlen (CC_attempts c)" by (rule mlen_mdel_le)
  ultimately show ?thesis using attempts_okD(3,4) [OF ok] by (simp add: attempts_ok_def)
qed

end
