(* ===== verification/Circuit_Operations.thy ===== *)
theory Circuit_Operations
  imports Circuit_Invariant
begin

text \<open>
  Every operation of the circuit coordinator keeps \<open>circuit_inv\<close>. \<open>background\<close> is what the
  helper loops keep besides: the options, the capacity and the permit queue.
\<close>

definition background :: "'fp CircuitCoordinator \<Rightarrow> BreakerOptions \<times> int \<times> expiryQueue" where
  "background c = (CC_options c, CC_attemptCapacity c, CC_expiries c)"

lemma background_simps [simp]:
  "background (addTerminalExpiry i t c) = background c" "background (putAttempt i a c) = background c"
  "background (callComplete a out t c) = background c" "background (stepBreaker x ev c) = background c"
  "background (c\<lparr>CC_attempts := A\<rparr>) = background c" "background (c\<lparr>CC_terminalExpiries := q\<rparr>) = background c"
  "background (c\<lparr>CC_circuits := C\<rparr>) = background c" "background (c\<lparr>CC_heap := H\<rparr>) = background c"
  by (simp_all add: background_def addTerminalExpiry_def putAttempt_def callComplete_def stepBreaker_def)

definition settled :: "'fp CircuitCoordinator \<Rightarrow> bool" where
  "settled c \<longleftrightarrow> attempts_ok c \<and> is_heap (CC_terminalExpiries c)"

lemma circuit_inv_settled:
  "circuit_inv c \<longleftrightarrow> settled c \<and> is_heap (CC_expiries c) \<and> options_ok (CC_options c)"
  by (auto simp: circuit_inv_def settled_def)

lemma inv_background: "circuit_inv c \<Longrightarrow> settled c' \<Longrightarrow> background c' = background c \<Longrightarrow> circuit_inv c'"
  by (simp add: circuit_inv_settled background_def)

lemma terminal_queue_simps [simp]:
  "CC_terminalExpiries (putAttempt i a c) = CC_terminalExpiries c"
  "CC_terminalExpiries (callComplete a out t c) = CC_terminalExpiries c"
  "CC_terminalExpiries (stepBreaker x ev c) = CC_terminalExpiries c"
  by (simp_all add: putAttempt_def callComplete_def stepBreaker_def)

lemma settled_addTerminal: "attempts_ok c \<Longrightarrow> is_heap (CC_terminalExpiries c) \<Longrightarrow> settled (addTerminalExpiry i t c)"
  by (simp add: settled_def) (simp add: addTerminalExpiry_def eq_add_heap)

section \<open>Expiry\<close>

lemma attempts_addTerminal [simp]: "CC_attempts (addTerminalExpiry i t c) = CC_attempts c"
  by (simp add: addTerminalExpiry_def)

lemma attempts_callComplete [simp]: "CC_attempts (callComplete a out t c) = CC_attempts c"
  by (simp add: callComplete_def stepBreaker_def)

lemma expirePermit_cases:
  obtains (same) "expirePermit now ent c = c"
    and "\<And>a p. ee_kind ent = circuitPermitExpiry \<Longrightarrow> live (CC_attempts c) (ee_id ent) a \<Longrightarrow> at_permit a = Some p \<Longrightarrow>
      PI_ExpiresAt p = ee_at ent \<Longrightarrow> now < ee_at ent"
  | (expires) a until and p :: ProbeIdentity where "live (CC_attempts c) (ee_id ent) a"
    and "expirePermit now ent c = addTerminalExpiry (ee_id ent) until
      (putAttempt (ee_id ent) (a\<lparr>at_terminal := True, at_retainUntil := until\<rparr>)
        (callComplete a InferenceFailure (PI_ExpiresAt p) c))"
proof (cases "mget (CC_attempts c) (ee_id ent)")
  case None
  then show thesis by (intro same) (simp_all add: expirePermit_def live_def)
next
  case (Some a)
  show thesis
  proof (cases "ee_kind ent \<noteq> circuitPermitExpiry \<or> at_terminal a \<or> at_permit a = None \<or>
      PI_ExpiresAt (the (at_permit a)) \<noteq> ee_at ent \<or> PI_ExpiresAt (the (at_permit a)) > now")
    case True
    then have "expirePermit now ent c = c" using Some by (auto simp: expirePermit_def split: option.splits)
    moreover have "now < ee_at ent" if "ee_kind ent = circuitPermitExpiry" "live (CC_attempts c) (ee_id ent) b"
      "at_permit b = Some p" "PI_ExpiresAt p = ee_at ent" for b p
      using that True Some by (auto simp: live_def)
    ultimately show thesis by (rule same)
  next
    case False
    then obtain p where p: "at_permit a = Some p" by auto
    show thesis
      by (rule expires [of a "circuitRetentionBoundary [now, at_acquiredAt a, PI_ExpiresAt p]" p])
         (use False Some p in \<open>auto simp: expirePermit_def live_def Let_def\<close>)
  qed
qed

lemma expirePermit_settled:
  assumes "settled c"
  shows "settled (expirePermit now ent c) \<and> background (expirePermit now ent c) = background c"
proof (cases rule: expirePermit_cases [of now ent c])
  case (expires a until p)
  have "attempts_ok (putAttempt (ee_id ent) (a\<lparr>at_terminal := True, at_retainUntil := until\<rparr>)
        (callComplete a InferenceFailure (PI_ExpiresAt p) c))"
    by (rule attempts_ok_finish [OF _ expires(1)]) (use assms in \<open>simp_all add: settled_def\<close>)
  from settled_addTerminal [OF this] assms show ?thesis unfolding expires(2)
    by (simp add: settled_def)
qed (use assms in simp)

lemma expirePermit_live:
  "live (CC_attempts (expirePermit now ent c)) k a \<Longrightarrow> live (CC_attempts c) k a"
proof (cases rule: expirePermit_cases [of now ent c])
  case (expires b until p)
  assume "live (CC_attempts (expirePermit now ent c)) k a"
  then show ?thesis unfolding expires(2) by (auto simp: putAttempt_def live_def split: if_splits)
qed simp

lemma expirePermit_did:
  assumes "live (CC_attempts (expirePermit now ent c)) (ee_id ent) a" "at_permit a = Some p"
    "PI_ExpiresAt p = ee_at ent" "ee_kind ent = circuitPermitExpiry"
  shows "now < ee_at ent"
proof (cases rule: expirePermit_cases [of now ent c])
  case same
  then show ?thesis using assms by simp
next
  case (expires b until q)
  then show ?thesis using assms(1) by (auto simp: putAttempt_def live_def)
qed

lemma expirePermits_inv:
  assumes inv: "circuit_inv c"
  shows "circuit_inv (expirePermits now c)"
    and "live (CC_attempts (expirePermits now c)) k a \<Longrightarrow> at_permit a = Some p \<Longrightarrow> now < PI_ExpiresAt p"
proof -
  let ?d = "eq_drain (expirePermit now) now (CC_expiries c) c"
  let ?s = "snd ?d"
  have heap: "is_heap (CC_expiries c)" using inv by (simp add: circuit_inv_def)
  have s: "settled ?s \<and> background ?s = background c"
    by (rule eq.drain_invariant [where I = "\<lambda>s. settled s \<and> background s = background c", OF heap])
       (use inv expirePermit_settled in \<open>auto simp: circuit_inv_settled\<close>)
  have dead: "now < PI_ExpiresAt p" if a: "live (CC_attempts ?s) k a" "at_permit a = Some p" for k a p
  proof (rule ccontr)
    assume "\<not> now < PI_ExpiresAt p"
    let ?e = "\<lparr>ee_at = PI_ExpiresAt p, ee_id = k, ee_kind = circuitPermitExpiry\<rparr>"
    let ?R = "\<lambda>s. \<forall>b q. live (CC_attempts s) k b \<longrightarrow> at_permit b = Some q \<longrightarrow> PI_ExpiresAt q \<noteq> PI_ExpiresAt p"
    have "?e \<in> set (CC_expiries ?s)"
      using attempts_okD(2) [OF _ a] s by (simp add: settled_def)
    then have "?e \<in># mset (CC_expiries c)" using s by (simp add: background_def)
    moreover have "ee_at ?e \<le> now" using \<open>\<not> now < PI_ExpiresAt p\<close> by simp
    ultimately have "?R ?s"
    proof (rule eq.drain_reaches [OF heap])
      show "?R (expirePermit now ?e s)" for s
        using expirePermit_did [of now ?e s] \<open>\<not> now < PI_ExpiresAt p\<close> by auto
      show "?R (expirePermit now e' s)" if "?R s" for e' s
        using that expirePermit_live by blast
    qed
    with a show False by blast
  qed
  have q: "set (fst ?d) = {e \<in> set (CC_expiries c). now < ee_at e}" "is_heap (fst ?d)"
    using eq.drain_entries [OF heap, of "expirePermit now" now c] by (metis set_mset_filter set_mset_mset, blast)
  have e: "expirePermits now c = ?s\<lparr>CC_expiries := fst ?d\<rparr>"
    by (simp add: expirePermits_def case_prod_unfold Let_def)
  have "permits_ok (CC_attempts ?s) (fst ?d)"
    using attempts_okD(2) [of ?s] dead s unfolding permits_ok_def q(1) settled_def background_def by auto
  then show "circuit_inv (expirePermits now c)"
    using s inv q(2) unfolding e by (simp add: circuit_inv_settled settled_def attempts_ok_def background_def)
  show "live (CC_attempts (expirePermits now c)) k a \<Longrightarrow> at_permit a = Some p \<Longrightarrow> now < PI_ExpiresAt p"
    using dead by (simp add: e)
qed

lemma expireAttempt_settled:
  assumes "settled c"
  shows "settled (expireAttempt now ent c) \<and> background (expireAttempt now ent c) = background c"
proof (cases "expireAttempt now ent c = c")
  case False
  then obtain a where "mget (CC_attempts c) (ee_id ent) = Some a" "at_terminal a"
    and e: "expireAttempt now ent c = c\<lparr>CC_attempts := mdel (ee_id ent) (CC_attempts c)\<rparr>"
    by (auto simp: expireAttempt_def split: option.splits if_splits)
  then have "attempts_ok (c\<lparr>CC_attempts := mdel (ee_id ent) (CC_attempts c)\<rparr>)"
    using assms by (intro attempts_ok_delete) (auto simp: settled_def live_def)
  then show ?thesis using assms unfolding e by (simp add: settled_def)
qed (use assms in simp)

lemma expireAttempt_live:
  "live (CC_attempts (expireAttempt now ent c)) k a \<Longrightarrow> live (CC_attempts c) k a"
  by (auto simp: expireAttempt_def live_def split: option.splits if_splits)

lemma expireAttempts_inv:
  assumes inv: "circuit_inv c"
  shows "circuit_inv (expireAttempts now c)"
    and "live (CC_attempts (expireAttempts now c)) k a \<Longrightarrow> live (CC_attempts c) k a"
proof -
  let ?d = "eq_drain (expireAttempt now) now (CC_terminalExpiries c) c"
  have heap: "is_heap (CC_terminalExpiries c)" using inv by (simp add: circuit_inv_def)
  have s: "settled (snd ?d) \<and> background (snd ?d) = background c"
    by (rule eq.drain_invariant [where I = "\<lambda>s. settled s \<and> background s = background c", OF heap])
       (use inv expireAttempt_settled in \<open>auto simp: circuit_inv_settled\<close>)
  have e: "expireAttempts now c = (snd ?d)\<lparr>CC_terminalExpiries := fst ?d\<rparr>"
    by (simp add: expireAttempts_def case_prod_unfold Let_def)
  have "is_heap (fst ?d)" by (rule eq.drain_entries(1) [OF heap])
  with s have "settled (expireAttempts now c)" by (simp add: e settled_def)
  then show "circuit_inv (expireAttempts now c)"
    by (rule inv_background [OF inv]) (simp add: e s)
  have "live (CC_attempts (snd ?d)) k a \<longrightarrow> live (CC_attempts c) k a"
    by (rule eq.drain_invariant [where I = "\<lambda>s. live (CC_attempts s) k a \<longrightarrow> live (CC_attempts c) k a", OF heap])
       (use expireAttempt_live in blast)+
  then show "live (CC_attempts (expireAttempts now c)) k a \<Longrightarrow> live (CC_attempts c) k a" by (simp add: e)
qed

lemma circuit_expire_inv:
  assumes "circuit_inv c"
  shows "circuit_inv (circuit_expire now c)"
    and "live (CC_attempts (circuit_expire now c)) k a \<Longrightarrow> at_permit a = Some p \<Longrightarrow> now < PI_ExpiresAt p"
  unfolding circuit_expire_def
  using expirePermits_inv [OF assms] expireAttempts_inv by metis+

section \<open>Snapshots\<close>

lemma circuit_snapshot_inv:
  assumes "circuit_inv c"
  shows "circuit_inv (fst (circuit_snapshot i now c))"
    and "CC_attempts (fst (circuit_snapshot i now c)) = CC_attempts c"
    and "CC_circuits (fst (circuit_snapshot i now c)) = CC_circuits c"
proof -
  show "circuit_inv (fst (circuit_snapshot i now c))"
  proof (cases "mget (CC_circuits c) i")
    case (Some e)
    with assms attempts_ok_snapshot [of c i e now] show ?thesis
      by (intro inv_background [OF assms])
         (simp_all add: circuit_snapshot_def circuit_inv_settled settled_def, simp_all add: breakerSnapshot_def)
  qed (use assms in \<open>simp add: circuit_snapshot_def\<close>)
  show "CC_attempts (fst (circuit_snapshot i now c)) = CC_attempts c"
    "CC_circuits (fst (circuit_snapshot i now c)) = CC_circuits c"
    by (simp_all add: circuit_snapshot_def breakerSnapshot_def stepBreaker_def split: option.splits)
qed

lemma withSnapshot_inv: "circuit_inv c \<Longrightarrow> circuit_inv (fst (withSnapshot i now k c))"
  by (simp add: withSnapshot_def case_prod_unfold Let_def circuit_snapshot_inv)

section \<open>Invalidation\<close>

definition shape :: "'fp CircuitCoordinator \<Rightarrow> BreakerSystem list \<times> (int, circuitEntry) gomap \<times> BreakerOptions \<times> int \<times> expiryQueue" where
  "shape c = (CC_heap c, CC_circuits c, background c)"

lemma invalidateOne_spec:
  fixes i :: int and now :: instant
  assumes "mget (CC_attempts c) k = Some a" "mwf (CC_attempts c)" "is_heap (CC_terminalExpiries c)"
  defines "c' \<equiv> invalidateOne i now (k, a) c"
  shows "shape c' = shape c" and "mwf (CC_attempts c')" and "mlen (CC_attempts c') = mlen (CC_attempts c)"
    and "is_heap (CC_terminalExpiries c')"
    and "j \<noteq> k \<Longrightarrow> mget (CC_attempts c') j = mget (CC_attempts c) j"
    and "live (CC_attempts c') j b \<longleftrightarrow> live (CC_attempts c) j b \<and> (j = k \<longrightarrow> BI_ID (at_backend b) \<noteq> i)"
  using assms
  by (auto simp: c'_def invalidateOne_def Let_def shape_def background_def addTerminalExpiry_def putAttempt_def
        eq_add_heap mlen_mput live_def)

lemma invalidate_fold:
  fixes i :: int and now :: instant
  assumes "distinct (map fst L)" "\<forall>(k, a) \<in> set L. mget (CC_attempts c) k = Some a"
    "mwf (CC_attempts c)" "is_heap (CC_terminalExpiries c)"
  defines "c' \<equiv> fold (invalidateOne i now) L c"
  shows "shape c' = shape c \<and> mwf (CC_attempts c') \<and> mlen (CC_attempts c') = mlen (CC_attempts c) \<and>
    is_heap (CC_terminalExpiries c') \<and>
    (\<forall>j b. live (CC_attempts c') j b \<longleftrightarrow>
       live (CC_attempts c) j b \<and> (j \<in> fst ` set L \<longrightarrow> BI_ID (at_backend b) \<noteq> i))"
  using assms(1-4) unfolding c'_def
proof (induction L arbitrary: c)
  case (Cons x L)
  obtain k a where x: "x = (k, a)" by (cases x)
  let ?c = "invalidateOne i now (k, a) c"
  have k: "mget (CC_attempts c) k = Some a" and d: "distinct (map fst L)" "k \<notin> fst ` set L"
    using Cons.prems by (auto simp: x)
  note one = invalidateOne_spec [OF k Cons.prems(3,4), where i = i and now = now]
  have "\<forall>(j, b) \<in> set L. mget (CC_attempts ?c) j = Some b"
    using Cons.prems(2) d(2) one(5) by (fastforce simp: x)
  from Cons.IH [OF d(1) this one(2) one(4)] show ?case
    unfolding x fold_simps one(1,3,6) using d(2) by auto
qed simp

lemma invalidate_spec:
  fixes i :: int and now :: instant
  assumes "mwf (CC_attempts c)" "is_heap (CC_terminalExpiries c)"
  defines "c' \<equiv> invalidate i now c"
  shows "shape c' = shape c" "mwf (CC_attempts c')" "mlen (CC_attempts c') = mlen (CC_attempts c)"
    "is_heap (CC_terminalExpiries c')"
    "live (CC_attempts c') j b \<longleftrightarrow> live (CC_attempts c) j b \<and> BI_ID (at_backend b) \<noteq> i"
proof -
  have m: "distinct (map fst (CC_attempts c))" "\<forall>(k, a) \<in> set (CC_attempts c). mget (CC_attempts c) k = Some a"
    using assms(1) by (auto simp: mwf_def mget_def)
  have "j \<in> fst ` set (CC_attempts c)" if "live (CC_attempts c) j b"
    using that mget_None_iff [of "CC_attempts c" j] by (auto simp: live_def)
  then show "shape c' = shape c" "mwf (CC_attempts c')" "mlen (CC_attempts c') = mlen (CC_attempts c)"
    "is_heap (CC_terminalExpiries c')"
    "live (CC_attempts c') j b \<longleftrightarrow> live (CC_attempts c) j b \<and> BI_ID (at_backend b) \<noteq> i"
    using invalidate_fold [OF m assms(1,2), where i = i and now = now] unfolding c'_def invalidate_def by blast+
qed

lemma permits_subset:
  "permits_ok A q \<Longrightarrow> (\<And>k a. live A' k a \<Longrightarrow> live A k a) \<Longrightarrow> permits_ok A' q"
  unfolding permits_ok_def by blast

text \<open>Invalidating a backend makes room for a change of its entry.\<close>

lemma invalidate_core:
  fixes i :: int and now :: instant
  assumes "settled c"
  defines "c' \<equiv> invalidate i now c"
  shows "core_ok (CC_heap c) (mdel i (CC_circuits c)) (CC_attempts c')" "permits_ok (CC_attempts c') (CC_expiries c)"
    "int (mlen (CC_attempts c')) \<le> CC_attemptCapacity c"
proof -
  have ok: "attempts_ok c" and h: "is_heap (CC_terminalExpiries c)" using assms by (simp_all add: settled_def)
  note spec = invalidate_spec [OF attempts_okD(3) [OF ok] h, where i = i and now = now, folded c'_def]
  show "core_ok (CC_heap c) (mdel i (CC_circuits c)) (CC_attempts c')"
    by (rule core_drop [OF attempts_okD(1) [OF ok], where i = i]) (simp_all add: spec(5))
  show "permits_ok (CC_attempts c') (CC_expiries c)"
    by (rule permits_subset [of "CC_attempts c"]) (use ok in \<open>simp_all add: attempts_ok_def spec(5)\<close>)
  show "int (mlen (CC_attempts c')) \<le> CC_attemptCapacity c"
    using attempts_okD(4) [OF ok] by (simp add: spec(3))
qed

lemma invalidate_circuits:
  "invalidate i now (c\<lparr>CC_circuits := C\<rparr>) = (invalidate i now c)\<lparr>CC_circuits := C\<rparr>"
proof -
  have "invalidateOne i now x (c\<lparr>CC_circuits := C\<rparr>) = (invalidateOne i now x c)\<lparr>CC_circuits := C\<rparr>"
    for x and c :: "'a CircuitCoordinator"
    by (cases x) (simp add: invalidateOne_def Let_def addTerminalExpiry_def putAttempt_def)
  then have "fold (invalidateOne i now) L (c\<lparr>CC_circuits := C\<rparr>) = (fold (invalidateOne i now) L c)\<lparr>CC_circuits := C\<rparr>"
    for L and c :: "'a CircuitCoordinator"
    by (induction L arbitrary: c) simp_all
  then show ?thesis by (simp add: invalidate_def)
qed

lemma drop_inv:
  assumes inv: "circuit_inv c"
  shows "circuit_inv (invalidate i now (c\<lparr>CC_circuits := mdel i (CC_circuits c)\<rparr>))"
proof -
  have s: "settled c" using inv by (simp add: circuit_inv_settled)
  let ?c = "invalidate i now c"
  have "attempts_ok c" "is_heap (CC_terminalExpiries c)" using s by (simp_all add: settled_def)
  note spec = invalidate_spec [OF attempts_okD(3) [OF this(1)] this(2), where i = i and now = now]
  have "settled (?c\<lparr>CC_circuits := mdel i (CC_circuits c)\<rparr>)"
    using invalidate_core [OF s, where i = i and now = now] spec(1,2,4)
    by (simp add: settled_def attempts_ok_def shape_def background_def)
  then show ?thesis
    unfolding invalidate_circuits using spec(1) by (intro inv_background [OF inv]) (simp_all add: shape_def)
qed

lemma replace_inv:
  fixes i :: int and now :: instant
  assumes inv: "circuit_inv c" and b: "NewBreaker (CC_options c) = Inr b" and v: "BI_ID v = i"
  defines "c1 \<equiv> invalidate i now c"
  shows "circuit_inv (c1\<lparr>CC_heap := CC_heap c1 @ [breaker_start b],
    CC_circuits := mput i \<lparr>ce_identity = v, ce_breaker = length (CC_heap c1)\<rparr> (CC_circuits c1)\<rparr>)"
proof -
  have s: "settled c" using inv by (simp add: circuit_inv_settled)
  then have "attempts_ok c" "is_heap (CC_terminalExpiries c)" by (simp_all add: settled_def)
  note spec = invalidate_spec [OF attempts_okD(3) [OF this(1)] this(2), where i = i and now = now, folded c1_def]
  have w: "CC_heap c1 = CC_heap c" "CC_circuits c1 = CC_circuits c" "CC_expiries c1 = CC_expiries c"
    "CC_attemptCapacity c1 = CC_attemptCapacity c"
    using spec(1) by (simp_all add: shape_def background_def)
  have "core_ok (CC_heap c @ [breaker_start b])
      (mput i \<lparr>ce_identity = v, ce_breaker = length (CC_heap c)\<rparr> (CC_circuits c)) (CC_attempts c1)"
    by (rule core_add [OF invalidate_core(1) [OF s, where i = i and now = now, folded c1_def], where i = i])
       (use inv_start [OF b] v in \<open>auto simp: breaker_start_def\<close>)
  then have "settled (c1\<lparr>CC_heap := CC_heap c1 @ [breaker_start b],
      CC_circuits := mput i \<lparr>ce_identity = v, ce_breaker = length (CC_heap c1)\<rparr> (CC_circuits c1)\<rparr>)"
    using invalidate_core(2,3) [OF s, where i = i and now = now, folded c1_def] spec(2,4)
    by (simp add: settled_def attempts_ok_def w)
  then show ?thesis using spec(1) by (intro inv_background [OF inv]) (simp_all add: shape_def)
qed

lemma reconcileValues_inv:
  "circuit_inv c \<Longrightarrow> circuit_inv (fst (reconcileValues now seen values c))"
proof (induction "values" arbitrary: seen c)
  case (Cons v rest)
  let ?drop = "invalidate (BI_ID v) now (c\<lparr>CC_circuits := mdel (BI_ID v) (CC_circuits c)\<rparr>)"
  have drop: "circuit_inv (fst (reconcileValues now s rest ?drop))" for s
    by (rule Cons.IH) (rule drop_inv [OF Cons.prems])
  have keep: "circuit_inv (fst (reconcileValues now s rest c))" for s
    by (rule Cons.IH) (rule Cons.prems)
  show ?case
  proof (cases "NewBreaker (CC_options c)")
    case (Inr b)
    have "circuit_inv (fst (reconcileValues now s rest
      ((invalidate (BI_ID v) now c)\<lparr>CC_heap := CC_heap (invalidate (BI_ID v) now c) @ [breaker_start b],
        CC_circuits := mput (BI_ID v) \<lparr>ce_identity = v, ce_breaker = length (CC_heap (invalidate (BI_ID v) now c))\<rparr>
          (CC_circuits (invalidate (BI_ID v) now c))\<rparr>)))" for s
      by (rule Cons.IH) (rule replace_inv [OF Cons.prems Inr refl])
    with drop keep Inr Cons.prems show ?thesis by (simp add: Let_def)
  qed (use drop keep Cons.prems in \<open>simp add: Let_def\<close>)
qed simp

lemma dropUnseen_inv: "circuit_inv c \<Longrightarrow> circuit_inv (dropUnseen now seen c)"
proof -
  have "circuit_inv c \<Longrightarrow> circuit_inv (fold (\<lambda>i c. if i \<in> set seen then c
      else invalidate i now (c\<lparr>CC_circuits := mdel i (CC_circuits c)\<rparr>)) is c)" for "is"
    by (induction "is" arbitrary: c) (simp_all add: drop_inv)
  then show "circuit_inv c \<Longrightarrow> circuit_inv (dropUnseen now seen c)" by (simp add: dropUnseen_def)
qed

lemma Reconcile_inv: "circuit_inv c \<Longrightarrow> circuit_inv (fst (Reconcile ctxErr now values c))"
  using reconcileValues_inv [OF circuit_expire_inv(1), of c now "[]" "values" now]
  by (auto simp: Reconcile_def Let_def dropUnseen_inv split: option.splits prod.splits sum.splits)

section \<open>Making room\<close>

lemma heap_pop_root: "is_heap q \<Longrightarrow> q \<noteq> [] \<Longrightarrow> fst (heap_pop q) = q ! 0"
  using heap_pop_spec [of q] by simp

lemma heap_pop_heap:
  assumes "is_heap q" "q \<noteq> []"
  shows "is_heap (snd (heap_pop q))"
  using eq.oldest_Some [OF assms(1), of "fst (heap_pop q)" "snd (heap_pop q)"] assms(2)
  unfolding eq_popOldest_def by force

lemma dropStaleAttempts_heap:
  "is_heap q \<Longrightarrow> is_heap (fst (dropStaleAttempts A q)) \<and>
     (snd (dropStaleAttempts A q) \<longrightarrow> fst (dropStaleAttempts A q) \<noteq> [] \<and>
        terminalAttempt A (fst (dropStaleAttempts A q) ! 0))"
proof (induction A q rule: dropStaleAttempts.induct)
  case (1 A q)
  show ?case
  proof (cases "q = [] \<or> terminalAttempt A (q ! 0)")
    case True
    then show ?thesis using 1(2) by (auto simp: dropStaleAttempts.simps [of A q])
  next
    case False
    then have e: "dropStaleAttempts A q = dropStaleAttempts A (snd (heap_pop q))"
      by (simp add: dropStaleAttempts.simps [of A q])
    have "is_heap (snd (heap_pop q))" using heap_pop_heap [OF 1(2)] False by simp
    with 1(1) False show ?thesis unfolding e by simp
  qed
qed

lemma hasTerminalAttempt_spec:
  assumes "settled c"
  shows "settled (fst (hasTerminalAttempt c))" "background (fst (hasTerminalAttempt c)) = background c"
    "CC_attempts (fst (hasTerminalAttempt c)) = CC_attempts c"
    "snd (hasTerminalAttempt c) \<Longrightarrow> CC_terminalExpiries (fst (hasTerminalAttempt c)) \<noteq> [] \<and>
      terminalAttempt (CC_attempts c) (CC_terminalExpiries (fst (hasTerminalAttempt c)) ! 0)"
  using assms dropStaleAttempts_heap [of "CC_terminalExpiries c" "CC_attempts c"]
  by (simp_all add: hasTerminalAttempt_def case_prod_unfold Let_def settled_def)

lemma makeAttemptRoom_spec:
  assumes "settled c" "mget (CC_attempts c) k = None"
  shows "settled (fst (makeAttemptRoom c)) \<and> background (fst (makeAttemptRoom c)) = background c \<and>
    mget (CC_attempts (fst (makeAttemptRoom c))) k = None \<and>
    (snd (makeAttemptRoom c) \<longrightarrow>
       int (mlen (CC_attempts (fst (makeAttemptRoom c)))) < CC_attemptCapacity (fst (makeAttemptRoom c)))"
  using assms
proof (induction c rule: makeAttemptRoom.induct)
  case (1 c)
  let ?h = "fst (hasTerminalAttempt c)"
  note h = hasTerminalAttempt_spec [OF 1(2)]
  show ?case
  proof (cases "int (mlen (CC_attempts c)) < CC_attemptCapacity c")
    case True
    then show ?thesis using 1(2,3) by (simp add: makeAttemptRoom.simps [of c])
  next
    case full: False
    show ?thesis
    proof (cases "snd (hasTerminalAttempt c)")
      case False
      then have "makeAttemptRoom c = (?h, False)"
        using full by (simp add: makeAttemptRoom.simps [of c] case_prod_unfold)
      then show ?thesis using h(1-3) 1(3) by simp
    next
      case True
      let ?q = "CC_terminalExpiries ?h"
      let ?c = "?h\<lparr>CC_attempts := mdel (ee_id (fst (heap_pop ?q))) (CC_attempts ?h), CC_terminalExpiries := snd (heap_pop ?q)\<rparr>"
      have q: "?q \<noteq> []" "terminalAttempt (CC_attempts c) (?q ! 0)" using h(4) [OF True] by simp_all
      have "is_heap ?q" using h(1) by (simp add: settled_def)
      then have pop: "fst (heap_pop ?q) = ?q ! 0" "is_heap (snd (heap_pop ?q))"
        by (rule heap_pop_root [OF _ q(1)], rule heap_pop_heap [OF _ q(1)])
      have "attempts_ok (?h\<lparr>CC_attempts := mdel (ee_id (?q ! 0)) (CC_attempts ?h)\<rparr>)"
        by (rule attempts_ok_delete)
           (use h(1,3) q(2) in \<open>auto simp: settled_def terminalAttempt_def live_def split: option.splits\<close>)
      then have "settled ?c" using pop by (simp add: settled_def)
      moreover have "mget (CC_attempts ?c) k = None" using 1(3) by (simp add: h(3))
      moreover have "makeAttemptRoom c = makeAttemptRoom ?c"
        using full True q(1) by (subst makeAttemptRoom.simps) (simp add: case_prod_unfold Let_def eq_popOldest_def)
      moreover have "background ?c = background c" using h(2) by simp
      ultimately show ?thesis
        using 1(1) [of "hasTerminalAttempt c" ?h True "heap_pop ?q" "fst (heap_pop ?q)" "snd (heap_pop ?q)"]
          full True q(1) by (simp add: eq_popOldest_def prod_eq_iff)
    qed
  qed
qed

section \<open>Acquire, complete, renew\<close>

lemma attempts_ok_acquire:
  assumes ok: "attempts_ok c" and e: "mget (CC_circuits c) i = Some e"
    and fresh: "mget (CC_attempts c) k = None" "int (mlen (CC_attempts c)) < CC_attemptCapacity c"
    and acq: "snd (Breaker_Acquire (sys_breaker (CC_heap c ! ce_breaker e)) now) = Some (at_generation a, p)"
    and a: "at_backend a = ce_identity e" "p \<longleftrightarrow> at_permit a \<noteq> None" "\<not> at_terminal a"
      "at_complete a = (ce_breaker e, length (sys_tickets (CC_heap c ! ce_breaker e)))"
    and q: "set (CC_expiries c) \<subseteq> set q"
      "\<And>r. at_permit a = Some r \<Longrightarrow> \<lparr>ee_at = PI_ExpiresAt r, ee_id = k, ee_kind = circuitPermitExpiry\<rparr> \<in> set q"
  shows "attempts_ok (putAttempt k a ((stepBreaker (ce_breaker e) (BAcquire now) c)\<lparr>CC_expiries := q\<rparr>))"
proof -
  have "core_ok ((CC_heap c)[ce_breaker e := breaker_step (CC_heap c ! ce_breaker e) (BAcquire now)])
      (CC_circuits c) (mput k a (CC_attempts c))"
    by (rule core_acquire [OF attempts_okD(1) [OF ok] e fresh(1) acquire_tickets(2) [OF acq] a])
  moreover have "permits_ok (mput k a (CC_attempts c)) q"
    using attempts_okD(2) [OF ok] q fresh(1) unfolding permits_ok_def live_def by (auto split: if_splits)
  ultimately show ?thesis
    using attempts_okD(3,4) [OF ok] fresh
    by (simp add: attempts_ok_def putAttempt_def stepBreaker_def mlen_mput)
qed

lemma stepBreaker_snapshot_putAttempt:
  "stepBreaker x ev (putAttempt k a c) = putAttempt k a (stepBreaker x ev c)"
  "stepBreaker x ev (c\<lparr>CC_expiries := q\<rparr>) = (stepBreaker x ev c)\<lparr>CC_expiries := q\<rparr>"
  by (simp_all add: stepBreaker_def putAttempt_def)

lemma acquire_commit:
  assumes inv: "circuit_inv c" and e: "mget (CC_circuits c) i = Some e"
    and fresh: "mget (CC_attempts c) k = None" "int (mlen (CC_attempts c)) < CC_attemptCapacity c"
    and acq: "snd (Breaker_Acquire (sys_breaker (CC_heap c ! ce_breaker e)) now) = Some (at_generation a, p)"
    and a: "at_backend a = ce_identity e" "p \<longleftrightarrow> at_permit a \<noteq> None" "\<not> at_terminal a"
      "at_complete a = (ce_breaker e, length (sys_tickets (CC_heap c ! ce_breaker e)))"
    and q: "is_heap q" "set (CC_expiries c) \<subseteq> set q"
      "\<And>r. at_permit a = Some r \<Longrightarrow> \<lparr>ee_at = PI_ExpiresAt r, ee_id = k, ee_kind = circuitPermitExpiry\<rparr> \<in> set q"
  shows "circuit_inv (putAttempt k a ((stepBreaker (ce_breaker e) (BSnapshot now)
    (stepBreaker (ce_breaker e) (BAcquire now) c))\<lparr>CC_expiries := q\<rparr>))"
proof -
  let ?x = "ce_breaker e"
  have ok: "attempts_ok c" using inv by (simp add: circuit_inv_def)
  have x: "?x < length (CC_heap c)" using entries_okD(2) [OF core_okD(1) [OF attempts_okD(1) [OF ok]] e] .
  let ?c1 = "putAttempt k a ((stepBreaker ?x (BAcquire now) c)\<lparr>CC_expiries := q\<rparr>)"
  have "attempts_ok ?c1" by (rule attempts_ok_acquire [OF ok e fresh acq a q(2,3)])
  then have "attempts_ok (stepBreaker ?x (BSnapshot now) ?c1)"
    by (rule attempts_ok_step) (use x in \<open>simp_all add: stepBreaker_def putAttempt_def del: breaker_step.simps(1)\<close>)
  then show ?thesis
    using inv q(1) by (simp add: stepBreaker_snapshot_putAttempt circuit_inv_def)
      (simp add: putAttempt_def stepBreaker_def)
qed

lemma acquireBreaker_inv:
  assumes inv: "circuit_inv c" and e: "mget (CC_circuits c) i = Some e" "ce_identity e = CA_Backend req"
    and fresh: "mget (CC_attempts c) (CA_AttemptID req) = None" "int (mlen (CC_attempts c)) < CC_attemptCapacity c"
  shows "circuit_inv (fst (acquireBreaker f now req e c))"
proof -
  let ?x = "ce_breaker e"
  let ?s = "CC_heap c ! ?x" and ?acq = "Breaker_Acquire (sys_breaker (CC_heap c ! ?x)) now"
  let ?c1 = "stepBreaker ?x (BAcquire now) c"
  let ?snap = "toCircuitSnapshot (ce_identity e) (snd (Breaker_Snapshot (fst ?acq) now))"
  have ok: "attempts_ok c" using inv by (simp add: circuit_inv_def)
  have x: "?x < length (CC_heap c)" using entries_okD(2) [OF core_okD(1) [OF attempts_okD(1) [OF ok]] e(1)] .
  have snap: "breakerSnapshot e now ?c1 = (stepBreaker ?x (BSnapshot now) ?c1, ?snap)"
    using x by (simp add: breakerSnapshot_def stepBreaker_def acquire_breaker del: breaker_step.simps)
  show ?thesis
  proof (cases "snd ?acq")
    case None
    have "attempts_ok ?c1" by (rule attempts_ok_step [OF ok x acquire_tickets(1) [OF None]])
    then have "attempts_ok (stepBreaker ?x (BSnapshot now) ?c1)"
      by (rule attempts_ok_step) (use x in \<open>simp_all add: stepBreaker_def del: breaker_step.simps(1)\<close>)
    then show ?thesis
      using inv by (intro inv_background [OF inv])
        (simp_all add: acquireBreaker_def snap None Let_def settled_def circuit_inv_def)
  next
    case (Some gp)
    obtain g p where gp: "gp = (g, p)" by (cases gp)
    have g: "CS_Generation ?snap = g" "CS_State ?snap = CircuitHalfOpen \<longleftrightarrow> p"
      using acquire_snapshot [OF Some [unfolded gp]] by (simp_all add: toCircuitSnapshot_def)
    let ?q = "eq_add (CC_expiries c) circuitPermitExpiry (CA_AttemptID req) (now + CA_ProbeTTL req)"
    note commit = acquire_commit [OF inv e(1) fresh, where now = now and p = p]
    have q: "is_heap ?q" "set (CC_expiries c) \<subseteq> set ?q" "is_heap (CC_expiries c)"
      using inv by (auto simp: circuit_inv_def eq_add_heap eq_add_set)
    have exp: "CC_expiries (stepBreaker ?x (BSnapshot now) ?c1) = CC_expiries c"
      by (simp add: stepBreaker_def)
    show ?thesis
    proof (cases p)
      case True
      show ?thesis
        unfolding acquireBreaker_def snap Let_def Some option.case prod.case exp if_P [OF g(2) [THEN iffD2, OF True]] fst_conv
        by (rule commit) (use Some gp g True e q in \<open>simp_all add: eq_add_set\<close>)
    next
      case False
      have same: "(stepBreaker ?x (BSnapshot now) ?c1)\<lparr>CC_expiries := CC_expiries c\<rparr> = stepBreaker ?x (BSnapshot now) ?c1"
        by (simp add: stepBreaker_def)
      have n: "CS_State ?snap \<noteq> CircuitHalfOpen" using g(2) False by simp
      show ?thesis
        unfolding acquireBreaker_def snap Let_def Some option.case prod.case if_not_P [OF n] fst_conv
        by (subst same [symmetric], rule commit) (use Some gp g False e q in simp_all)
    qed
  qed
qed

lemma circuit_Acquire_inv:
  assumes "circuit_inv c"
  shows "circuit_inv (fst (circuit_Acquire fp ctxErr now req c))"
proof (cases ctxErr)
  case None
  let ?c = "circuit_expire now c"
  have inv: "circuit_inv ?c" by (rule circuit_expire_inv(1) [OF assms])
  show ?thesis
  proof (cases "mget (CC_attempts ?c) (CA_AttemptID req)")
    case (Some old)
    with None inv show ?thesis by (simp add: circuit_Acquire_def Let_def withSnapshot_inv)
  next
    case fresh: None
    have s: "settled ?c" using inv by (simp add: circuit_inv_settled)
    note room = makeAttemptRoom_spec [OF s fresh]
    obtain c' ok where c': "makeAttemptRoom ?c = (c', ok)" by (cases "makeAttemptRoom ?c")
    have inv': "circuit_inv c'" by (rule inv_background [OF inv]) (use room c' in simp_all)
    have acq: "circuit_inv (fst (acquireBreaker f now req e c'))"
      if "mget (CC_circuits c') i = Some e" "ce_identity e = CA_Backend req" ok for f i e
      by (rule acquireBreaker_inv [OF inv' that(1,2)]) (use room c' that(3) in simp_all)
    show ?thesis
      using None fresh c' inv' acq
      by (auto simp: circuit_Acquire_def Let_def withSnapshot_inv case_prod_unfold split: bool.splits option.splits)
  qed
qed (use assms in \<open>simp add: circuit_Acquire_def\<close>)

lemma finishAttempt_inv:
  assumes inv: "circuit_inv c" and a: "mget (CC_attempts c) (CC_AttemptID v) = Some a"
  shows "circuit_inv (finishAttempt now v a c)"
proof -
  let ?u = "circuitRetentionBoundary [now, at_acquiredAt a, CC_ReportedOutcomeAt v]"
  let ?a = "a\<lparr>at_completion := Some v, at_terminal := True, at_retainUntil := ?u\<rparr>"
  let ?c = "if at_terminal a then c else callComplete a (CC_Outcome v) (CC_ReportedOutcomeAt v) c"
  have ok: "attempts_ok c" "is_heap (CC_terminalExpiries c)" using inv by (simp_all add: circuit_inv_def)
  have "attempts_ok (putAttempt (CC_AttemptID v) ?a ?c)"
    using attempts_ok_finish [OF ok(1), of "CC_AttemptID v" a ?a "CC_Outcome v" "CC_ReportedOutcomeAt v"]
      attempts_ok_terminal_put [OF ok(1) a] a by (auto simp: live_def)
  from settled_addTerminal [OF this] ok(2) show ?thesis
    by (intro inv_background [OF inv]) (simp_all add: finishAttempt_def Let_def)
qed

lemma circuit_Complete_inv:
  assumes "circuit_inv c"
  shows "circuit_inv (fst (circuit_Complete ctxErr now v c))"
proof (cases ctxErr)
  case None
  have "circuit_inv (circuit_expire now c)" by (rule circuit_expire_inv(1) [OF assms])
  then show ?thesis
    using None by (simp add: circuit_Complete_def Let_def withSnapshot_inv finishAttempt_inv split: option.splits)
qed (use assms in \<open>simp add: circuit_Complete_def\<close>)

lemma attempts_ok_renew:
  assumes ok: "attempts_ok c" and a: "live (CC_attempts c) k a" "at_permit a = Some p" and q: "set (CC_expiries c) \<subseteq> set q"
    "\<lparr>ee_at = PI_ExpiresAt p', ee_id = k, ee_kind = circuitPermitExpiry\<rparr> \<in> set q"
  shows "attempts_ok ((putAttempt k (a\<lparr>at_permit := Some p'\<rparr>) c)\<lparr>CC_expiries := q\<rparr>)"
proof -
  let ?a = "a\<lparr>at_permit := Some p'\<rparr>" and ?A = "mput k (a\<lparr>at_permit := Some p'\<rparr>) (CC_attempts c)"
  have m: "mget (CC_attempts c) k = Some a" "\<not> at_terminal a" using a by (simp_all add: live_def)
  note core = attempts_okD(1) [OF ok]
  have live': "live ?A j b \<longleftrightarrow> (if j = k then b = ?a else live (CC_attempts c) j b)" for j b
    using m by (auto simp: live_def)
  have old: "\<exists>b0. live (CC_attempts c) j b0 \<and> at_complete b0 = at_complete b" if "live ?A j b" for j b
    using that a(1) unfolding live' by (cases "j = k") auto
  have "core_ok (CC_heap c) (CC_circuits c) ?A"
  proof (rule core_okI)
    show "entries_ok (CC_heap c) (CC_circuits c)" by (rule core_okD(1) [OF core])
  next
    fix j b assume j: "live ?A j b"
    have "holds_ticket (CC_heap c) (CC_circuits c) ?a"
      using core_okD(2) [OF core a(1)] a(2) unfolding holds_ticket_def by simp
    with j show "holds_ticket (CC_heap c) (CC_circuits c) b"
      using core_okD(2) [OF core, of j b] by (simp add: live' split: if_splits)
  next
    fix j j' b b' assume "live ?A j b" "live ?A j' b'" "at_complete b = at_complete b'"
    with old obtain b0 b0' where "live (CC_attempts c) j b0" "live (CC_attempts c) j' b0'"
      "at_complete b0 = at_complete b0'" by metis
    then show "j = j'" by (rule core_okD(3) [OF core])
  next
    fix i e t assume "mget (CC_circuits c) i = Some e" "t < length (sys_tickets (CC_heap c ! ce_breaker e))"
      "\<not> tk_done (sys_tickets (CC_heap c ! ce_breaker e) ! t)"
    from core_okD(4) [OF core this] obtain j b where "live (CC_attempts c) j b" "at_complete b = (ce_breaker e, t)"
      by blast
    then show "\<exists>j b. live ?A j b \<and> at_complete b = (ce_breaker e, t)"
      using m by (cases "j = k") (auto simp: live' live_def)
  qed
  moreover have "permits_ok ?A q"
    using attempts_okD(2) [OF ok] q unfolding permits_ok_def live' by (metis circuitAttempt.select_convs(4) circuitAttempt.update_convs(4) circuitAttempt.surjective option.inject subsetD)
  ultimately show ?thesis
    using attempts_okD(3,4) [OF ok] m by (simp add: attempts_ok_def putAttempt_def mlen_mput)
qed

lemma renewProbe_inv:
  assumes inv: "circuit_inv c"
  shows "circuit_inv (fst (renewProbe now p c))"
proof (cases "fst (renewProbe now p c) = c")
  case False
  let ?q = "\<lambda>t. eq_add (CC_expiries c) circuitPermitExpiry (PI_PermitID p) t"
  from False obtain a r t where a: "live (CC_attempts c) (PI_PermitID p) a" "at_permit a = Some r"
    and e: "fst (renewProbe now p c) =
      (putAttempt (PI_PermitID p) (a\<lparr>at_permit := Some (r\<lparr>PI_ExpiresAt := t\<rparr>)\<rparr>) c)\<lparr>CC_expiries := ?q t\<rparr>"
    by (auto simp: renewProbe_def Let_def live_def putAttempt_def split: option.splits if_splits)
  have "attempts_ok (fst (renewProbe now p c))"
    unfolding e by (rule attempts_ok_renew [OF _ a]) (use inv in \<open>auto simp: circuit_inv_def eq_add_set\<close>)
  moreover have "is_heap (?q t)" using inv by (simp add: circuit_inv_def eq_add_heap)
  ultimately show ?thesis using inv by (simp add: circuit_inv_def e) (simp add: putAttempt_def)
qed (use inv in simp)

lemma renewEach_inv: "circuit_inv c \<Longrightarrow> circuit_inv (fst (renewEach now ps c))"
  by (induction ps arbitrary: c) (simp_all add: case_prod_unfold Let_def renewProbe_inv)

lemma RenewProbes_inv: "circuit_inv c \<Longrightarrow> circuit_inv (fst (RenewProbes ctxErr now ps c))"
  by (simp add: RenewProbes_def case_prod_unfold Let_def renewEach_inv circuit_expire_inv(1) split: option.splits)

lemma circuit_Status_inv:
  assumes "circuit_inv c"
  shows "circuit_inv (fst (circuit_Status now c))"
proof -
  have inv: "circuit_inv (circuit_expire now c)" by (rule circuit_expire_inv(1) [OF assms])
  have "circuit_inv (fst (hasTerminalAttempt (circuit_expire now c)))"
    by (rule inv_background [OF inv hasTerminalAttempt_spec(1,2)]) (use inv in \<open>simp_all add: circuit_inv_settled\<close>)
  with inv show ?thesis by (simp add: circuit_Status_def Let_def case_prod_unfold)
qed

lemma circuit_Snapshot_inv: "circuit_inv c \<Longrightarrow> circuit_inv (fst (circuit_Snapshot i now c))"
  by (simp add: circuit_Snapshot_def circuit_snapshot_inv circuit_expire_inv(1))

end
