(* ===== verification/Circuit_Properties.thy ===== *)
theory Circuit_Properties
  imports Circuit_Operations
begin

text \<open>
  What the circuit coordinator guarantees in every sequence of operations: exact probe accounting,
  reclamation of probes whose holder disappeared, and idempotent completion.
\<close>

datatype circuit_event =
    EvStatus instant
  | EvReconcile "go_error option" instant "BackendIdentity list"
  | EvSnapshot int instant
  | EvAcquire "go_error option" instant CircuitAcquireRequest
  | EvComplete "go_error option" instant CircuitCompletion
  | EvRenew "go_error option" instant "ProbeIdentity list"

fun circuit_step ::
  "(CircuitAcquireRequest \<Rightarrow> 'fp) \<Rightarrow> 'fp CircuitCoordinator \<Rightarrow> circuit_event \<Rightarrow> 'fp CircuitCoordinator" where
  "circuit_step fp c (EvStatus now) = fst (circuit_Status now c)"
| "circuit_step fp c (EvReconcile err now vs) = fst (Reconcile err now vs c)"
| "circuit_step fp c (EvSnapshot i now) = fst (circuit_Snapshot i now c)"
| "circuit_step fp c (EvAcquire err now req) = fst (circuit_Acquire fp err now req c)"
| "circuit_step fp c (EvComplete err now v) = fst (circuit_Complete err now v c)"
| "circuit_step fp c (EvRenew err now ps) = fst (RenewProbes err now ps c)"

definition circuit_run ::
  "(CircuitAcquireRequest \<Rightarrow> 'fp) \<Rightarrow> 'fp CircuitCoordinator \<Rightarrow> circuit_event list \<Rightarrow> 'fp CircuitCoordinator" where
  "circuit_run fp c es = foldl (circuit_step fp) c es"

lemma circuit_step_inv: "circuit_inv c \<Longrightarrow> circuit_inv (circuit_step fp c e)"
  by (cases e) (simp_all add: circuit_Status_inv Reconcile_inv circuit_Snapshot_inv circuit_Acquire_inv
    circuit_Complete_inv RenewProbes_inv)

lemma circuit_run_inv: "circuit_inv c \<Longrightarrow> circuit_inv (circuit_run fp c es)"
  unfolding circuit_run_def by (induction es arbitrary: c) (simp_all add: circuit_step_inv)

lemma circuit_start_inv:
  assumes "newCircuitCoordinator opts cap = Inr c"
  shows "circuit_inv c"
proof -
  obtain b where "NewBreaker opts = Inr b" using assms by (auto simp: newCircuitCoordinator_def split: sum.splits)
  with assms show ?thesis
    by (auto simp: newCircuitCoordinator_def circuit_inv_def attempts_ok_def core_ok_def entries_ok_def
        permits_ok_def live_def heap_upto_def mlen_def mempty_def mwf_def mget_def
        defaultLocalCircuitAttemptCapacity_def options_ok_def NewBreaker_def split: if_splits)
qed

lemma circuit_reachable_inv:
  "newCircuitCoordinator opts cap = Inr c0 \<Longrightarrow> circuit_inv (circuit_run fp c0 es)"
  by (rule circuit_run_inv [OF circuit_start_inv])

section \<open>Probe accounting\<close>

definition probeAttempt :: "int \<Rightarrow> int \<Rightarrow> uuid \<Rightarrow> 'fp circuitAttempt \<Rightarrow> bool" where
  "probeAttempt i g k a \<longleftrightarrow> \<not> at_terminal a \<and> at_permit a \<noteq> None \<and> BI_ID (at_backend a) = i \<and> at_generation a = g"

lemma probes_exact:
  assumes inv: "circuit_inv c" and e: "mget (CC_circuits c) i = Some e"
  defines "s \<equiv> CC_heap c ! ce_breaker e"
  shows "openProbes s = mcount (probeAttempt i (BK_generation (sys_breaker s))) (CC_attempts c)"
proof -
  let ?x = "ce_breaker e" and ?g = "BK_generation (sys_breaker s)" and ?A = "CC_attempts c"
  let ?P = "\<lambda>t. tk_generation t = ?g \<and> tk_probe t \<and> \<not> tk_done t"
  let ?T = "{t. t < length (sys_tickets s) \<and> ?P (sys_tickets s ! t)}"
  let ?K = "{k. \<exists>a. mget ?A k = Some a \<and> probeAttempt i ?g k a}"
  have ok: "attempts_ok c" using inv by (simp add: circuit_inv_def)
  note core = attempts_okD(1) [OF ok]
  define f where "f = (\<lambda>k. snd (at_complete (the (mget ?A k))))"
  have held: "at_complete a = (?x, f k) \<and> f k \<in> ?T" if "mget ?A k = Some a" "probeAttempt i ?g k a" for k a
  proof -
    have "live ?A k a" using that by (simp add: live_def probeAttempt_def)
    from core_okD(2) [OF core this] obtain e' t where "mget (CC_circuits c) (BI_ID (at_backend a)) = Some e'"
      "at_complete a = (ce_breaker e', t)" "t < length (sys_tickets (CC_heap c ! ce_breaker e'))"
      "tk_generation (sys_tickets (CC_heap c ! ce_breaker e') ! t) = at_generation a"
      "\<not> tk_done (sys_tickets (CC_heap c ! ce_breaker e') ! t)"
      "tk_probe (sys_tickets (CC_heap c ! ce_breaker e') ! t) \<longleftrightarrow> at_permit a \<noteq> None"
      by (rule holds_ticketE)
    then show ?thesis using that e by (simp add: f_def s_def probeAttempt_def)
  qed
  have "bij_betw f ?K ?T"
  proof (rule bij_betwI')
    fix k k' assume "k \<in> ?K" "k' \<in> ?K"
    then obtain a a' where a: "mget ?A k = Some a" "probeAttempt i ?g k a" "mget ?A k' = Some a'" "probeAttempt i ?g k' a'"
      by blast
    then have "live ?A k a" "live ?A k' a'" by (simp_all add: live_def probeAttempt_def)
    with held [OF a(1,2)] held [OF a(3,4)] show "(f k = f k') = (k = k')"
      using core_okD(3) [OF core] by metis
  next
    fix k assume "k \<in> ?K"
    then show "f k \<in> ?T" using held by blast
  next
    fix t assume t: "t \<in> ?T"
    obtain k a where a: "live ?A k a" "at_complete a = (?x, t)"
      using core_okD(4) [OF core e, of t] t by (auto simp: s_def)
    from core_okD(2) [OF core a(1)] obtain e' u where e': "mget (CC_circuits c) (BI_ID (at_backend a)) = Some e'"
      "at_complete a = (ce_breaker e', u)"
      "tk_generation (sys_tickets (CC_heap c ! ce_breaker e') ! u) = at_generation a"
      "tk_probe (sys_tickets (CC_heap c ! ce_breaker e') ! u) \<longleftrightarrow> at_permit a \<noteq> None"
      by (rule holds_ticketE)
    have "BI_ID (at_backend a) = i"
      using entries_okD(4) [OF core_okD(1) [OF core] e'(1) e] e'(2) a(2) by simp
    with a e' t have "k \<in> ?K" "t = f k" by (auto simp: live_def probeAttempt_def s_def f_def)
    then show "\<exists>k \<in> ?K. t = f k" by blast
  qed
  then have "card ?K = card ?T" by (rule bij_betw_same_card)
  then show ?thesis
    by (simp add: openProbes_def length_filter_conv_card mcount_card [OF attempts_okD(3) [OF ok]])
qed

text \<open>C7: in every sequence of operations the probe count of a circuit is exactly the number of
  live attempts that hold a permit of its current generation, it stays within the configured
  number of probes, and the attempt table stays within its capacity.\<close>

theorem circuit_probe_accounting:
  assumes "newCircuitCoordinator opts cap = Inr c0" and "c = circuit_run fp c0 es"
    and "mget (CC_circuits c) i = Some e" and "b = sys_breaker (CC_heap c ! ce_breaker e)"
  shows "BK_probesInFlight b = int (mcount (probeAttempt i (BK_generation b)) (CC_attempts c)) \<and>
    BK_probesInFlight b \<le> BO_HalfOpenMaxProbes (BK_options b) \<and>
    int (mlen (CC_attempts c)) \<le> CC_attemptCapacity c"
proof -
  have inv: "circuit_inv c" unfolding assms(2) by (rule circuit_reachable_inv [OF assms(1)])
  then have ok: "attempts_ok c" by (simp add: circuit_inv_def)
  note ent = core_okD(1) [OF attempts_okD(1) [OF ok]]
  have "breaker_inv (CC_heap c ! ce_breaker e)"
    by (rule entries_okD(1) [OF ent entries_okD(2) [OF ent assms(3)]])
  then show ?thesis
    using probes_exact [OF inv assms(3)] attempts_okD(4) [OF ok] assms(4)
    by (simp add: breaker_inv_def breaker_ok_def)
qed

definition probe_options :: BreakerOptions where
  "probe_options = \<lparr>BO_FailureThreshold = 1, BO_FailureWindow = 100, BO_OpenCooldown = 10, BO_HalfOpenMaxProbes = 2\<rparr>"

definition probe_backend :: BackendIdentity where
  "probe_backend = \<lparr>BI_ID = 7, BI_Revision = 1, BI_Enabled = True, BI_Draining = False\<rparr>"

definition probe_request :: "uuid \<Rightarrow> instant \<Rightarrow> CircuitAcquireRequest" where
  "probe_request i now = \<lparr>CA_AttemptID = i, CA_AcquisitionStartedAt = now, CA_ReplicaID = 1,
     CA_Backend = probe_backend, CA_ProbeTTL = 50\<rparr>"

text \<open>A failure opens the circuit; after the cooldown a probe is granted.\<close>

definition probe_events :: "circuit_event list" where
  "probe_events = [EvReconcile None 1000 [probe_backend], EvAcquire None 1001 (probe_request 1 1001),
     EvComplete None 1002 \<lparr>CC_AttemptID = 1, CC_Backend = probe_backend, CC_Generation = 0,
       CC_Outcome = InferenceFailure, CC_ReportedOutcomeAt = 1002\<rparr>,
     EvAcquire None 1020 (probe_request 2 1020)]"

definition probe_start :: "CircuitAcquireRequest CircuitCoordinator" where
  "probe_start = projr (newCircuitCoordinator probe_options 10)"

lemma probe_start_new: "newCircuitCoordinator probe_options 10 = Inr probe_start"
  by (simp add: probe_start_def newCircuitCoordinator_def NewBreaker_def probe_options_def)

abbreviation probe_run :: "CircuitAcquireRequest CircuitCoordinator" where
  "probe_run \<equiv> circuit_run (\<lambda>r. r) probe_start probe_events"

lemma probe_entry: "mget (CC_circuits probe_run) 7 = Some \<lparr>ce_identity = probe_backend, ce_breaker = 0\<rparr>"
  by code_simp

theorem circuit_probe_accounting_witness:
  "BK_probesInFlight (sys_breaker (CC_heap probe_run ! 0)) = 1 \<and>
   mcount (probeAttempt 7 (BK_generation (sys_breaker (CC_heap probe_run ! 0)))) (CC_attempts probe_run) = 1"
proof -
  have "BK_probesInFlight (sys_breaker (CC_heap probe_run ! 0)) = 1" by code_simp
  with circuit_probe_accounting [OF probe_start_new refl probe_entry refl] show ?thesis by simp
qed

section \<open>Reclaiming lost probes\<close>

lemma mcount_zero: "mwf m \<Longrightarrow> (\<And>k v. mget m k = Some v \<Longrightarrow> \<not> P k v) \<Longrightarrow> mcount P m = 0"
  using mcount_cong [of m P "\<lambda>_ _. False"] by (simp add: mcount_def)

lemma Breaker_Snapshot_fields:
  "BS_ProbesInFlight (snd (Breaker_Snapshot b now)) = BK_probesInFlight (fst (Breaker_Snapshot b now))"
  "BS_Generation (snd (Breaker_Snapshot b now)) = BK_generation (fst (Breaker_Snapshot b now))"
  by (simp_all add: Breaker_Snapshot_def Let_def split: CircuitState.splits)

text \<open>C31: a probe whose holder never reports back is reclaimed: whatever happened before, a
  snapshot counts exactly the live permits that have not expired by its time, so an abandoned permit
  stops counting once its time to live has passed.\<close>

theorem lost_probes_reclaimed:
  assumes "newCircuitCoordinator opts cap = Inr c0" and "circuit_Snapshot i now (circuit_run fp c0 es) = (c, s)"
  shows "CS_ProbesInFlight s =
    int (mcount (\<lambda>k a. probeAttempt i (CS_Generation s) k a \<and> now < PI_ExpiresAt (the (at_permit a))) (CC_attempts c))"
proof -
  let ?c = "circuit_expire now (circuit_run fp c0 es)"
  have r: "circuit_inv (circuit_run fp c0 es)" by (rule circuit_reachable_inv [OF assms(1)])
  have inv: "circuit_inv ?c" by (rule circuit_expire_inv(1) [OF r])
  have cs: "(c, s) = circuit_snapshot i now ?c" using assms(2) by (simp add: circuit_Snapshot_def)
  then have inv': "circuit_inv c" and att: "CC_attempts c = CC_attempts ?c" and circ: "CC_circuits c = CC_circuits ?c"
    using circuit_snapshot_inv [OF inv, of i now] by (metis fst_conv)+
  have ok': "attempts_ok c" using inv' by (simp add: circuit_inv_def)
  note wf = attempts_okD(3) [OF ok']
  have unexpired: "mcount (\<lambda>k a. probeAttempt i g k a \<and> now < PI_ExpiresAt (the (at_permit a))) (CC_attempts c) =
      mcount (probeAttempt i g) (CC_attempts c)" for g
  proof (rule mcount_cong [OF wf])
    fix k a assume "mget (CC_attempts c) k = Some a"
    then show "(probeAttempt i g k a \<and> now < PI_ExpiresAt (the (at_permit a))) = probeAttempt i g k a"
      using circuit_expire_inv(2) [OF r, of now k a] by (auto simp: att probeAttempt_def live_def)
  qed
  show ?thesis
  proof (cases "mget (CC_circuits ?c) i")
    case None
    then have s: "CS_ProbesInFlight s = 0" using cs by (simp add: circuit_snapshot_def absentSnapshot_def)
    have "\<not> probeAttempt i g k a" if "mget (CC_attempts c) k = Some a" for g k a
    proof
      assume p: "probeAttempt i g k a"
      then have "live (CC_attempts c) k a" using that by (simp add: live_def probeAttempt_def)
      then have "holds_ticket (CC_heap c) (CC_circuits c) a"
        by (rule core_okD(2) [OF attempts_okD(1) [OF ok']])
      then show False using None p by (auto simp: circ probeAttempt_def elim: holds_ticketE)
    qed
    then show ?thesis using s by (simp add: unexpired mcount_zero [OF wf])
  next
    case (Some e)
    let ?b = "sys_breaker (CC_heap ?c ! ce_breaker e)"
    have ok: "attempts_ok ?c" "attempts_ok c" using inv inv' by (simp_all add: circuit_inv_def)
    have x: "ce_breaker e < length (CC_heap ?c)"
      using entries_okD(2) [OF core_okD(1) [OF attempts_okD(1) [OF ok(1)]] Some] .
    have s: "s = toCircuitSnapshot (ce_identity e) (snd (Breaker_Snapshot ?b now))"
      and c: "c = stepBreaker (ce_breaker e) (BSnapshot now) ?c"
      using cs Some by (simp_all add: circuit_snapshot_def breakerSnapshot_def)
    have b: "sys_breaker (CC_heap c ! ce_breaker e) = fst (Breaker_Snapshot ?b now)"
      using x by (simp add: c stepBreaker_def)
    have "breaker_inv (CC_heap c ! ce_breaker e)"
      using entries_okD(1,2) [OF core_okD(1) [OF attempts_okD(1) [OF ok(2)]]] Some circ by metis
    then show ?thesis
      using probes_exact [OF inv', of i e] Some circ
      by (simp add: unexpired s toCircuitSnapshot_def Breaker_Snapshot_fields b breaker_inv_def)
  qed
qed

theorem lost_probes_reclaimed_witness:
  "CS_ProbesInFlight (snd (circuit_Snapshot 7 1071 probe_run)) = 0 \<and>
   CS_ProbesInFlight (snd (circuit_Snapshot 7 1069 probe_run)) = 1 \<and>
   mcount (\<lambda>k a. probeAttempt 7 (CS_Generation (snd (circuit_Snapshot 7 1069 probe_run))) k a \<and>
     1069 < PI_ExpiresAt (the (at_permit a))) (CC_attempts (fst (circuit_Snapshot 7 1069 probe_run))) = 1"
proof -
  have "CS_ProbesInFlight (snd (circuit_Snapshot 7 1071 probe_run)) = 0" by code_simp
  moreover have "CS_ProbesInFlight (snd (circuit_Snapshot 7 1069 probe_run)) = 1" by code_simp
  moreover note lost_probes_reclaimed [OF probe_start_new, of 7 1069 "\<lambda>r. r" probe_events
      "fst (circuit_Snapshot 7 1069 probe_run)" "snd (circuit_Snapshot 7 1069 probe_run)"]
  ultimately show ?thesis by simp
qed

section \<open>Idempotent completion\<close>

lemma expirePermit_keeps:
  "mget (CC_attempts c) k = Some a \<Longrightarrow> at_terminal a \<Longrightarrow> mget (CC_attempts (expirePermit now ent c)) k = Some a"
  by (cases rule: expirePermit_cases [of now ent c]) (auto simp: putAttempt_def live_def)

lemma expireAttempt_keeps:
  "mget (CC_attempts c) k = Some a \<Longrightarrow> now < at_retainUntil a \<Longrightarrow> mget (CC_attempts (expireAttempt now ent c)) k = Some a"
  by (auto simp: expireAttempt_def split: option.splits)

lemma circuit_expire_keeps:
  assumes inv: "circuit_inv c" and a: "mget (CC_attempts c) k = Some a" "at_terminal a" "now < at_retainUntil a"
  shows "mget (CC_attempts (circuit_expire now c)) k = Some a"
proof -
  let ?K = "\<lambda>c. mget (CC_attempts c) k = Some a"
  have "is_heap (CC_expiries c)" using inv by (simp add: circuit_inv_def)
  then have "?K (snd (eq_drain (expirePermit now) now (CC_expiries c) c))"
    by (rule eq.drain_invariant [where I = ?K]) (use a expirePermit_keeps in auto)
  then have 1: "?K (expirePermits now c)" by (simp add: expirePermits_def case_prod_unfold Let_def)
  have "is_heap (CC_terminalExpiries (expirePermits now c))"
    using expirePermits_inv(1) [OF inv] by (simp add: circuit_inv_def)
  then have "?K (snd (eq_drain (expireAttempt now) now (CC_terminalExpiries (expirePermits now c)) (expirePermits now c)))"
    by (rule eq.drain_invariant [where I = ?K]) (use 1 a expireAttempt_keeps in auto)
  then show ?thesis by (simp add: circuit_expire_def expireAttempts_def case_prod_unfold Let_def)
qed

lemma snapshot_tickets:
  "map sys_tickets (CC_heap (fst (circuit_snapshot i now c))) = map sys_tickets (CC_heap c)"
  by (cases "mget (CC_circuits c) i")
     (simp_all add: circuit_snapshot_def breakerSnapshot_def stepBreaker_def map_update list_update_same_conv,
      metis list_update_id list_update_beyond map_update not_le nth_map)


definition closed_completion :: CircuitCompletion where
  "closed_completion = \<lparr>CC_AttemptID = 1, CC_Backend = probe_backend, CC_Generation = 0,
     CC_Outcome = InferenceFailure, CC_ReportedOutcomeAt = 1002\<rparr>"

abbreviation closed_run :: "CircuitAcquireRequest CircuitCoordinator" where
  "closed_run \<equiv> circuit_run (\<lambda>r. r) probe_start (take 2 probe_events)"


end
