(* ===== verification/Local_Tokenization.thy ===== *)
theory Local_Tokenization
  imports Coordination_Types Expiry_Queue
begin

text \<open>
  Tokenization admission: the policy and the wire types (\<^verbatim>\<open>internal/coordination/tokenization.go\<close>)
  and the in-process coordinator (\<^verbatim>\<open>internal/coordination/local/tokenization.go\<close>). The fingerprint of
  a request (SHA-256 of its JSON encoding) is a parameter. A pointer that is copied before it is
  handed out (\<^verbatim>\<open>cloneTokenizationDecision\<close>) is a value here. \<^verbatim>\<open>Acquire\<close> reads the
  context's error twice, before and after taking the mutex; neither check has changed anything, so one
  argument stands for whichever of them fires.
\<close>

section \<open>Policy and types\<close>

datatype TokenizationReason =
    TokenizationNoReason
  | TokenizationClientLimit
  | TokenizationBackendLimit
  | TokenizationRateLimit
  | TokenizationUnavailable
  | TokenizationStaleConfiguration
  | TokenizationStaleOperation
  | TokenizationConflict
  | TokenizationLeaseLost

record TokenizationPolicy =
  TP_ClientMaxInflight :: int
  TP_BackendMaxInflight :: int
  TP_ClientRPM :: int
  TP_Timeout :: duration

definition DefaultTokenizationPolicy :: TokenizationPolicy where
  "DefaultTokenizationPolicy = \<lparr>TP_ClientMaxInflight = 4, TP_BackendMaxInflight = 8,
     TP_ClientRPM = 120, TP_Timeout = 30 * second\<rparr>"

definition TokenizationPolicy_Validate :: "TokenizationPolicy \<Rightarrow> string option" where
  "TokenizationPolicy_Validate p =
     (if TP_ClientMaxInflight p < 1 \<or> TP_ClientMaxInflight p > 10000 \<or>
         TP_BackendMaxInflight p < 1 \<or> TP_BackendMaxInflight p > 10000 \<or>
         TP_ClientRPM p < 1 \<or> TP_ClientRPM p > 10000000 \<or>
         TP_Timeout p \<le> 0 \<or> TP_Timeout p > 5 * minute
      then Some ''invalid tokenization policy'' else None)"

definition LeaseTTL :: "TokenizationPolicy \<Rightarrow> duration" where
  "LeaseTTL p = TP_Timeout p + 15 * second"

definition Burst :: "TokenizationPolicy \<Rightarrow> real" where
  "Burst p = of_int (min (TP_ClientRPM p) 10)"

record TokenizationCandidate =
  TCand_BackendID :: int
  TCand_BackendRevision :: int

record TokenizationAcquireRequest =
  TR_OperationID :: uuid
  TR_ReplicaID :: uuid
  TR_RequestID :: string
  TR_OperationStartedAt :: instant
  TR_ConfigurationRevision :: int
  TR_APIKeyID :: int
  TR_ClientID :: int
  TR_PoolID :: int
  TR_PoolRevision :: int
  TR_Candidates :: "TokenizationCandidate list"

definition ValidAt :: "TokenizationAcquireRequest \<Rightarrow> instant \<Rightarrow> bool" where
  "ValidAt r now \<longleftrightarrow> TR_OperationID r \<noteq> 0 \<and> TR_ReplicaID r \<noteq> 0 \<and> TR_ClientID r > 0 \<and> TR_PoolID r > 0 \<and>
     TR_OperationStartedAt r > now - 24 * hour \<and> \<not> TR_OperationStartedAt r > now + 5 * minute"

record TokenizationLease =
  TL_OperationID :: uuid
  TL_ReplicaID :: uuid
  TL_ClientID :: int
  TL_PoolID :: int
  TL_BackendID :: int
  TL_BackendRevision :: int
  TL_AcquiredAt :: instant
  TL_ExpiresAt :: instant

record TokenizationDecision =
  TD_Lease :: "TokenizationLease option"
  TD_Reason :: TokenizationReason
  TD_RetryAt :: "instant option"

definition Lease_Matches :: "TokenizationLease \<Rightarrow> TokenizationLease \<Rightarrow> bool" where
  "Lease_Matches l other \<longleftrightarrow>
     TL_OperationID l = TL_OperationID other \<and> TL_ReplicaID l = TL_ReplicaID other \<and>
     TL_ClientID l = TL_ClientID other \<and> TL_PoolID l = TL_PoolID other \<and>
     TL_BackendID l = TL_BackendID other \<and> TL_BackendRevision l = TL_BackendRevision other \<and>
     TL_AcquiredAt l = TL_AcquiredAt other \<and> TL_ExpiresAt l = TL_ExpiresAt other"

section \<open>The coordinator\<close>

record 'fp tokenizationReceipt =
  tr_clientID :: int
  tr_fingerprint :: 'fp
  tr_decision :: TokenizationDecision
  tr_retainUntil :: instant
  tr_completed :: bool

record tokenizationRate =
  tk_balance :: real
  tk_at :: instant

record 'fp TokenizationCoordinator =
  TC_policy :: TokenizationPolicy
  TC_receipts :: "(uuid, 'fp tokenizationReceipt) gomap"
  TC_rates :: "(int, tokenizationRate) gomap"
  TC_receiptCounts :: "(int, int) gomap"
  TC_receiptExpiries :: expiryQueue
  TC_leaseExpiries :: expiryQueue
  TC_active :: "(uuid, TokenizationLease) gomap"
  TC_clientInflight :: "(int, int) gomap"
  TC_backendInflight :: "(int, int) gomap"

definition tokenizationReceiptsPerClient :: int where
  "tokenizationReceiptsPerClient = 65536"

definition NewTokenizationCoordinator :: "TokenizationPolicy \<Rightarrow> 'fp TokenizationCoordinator" where
  "NewTokenizationCoordinator policy =
     \<lparr>TC_policy = policy, TC_receipts = mempty, TC_rates = mempty, TC_receiptCounts = mempty,
      TC_receiptExpiries = [], TC_leaseExpiries = [], TC_active = mempty,
      TC_clientInflight = mempty, TC_backendInflight = mempty\<rparr>"

definition tokenization_Status :: "'fp TokenizationCoordinator \<Rightarrow> Status" where
  "tokenization_Status c =
     \<lparr>St_Backend = ''local'', St_Available = (TokenizationPolicy_Validate (TC_policy c) = None),
      St_Degraded = False, St_Permanent = False, St_LastSuccess = 0, St_Reason = NoReason\<rparr>"

definition releaseTokenization :: "uuid \<Rightarrow> 'fp TokenizationCoordinator \<Rightarrow> 'fp TokenizationCoordinator" where
  "releaseTokenization i c =
     (case mget (TC_active c) i of
        None \<Rightarrow> c
      | Some l \<Rightarrow> c\<lparr>TC_active := mdel i (TC_active c),
                    TC_clientInflight := cdec (TL_ClientID l) (TC_clientInflight c),
                    TC_backendInflight := cdec (TL_BackendID l) (TC_backendInflight c)\<rparr>)"

definition dropReceipt :: "expiryEntry \<Rightarrow> 'fp TokenizationCoordinator \<Rightarrow> 'fp TokenizationCoordinator" where
  "dropReceipt entry c =
     (case mget (TC_receipts c) (ee_id entry) of
        None \<Rightarrow> c
      | Some rec \<Rightarrow> c\<lparr>TC_receipts := mdel (ee_id entry) (TC_receipts c),
                      TC_receiptCounts := cdec (tr_clientID rec) (TC_receiptCounts c)\<rparr>)"

definition cleanupLeases :: "instant \<Rightarrow> 'fp TokenizationCoordinator \<Rightarrow> 'fp TokenizationCoordinator" where
  "cleanupLeases now c =
     (let (q, c) = eq_drain (\<lambda>entry. releaseTokenization (ee_id entry)) now (TC_leaseExpiries c) c
      in c\<lparr>TC_leaseExpiries := q\<rparr>)"

definition cleanupReceipts :: "instant \<Rightarrow> 'fp TokenizationCoordinator \<Rightarrow> 'fp TokenizationCoordinator" where
  "cleanupReceipts now c =
     (let (q, c) = eq_drain dropReceipt now (TC_receiptExpiries c) c in c\<lparr>TC_receiptExpiries := q\<rparr>)"

definition cleanupRates :: "instant \<Rightarrow> 'fp TokenizationCoordinator \<Rightarrow> 'fp TokenizationCoordinator" where
  "cleanupRates now c =
     c\<lparr>TC_rates := filter (\<lambda>(i, r). \<not> time_Sub now (tk_at r) \<ge> 24 * hour) (TC_rates c)\<rparr>"

definition cleanup :: "instant \<Rightarrow> 'fp TokenizationCoordinator \<Rightarrow> 'fp TokenizationCoordinator" where
  "cleanup now c = cleanupRates now (cleanupReceipts now (cleanupLeases now c))"

definition maxTime :: "instant \<Rightarrow> instant \<Rightarrow> instant" where
  "maxTime a b = (if a > b then a else b)"

text \<open>The scan of the candidates for the least loaded backend with a free slot.\<close>

definition noCandidate :: TokenizationCandidate where
  "noCandidate = \<lparr>TCand_BackendID = 0, TCand_BackendRevision = 0\<rparr>"

definition considerCandidate ::
  "int \<Rightarrow> (int, int) gomap \<Rightarrow> TokenizationCandidate \<Rightarrow> TokenizationCandidate \<Rightarrow> TokenizationCandidate" where
  "considerCandidate maximum load b selected =
     (if TCand_BackendID b > 0 \<and> cget load (TCand_BackendID b) < maximum \<and>
         (TCand_BackendID selected = 0 \<or>
          cget load (TCand_BackendID b) < cget load (TCand_BackendID selected) \<or>
          cget load (TCand_BackendID b) = cget load (TCand_BackendID selected) \<and>
            TCand_BackendID b < TCand_BackendID selected)
      then b else selected)"

definition selectCandidate :: "int \<Rightarrow> (int, int) gomap \<Rightarrow> TokenizationCandidate list \<Rightarrow> TokenizationCandidate" where
  "selectCandidate maximum load candidates = fold (considerCandidate maximum load) candidates noCandidate"

definition currentRate :: "'fp TokenizationCoordinator \<Rightarrow> int \<Rightarrow> instant \<Rightarrow> tokenizationRate" where
  "currentRate c clientID now =
     (let p = TC_policy c;
          state = (case mget (TC_rates c) clientID of
                     None \<Rightarrow> \<lparr>tk_balance = Burst p, tk_at = now\<rparr> | Some s \<Rightarrow> s);
          elapsed = max 0 (of_int (time_Sub now (tk_at state)) / of_int second)
      in \<lparr>tk_balance = min (Burst p) (tk_balance state + elapsed * of_int (TP_ClientRPM p) / 60), tk_at = now\<rparr>)"

definition putReceipt ::
  "uuid \<Rightarrow> 'fp tokenizationReceipt \<Rightarrow> 'fp TokenizationCoordinator \<Rightarrow> 'fp TokenizationCoordinator" where
  "putReceipt i rec c = c\<lparr>TC_receipts := mput i rec (TC_receipts c)\<rparr>"

definition rejectTokenization ::
  "uuid \<Rightarrow> 'fp tokenizationReceipt \<Rightarrow> TokenizationReason \<Rightarrow> instant option \<Rightarrow> 'fp TokenizationCoordinator \<Rightarrow>
     'fp TokenizationCoordinator \<times> TokenizationDecision" where
  "rejectTokenization i rec reason retryAt c =
     (let d = \<lparr>TD_Lease = None, TD_Reason = reason, TD_RetryAt = retryAt\<rparr>
      in (putReceipt i (rec\<lparr>tr_decision := d\<rparr>) c, d))"

text \<open>The new operation, once the receipt is recorded.\<close>

definition admitTokenization ::
  "instant \<Rightarrow> TokenizationAcquireRequest \<Rightarrow> 'fp tokenizationReceipt \<Rightarrow> 'fp TokenizationCoordinator \<Rightarrow>
     'fp TokenizationCoordinator \<times> TokenizationDecision" where
  "admitTokenization now r rec c =
     (let p = TC_policy c; i = TR_OperationID r; client = TR_ClientID r in
      if cget (TC_clientInflight c) client \<ge> TP_ClientMaxInflight p
      then rejectTokenization i rec TokenizationClientLimit None c
      else
        let selected = selectCandidate (TP_BackendMaxInflight p) (TC_backendInflight c) (TR_Candidates r) in
        if TCand_BackendID selected = 0
        then rejectTokenization i rec TokenizationBackendLimit None c
        else
          let state = currentRate c client now in
          if tk_balance state < 1
          then rejectTokenization i rec TokenizationRateLimit
                 (Some (now + trunc_real ((1 - tk_balance state) * 60 / of_int (TP_ClientRPM p) * of_int second))) c
          else
            let lease = \<lparr>TL_OperationID = i, TL_ReplicaID = TR_ReplicaID r, TL_ClientID = client,
                  TL_PoolID = TR_PoolID r, TL_BackendID = TCand_BackendID selected,
                  TL_BackendRevision = TCand_BackendRevision selected, TL_AcquiredAt = now,
                  TL_ExpiresAt = now + LeaseTTL p\<rparr>;
                d = \<lparr>TD_Lease = Some lease, TD_Reason = TokenizationNoReason, TD_RetryAt = None\<rparr>
            in (putReceipt i (rec\<lparr>tr_decision := d\<rparr>)
                  (c\<lparr>TC_rates := mput client (state\<lparr>tk_balance := tk_balance state - 1\<rparr>) (TC_rates c),
                     TC_active := mput i lease (TC_active c),
                     TC_clientInflight := cinc client (TC_clientInflight c),
                     TC_backendInflight := cinc (TCand_BackendID selected) (TC_backendInflight c),
                     TC_leaseExpiries := eq_add (TC_leaseExpiries c) admissionLeaseExpiry i (TL_ExpiresAt lease)\<rparr>),
                d))"

definition noDecision :: "TokenizationReason \<Rightarrow> TokenizationDecision" where
  "noDecision reason = \<lparr>TD_Lease = None, TD_Reason = reason, TD_RetryAt = None\<rparr>"

definition newReceipt ::
  "'fp \<Rightarrow> instant \<Rightarrow> TokenizationAcquireRequest \<Rightarrow> TokenizationPolicy \<Rightarrow> 'fp tokenizationReceipt" where
  "newReceipt f now r p =
     \<lparr>tr_clientID = TR_ClientID r, tr_fingerprint = f, tr_decision = noDecision TokenizationNoReason,
      tr_retainUntil = maxTime now (TR_OperationStartedAt r) + LeaseTTL p, tr_completed = False\<rparr>"

definition recordOperation ::
  "TokenizationAcquireRequest \<Rightarrow> 'fp tokenizationReceipt \<Rightarrow> 'fp TokenizationCoordinator \<Rightarrow> 'fp TokenizationCoordinator" where
  "recordOperation r rec c =
     c\<lparr>TC_receipts := mput (TR_OperationID r) rec (TC_receipts c),
       TC_receiptCounts := cinc (TR_ClientID r) (TC_receiptCounts c),
       TC_receiptExpiries := eq_add (TC_receiptExpiries c) admissionReceiptExpiry (TR_OperationID r) (tr_retainUntil rec)\<rparr>"

definition tokenization_Acquire ::
  "(TokenizationAcquireRequest \<Rightarrow> 'fp) \<Rightarrow> go_error option \<Rightarrow> instant \<Rightarrow> TokenizationAcquireRequest \<Rightarrow>
     'fp TokenizationCoordinator \<Rightarrow> 'fp TokenizationCoordinator \<times> (go_error + TokenizationDecision)" where
  "tokenization_Acquire Fingerprint ctxErr now r c =
     (case ctxErr of
        Some e \<Rightarrow> (c, Inl e)
      | None \<Rightarrow>
          if TokenizationPolicy_Validate (TC_policy c) \<noteq> None
          then (c, Inr (noDecision TokenizationUnavailable))
          else
            let c = cleanup now c; p = TC_policy c in
            (case mget (TC_receipts c) (TR_OperationID r) of
               Some old \<Rightarrow>
                 if tr_fingerprint old \<noteq> Fingerprint r then (c, Inr (noDecision TokenizationConflict))
                 else if tr_completed old \<or>
                   (case TD_Lease (tr_decision old) of None \<Rightarrow> False | Some l \<Rightarrow> \<not> TL_ExpiresAt l > now)
                 then (c, Inr (noDecision TokenizationLeaseLost))
                 else (c, Inr (tr_decision old))
             | None \<Rightarrow>
                 if \<not> ValidAt r now \<or> \<not> TR_OperationStartedAt r > now - LeaseTTL p
                 then (c, Inr (noDecision TokenizationStaleOperation))
                 else if cget (TC_receiptCounts c) (TR_ClientID r) \<ge> tokenizationReceiptsPerClient
                 then (c, Inr (noDecision TokenizationUnavailable))
                 else
                   let rec = newReceipt (Fingerprint r) now r p;
                       (c, d) = admitTokenization now r rec (recordOperation r rec c)
                   in (c, Inr d)))"

definition tokenization_Complete ::
  "go_error option \<Rightarrow> TokenizationLease \<Rightarrow> 'fp TokenizationCoordinator \<Rightarrow>
     'fp TokenizationCoordinator \<times> go_error option" where
  "tokenization_Complete ctxErr l c =
     (case ctxErr of
        Some e \<Rightarrow> (c, Some e)
      | None \<Rightarrow>
          (case mget (TC_receipts c) (TL_OperationID l) of
             None \<Rightarrow> (c, Some (OtherError ''unknown tokenization lease''))
           | Some rec \<Rightarrow>
               if (case TD_Lease (tr_decision rec) of None \<Rightarrow> True | Some l' \<Rightarrow> \<not> Lease_Matches l' l)
               then (c, Some (OtherError ''tokenization lease identity mismatch''))
               else (releaseTokenization (TL_OperationID l)
                       (putReceipt (TL_OperationID l) (rec\<lparr>tr_completed := True\<rparr>) c), None)))"

end
