(* ===== verification/Tokenization_Properties.thy ===== *)
theory Tokenization_Properties
  imports Local_Tokenization
begin

text \<open>
  The invariant of the tokenization coordinator and what it guarantees: exact counters within their
  limits, and that an operation is granted at most once.
\<close>

section \<open>Invariant\<close>

definition lease_entry :: "uuid \<Rightarrow> instant \<Rightarrow> expiryEntry" where
  "lease_entry i t = \<lparr>ee_at = t, ee_id = i, ee_kind = admissionLeaseExpiry\<rparr>"

definition receipt_entry :: "uuid \<Rightarrow> instant \<Rightarrow> expiryEntry" where
  "receipt_entry i t = \<lparr>ee_at = t, ee_id = i, ee_kind = admissionReceiptExpiry\<rparr>"

definition books_ok :: "'fp TokenizationCoordinator \<Rightarrow> bool" where
  "books_ok c \<longleftrightarrow> mwf (TC_active c) \<and> mwf (TC_receipts c) \<and>
     counts_by TL_ClientID (TC_clientInflight c) (TC_active c) \<and>
     counts_by TL_BackendID (TC_backendInflight c) (TC_active c) \<and>
     counts_by tr_clientID (TC_receiptCounts c) (TC_receipts c)"

definition limits_ok :: "'fp TokenizationCoordinator \<Rightarrow> bool" where
  "limits_ok c \<longleftrightarrow> (\<forall>k. cget (TC_clientInflight c) k \<le> max 0 (TP_ClientMaxInflight (TC_policy c)) \<and>
     cget (TC_backendInflight c) k \<le> max 0 (TP_BackendMaxInflight (TC_policy c)) \<and>
     cget (TC_receiptCounts c) k \<le> tokenizationReceiptsPerClient)"

definition backed :: "'fp TokenizationCoordinator \<Rightarrow> bool" where
  "backed c \<longleftrightarrow>
     (\<forall>i l. mget (TC_active c) i = Some l \<longrightarrow>
        (\<exists>rec. mget (TC_receipts c) i = Some rec \<and> TD_Lease (tr_decision rec) = Some l \<and> \<not> tr_completed rec) \<and>
        lease_entry i (TL_ExpiresAt l) \<in> set (TC_leaseExpiries c)) \<and>
     (\<forall>e \<in> set (TC_leaseExpiries c). \<exists>rec l. mget (TC_receipts c) (ee_id e) = Some rec \<and>
        TD_Lease (tr_decision rec) = Some l \<and> TL_ExpiresAt l = ee_at e)"

definition receipts_ok :: "'fp TokenizationCoordinator \<Rightarrow> bool" where
  "receipts_ok c \<longleftrightarrow>
     (\<forall>i rec. mget (TC_receipts c) i = Some rec \<longrightarrow>
        receipt_entry i (tr_retainUntil rec) \<in> set (TC_receiptExpiries c) \<and>
        (\<forall>l. TD_Lease (tr_decision rec) = Some l \<longrightarrow> TL_ExpiresAt l \<le> tr_retainUntil rec)) \<and>
     (\<forall>e \<in> set (TC_receiptExpiries c). \<exists>rec. mget (TC_receipts c) (ee_id e) = Some rec \<and> tr_retainUntil rec = ee_at e)"

definition tokenization_inv :: "'fp TokenizationCoordinator \<Rightarrow> bool" where
  "tokenization_inv c \<longleftrightarrow> books_ok c \<and> limits_ok c \<and> backed c \<and> receipts_ok c \<and>
     is_heap (TC_leaseExpiries c) \<and> is_heap (TC_receiptExpiries c)"

lemma new_tokenization_inv: "tokenization_inv (NewTokenizationCoordinator p)"
  by (simp add: NewTokenizationCoordinator_def tokenization_inv_def books_ok_def limits_ok_def backed_def
      receipts_ok_def heap_upto_def tokenizationReceiptsPerClient_def)

lemma backedD:
  assumes "backed c" "mget (TC_active c) i = Some l"
  shows "\<exists>rec. mget (TC_receipts c) i = Some rec \<and> TD_Lease (tr_decision rec) = Some l \<and> \<not> tr_completed rec"
    and "lease_entry i (TL_ExpiresAt l) \<in> set (TC_leaseExpiries c)"
  using assms unfolding backed_def by blast+

lemma backedE:
  assumes "backed c" "e \<in> set (TC_leaseExpiries c)"
  obtains rec l where "mget (TC_receipts c) (ee_id e) = Some rec" "TD_Lease (tr_decision rec) = Some l"
    "TL_ExpiresAt l = ee_at e"
  using assms unfolding backed_def by blast

lemma receiptsD:
  assumes "receipts_ok c" "mget (TC_receipts c) i = Some rec"
  shows "receipt_entry i (tr_retainUntil rec) \<in> set (TC_receiptExpiries c)"
    and "TD_Lease (tr_decision rec) = Some l \<Longrightarrow> TL_ExpiresAt l \<le> tr_retainUntil rec"
  using assms unfolding receipts_ok_def by blast+

lemma receiptsE:
  assumes "receipts_ok c" "e \<in> set (TC_receiptExpiries c)"
  obtains rec where "mget (TC_receipts c) (ee_id e) = Some rec" "tr_retainUntil rec = ee_at e"
  using assms unfolding receipts_ok_def by blast

lemma books_limits_queues [simp]:
  "books_ok (c\<lparr>TC_leaseExpiries := q\<rparr>) = books_ok c" "books_ok (c\<lparr>TC_receiptExpiries := q\<rparr>) = books_ok c"
  "limits_ok (c\<lparr>TC_leaseExpiries := q\<rparr>) = limits_ok c" "limits_ok (c\<lparr>TC_receiptExpiries := q\<rparr>) = limits_ok c"
  by (simp_all add: books_ok_def limits_ok_def)

section \<open>Release and cleanup\<close>

text \<open>Releasing and dropping receipts only lower the counters.\<close>

lemma release_books:
  assumes "books_ok c"
  shows "books_ok (releaseTokenization i c)"
  using assms by (auto simp: books_ok_def releaseTokenization_def counts_by_delete split: option.splits)

lemma cdec_le: "cget (cdec k m) j \<le> max 0 (cget m j)"
  by (auto simp: cdec_def cget_def)

lemma release_limits:
  assumes "limits_ok c"
  shows "limits_ok (releaseTokenization i c)"
proof (cases "mget (TC_active c) i")
  case (Some l)
  have le: "cget (cdec k m) j \<le> max 0 b" if "cget m j \<le> max 0 b" for k j :: int and m b
    using cdec_le [of k m j] that by linarith
  have "cget (TC_clientInflight c) k \<le> max 0 (TP_ClientMaxInflight (TC_policy c))"
    "cget (TC_backendInflight c) k \<le> max 0 (TP_BackendMaxInflight (TC_policy c))"
    "cget (TC_receiptCounts c) k \<le> tokenizationReceiptsPerClient" for k
    using assms by (simp_all add: limits_ok_def)
  then show ?thesis unfolding limits_ok_def releaseTokenization_def Some by (simp only: option.case) (simp add: le)
qed (use assms in \<open>simp add: releaseTokenization_def\<close>)

lemma release_active:
  "mget (TC_active (releaseTokenization i c)) j = (if j = i then None else mget (TC_active c) j)"
  by (simp add: releaseTokenization_def split: option.splits)

lemma release_frame [simp]:
  "TC_receipts (releaseTokenization i c) = TC_receipts c" "TC_policy (releaseTokenization i c) = TC_policy c"
  "TC_leaseExpiries (releaseTokenization i c) = TC_leaseExpiries c"
  "TC_receiptExpiries (releaseTokenization i c) = TC_receiptExpiries c"
  "TC_receiptCounts (releaseTokenization i c) = TC_receiptCounts c"
  by (simp_all add: releaseTokenization_def split: option.splits)

lemma fold_release_active:
  "mget (TC_active (fold (\<lambda>e. releaseTokenization (ee_id e)) es c)) j =
     (if j \<in> ee_id ` set es then None else mget (TC_active c) j)"
  by (induction es arbitrary: c) (auto simp: release_active)

lemma fold_release_frame:
  "TC_receipts (fold (\<lambda>e. releaseTokenization (ee_id e)) es c) = TC_receipts c \<and>
   TC_policy (fold (\<lambda>e. releaseTokenization (ee_id e)) es c) = TC_policy c \<and>
   TC_receiptExpiries (fold (\<lambda>e. releaseTokenization (ee_id e)) es c) = TC_receiptExpiries c \<and>
   TC_receiptCounts (fold (\<lambda>e. releaseTokenization (ee_id e)) es c) = TC_receiptCounts c \<and>
   (books_ok c \<longrightarrow> books_ok (fold (\<lambda>e. releaseTokenization (ee_id e)) es c)) \<and>
   (limits_ok c \<longrightarrow> limits_ok (fold (\<lambda>e. releaseTokenization (ee_id e)) es c))"
  by (induction es arbitrary: c) (simp_all add: release_books release_limits)

text \<open>Cleaning up leases removes exactly the active leases that have expired.\<close>

lemma cleanupLeases_spec:
  fixes now :: instant
  assumes inv: "tokenization_inv c"
  defines "c' \<equiv> cleanupLeases now c"
  shows "mget (TC_active c') i = (case mget (TC_active c) i of None \<Rightarrow> None
      | Some l \<Rightarrow> if TL_ExpiresAt l \<le> now then None else Some l)"
    and "TC_receipts c' = TC_receipts c" "TC_policy c' = TC_policy c"
    and "tokenization_inv c'" and "\<forall>e \<in> set (TC_leaseExpiries c'). now < ee_at e"
proof -
  let ?d = "eq_drain (\<lambda>e. releaseTokenization (ee_id e)) now (TC_leaseExpiries c) c"
  have heap: "is_heap (TC_leaseExpiries c)" and B: "backed c" using inv by (simp_all add: tokenization_inv_def)
  obtain es where es: "snd ?d = fold (\<lambda>e. releaseTokenization (ee_id e)) es c" "is_heap (fst ?d)"
    "mset (TC_leaseExpiries c) = mset es + mset (fst ?d)" "\<forall>e \<in> set es. ee_at e \<le> now"
    "\<forall>e \<in># mset (fst ?d). now < ee_at e"
    using eq.drain_folds [OF heap, of "\<lambda>e. releaseTokenization (ee_id e)" now c] by blast
  have q: "set (TC_leaseExpiries c) = set es \<union> set (fst ?d)"
    using arg_cong [OF es(3), of set_mset] by simp
  have c': "c' = (snd ?d)\<lparr>TC_leaseExpiries := fst ?d\<rparr>"
    by (simp add: c'_def cleanupLeases_def case_prod_unfold Let_def)
  have hit: "j \<in> ee_id ` set es \<longleftrightarrow> TL_ExpiresAt l \<le> now" if "mget (TC_active c) j = Some l" for j l
  proof
    assume "j \<in> ee_id ` set es"
    then obtain e where e: "e \<in> set es" "j = ee_id e" by blast
    then obtain rec l' where "mget (TC_receipts c) j = Some rec" "TD_Lease (tr_decision rec) = Some l'"
      "TL_ExpiresAt l' = ee_at e" using backedE [OF B, of e] q by blast
    with backedD(1) [OF B that] es(4) e(1) show "TL_ExpiresAt l \<le> now" by auto
  next
    assume "TL_ExpiresAt l \<le> now"
    moreover have "lease_entry j (TL_ExpiresAt l) \<in> set es \<union> set (fst ?d)"
      using backedD(2) [OF B that] q by simp
    ultimately have "lease_entry j (TL_ExpiresAt l) \<in> set es" using es(5) by (auto simp: lease_entry_def)
    then show "j \<in> ee_id ` set es" by (force simp: lease_entry_def)
  qed
  show act: "mget (TC_active c') i = (case mget (TC_active c) i of None \<Rightarrow> None
      | Some l \<Rightarrow> if TL_ExpiresAt l \<le> now then None else Some l)" for i
    by (cases "mget (TC_active c) i") (use hit in \<open>simp_all add: c' es(1) fold_release_active\<close>)
  show fr: "TC_receipts c' = TC_receipts c" "TC_policy c' = TC_policy c"
    by (simp_all add: c' es(1) fold_release_frame)
  show "\<forall>e \<in> set (TC_leaseExpiries c'). now < ee_at e" using es(5) by (simp add: c')
  have "books_ok c'" "limits_ok c'"
    using inv fold_release_frame [of es c] by (simp_all add: tokenization_inv_def c' es(1))
  moreover have "backed c'"
    unfolding backed_def
  proof (intro conjI allI impI ballI)
    fix j l assume "mget (TC_active c') j = Some l"
    then have l: "mget (TC_active c) j = Some l" "now < TL_ExpiresAt l"
      by (auto simp: act split: option.splits if_splits)
    then show "\<exists>rec. mget (TC_receipts c') j = Some rec \<and> TD_Lease (tr_decision rec) = Some l \<and> \<not> tr_completed rec"
      using backedD(1) [OF B l(1)] by (simp add: fr)
    have "lease_entry j (TL_ExpiresAt l) \<in> set es \<union> set (fst ?d)"
      using backedD(2) [OF B l(1)] q by simp
    with l(2) es(4) show "lease_entry j (TL_ExpiresAt l) \<in> set (TC_leaseExpiries c')"
      by (auto simp: c' lease_entry_def)
  next
    fix e assume "e \<in> set (TC_leaseExpiries c')"
    then have "e \<in> set (TC_leaseExpiries c)" using q by (simp add: c')
    from backedE [OF B this] show "\<exists>rec l. mget (TC_receipts c') (ee_id e) = Some rec \<and>
        TD_Lease (tr_decision rec) = Some l \<and> TL_ExpiresAt l = ee_at e" unfolding fr(1) by blast
  qed
  moreover have "receipts_ok c'" "is_heap (TC_receiptExpiries c')"
    using inv fold_release_frame [of es c] by (simp_all add: tokenization_inv_def c' es(1) receipts_ok_def)
  ultimately show "tokenization_inv c'" using es(2) by (simp add: tokenization_inv_def c')
qed

lemma dropReceipt_get:
  "mget (TC_receipts (dropReceipt e c)) j = (if j = ee_id e then None else mget (TC_receipts c) j)"
  by (simp add: dropReceipt_def split: option.splits)

lemma dropReceipt_frame:
  "TC_active (dropReceipt e c) = TC_active c" "TC_policy (dropReceipt e c) = TC_policy c"
  "TC_leaseExpiries (dropReceipt e c) = TC_leaseExpiries c" "TC_clientInflight (dropReceipt e c) = TC_clientInflight c"
  "TC_backendInflight (dropReceipt e c) = TC_backendInflight c"
  by (simp_all add: dropReceipt_def split: option.splits)

lemma dropReceipt_books: "books_ok c \<Longrightarrow> books_ok (dropReceipt e c)"
  by (auto simp: books_ok_def dropReceipt_def counts_by_delete split: option.splits)

lemma dropReceipt_limits: "limits_ok c \<Longrightarrow> limits_ok (dropReceipt e c)"
proof (cases "mget (TC_receipts c) (ee_id e)")
  case (Some rec)
  assume l: "limits_ok c"
  have "cget (cdec k (TC_receiptCounts c)) j \<le> tokenizationReceiptsPerClient" for k j
    using cdec_le [of k "TC_receiptCounts c" j] l
    by (simp add: limits_ok_def tokenizationReceiptsPerClient_def) (meson max.boundedI order_trans zero_le_numeral)
  with l Some show ?thesis by (simp add: limits_ok_def dropReceipt_def)
qed (simp add: dropReceipt_def)

lemma fold_drop:
  "mget (TC_receipts (fold dropReceipt es c)) j = (if j \<in> ee_id ` set es then None else mget (TC_receipts c) j) \<and>
   TC_active (fold dropReceipt es c) = TC_active c \<and> TC_policy (fold dropReceipt es c) = TC_policy c \<and>
   TC_leaseExpiries (fold dropReceipt es c) = TC_leaseExpiries c \<and>
   (books_ok c \<longrightarrow> books_ok (fold dropReceipt es c)) \<and> (limits_ok c \<longrightarrow> limits_ok (fold dropReceipt es c))"
  by (induction es arbitrary: c) (auto simp: dropReceipt_get dropReceipt_frame dropReceipt_books dropReceipt_limits)

text \<open>Cleaning up receipts removes exactly the receipts past their retention.\<close>

lemma cleanupReceipts_spec:
  fixes now :: instant
  assumes inv: "tokenization_inv c" and fresh: "\<forall>e \<in> set (TC_leaseExpiries c). now < ee_at e"
  defines "c' \<equiv> cleanupReceipts now c"
  shows "mget (TC_receipts c') i = (case mget (TC_receipts c) i of None \<Rightarrow> None
      | Some rec \<Rightarrow> if tr_retainUntil rec \<le> now then None else Some rec)"
    and "TC_active c' = TC_active c" "TC_policy c' = TC_policy c" and "tokenization_inv c'"
proof -
  let ?d = "eq_drain dropReceipt now (TC_receiptExpiries c) c"
  have heap: "is_heap (TC_receiptExpiries c)" and R: "receipts_ok c" and B: "backed c"
    using inv by (simp_all add: tokenization_inv_def)
  obtain es where es: "snd ?d = fold dropReceipt es c" "is_heap (fst ?d)"
    "mset (TC_receiptExpiries c) = mset es + mset (fst ?d)" "\<forall>e \<in> set es. ee_at e \<le> now"
    "\<forall>e \<in># mset (fst ?d). now < ee_at e"
    using eq.drain_folds [OF heap, of dropReceipt now c] by blast
  have q: "set (TC_receiptExpiries c) = set es \<union> set (fst ?d)"
    using arg_cong [OF es(3), of set_mset] by simp
  have c': "c' = (snd ?d)\<lparr>TC_receiptExpiries := fst ?d\<rparr>"
    by (simp add: c'_def cleanupReceipts_def case_prod_unfold Let_def)
  have hit: "j \<in> ee_id ` set es \<longleftrightarrow> tr_retainUntil rec \<le> now" if "mget (TC_receipts c) j = Some rec" for j rec
  proof
    assume "j \<in> ee_id ` set es"
    then obtain e where e: "e \<in> set es" "j = ee_id e" by blast
    then obtain rec' where "mget (TC_receipts c) j = Some rec'" "tr_retainUntil rec' = ee_at e"
      using receiptsE [OF R, of e] q by blast
    with that es(4) e(1) show "tr_retainUntil rec \<le> now" by auto
  next
    assume "tr_retainUntil rec \<le> now"
    moreover have "receipt_entry j (tr_retainUntil rec) \<in> set es \<union> set (fst ?d)"
      using receiptsD(1) [OF R that] q by simp
    ultimately have "receipt_entry j (tr_retainUntil rec) \<in> set es" using es(5) by (auto simp: receipt_entry_def)
    then show "j \<in> ee_id ` set es" by (force simp: receipt_entry_def)
  qed
  show rec: "mget (TC_receipts c') i = (case mget (TC_receipts c) i of None \<Rightarrow> None
      | Some rec \<Rightarrow> if tr_retainUntil rec \<le> now then None else Some rec)" for i
    by (cases "mget (TC_receipts c) i") (use hit in \<open>simp_all add: c' es(1) fold_drop\<close>)
  show fr: "TC_active c' = TC_active c" "TC_policy c' = TC_policy c"
    by (simp_all add: c' es(1) fold_drop)
  have lq: "TC_leaseExpiries c' = TC_leaseExpiries c" by (simp add: c' es(1) fold_drop)
  have kept: "mget (TC_receipts c') j = Some r"
    if "mget (TC_receipts c) j = Some r" "TD_Lease (tr_decision r) = Some l" "now < TL_ExpiresAt l" for j r l
    using that receiptsD(2) [OF R that(1,2)] by (simp add: rec)
  have "books_ok c'" "limits_ok c'"
    using inv fold_drop [of es c 0] by (simp_all add: tokenization_inv_def c' es(1))
  moreover have "backed c'"
    unfolding backed_def lq fr
  proof (intro conjI allI impI ballI)
    fix j l assume l: "mget (TC_active c) j = Some l"
    then have e: "lease_entry j (TL_ExpiresAt l) \<in> set (TC_leaseExpiries c)"
      and r: "\<exists>rec. mget (TC_receipts c) j = Some rec \<and> TD_Lease (tr_decision rec) = Some l \<and> \<not> tr_completed rec"
      using backedD [OF B l] by simp_all
    show "lease_entry j (TL_ExpiresAt l) \<in> set (TC_leaseExpiries c)" by fact
    have "now < TL_ExpiresAt l" using fresh e by (auto simp: lease_entry_def)
    with r kept show "\<exists>rec. mget (TC_receipts c') j = Some rec \<and> TD_Lease (tr_decision rec) = Some l \<and> \<not> tr_completed rec"
      by blast
  next
    fix e assume e: "e \<in> set (TC_leaseExpiries c)"
    then obtain r l where "mget (TC_receipts c) (ee_id e) = Some r" "TD_Lease (tr_decision r) = Some l"
      "TL_ExpiresAt l = ee_at e" by (rule backedE [OF B])
    with kept fresh e show "\<exists>rec l. mget (TC_receipts c') (ee_id e) = Some rec \<and>
        TD_Lease (tr_decision rec) = Some l \<and> TL_ExpiresAt l = ee_at e" by metis
  qed
  moreover have "receipts_ok c'"
    unfolding receipts_ok_def
  proof (intro conjI allI impI ballI)
    fix j r assume "mget (TC_receipts c') j = Some r"
    then have r: "mget (TC_receipts c) j = Some r" "now < tr_retainUntil r"
      by (auto simp: rec split: option.splits if_splits)
    have "receipt_entry j (tr_retainUntil r) \<in> set es \<union> set (fst ?d)"
      using receiptsD(1) [OF R r(1)] q by simp
    with r(2) es(4) show "receipt_entry j (tr_retainUntil r) \<in> set (TC_receiptExpiries c')"
      by (auto simp: c' receipt_entry_def)
    show "TL_ExpiresAt l \<le> tr_retainUntil r" if "TD_Lease (tr_decision r) = Some l" for l
      by (rule receiptsD(2) [OF R r(1) that])
  next
    fix e assume e: "e \<in> set (TC_receiptExpiries c')"
    then have "e \<in> set (fst ?d)" by (simp add: c')
    moreover from this obtain r where "mget (TC_receipts c) (ee_id e) = Some r" "tr_retainUntil r = ee_at e"
      using receiptsE [OF R, of e] q by blast
    ultimately show "\<exists>rec. mget (TC_receipts c') (ee_id e) = Some rec \<and> tr_retainUntil rec = ee_at e"
      using es(5) by (auto simp: rec)
  qed
  ultimately show "tokenization_inv c'" using es(2) inv lq by (simp add: tokenization_inv_def c')
qed

lemma inv_rates [simp]: "tokenization_inv (c\<lparr>TC_rates := x\<rparr>) = tokenization_inv c"
  by (simp add: tokenization_inv_def books_ok_def limits_ok_def backed_def receipts_ok_def)

lemma cleanup_spec:
  fixes now :: instant
  assumes inv: "tokenization_inv c"
  defines "c' \<equiv> cleanup now c"
  shows "tokenization_inv c'" "TC_policy c' = TC_policy c"
    and "mget (TC_receipts c') i = (case mget (TC_receipts c) i of None \<Rightarrow> None
      | Some rec \<Rightarrow> if tr_retainUntil rec \<le> now then None else Some rec)"
    and "mget (TC_active c') j = (case mget (TC_active c) j of None \<Rightarrow> None
      | Some l \<Rightarrow> if TL_ExpiresAt l \<le> now then None else Some l)"
proof -
  note L = cleanupLeases_spec [OF inv, of now]
  note R = cleanupReceipts_spec [OF L(4,5)]
  show "tokenization_inv c'" "TC_policy c' = TC_policy c"
    "mget (TC_receipts c') i = (case mget (TC_receipts c) i of None \<Rightarrow> None
      | Some rec \<Rightarrow> if tr_retainUntil rec \<le> now then None else Some rec)"
    "mget (TC_active c') j = (case mget (TC_active c) j of None \<Rightarrow> None
      | Some l \<Rightarrow> if TL_ExpiresAt l \<le> now then None else Some l)"
    by (simp_all add: c'_def cleanup_def cleanupRates_def R L)
qed

section \<open>Operations\<close>

lemma record_inv:
  assumes inv: "tokenization_inv c" and fresh: "mget (TC_receipts c) (TR_OperationID r) = None"
    and room: "cget (TC_receiptCounts c) (TR_ClientID r) < tokenizationReceiptsPerClient"
    and rec: "tr_clientID rec = TR_ClientID r" "\<And>l. TD_Lease (tr_decision rec) = Some l \<Longrightarrow> TL_ExpiresAt l \<le> tr_retainUntil rec"
  shows "tokenization_inv (recordOperation r rec c)"
proof -
  let ?i = "TR_OperationID r" and ?c = "recordOperation r rec c"
  have B: "backed c" and R: "receipts_ok c" using inv by (simp_all add: tokenization_inv_def)
  have "books_ok ?c"
    using inv counts_by_insert [of tr_clientID "TC_receiptCounts c" "TC_receipts c" ?i rec] fresh rec(1)
    by (simp add: tokenization_inv_def books_ok_def recordOperation_def)
  moreover have "limits_ok ?c"
    using inv room by (simp add: tokenization_inv_def limits_ok_def recordOperation_def)
  moreover have "backed ?c"
    unfolding backed_def
  proof (intro conjI allI impI ballI)
    fix j l assume "mget (TC_active ?c) j = Some l"
    then have l: "mget (TC_active c) j = Some l" by (simp add: recordOperation_def)
    then obtain rec' where r': "mget (TC_receipts c) j = Some rec'" "TD_Lease (tr_decision rec') = Some l"
      "\<not> tr_completed rec'" using backedD(1) [OF B] by blast
    then have "j \<noteq> ?i" using fresh by auto
    with r' show "\<exists>rec'. mget (TC_receipts ?c) j = Some rec' \<and> TD_Lease (tr_decision rec') = Some l \<and> \<not> tr_completed rec'"
      by (simp add: recordOperation_def)
    show "lease_entry j (TL_ExpiresAt l) \<in> set (TC_leaseExpiries ?c)"
      using backedD(2) [OF B l] by (simp add: recordOperation_def)
  next
    fix e assume "e \<in> set (TC_leaseExpiries ?c)"
    then have "e \<in> set (TC_leaseExpiries c)" by (simp add: recordOperation_def)
    then obtain rec' l where r': "mget (TC_receipts c) (ee_id e) = Some rec'" "TD_Lease (tr_decision rec') = Some l"
      "TL_ExpiresAt l = ee_at e" by (rule backedE [OF B])
    then have "ee_id e \<noteq> ?i" using fresh by auto
    with r' show "\<exists>rec' l. mget (TC_receipts ?c) (ee_id e) = Some rec' \<and>
        TD_Lease (tr_decision rec') = Some l \<and> TL_ExpiresAt l = ee_at e"
      by (simp add: recordOperation_def)
  qed
  moreover have "receipts_ok ?c"
    unfolding receipts_ok_def
  proof (intro conjI allI impI ballI)
    fix j r' assume r': "mget (TC_receipts ?c) j = Some r'"
    show "receipt_entry j (tr_retainUntil r') \<in> set (TC_receiptExpiries ?c)"
      using r' receiptsD(1) [OF R, of j r']
      by (auto simp: recordOperation_def eq_add_set receipt_entry_def split: if_splits)
    show "TL_ExpiresAt l \<le> tr_retainUntil r'" if "TD_Lease (tr_decision r') = Some l" for l
      using r' receiptsD(2) [OF R, of j r' l] rec(2) [of l] that by (auto simp: recordOperation_def split: if_splits)
  next
    fix e assume "e \<in> set (TC_receiptExpiries ?c)"
    then consider "e = receipt_entry ?i (tr_retainUntil rec)" | "e \<in> set (TC_receiptExpiries c)"
      by (auto simp: recordOperation_def eq_add_set receipt_entry_def)
    then show "\<exists>rec'. mget (TC_receipts ?c) (ee_id e) = Some rec' \<and> tr_retainUntil rec' = ee_at e"
    proof cases
      case 2
      then obtain rec' where r': "mget (TC_receipts c) (ee_id e) = Some rec'" "tr_retainUntil rec' = ee_at e"
        by (rule receiptsE [OF R])
      then have "ee_id e \<noteq> ?i" using fresh by auto
      with r' show ?thesis by (simp add: recordOperation_def)
    qed (simp add: recordOperation_def receipt_entry_def)
  qed
  ultimately show ?thesis
    using inv by (simp add: tokenization_inv_def) (simp add: recordOperation_def eq_add_def heap_push_heap)
qed

lemma activate_inv:
  assumes inv: "tokenization_inv c" and rec: "mget (TC_receipts c) i = Some rec" "TD_Lease (tr_decision rec) = Some l"
      "\<not> tr_completed rec" and idle: "mget (TC_active c) i = None"
    and room: "cget (TC_clientInflight c) (TL_ClientID l) < TP_ClientMaxInflight (TC_policy c)"
      "cget (TC_backendInflight c) (TL_BackendID l) < TP_BackendMaxInflight (TC_policy c)"
  shows "tokenization_inv (c\<lparr>TC_rates := x, TC_active := mput i l (TC_active c),
    TC_clientInflight := cinc (TL_ClientID l) (TC_clientInflight c),
    TC_backendInflight := cinc (TL_BackendID l) (TC_backendInflight c),
    TC_leaseExpiries := eq_add (TC_leaseExpiries c) admissionLeaseExpiry i (TL_ExpiresAt l)\<rparr>)" (is "tokenization_inv ?c")
proof -
  have B: "backed c" using inv by (simp add: tokenization_inv_def)
  have "books_ok ?c"
    using inv idle by (simp add: tokenization_inv_def books_ok_def counts_by_insert)
  moreover have "limits_ok ?c"
    using inv room by (auto simp: tokenization_inv_def limits_ok_def)
  moreover have "backed ?c"
    unfolding backed_def
  proof (intro conjI allI impI ballI)
    fix j l' assume l: "mget (TC_active ?c) j = Some l'"
    show "\<exists>rec'. mget (TC_receipts ?c) j = Some rec' \<and> TD_Lease (tr_decision rec') = Some l' \<and> \<not> tr_completed rec'"
      using l rec backedD(1) [OF B, of j l'] by (auto split: if_splits)
    show "lease_entry j (TL_ExpiresAt l') \<in> set (TC_leaseExpiries ?c)"
      using l backedD(2) [OF B, of j l'] by (auto simp: eq_add_set lease_entry_def split: if_splits)
  next
    fix e assume "e \<in> set (TC_leaseExpiries ?c)"
    then consider "e = lease_entry i (TL_ExpiresAt l)" | "e \<in> set (TC_leaseExpiries c)"
      by (auto simp: eq_add_set lease_entry_def)
    then show "\<exists>rec' l. mget (TC_receipts ?c) (ee_id e) = Some rec' \<and>
        TD_Lease (tr_decision rec') = Some l \<and> TL_ExpiresAt l = ee_at e"
    proof cases
      case 1
      then show ?thesis using rec by (simp add: lease_entry_def)
    next
      case 2
      then obtain rec' l' where "mget (TC_receipts c) (ee_id e) = Some rec'" "TD_Lease (tr_decision rec') = Some l'"
        "TL_ExpiresAt l' = ee_at e" by (rule backedE [OF B])
      then show ?thesis by simp
    qed
  qed
  ultimately show ?thesis
    using inv by (simp add: tokenization_inv_def) (simp add: receipts_ok_def eq_add_def heap_push_heap)
qed

text \<open>The selected candidate has a free slot.\<close>

lemma selectCandidate_free:
  "TCand_BackendID (selectCandidate m load cs) = 0 \<or> cget load (TCand_BackendID (selectCandidate m load cs)) < m"
proof -
  have "TCand_BackendID s = 0 \<or> cget load (TCand_BackendID s) < m \<Longrightarrow>
      TCand_BackendID (fold (considerCandidate m load) cs s) = 0 \<or>
      cget load (TCand_BackendID (fold (considerCandidate m load) cs s)) < m" for s
    by (induction cs arbitrary: s) (auto simp: considerCandidate_def)
  then show ?thesis by (simp add: selectCandidate_def noCandidate_def)
qed

text \<open>The three outcomes of a new operation.\<close>

lemma admit_cases:
  obtains (rejected) reason retry where
    "admitTokenization now r rec (recordOperation r rec c) =
       (recordOperation r (rec\<lparr>tr_decision := \<lparr>TD_Lease = None, TD_Reason = reason, TD_RetryAt = retry\<rparr>\<rparr>) c,
        \<lparr>TD_Lease = None, TD_Reason = reason, TD_RetryAt = retry\<rparr>)"
  | (admitted) l x where "TL_ClientID l = TR_ClientID r" "TL_ExpiresAt l = now + LeaseTTL (TC_policy c)"
    "cget (TC_clientInflight c) (TL_ClientID l) < TP_ClientMaxInflight (TC_policy c)"
    "cget (TC_backendInflight c) (TL_BackendID l) < TP_BackendMaxInflight (TC_policy c)"
    "admitTokenization now r rec (recordOperation r rec c) =
       (let d = \<lparr>TD_Lease = Some l, TD_Reason = TokenizationNoReason, TD_RetryAt = None\<rparr>;
            c1 = recordOperation r (rec\<lparr>tr_decision := d\<rparr>) c
        in (c1\<lparr>TC_rates := x, TC_active := mput (TR_OperationID r) l (TC_active c1),
              TC_clientInflight := cinc (TL_ClientID l) (TC_clientInflight c1),
              TC_backendInflight := cinc (TL_BackendID l) (TC_backendInflight c1),
              TC_leaseExpiries := eq_add (TC_leaseExpiries c1) admissionLeaseExpiry (TR_OperationID r) (TL_ExpiresAt l)\<rparr>, d))"
proof -
  let ?p = "TC_policy c" and ?i = "TR_OperationID r" and ?client = "TR_ClientID r"
  let ?sel = "selectCandidate (TP_BackendMaxInflight ?p) (TC_backendInflight c) (TR_Candidates r)"
  let ?c1 = "recordOperation r rec c"
  let ?st = "currentRate ?c1 ?client now"
  have fr: "TC_policy ?c1 = ?p" "TC_clientInflight ?c1 = TC_clientInflight c" "TC_backendInflight ?c1 = TC_backendInflight c"
    by (simp_all add: recordOperation_def)
  have put: "putReceipt ?i (rec\<lparr>tr_decision := d\<rparr>) ?c1 = recordOperation r (rec\<lparr>tr_decision := d\<rparr>) c" for d
    by (simp add: putReceipt_def recordOperation_def)
  show thesis
  proof (cases "cget (TC_clientInflight c) ?client \<ge> TP_ClientMaxInflight ?p \<or> TCand_BackendID ?sel = 0 \<or> tk_balance ?st < 1")
    case True
    have rej: thesis if "admitTokenization now r rec ?c1 = rejectTokenization ?i rec reason retry ?c1" for reason retry
      by (rule rejected) (unfold that rejectTokenization_def Let_def put, rule refl)
    show thesis
    proof (cases "cget (TC_clientInflight c) ?client \<ge> TP_ClientMaxInflight ?p")
      case True
      show thesis by (rule rej) (simp add: admitTokenization_def Let_def fr True)
    next
      case client: False
      show thesis
      proof (cases "TCand_BackendID ?sel = 0")
        case True
        show thesis by (rule rej) (simp add: admitTokenization_def Let_def fr True client)
      next
        case False
        show thesis
          by (rule rej) (use \<open>_ \<or> _ \<or> _\<close> client False in \<open>simp add: admitTokenization_def Let_def fr\<close>)
      qed
    qed
  next
    case False
    let ?l = "\<lparr>TL_OperationID = ?i, TL_ReplicaID = TR_ReplicaID r, TL_ClientID = ?client,
      TL_PoolID = TR_PoolID r, TL_BackendID = TCand_BackendID ?sel,
      TL_BackendRevision = TCand_BackendRevision ?sel, TL_AcquiredAt = now, TL_ExpiresAt = now + LeaseTTL ?p\<rparr>"
    show thesis
    proof (rule admitted [of ?l "mput ?client (?st\<lparr>tk_balance := tk_balance ?st - 1\<rparr>) (TC_rates ?c1)"])
      show "cget (TC_backendInflight c) (TL_BackendID ?l) < TP_BackendMaxInflight ?p"
        using selectCandidate_free [of "TP_BackendMaxInflight ?p" "TC_backendInflight c" "TR_Candidates r"] False by simp
      show "admitTokenization now r rec ?c1 =
       (let d = \<lparr>TD_Lease = Some ?l, TD_Reason = TokenizationNoReason, TD_RetryAt = None\<rparr>;
            c1 = recordOperation r (rec\<lparr>tr_decision := d\<rparr>) c
        in (c1\<lparr>TC_rates := mput ?client (?st\<lparr>tk_balance := tk_balance ?st - 1\<rparr>) (TC_rates ?c1),
              TC_active := mput ?i ?l (TC_active c1),
              TC_clientInflight := cinc (TL_ClientID ?l) (TC_clientInflight c1),
              TC_backendInflight := cinc (TL_BackendID ?l) (TC_backendInflight c1),
              TC_leaseExpiries := eq_add (TC_leaseExpiries c1) admissionLeaseExpiry ?i (TL_ExpiresAt ?l)\<rparr>, d))"
        using False by (simp add: admitTokenization_def Let_def fr) (simp add: putReceipt_def recordOperation_def)
    qed (use False in simp_all)
  qed
qed

lemma tokenization_admit_inv:
  fixes now :: instant and f :: 'fp
  assumes inv: "tokenization_inv c" and fresh: "mget (TC_receipts c) (TR_OperationID r) = None"
    and room: "cget (TC_receiptCounts c) (TR_ClientID r) < tokenizationReceiptsPerClient"
  defines "rec \<equiv> newReceipt f now r (TC_policy c)"
  shows "tokenization_inv (fst (admitTokenization now r rec (recordOperation r rec c)))"
proof (cases rule: admit_cases [of now r rec c])
  case (rejected reason retry)
  show ?thesis unfolding rejected fst_conv
    by (rule record_inv [OF inv fresh room]) (simp_all add: rec_def newReceipt_def)
next
  case (admitted l x)
  let ?d = "\<lparr>TD_Lease = Some l, TD_Reason = TokenizationNoReason, TD_RetryAt = None\<rparr>"
  let ?c1 = "recordOperation r (rec\<lparr>tr_decision := ?d\<rparr>) c"
  have i1: "tokenization_inv ?c1"
    by (rule record_inv [OF inv fresh room]) (use admitted(2) in \<open>simp_all add: rec_def newReceipt_def maxTime_def\<close>)
  have "mget (TC_active c) (TR_OperationID r) = None"
    using backedD(1) [of c "TR_OperationID r"] inv fresh by (auto simp: tokenization_inv_def intro: ccontr)
  then have "tokenization_inv (?c1\<lparr>TC_rates := x, TC_active := mput (TR_OperationID r) l (TC_active ?c1),
      TC_clientInflight := cinc (TL_ClientID l) (TC_clientInflight ?c1),
      TC_backendInflight := cinc (TL_BackendID l) (TC_backendInflight ?c1),
      TC_leaseExpiries := eq_add (TC_leaseExpiries ?c1) admissionLeaseExpiry (TR_OperationID r) (TL_ExpiresAt l)\<rparr>)"
    using admitted(3,4)
    by (intro activate_inv [OF i1, where rec = "rec\<lparr>tr_decision := ?d\<rparr>"])
       (simp_all add: recordOperation_def rec_def newReceipt_def)
  then show ?thesis unfolding admitted(5) Let_def fst_conv .
qed

lemma Acquire_outcomes:
  fixes c :: "'fp TokenizationCoordinator" and r :: TokenizationAcquireRequest and now :: instant
  defines "i \<equiv> TR_OperationID r" and "k \<equiv> cleanup now c"
  obtains (untouched) "fst (tokenization_Acquire F ctxErr now r c) = c"
      "\<And>d. snd (tokenization_Acquire F ctxErr now r c) = Inr d \<Longrightarrow> TD_Lease d = None"
      "ctxErr \<noteq> None \<or> TokenizationPolicy_Validate (TC_policy c) \<noteq> None"
  | (known) old where "mget (TC_receipts k) i = Some old" "fst (tokenization_Acquire F ctxErr now r c) = k"
      "\<And>d. snd (tokenization_Acquire F ctxErr now r c) = Inr d \<Longrightarrow>
         TD_Lease d = None \<or> tr_fingerprint old = F r \<and> d = tr_decision old"
  | (refused) "mget (TC_receipts k) i = None" "fst (tokenization_Acquire F ctxErr now r c) = k"
      "\<And>d. snd (tokenization_Acquire F ctxErr now r c) = Inr d \<Longrightarrow> TD_Lease d = None"
  | (new) "mget (TC_receipts k) i = None" "now - LeaseTTL (TC_policy k) < TR_OperationStartedAt r"
      "cget (TC_receiptCounts k) (TR_ClientID r) < tokenizationReceiptsPerClient"
      "tokenization_Acquire F ctxErr now r c = (let rec = newReceipt (F r) now r (TC_policy k);
         (c', d) = admitTokenization now r rec (recordOperation r rec k) in (c', Inr d))"
proof (cases "ctxErr \<noteq> None \<or> TokenizationPolicy_Validate (TC_policy c) \<noteq> None")
  case True
  then show thesis
    by (intro untouched) (auto simp: tokenization_Acquire_def noDecision_def split: option.splits)
next
  case ok: False
  show thesis
  proof (cases "mget (TC_receipts k) i")
    case (Some old)
    show thesis
      by (rule known [OF Some])
         (use ok Some in \<open>auto simp: tokenization_Acquire_def Let_def k_def i_def noDecision_def split: if_splits option.splits\<close>)
  next
    case None
    show thesis
    proof (cases "\<not> ValidAt r now \<or> \<not> TR_OperationStartedAt r > now - LeaseTTL (TC_policy k) \<or>
        cget (TC_receiptCounts k) (TR_ClientID r) \<ge> tokenizationReceiptsPerClient")
      case True
      show thesis
        by (rule refused [OF None])
           (use ok None True in \<open>auto simp: tokenization_Acquire_def Let_def k_def i_def noDecision_def split: if_splits\<close>)
    next
      case False
      show thesis
        by (rule new [OF None])
           (use ok None False in \<open>auto simp: tokenization_Acquire_def Let_def k_def i_def\<close>)
    qed
  qed
qed

lemma admit_policy: "TC_policy (fst (admitTokenization now r rec (recordOperation r rec c))) = TC_policy c"
  by (cases rule: admit_cases [of now r rec c]) (simp_all add: recordOperation_def Let_def)

lemma tokenization_Acquire_inv:
  assumes inv: "tokenization_inv c"
  shows "tokenization_inv (fst (tokenization_Acquire F ctxErr now r c))"
    and "TC_policy (fst (tokenization_Acquire F ctxErr now r c)) = TC_policy c"
  using inv cleanup_spec(1,2) [OF inv, of now] tokenization_admit_inv [where c = "cleanup now c" and r = r and f = "F r" and now = now]
    admit_policy [of now r _ "cleanup now c"]
  by (cases rule: Acquire_outcomes [where F = F and r = r and now = now and c = c and ctxErr = ctxErr],
      simp_all add: Let_def case_prod_unfold)+

lemma Complete_outcomes:
  obtains (same) "fst (tokenization_Complete ctxErr l c) = c"
  | (completed) rec where "mget (TC_receipts c) (TL_OperationID l) = Some rec"
      "fst (tokenization_Complete ctxErr l c) =
         releaseTokenization (TL_OperationID l) (putReceipt (TL_OperationID l) (rec\<lparr>tr_completed := True\<rparr>) c)"
proof (cases "fst (tokenization_Complete ctxErr l c) = c")
  case False
  then obtain rec where "mget (TC_receipts c) (TL_OperationID l) = Some rec"
    "fst (tokenization_Complete ctxErr l c) =
      releaseTokenization (TL_OperationID l) (putReceipt (TL_OperationID l) (rec\<lparr>tr_completed := True\<rparr>) c)"
    by (auto simp: tokenization_Complete_def split: option.splits if_splits)
  then show thesis by (rule completed)
qed (rule same)

lemma finish_inv:
  assumes inv: "tokenization_inv c" and rec: "mget (TC_receipts c) i = Some rec"
  shows "tokenization_inv (releaseTokenization i (putReceipt i (rec\<lparr>tr_completed := True\<rparr>) c))"
proof -
  let ?p = "putReceipt i (rec\<lparr>tr_completed := True\<rparr>) c" and ?c = "releaseTokenization i (putReceipt i (rec\<lparr>tr_completed := True\<rparr>) c)"
  have B: "backed c" and R: "receipts_ok c" using inv by (simp_all add: tokenization_inv_def)
  have "books_ok ?p"
    using inv rec by (simp add: tokenization_inv_def books_ok_def putReceipt_def counts_by_replace)
  then have "books_ok ?c" by (rule release_books)
  moreover have "limits_ok ?c"
    by (rule release_limits) (use inv in \<open>simp add: tokenization_inv_def limits_ok_def putReceipt_def\<close>)
  moreover have "backed ?c"
    unfolding backed_def
  proof (intro conjI allI impI ballI)
    fix j l assume "mget (TC_active ?c) j = Some l"
    then have j: "j \<noteq> i" "mget (TC_active c) j = Some l"
      by (auto simp: release_active putReceipt_def split: if_splits)
    show "\<exists>rec'. mget (TC_receipts ?c) j = Some rec' \<and> TD_Lease (tr_decision rec') = Some l \<and> \<not> tr_completed rec'"
      using backedD(1) [OF B j(2)] j(1) by (simp add: putReceipt_def)
    show "lease_entry j (TL_ExpiresAt l) \<in> set (TC_leaseExpiries ?c)"
      using backedD(2) [OF B j(2)] by (simp add: putReceipt_def)
  next
    fix e assume "e \<in> set (TC_leaseExpiries ?c)"
    then have "e \<in> set (TC_leaseExpiries c)" by (simp add: putReceipt_def)
    then obtain rec' l where "mget (TC_receipts c) (ee_id e) = Some rec'" "TD_Lease (tr_decision rec') = Some l"
      "TL_ExpiresAt l = ee_at e" by (rule backedE [OF B])
    then show "\<exists>rec' l. mget (TC_receipts ?c) (ee_id e) = Some rec' \<and>
        TD_Lease (tr_decision rec') = Some l \<and> TL_ExpiresAt l = ee_at e"
      using rec by (cases "ee_id e = i") (simp_all add: putReceipt_def)
  qed
  moreover have "receipts_ok ?c"
    unfolding receipts_ok_def
  proof (intro conjI allI impI ballI)
    fix j r assume "mget (TC_receipts ?c) j = Some r"
    then obtain r' where "mget (TC_receipts c) j = Some r'" "tr_retainUntil r = tr_retainUntil r'" "tr_decision r = tr_decision r'"
      using rec by (auto simp: putReceipt_def split: if_splits)
    note r' = this receiptsD [OF R this(1)]
    show "receipt_entry j (tr_retainUntil r) \<in> set (TC_receiptExpiries ?c)"
      using r' by (simp add: putReceipt_def)
    show "TL_ExpiresAt l \<le> tr_retainUntil r" if "TD_Lease (tr_decision r) = Some l" for l
      using r' that by simp
  next
    fix e assume "e \<in> set (TC_receiptExpiries ?c)"
    then have "e \<in> set (TC_receiptExpiries c)" by (simp add: putReceipt_def)
    then obtain rec' where "mget (TC_receipts c) (ee_id e) = Some rec'" "tr_retainUntil rec' = ee_at e"
      by (rule receiptsE [OF R])
    then show "\<exists>rec'. mget (TC_receipts ?c) (ee_id e) = Some rec' \<and> tr_retainUntil rec' = ee_at e"
      using rec by (cases "ee_id e = i") (simp_all add: putReceipt_def)
  qed
  ultimately show ?thesis
    using inv by (simp add: tokenization_inv_def) (simp add: putReceipt_def)
qed

lemma tokenization_Complete_inv:
  assumes "tokenization_inv c"
  shows "tokenization_inv (fst (tokenization_Complete ctxErr l c))"
    and "TC_policy (fst (tokenization_Complete ctxErr l c)) = TC_policy c"
  using assms finish_inv [OF assms]
  by (cases rule: Complete_outcomes [of ctxErr l c], simp_all add: putReceipt_def)+

section \<open>Runs\<close>

datatype tokenization_event =
    TokAcquire "go_error option" instant TokenizationAcquireRequest
  | TokComplete "go_error option" TokenizationLease

fun tokenization_step ::
  "(TokenizationAcquireRequest \<Rightarrow> 'fp) \<Rightarrow> 'fp TokenizationCoordinator \<Rightarrow> tokenization_event \<Rightarrow>
     'fp TokenizationCoordinator" where
  "tokenization_step F c (TokAcquire err now r) = fst (tokenization_Acquire F err now r c)"
| "tokenization_step F c (TokComplete err l) = fst (tokenization_Complete err l c)"

definition tokenization_run ::
  "(TokenizationAcquireRequest \<Rightarrow> 'fp) \<Rightarrow> 'fp TokenizationCoordinator \<Rightarrow> tokenization_event list \<Rightarrow>
     'fp TokenizationCoordinator" where
  "tokenization_run F c es = foldl (tokenization_step F) c es"

fun acquireTimes :: "tokenization_event list \<Rightarrow> instant list" where
  "acquireTimes [] = []"
| "acquireTimes (TokAcquire err now r # es) = now # acquireTimes es"
| "acquireTimes (TokComplete err l # es) = acquireTimes es"

lemma tokenization_step_inv:
  assumes "tokenization_inv c"
  shows "tokenization_inv (tokenization_step F c e)" and "TC_policy (tokenization_step F c e) = TC_policy c"
  by (cases e, simp_all add: tokenization_Acquire_inv [OF assms] tokenization_Complete_inv [OF assms])+

lemma tokenization_run_inv:
  assumes "tokenization_inv c"
  shows "tokenization_inv (tokenization_run F c es) \<and> TC_policy (tokenization_run F c es) = TC_policy c"
  using assms unfolding tokenization_run_def by (induction es arbitrary: c) (simp_all add: tokenization_step_inv)

definition sample_request :: TokenizationAcquireRequest where
  "sample_request = \<lparr>TR_OperationID = 9, TR_ReplicaID = 1, TR_RequestID = ''r'', TR_OperationStartedAt = 1000,
     TR_ConfigurationRevision = 1, TR_APIKeyID = 1, TR_ClientID = 3, TR_PoolID = 2, TR_PoolRevision = 1,
     TR_Candidates = [\<lparr>TCand_BackendID = 5, TCand_BackendRevision = 1\<rparr>]\<rparr>"

abbreviation sample_start :: "TokenizationAcquireRequest TokenizationCoordinator" where
  "sample_start \<equiv> NewTokenizationCoordinator DefaultTokenizationPolicy"

lemma sample_policy: "TokenizationPolicy_Validate DefaultTokenizationPolicy = None"
  by (simp add: TokenizationPolicy_Validate_def DefaultTokenizationPolicy_def)

definition sample_lease :: TokenizationLease where
  "sample_lease = \<lparr>TL_OperationID = 9, TL_ReplicaID = 1, TL_ClientID = 3, TL_PoolID = 2, TL_BackendID = 5,
     TL_BackendRevision = 1, TL_AcquiredAt = 1000, TL_ExpiresAt = 45000001000\<rparr>"

definition sample_granted :: "TokenizationAcquireRequest TokenizationCoordinator" where
  "sample_granted = fst (tokenization_Acquire (\<lambda>r. r) None 1000 sample_request sample_start)"

abbreviation sample_decision :: TokenizationDecision where
  "sample_decision \<equiv> \<lparr>TD_Lease = Some sample_lease, TD_Reason = TokenizationNoReason, TD_RetryAt = None\<rparr>"

lemma sample_acquired: "snd (tokenization_Acquire (\<lambda>r. r) None 1000 sample_request sample_start) = Inr sample_decision"
  by code_simp

lemma sample_result: "tokenization_Acquire (\<lambda>r. r) None 1000 sample_request sample_start = (sample_granted, Inr sample_decision)"
  using sample_acquired by (simp add: sample_granted_def prod_eq_iff)

lemma sample_recorded:
  "mget (TC_receipts (cleanup 1000 sample_start)) (TR_OperationID sample_request) = None"
  "mget (TC_receipts sample_granted) (TR_OperationID sample_request) \<noteq> None"
  "mget (TC_active sample_granted) 9 = Some sample_lease"
  by code_simp+

lemma sample_again:
  "snd (tokenization_Acquire (\<lambda>r. r) None 3000 sample_request
      (tokenization_run (\<lambda>r. r) sample_granted [TokComplete None sample_lease])) =
     Inr (noDecision TokenizationLeaseLost)"
  by code_simp

text \<open>C13: in every sequence of tokenization operations, at any clock readings, the in-flight
  counters are exactly the active leases by client and by backend, they respect the policy's limits,
  the receipt counters are exactly the receipts and stay within their bound, and every active lease is
  the one its receipt grants.\<close>

theorem tokenization_books_balance:
  assumes "TokenizationPolicy_Validate p = None" and "c = tokenization_run F (NewTokenizationCoordinator p) es"
  shows "cget (TC_clientInflight c) k = int (mcount (\<lambda>_ l. TL_ClientID l = k) (TC_active c)) \<and>
    cget (TC_backendInflight c) k = int (mcount (\<lambda>_ l. TL_BackendID l = k) (TC_active c)) \<and>
    cget (TC_clientInflight c) k \<le> TP_ClientMaxInflight p \<and>
    cget (TC_backendInflight c) k \<le> TP_BackendMaxInflight p \<and>
    cget (TC_receiptCounts c) k = int (mcount (\<lambda>_ rec. tr_clientID rec = k) (TC_receipts c)) \<and>
    cget (TC_receiptCounts c) k \<le> tokenizationReceiptsPerClient \<and>
    (mget (TC_active c) i = Some l \<longrightarrow>
       (\<exists>rec. mget (TC_receipts c) i = Some rec \<and> TD_Lease (tr_decision rec) = Some l \<and> \<not> tr_completed rec))"
proof -
  have inv: "tokenization_inv c" and p: "TC_policy c = p"
    using tokenization_run_inv [OF new_tokenization_inv, of F p es] assms(2) by (simp_all add: NewTokenizationCoordinator_def)
  have "0 \<le> TP_ClientMaxInflight p" "0 \<le> TP_BackendMaxInflight p"
    using assms(1) by (auto simp: TokenizationPolicy_Validate_def split: if_splits)
  with inv p have "cget (TC_clientInflight c) k \<le> TP_ClientMaxInflight p" "cget (TC_backendInflight c) k \<le> TP_BackendMaxInflight p"
    "cget (TC_receiptCounts c) k \<le> tokenizationReceiptsPerClient"
    by (simp_all add: tokenization_inv_def limits_ok_def)
  moreover have "backed c" and "counts_by TL_ClientID (TC_clientInflight c) (TC_active c)"
    "counts_by TL_BackendID (TC_backendInflight c) (TC_active c)" "counts_by tr_clientID (TC_receiptCounts c) (TC_receipts c)"
    using inv by (simp_all add: tokenization_inv_def books_ok_def)
  ultimately show ?thesis unfolding counts_by_def using backedD(1) [of c i l] by blast
qed

theorem tokenization_books_balance_witness:
  "\<exists>rec. mget (TC_receipts sample_granted) 9 = Some rec \<and> TD_Lease (tr_decision rec) = Some sample_lease \<and>
     \<not> tr_completed rec \<and> cget (TC_clientInflight sample_granted) 3 \<le> TP_ClientMaxInflight DefaultTokenizationPolicy"
  using tokenization_books_balance
    [where F = "\<lambda>r. r" and es = "[TokAcquire None 1000 sample_request]" and i = 9 and l = sample_lease and k = 3,
     OF sample_policy refl] sample_recorded(3)
  by (simp add: tokenization_run_def sample_granted_def)

section \<open>An operation is granted once\<close>

text \<open>
  \<open>settled_operation\<close>: at time \<open>t\<close> the operation of \<open>r\<close> is either still covered by its receipt, with
  decision \<open>d\<close>, or so old that it would be refused as stale.
\<close>

definition settled_operation ::
  "(TokenizationAcquireRequest \<Rightarrow> 'fp) \<Rightarrow> TokenizationAcquireRequest \<Rightarrow> TokenizationDecision \<Rightarrow> instant \<Rightarrow>
     'fp TokenizationCoordinator \<Rightarrow> bool" where
  "settled_operation F r d t c \<longleftrightarrow>
     (\<exists>rec. mget (TC_receipts c) (TR_OperationID r) = Some rec \<and> tr_fingerprint rec = F r \<and> tr_decision rec = d \<and>
        TR_OperationStartedAt r + LeaseTTL (TC_policy c) \<le> tr_retainUntil rec) \<or>
     (TR_OperationStartedAt r + LeaseTTL (TC_policy c) \<le> t \<and>
        (\<forall>rec. mget (TC_receipts c) (TR_OperationID r) = Some rec \<longrightarrow> tr_fingerprint rec \<noteq> F r))"

lemma settled_cleanup:
  assumes "tokenization_inv c" "settled_operation F r d t c" "t \<le> now"
  shows "settled_operation F r d now (cleanup now c)"
  using assms(2,3) unfolding settled_operation_def cleanup_spec(2,3) [OF assms(1)]
  by (auto split: option.splits)

lemma admit_receipts:
  "\<exists>d. snd (admitTokenization now r rec (recordOperation r rec c)) = d \<and>
     TC_receipts (fst (admitTokenization now r rec (recordOperation r rec c))) =
       mput (TR_OperationID r) (rec\<lparr>tr_decision := d\<rparr>) (TC_receipts c)"
  by (cases rule: admit_cases [of now r rec c]) (simp_all add: recordOperation_def Let_def)

lemma settled_acquire:
  assumes inj: "inj F" and inv: "tokenization_inv c" and s: "settled_operation F r d t c" and t: "t \<le> now"
  shows "settled_operation F r d now (fst (tokenization_Acquire F err now r' c))"
    and "snd (tokenization_Acquire F err now r c) = Inr d' \<Longrightarrow> TD_Lease d' = None \<or> d' = d"
proof -
  let ?k = "cleanup now c"
  have k: "settled_operation F r d now ?k" by (rule settled_cleanup [OF inv s t])
  have c: "settled_operation F r d now c" using s t by (auto simp: settled_operation_def)
  have pol: "TC_policy ?k = TC_policy c" by (rule cleanup_spec(2) [OF inv])
  show "settled_operation F r d now (fst (tokenization_Acquire F err now r' c))"
  proof (cases rule: Acquire_outcomes [where F = F and r = r' and now = now and c = c and ctxErr = err])
    case new
    let ?rec = "newReceipt (F r') now r' (TC_policy ?k)"
    let ?a = "admitTokenization now r' ?rec (recordOperation r' ?rec ?k)"
    have fst: "fst (tokenization_Acquire F err now r' c) = fst ?a"
      using new(4) by (simp add: Let_def case_prod_unfold)
    obtain d2 where rec: "TC_receipts (fst ?a) = mput (TR_OperationID r') (?rec\<lparr>tr_decision := d2\<rparr>) (TC_receipts ?k)"
      using admit_receipts by blast
    have p: "TC_policy (fst ?a) = TC_policy ?k" by (rule admit_policy)
    show ?thesis
    proof (cases "TR_OperationID r' = TR_OperationID r")
      case False
      then show ?thesis using k by (simp add: fst settled_operation_def rec p)
    next
      case True
      then have old: "TR_OperationStartedAt r + LeaseTTL (TC_policy ?k) \<le> now"
        using k new(1) by (auto simp: settled_operation_def)
      with new(2) have "r' \<noteq> r" by auto
      then have "F r' \<noteq> F r" using inj by (auto dest: injD)
      moreover have "tr_fingerprint (?rec\<lparr>tr_decision := d2\<rparr>) = F r'" by (simp add: newReceipt_def)
      ultimately show ?thesis using old True unfolding fst settled_operation_def rec p by simp
    qed
  qed (use k c in simp_all)
  assume d': "snd (tokenization_Acquire F err now r c) = Inr d'"
  show "TD_Lease d' = None \<or> d' = d"
  proof (cases rule: Acquire_outcomes [where F = F and r = r and now = now and c = c and ctxErr = err])
    case (known old)
    with d' k show ?thesis by (auto simp: settled_operation_def)
  next
    case new
    with k have "TR_OperationStartedAt r + LeaseTTL (TC_policy ?k) \<le> now" by (auto simp: settled_operation_def)
    with new(2) show ?thesis by simp
  qed (use d' in blast)+
qed

lemma settled_complete:
  assumes "tokenization_inv c" "settled_operation F r d t c"
  shows "settled_operation F r d t (fst (tokenization_Complete err l c))"
proof (cases rule: Complete_outcomes [of err l c])
  case (completed rec)
  with assms(2) show ?thesis
    by (cases "TL_OperationID l = TR_OperationID r") (auto simp: settled_operation_def putReceipt_def)
qed (use assms(2) in simp)

lemma settled_run:
  assumes "inj F" "tokenization_inv c" "settled_operation F r d t c" "sorted (t # acquireTimes es @ [later])"
  shows "\<exists>t'. settled_operation F r d t' (tokenization_run F c es) \<and> t' \<le> later"
  using assms(2-4) unfolding tokenization_run_def
proof (induction es arbitrary: c t)
  case (Cons e es)
  have inv: "tokenization_inv (tokenization_step F c e)" by (rule tokenization_step_inv(1) [OF Cons.prems(1)])
  show ?case
  proof (cases e)
    case (TokAcquire err now r')
    have "settled_operation F r d now (tokenization_step F c e)"
      using settled_acquire(1) [OF assms(1) Cons.prems(1,2)] Cons.prems(3) by (simp add: TokAcquire)
    from Cons.IH [OF inv this] Cons.prems(3) show ?thesis by (simp add: TokAcquire)
  next
    case (TokComplete err l)
    have "settled_operation F r d t (tokenization_step F c e)"
      using settled_complete [OF Cons.prems(1,2)] by (simp add: TokComplete)
    from Cons.IH [OF inv this] Cons.prems(3) show ?thesis by (simp add: TokComplete)
  qed
qed auto

text \<open>C23: an operation is granted at most once: after its first acquisition, whatever operations
  follow (at non-decreasing clock readings, completions and clean-ups included), acquiring it again yields
  either the original decision or no lease. The fingerprint is assumed to identify the request.\<close>

theorem tokenization_granted_once:
  assumes "inj F" and "TokenizationPolicy_Validate p = None"
    and "c = tokenization_run F (NewTokenizationCoordinator p) before"
    and "mget (TC_receipts (cleanup now c)) (TR_OperationID r) = None"
    and "tokenization_Acquire F None now r c = (c1, Inr d)" and "mget (TC_receipts c1) (TR_OperationID r) \<noteq> None"
    and "sorted (now # acquireTimes after @ [later])"
    and "snd (tokenization_Acquire F err later r (tokenization_run F c1 after)) = Inr d'"
  shows "TD_Lease d' = None \<or> d' = d"
proof -
  have inv: "tokenization_inv c" and pol: "TC_policy c = p"
    using tokenization_run_inv [OF new_tokenization_inv, of F p before] assms(3) by (simp_all add: NewTokenizationCoordinator_def)
  have inv1: "tokenization_inv c1" using tokenization_Acquire_inv(1) [OF inv, of F None now r] assms(5) by simp
  have "settled_operation F r d now c1"
  proof (cases rule: Acquire_outcomes [where F = F and r = r and now = now and c = c and ctxErr = None])
    case untouched
    then show ?thesis using pol assms(2) by simp
  next
    case (known old)
    then show ?thesis using assms(4) by simp
  next
    case refused
    then show ?thesis using assms(4-6) by simp
  next
    case new
    let ?rec = "newReceipt (F r) now r (TC_policy (cleanup now c))"
    let ?a = "admitTokenization now r ?rec (recordOperation r ?rec (cleanup now c))"
    have "c1 = fst ?a" "d = snd ?a" using new(4) assms(5) by (simp_all add: Let_def case_prod_unfold)
    then show ?thesis
      using admit_receipts [of now r ?rec "cleanup now c"] admit_policy [of now r ?rec "cleanup now c"]
      by (auto simp: settled_operation_def newReceipt_def maxTime_def)
  qed
  from settled_run [OF assms(1) inv1 this assms(7)] obtain t where
    "settled_operation F r d t (tokenization_run F c1 after)" "t \<le> later" by blast
  moreover have "tokenization_inv (tokenization_run F c1 after)" using tokenization_run_inv [OF inv1] by blast
  ultimately show ?thesis using settled_acquire(2) [OF assms(1)] assms(8) by blast
qed

theorem tokenization_granted_once_witness:
  "snd (tokenization_Acquire (\<lambda>r. r) None 3000 sample_request
      (tokenization_run (\<lambda>r. r) sample_granted [TokComplete None sample_lease])) =
     Inr (noDecision TokenizationLeaseLost) \<and>
   (TD_Lease (noDecision TokenizationLeaseLost) = None \<or> noDecision TokenizationLeaseLost = sample_decision)"
  using tokenization_granted_once [where F = "\<lambda>r. r" and before = "[]" and now = 1000 and later = 3000
      and after = "[TokComplete None sample_lease]" and r = sample_request and err = None
      and p = DefaultTokenizationPolicy and c = sample_start and ?c1.0 = sample_granted and d = sample_decision
      and d' = "noDecision TokenizationLeaseLost"]
  by (simp add: sample_policy sample_recorded sample_result sample_again tokenization_run_def [of _ _ "[]"])

end
