(* ===== verification/Json_Validator.thy ===== *)
theory Json_Validator
  imports Go_Http
begin

text \<open>
  The incremental JSON validator that watches a backend's response while it is streamed to the client
  (\<^verbatim>\<open>internal/proxy/json_validator.go\<close>). The nesting stack is the fixed array of the source with
  its depth; a method that changes the receiver returns the changed record, and a method whose second
  result is \<^verbatim>\<open>handled\<close> returns \<open>None\<close> when that is false. \<^verbatim>\<open>v.stack[v.depth-1]\<close> is only evaluated at
  a positive depth, which is part of the invariant proved in the theory \<open>Json_Grammar\<close>.
\<close>

section \<open>States\<close>

datatype jsonScanOp = jsonScanContinue | jsonScanEndObject | jsonScanError

datatype jsonScanState =
    jsonStateBeginValue
  | jsonStateBeginValueOrEmpty
  | jsonStateBeginStringOrEmpty
  | jsonStateBeginString
  | jsonStateEndValue
  | jsonStateEndTop
  | jsonStateInString
  | jsonStateInStringEscape
  | jsonStateInStringUnicode1
  | jsonStateInStringUnicode2
  | jsonStateInStringUnicode3
  | jsonStateInStringUnicode4
  | jsonStateNegative
  | jsonStateZero
  | jsonStateInteger
  | jsonStateDecimalPoint
  | jsonStateDecimal
  | jsonStateExponent
  | jsonStateExponentSign
  | jsonStateExponentDigits
  | jsonStateTrueR
  | jsonStateTrueU
  | jsonStateTrueE
  | jsonStateFalseA
  | jsonStateFalseL
  | jsonStateFalseS
  | jsonStateFalseE
  | jsonStateNullU
  | jsonStateNullL1
  | jsonStateNullL2
  | jsonStateError

datatype jsonParseState = jsonParseObjectKey | jsonParseObjectValue | jsonParseArrayValue

definition maxJSONNestingDepth :: nat where
  "maxJSONNestingDepth = 256"

record incrementalJSONValidator =
  jv_state :: jsonScanState
  jv_stack :: "jsonParseState list"
  jv_depth :: nat
  jv_endTop :: bool
  jv_failed :: bool

text \<open>The zero value of the struct.\<close>

definition zeroValidator :: incrementalJSONValidator where
  "zeroValidator = \<lparr>jv_state = jsonStateBeginValue, jv_stack = replicate maxJSONNestingDepth jsonParseObjectKey,
     jv_depth = 0, jv_endTop = False, jv_failed = False\<rparr>"

definition jv_reset :: "incrementalJSONValidator \<Rightarrow> incrementalJSONValidator" where
  "jv_reset v = v\<lparr>jv_state := jsonStateBeginValue, jv_depth := 0, jv_endTop := False, jv_failed := False\<rparr>"

definition expectsTopLevelObjectKey :: "incrementalJSONValidator \<Rightarrow> bool" where
  "expectsTopLevelObjectKey v \<longleftrightarrow>
     \<not> (jv_depth v \<noteq> 1 \<or> jv_stack v ! 0 \<noteq> jsonParseObjectKey) \<and>
     (jv_state v = jsonStateBeginStringOrEmpty \<or> jv_state v = jsonStateBeginString)"

section \<open>Elementary moves\<close>

definition isJSONWhitespace :: "char \<Rightarrow> bool" where
  "isJSONWhitespace c \<longleftrightarrow> byteval c = 32 \<or> byteval c = 9 \<or> byteval c = 13 \<or> byteval c = 10"

abbreviation isDigit19 :: "char \<Rightarrow> bool" where
  "isDigit19 c \<equiv> 49 \<le> byteval c \<and> byteval c \<le> 57"

abbreviation quote_byte :: char where
  "quote_byte \<equiv> CHR 0x22"

abbreviation backslash_byte :: char where
  "backslash_byte \<equiv> CHR 0x5C"

type_synonym scanned = "incrementalJSONValidator \<times> jsonScanOp"

definition jv_fail :: "incrementalJSONValidator \<Rightarrow> scanned" where
  "jv_fail v = (v\<lparr>jv_failed := True, jv_state := jsonStateError\<rparr>, jsonScanError)"

definition jv_goto :: "jsonScanState \<Rightarrow> incrementalJSONValidator \<Rightarrow> scanned" where
  "jv_goto q v = (v\<lparr>jv_state := q\<rparr>, jsonScanContinue)"

definition jv_push :: "jsonParseState \<Rightarrow> incrementalJSONValidator \<Rightarrow> incrementalJSONValidator \<times> bool" where
  "jv_push st v =
     (if jv_depth v = length (jv_stack v) then (fst (jv_fail v), False)
      else (v\<lparr>jv_stack := (jv_stack v)[jv_depth v := st], jv_depth := jv_depth v + 1\<rparr>, True))"

definition jv_pop :: "incrementalJSONValidator \<Rightarrow> incrementalJSONValidator" where
  "jv_pop v =
     (let v = v\<lparr>jv_depth := jv_depth v - 1\<rparr> in
      if jv_depth v = 0 then v\<lparr>jv_state := jsonStateEndTop, jv_endTop := True\<rparr>
      else v\<lparr>jv_state := jsonStateEndValue\<rparr>)"

definition jv_literal :: "char \<Rightarrow> char \<Rightarrow> jsonScanState \<Rightarrow> incrementalJSONValidator \<Rightarrow> scanned" where
  "jv_literal current expected next v = (if current \<noteq> expected then jv_fail v else jv_goto next v)"

definition isHexByte :: "char \<Rightarrow> bool" where
  "isHexByte c \<longleftrightarrow> 48 \<le> byteval c \<and> byteval c \<le> 57 \<or> 97 \<le> byteval c \<and> byteval c \<le> 102 \<or>
     65 \<le> byteval c \<and> byteval c \<le> 70"

definition jv_unicode :: "char \<Rightarrow> jsonScanState \<Rightarrow> incrementalJSONValidator \<Rightarrow> scanned" where
  "jv_unicode current next v = (if \<not> isHexByte current then jv_fail v else jv_goto next v)"

definition exponentDigit :: "char \<Rightarrow> incrementalJSONValidator \<Rightarrow> scanned" where
  "exponentDigit current v =
     (if \<not> isDigitByte current then jv_fail v else jv_goto jsonStateExponentDigits v)"

definition jv_setTop :: "jsonParseState \<Rightarrow> incrementalJSONValidator \<Rightarrow> incrementalJSONValidator" where
  "jv_setTop st v = v\<lparr>jv_stack := (jv_stack v)[jv_depth v - 1 := st]\<rparr>"

definition endValue :: "char \<Rightarrow> incrementalJSONValidator \<Rightarrow> scanned" where
  "endValue current v =
     (if jv_depth v = 0 then
        (let v = v\<lparr>jv_state := jsonStateEndTop, jv_endTop := True\<rparr> in
         if \<not> isJSONWhitespace current then jv_fail v else (v, jsonScanContinue))
      else if isJSONWhitespace current then jv_goto jsonStateEndValue v
      else
        (case jv_stack v ! (jv_depth v - 1) of
           jsonParseObjectKey \<Rightarrow>
             if current \<noteq> CHR '':'' then jv_fail v
             else jv_goto jsonStateBeginValue (jv_setTop jsonParseObjectValue v)
         | jsonParseObjectValue \<Rightarrow>
             if current = CHR '','' then jv_goto jsonStateBeginString (jv_setTop jsonParseObjectKey v)
             else if current \<noteq> CHR ''}'' then jv_fail v
             else (jv_pop v, jsonScanEndObject)
         | jsonParseArrayValue \<Rightarrow>
             if current = CHR '','' then jv_goto jsonStateBeginValue v
             else if current \<noteq> CHR '']'' then jv_fail v
             else (jv_pop v, jsonScanContinue)))"

definition afterInteger :: "char \<Rightarrow> incrementalJSONValidator \<Rightarrow> scanned" where
  "afterInteger current v =
     (if current = CHR ''.'' then jv_goto jsonStateDecimalPoint v
      else if current = CHR ''e'' \<or> current = CHR ''E'' then jv_goto jsonStateExponent v
      else endValue current v)"

definition beginString :: "char \<Rightarrow> incrementalJSONValidator \<Rightarrow> scanned" where
  "beginString current v =
     (if isJSONWhitespace current then (v, jsonScanContinue)
      else if current \<noteq> quote_byte then jv_fail v
      else jv_goto jsonStateInString v)"

definition beginNested :: "jsonParseState \<Rightarrow> jsonScanState \<Rightarrow> incrementalJSONValidator \<Rightarrow> scanned" where
  "beginNested st next v =
     (let (v, pushed) = jv_push st v in if \<not> pushed then (v, jsonScanError) else jv_goto next v)"

definition beginValue :: "char \<Rightarrow> incrementalJSONValidator \<Rightarrow> scanned" where
  "beginValue current v =
     (if isJSONWhitespace current then (v, jsonScanContinue)
      else if current = CHR ''{'' then beginNested jsonParseObjectKey jsonStateBeginStringOrEmpty v
      else if current = CHR ''['' then beginNested jsonParseArrayValue jsonStateBeginValueOrEmpty v
      else if current = quote_byte then jv_goto jsonStateInString v
      else if current = CHR ''-'' then jv_goto jsonStateNegative v
      else if current = CHR ''0'' then jv_goto jsonStateZero v
      else if current = CHR ''t'' then jv_goto jsonStateTrueR v
      else if current = CHR ''f'' then jv_goto jsonStateFalseA v
      else if current = CHR ''n'' then jv_goto jsonStateNullU v
      else if isDigit19 current then jv_goto jsonStateInteger v
      else jv_fail v)"

section \<open>The step on a byte\<close>

definition stepString :: "char \<Rightarrow> incrementalJSONValidator \<Rightarrow> scanned option" where
  "stepString current v =
     (case jv_state v of
        jsonStateInString \<Rightarrow> Some
          (if current = quote_byte then jv_goto jsonStateEndValue v
           else if current = backslash_byte then jv_goto jsonStateInStringEscape v
           else if byteval current < 32 then jv_fail v
           else (v, jsonScanContinue))
      | jsonStateInStringEscape \<Rightarrow> Some
          (if current \<in> {CHR ''b'', CHR ''f'', CHR ''n'', CHR ''r'', CHR ''t'', backslash_byte, CHR ''/'', quote_byte}
           then jv_goto jsonStateInString v
           else if current = CHR ''u'' then jv_goto jsonStateInStringUnicode1 v
           else jv_fail v)
      | jsonStateInStringUnicode1 \<Rightarrow> Some (jv_unicode current jsonStateInStringUnicode2 v)
      | jsonStateInStringUnicode2 \<Rightarrow> Some (jv_unicode current jsonStateInStringUnicode3 v)
      | jsonStateInStringUnicode3 \<Rightarrow> Some (jv_unicode current jsonStateInStringUnicode4 v)
      | jsonStateInStringUnicode4 \<Rightarrow> Some (jv_unicode current jsonStateInString v)
      | _ \<Rightarrow> None)"

definition stepNumber :: "char \<Rightarrow> incrementalJSONValidator \<Rightarrow> scanned option" where
  "stepNumber current v =
     (case jv_state v of
        jsonStateNegative \<Rightarrow> Some
          (if current = CHR ''0'' then jv_goto jsonStateZero v
           else if isDigit19 current then jv_goto jsonStateInteger v
           else jv_fail v)
      | jsonStateInteger \<Rightarrow> Some
          (if isDigitByte current then (v, jsonScanContinue) else afterInteger current v)
      | jsonStateZero \<Rightarrow> Some (afterInteger current v)
      | jsonStateDecimalPoint \<Rightarrow> Some
          (if \<not> isDigitByte current then jv_fail v else jv_goto jsonStateDecimal v)
      | jsonStateDecimal \<Rightarrow> Some
          (if isDigitByte current then (v, jsonScanContinue)
           else if current = CHR ''e'' \<or> current = CHR ''E'' then jv_goto jsonStateExponent v
           else endValue current v)
      | jsonStateExponent \<Rightarrow> Some
          (if current = CHR ''+'' \<or> current = CHR ''-'' then jv_goto jsonStateExponentSign v
           else exponentDigit current v)
      | jsonStateExponentSign \<Rightarrow> Some (exponentDigit current v)
      | jsonStateExponentDigits \<Rightarrow> Some
          (if isDigitByte current then (v, jsonScanContinue) else endValue current v)
      | _ \<Rightarrow> None)"

definition stepLiteral :: "char \<Rightarrow> incrementalJSONValidator \<Rightarrow> scanned option" where
  "stepLiteral current v =
     (case jv_state v of
        jsonStateTrueR \<Rightarrow> Some (jv_literal current CHR ''r'' jsonStateTrueU v)
      | jsonStateTrueU \<Rightarrow> Some (jv_literal current CHR ''u'' jsonStateTrueE v)
      | jsonStateTrueE \<Rightarrow> Some (jv_literal current CHR ''e'' jsonStateEndValue v)
      | jsonStateFalseA \<Rightarrow> Some (jv_literal current CHR ''a'' jsonStateFalseL v)
      | jsonStateFalseL \<Rightarrow> Some (jv_literal current CHR ''l'' jsonStateFalseS v)
      | jsonStateFalseS \<Rightarrow> Some (jv_literal current CHR ''s'' jsonStateFalseE v)
      | jsonStateFalseE \<Rightarrow> Some (jv_literal current CHR ''e'' jsonStateEndValue v)
      | jsonStateNullU \<Rightarrow> Some (jv_literal current CHR ''u'' jsonStateNullL1 v)
      | jsonStateNullL1 \<Rightarrow> Some (jv_literal current CHR ''l'' jsonStateNullL2 v)
      | jsonStateNullL2 \<Rightarrow> Some (jv_literal current CHR ''l'' jsonStateEndValue v)
      | _ \<Rightarrow> None)"

definition stepStructure :: "char \<Rightarrow> incrementalJSONValidator \<Rightarrow> scanned" where
  "stepStructure current v =
     (case jv_state v of
        jsonStateBeginValue \<Rightarrow> beginValue current v
      | jsonStateBeginValueOrEmpty \<Rightarrow>
          if isJSONWhitespace current then (v, jsonScanContinue)
          else if current = CHR '']'' then endValue current v
          else beginValue current v
      | jsonStateBeginStringOrEmpty \<Rightarrow>
          if isJSONWhitespace current then (v, jsonScanContinue)
          else if current = CHR ''}'' then endValue current (jv_setTop jsonParseObjectValue v)
          else beginString current v
      | jsonStateBeginString \<Rightarrow> beginString current v
      | jsonStateEndValue \<Rightarrow> endValue current v
      | jsonStateEndTop \<Rightarrow>
          if \<not> isJSONWhitespace current then jv_fail v else (v, jsonScanContinue)
      | _ \<Rightarrow> jv_fail v)"

definition stepByte :: "char \<Rightarrow> incrementalJSONValidator \<Rightarrow> scanned" where
  "stepByte current v =
     (if jv_failed v then (v, jsonScanError)
      else case stepString current v of Some r \<Rightarrow> r
      | None \<Rightarrow> (case stepNumber current v of Some r \<Rightarrow> r
      | None \<Rightarrow> (case stepLiteral current v of Some r \<Rightarrow> r
      | None \<Rightarrow> stepStructure current v)))"

definition jv_eof :: "incrementalJSONValidator \<Rightarrow> incrementalJSONValidator \<times> bool" where
  "jv_eof v =
     (if jv_failed v then (v, False)
      else if jv_endTop v then (v, True)
      else let (v, op) = stepByte (CHR '' '') v in (v, op \<noteq> jsonScanError \<and> jv_endTop v))"

text \<open>The bytes of a body, whatever chunks they arrive in, and the verdict at its end.\<close>

definition scanBytes :: "string \<Rightarrow> incrementalJSONValidator \<Rightarrow> incrementalJSONValidator" where
  "scanBytes s v = fold (\<lambda>c v. fst (stepByte c v)) s v"

definition validates :: "string \<Rightarrow> bool" where
  "validates s \<longleftrightarrow> snd (jv_eof (scanBytes s (jv_reset zeroValidator)))"

end
