(* ===== verification/Usage_Inspector.thy ===== *)
theory Usage_Inspector
  imports Json_Validator Domain
begin

text \<open>
  The usage inspector of the proxy (\<^verbatim>\<open>internal/proxy/usage.go\<close>): it reads a response while it is
  streamed, finds the token usage the backend reports and validates it. The decoder of
  \<^verbatim>\<open>encoding/json\<close> (with numbers kept as text) is the parameter \<open>decode\<close>, \<open>None\<close> where
  \<^verbatim>\<open>decodeJSONValue\<close> is not ok, and \<^verbatim>\<open>mime.ParseMediaType\<close> is the parameter of
  \<open>newUsageInspector\<close>; every theorem holds for all of them. An \<^verbatim>\<open>any\<close> holding decoded JSON is the
  datatype \<open>jsonAny\<close>, Go's \<^verbatim>\<open>nil\<close> being \<open>JNull\<close>. The loops that return early do so only after
  disabling the inspector.
\<close>

section \<open>Decoded values\<close>

datatype jsonAny =
    JNull
  | JBool bool
  | JNumber string
  | JString string
  | JArray "jsonAny list"
  | JObject "(string \<times> jsonAny) list"

definition decimalValue :: "string \<Rightarrow> nat" where
  "decimalValue ds = foldl (\<lambda>n c. 10 * n + (byteval c - 48)) 0 ds"

definition unsignedDecimal :: "string \<Rightarrow> nat option" where
  "unsignedDecimal ds = (if ds \<noteq> [] \<and> list_all isDigitByte ds then Some (decimalValue ds) else None)"

text \<open>\<^verbatim>\<open>strconv.ParseInt(s, 10, 64)\<close>, \<open>None\<close> for an error.\<close>

definition parseInt64 :: "string \<Rightarrow> int option" where
  "parseInt64 s =
     (let negative = (s \<noteq> [] \<and> hd s = CHR ''-'');
          ds = (if s \<noteq> [] \<and> (hd s = CHR ''-'' \<or> hd s = CHR ''+'') then tl s else s)
      in case unsignedDecimal ds of
           None \<Rightarrow> None
         | Some n \<Rightarrow> if negative then (if int n > 2 ^ 63 then None else Some (- int n))
                     else (if int n \<ge> 2 ^ 63 then None else Some (int n)))"

definition parseTokenCount :: "jsonAny \<Rightarrow> int option" where
  "parseTokenCount v =
     (case v of
        JNumber s \<Rightarrow> (case parseInt64 s of None \<Rightarrow> None | Some n \<Rightarrow> if n \<ge> 0 then Some n else None)
      | _ \<Rightarrow> None)"

definition lookup :: "(string \<times> jsonAny) list \<Rightarrow> string \<Rightarrow> jsonAny" where
  "lookup ob key = (case mget ob key of None \<Rightarrow> JNull | Some v \<Rightarrow> v)"

text \<open>The keys of the two dialects, \<open>None\<close> when neither is present.\<close>

definition usageKeys :: "(string \<times> jsonAny) list \<Rightarrow> (string \<times> string \<times> string) option" where
  "usageKeys ob =
     (if mget ob ''prompt_tokens'' \<noteq> None \<or> mget ob ''completion_tokens'' \<noteq> None
      then Some (''prompt_tokens'', ''completion_tokens'', ''prompt_tokens_details'')
      else if mget ob ''input_tokens'' \<noteq> None \<or> mget ob ''output_tokens'' \<noteq> None
      then Some (''input_tokens'', ''output_tokens'', ''input_tokens_details'')
      else None)"

text \<open>The usage, whether it is valid, and whether the validation failed.\<close>

definition normalizeTokenUsage :: "jsonAny \<Rightarrow> DomainTokenUsage option \<times> bool \<times> bool" where
  "normalizeTokenUsage value =
     (case value of
        JObject ob \<Rightarrow>
          (case usageKeys ob of
             None \<Rightarrow> (None, False, True)
           | Some (inputKey, outputKey, detailsKey) \<Rightarrow>
               (case (parseTokenCount (lookup ob inputKey), parseTokenCount (lookup ob outputKey)) of
                  (Some inp, Some outp) \<Rightarrow>
                    (let usage = \<lparr>DU_InputTokens = inp, DU_OutputTokens = outp, DU_CacheReadTokens = None\<rparr> in
                     case lookup ob detailsKey of
                       JNull \<Rightarrow> (Some usage, True, False)
                     | JObject details \<Rightarrow>
                         (case lookup details ''cached_tokens'' of
                            JNull \<Rightarrow> (Some usage, True, False)
                          | cacheValue \<Rightarrow>
                              (case parseTokenCount cacheValue of
                                 None \<Rightarrow> (Some usage, True, True)
                               | Some cache \<Rightarrow>
                                   if cache > inp then (Some usage, True, True)
                                   else (Some (usage\<lparr>DU_CacheReadTokens := Some cache\<rparr>), True, False)))
                     | _ \<Rightarrow> (Some usage, True, True))
                | _ \<Rightarrow> (None, False, True)))
      | _ \<Rightarrow> (None, False, True))"

definition findAuthoritativeSSEUsage :: "jsonAny \<Rightarrow> jsonAny option" where
  "findAuthoritativeSSEUsage doc =
     (case doc of
        JObject ob \<Rightarrow>
          if lookup ob ''usage'' \<noteq> JNull then Some (lookup ob ''usage'')
          else if lookup ob ''type'' \<noteq> JString ''response.completed'' then None
          else (case lookup ob ''response'' of
                  JObject response \<Rightarrow> Some (lookup response ''usage'')
                | _ \<Rightarrow> Some JNull)
      | _ \<Rightarrow> None)"

section \<open>The inspector\<close>

definition maxUsageCaptureSize :: nat where
  "maxUsageCaptureSize = 65536"

record usageInspector =
  ui_format :: string
  ui_disabled :: bool
  ui_failed :: bool
  ui_finalized :: bool
  ui_usage :: "DomainTokenUsage option"
  ui_jsonValidator :: incrementalJSONValidator
  ui_jsonInString :: bool
  ui_jsonEscaped :: bool
  ui_jsonStringMatches :: bool
  ui_jsonStringPosition :: nat
  ui_jsonStringIsTopKey :: bool
  ui_jsonUsageKey :: bool
  ui_jsonAwaitingValue :: bool
  ui_jsonCapturing :: bool
  ui_jsonCaptureBase :: nat
  ui_jsonCapture :: string
  ui_invalidUsageCandidate :: bool
  ui_sseEvent :: string
  ui_sseLineStart :: nat

definition zeroInspector :: usageInspector where
  "zeroInspector =
     \<lparr>ui_format = [], ui_disabled = False, ui_failed = False, ui_finalized = False, ui_usage = None,
      ui_jsonValidator = zeroValidator, ui_jsonInString = False, ui_jsonEscaped = False,
      ui_jsonStringMatches = False, ui_jsonStringPosition = 0, ui_jsonStringIsTopKey = False,
      ui_jsonUsageKey = False, ui_jsonAwaitingValue = False, ui_jsonCapturing = False, ui_jsonCaptureBase = 0,
      ui_jsonCapture = [], ui_invalidUsageCandidate = False, ui_sseEvent = [], ui_sseLineStart = 0\<rparr>"

definition hasSuffix :: "string \<Rightarrow> string \<Rightarrow> bool" where
  "hasSuffix s p \<longleftrightarrow> hasPrefix (rev s) (rev p)"

definition newUsageInspector :: "(string \<Rightarrow> string option) \<Rightarrow> string \<Rightarrow> usageInspector" where
  "newUsageInspector ParseMediaType contentType =
     (case ParseMediaType contentType of
        None \<Rightarrow> zeroInspector
      | Some mediaType \<Rightarrow>
          (let mediaType = toLower mediaType in
           if mediaType = ''text/event-stream'' then zeroInspector\<lparr>ui_format := ''sse'', ui_sseEvent := []\<rparr>
           else if mediaType = ''application/json'' \<or> hasSuffix mediaType ''+json''
           then zeroInspector\<lparr>ui_format := ''json'', ui_jsonCapture := [], ui_jsonValidator := jv_reset zeroValidator\<rparr>
           else zeroInspector))"

definition disableInspection :: "usageInspector \<Rightarrow> usageInspector" where
  "disableInspection i =
     i\<lparr>ui_disabled := True, ui_failed := True, ui_usage := None, ui_jsonCapture := [], ui_sseEvent := []\<rparr>"

definition consumeNormalizedUsage :: "jsonAny \<Rightarrow> usageInspector \<Rightarrow> usageInspector" where
  "consumeNormalizedUsage value i =
     (let (usage, valid, validationFailed) = normalizeTokenUsage value;
          i = (if validationFailed then i\<lparr>ui_failed := True\<rparr> else i)
      in if \<not> valid then i\<lparr>ui_invalidUsageCandidate := True, ui_usage := None\<rparr>
         else if \<not> ui_invalidUsageCandidate i then i\<lparr>ui_usage := usage\<rparr>
         else i)"

definition consumeUsageObject :: "(string \<Rightarrow> jsonAny option) \<Rightarrow> string \<Rightarrow> usageInspector \<Rightarrow> usageInspector" where
  "consumeUsageObject decode ob i =
     (case decode ob of None \<Rightarrow> i\<lparr>ui_failed := True\<rparr> | Some value \<Rightarrow> consumeNormalizedUsage value i)"

section \<open>A JSON body\<close>

definition appendJSONCapture :: "char \<Rightarrow> usageInspector \<Rightarrow> usageInspector \<times> bool" where
  "appendJSONCapture current i =
     (if length (ui_jsonCapture i) = maxUsageCaptureSize then (disableInspection i, False)
      else (i\<lparr>ui_jsonCapture := ui_jsonCapture i @ [current]\<rparr>, True))"

definition usageKey :: string where
  "usageKey = ''usage''"

text \<open>The look-out for the value of the top-level key \<^verbatim>\<open>usage\<close>, before the byte is validated.\<close>

definition jsonLookOut :: "char \<Rightarrow> usageInspector \<Rightarrow> usageInspector \<times> bool" where
  "jsonLookOut current i =
     (if \<not> ui_jsonInString i \<and> \<not> ui_jsonCapturing i \<and> ui_jsonUsageKey i \<and> \<not> isJSONWhitespace current
      then (let i = i\<lparr>ui_jsonUsageKey := False\<rparr> in
            (if current = CHR '':'' then i\<lparr>ui_jsonAwaitingValue := True\<rparr> else i, True))
      else if \<not> ui_jsonInString i \<and> \<not> ui_jsonCapturing i \<and> ui_jsonAwaitingValue i \<and> \<not> isJSONWhitespace current
      then (let i = i\<lparr>ui_jsonAwaitingValue := False\<rparr> in
            if current = CHR ''{''
            then appendJSONCapture current
              (i\<lparr>ui_jsonCapturing := True, ui_jsonCaptureBase := jv_depth (ui_jsonValidator i), ui_jsonCapture := []\<rparr>)
            else (i\<lparr>ui_failed := True, ui_invalidUsageCandidate := True, ui_usage := None\<rparr>, True))
      else (i, True))"

text \<open>The byte inside a string, compared with the key \<^verbatim>\<open>usage\<close>.\<close>

definition jsonInside :: "char \<Rightarrow> usageInspector \<Rightarrow> usageInspector" where
  "jsonInside current i =
     (if ui_jsonEscaped i then i\<lparr>ui_jsonEscaped := False, ui_jsonStringMatches := False\<rparr>
      else if current = backslash_byte then i\<lparr>ui_jsonEscaped := True, ui_jsonStringMatches := False\<rparr>
      else if current = quote_byte then
        (let i = i\<lparr>ui_jsonInString := False\<rparr> in
         if \<not> ui_jsonCapturing i \<and> ui_jsonStringIsTopKey i
         then i\<lparr>ui_jsonUsageKey := ui_jsonStringMatches i \<and> ui_jsonStringPosition i = length usageKey\<rparr>
         else i)
      else
        (let i = (if ui_jsonStringMatches i \<and>
                     (ui_jsonStringPosition i \<ge> length usageKey \<or> current \<noteq> usageKey ! ui_jsonStringPosition i)
                  then i\<lparr>ui_jsonStringMatches := False\<rparr> else i)
         in i\<lparr>ui_jsonStringPosition := ui_jsonStringPosition i + 1\<rparr>))"

definition jsonOutside ::
  "(string \<Rightarrow> jsonAny option) \<Rightarrow> char \<Rightarrow> bool \<Rightarrow> jsonScanOp \<Rightarrow> usageInspector \<Rightarrow> usageInspector" where
  "jsonOutside decode current startsTopLevelKey op i =
     (let i = (if current = quote_byte
               then i\<lparr>ui_jsonInString := True, ui_jsonEscaped := False, ui_jsonStringMatches := startsTopLevelKey,
                      ui_jsonStringPosition := 0, ui_jsonStringIsTopKey := startsTopLevelKey\<rparr>
               else i)
      in if ui_jsonCapturing i \<and> op = jsonScanEndObject \<and> jv_depth (ui_jsonValidator i) = ui_jsonCaptureBase i
         then (consumeUsageObject decode (ui_jsonCapture i) (i\<lparr>ui_jsonCapturing := False\<rparr>))\<lparr>ui_jsonCapture := []\<rparr>
         else i)"

definition jsonByte :: "(string \<Rightarrow> jsonAny option) \<Rightarrow> char \<Rightarrow> usageInspector \<Rightarrow> usageInspector" where
  "jsonByte decode current i =
     (if ui_disabled i then i
      else
        let (i, kept) = (if ui_jsonCapturing i then appendJSONCapture current i else (i, True)) in
        if \<not> kept then i
        else
          let startsTopLevelKey = (\<not> ui_jsonInString i \<and> current = quote_byte \<and>
                expectsTopLevelObjectKey (ui_jsonValidator i));
              (i, kept) = jsonLookOut current i
          in if \<not> kept then i
          else
            let (v, op) = stepByte current (ui_jsonValidator i);
                i = i\<lparr>ui_jsonValidator := v\<rparr>
            in if op = jsonScanError then disableInspection i
            else if ui_jsonInString i then jsonInside current i
            else jsonOutside decode current startsTopLevelKey op i)"

definition writeJSON :: "(string \<Rightarrow> jsonAny option) \<Rightarrow> string \<Rightarrow> usageInspector \<Rightarrow> usageInspector" where
  "writeJSON decode data i = fold (jsonByte decode) data i"

section \<open>An event stream\<close>

definition trimCR :: "string \<Rightarrow> string" where
  "trimCR line = (if line \<noteq> [] \<and> last line = CHR 0x0D then butlast line else line)"

text \<open>The value of a \<^verbatim>\<open>data\<close> field, \<open>None\<close> for any other line.\<close>

definition dataLine :: "string \<Rightarrow> string option" where
  "dataLine line =
     (let line = trimCR line in
      if line = [] \<or> hd line = CHR '':'' then None
      else
        let field = takeWhile (\<lambda>c. c \<noteq> CHR '':'') line;
            value = tl (dropWhile (\<lambda>c. c \<noteq> CHR '':'') line)
        in if field \<noteq> ''data'' then None
           else Some (if value \<noteq> [] \<and> hd value = CHR '' '' then tl value else value))"

fun joinLines :: "string list \<Rightarrow> string" where
  "joinLines [] = []"
| "joinLines [l] = l"
| "joinLines (l # ls) = l @ CHR 0x0A # joinLines ls"

definition consumeSSEEvent :: "(string \<Rightarrow> jsonAny option) \<Rightarrow> string \<Rightarrow> usageInspector \<Rightarrow> usageInspector" where
  "consumeSSEEvent decode event i =
     (let dataLines = List.map_filter dataLine (splitOn (CHR 0x0A) event) in
      if dataLines = [] then i
      else
        let payload = joinLines dataLines in
        if trimSpace payload = ''[DONE]'' then i
        else (case decode payload of
                None \<Rightarrow> i\<lparr>ui_failed := True\<rparr>
              | Some value \<Rightarrow>
                  (case findAuthoritativeSSEUsage value of
                     None \<Rightarrow> i
                   | Some candidate \<Rightarrow> consumeNormalizedUsage candidate i)))"

fun writeSSE :: "(string \<Rightarrow> jsonAny option) \<Rightarrow> string \<Rightarrow> usageInspector \<Rightarrow> usageInspector" where
  "writeSSE decode [] i = i"
| "writeSSE decode (current # data) i =
     (if length (ui_sseEvent i) = maxUsageCaptureSize then disableInspection i
      else
        let event = ui_sseEvent i @ [current]; i = i\<lparr>ui_sseEvent := event\<rparr> in
        if current \<noteq> CHR 0x0A then writeSSE decode data i
        else
          let line = trimCR (drop (ui_sseLineStart i) (butlast event)) in
          if line \<noteq> [] then writeSSE decode data (i\<lparr>ui_sseLineStart := length event\<rparr>)
          else writeSSE decode data
            ((consumeSSEEvent decode (take (ui_sseLineStart i) event) i)\<lparr>ui_sseEvent := [], ui_sseLineStart := 0\<rparr>))"

section \<open>Writing and the result\<close>

definition ui_Write :: "(string \<Rightarrow> jsonAny option) \<Rightarrow> string \<Rightarrow> usageInspector \<Rightarrow> usageInspector" where
  "ui_Write decode data i =
     (if ui_disabled i \<or> ui_finalized i \<or> data = [] then i
      else if ui_format i = ''json'' then writeJSON decode data i
      else if ui_format i = ''sse'' then writeSSE decode data i
      else i)"

definition finalizeInspection :: "(string \<Rightarrow> jsonAny option) \<Rightarrow> usageInspector \<Rightarrow> usageInspector" where
  "finalizeInspection decode i =
     (if ui_finalized i then i
      else
        let i = i\<lparr>ui_finalized := True\<rparr> in
        if ui_format i = ''json'' then
          (let (v, complete) = jv_eof (ui_jsonValidator i); i = i\<lparr>ui_jsonValidator := v\<rparr> in
           if \<not> complete then i\<lparr>ui_failed := True, ui_usage := None\<rparr> else i)
        else if ui_format i = ''sse'' \<and> \<not> ui_disabled i \<and> ui_sseEvent i \<noteq> [] then
          (consumeSSEEvent decode (ui_sseEvent i) i)\<lparr>ui_sseEvent := [], ui_sseLineStart := 0\<rparr>
        else i)"

definition ui_Result ::
  "(string \<Rightarrow> jsonAny option) \<Rightarrow> usageInspector \<Rightarrow> usageInspector \<times> DomainTokenUsage option \<times> string \<times> bool" where
  "ui_Result decode i =
     (let i = finalizeInspection decode i in
      if ui_failed i then (i, ui_usage i, ui_format i, True) else (i, ui_usage i, [], False))"

end
