(* ===== verification/Json_Automaton.thy ===== *)
theory Json_Automaton
  imports Json_Validator
begin

text \<open>
  The validator as a pushdown automaton. A configuration is the scan state with the open containers,
  innermost first; rejection is \<open>None\<close>. \<open>lexical\<close> holds the moves inside a token, \<open>pda_step\<close> the
  others. The validator with its array, depth counter and flags refines it: \<open>abs\<close> commutes with
  every step, under an invariant that also shows that the array is never indexed out of range.
\<close>

section \<open>The automaton\<close>

type_synonym pda = "jsonScanState \<times> jsonParseState list"

fun lexical :: "jsonScanState \<Rightarrow> char \<Rightarrow> jsonScanState option" where
  "lexical jsonStateInString c =
     (if c = quote_byte then Some jsonStateEndValue
      else if c = backslash_byte then Some jsonStateInStringEscape
      else if byteval c < 32 then None else Some jsonStateInString)"
| "lexical jsonStateInStringEscape c =
     (if c \<in> {CHR ''b'', CHR ''f'', CHR ''n'', CHR ''r'', CHR ''t'', backslash_byte, CHR ''/'', quote_byte}
      then Some jsonStateInString
      else if c = CHR ''u'' then Some jsonStateInStringUnicode1 else None)"
| "lexical jsonStateInStringUnicode1 c = (if isHexByte c then Some jsonStateInStringUnicode2 else None)"
| "lexical jsonStateInStringUnicode2 c = (if isHexByte c then Some jsonStateInStringUnicode3 else None)"
| "lexical jsonStateInStringUnicode3 c = (if isHexByte c then Some jsonStateInStringUnicode4 else None)"
| "lexical jsonStateInStringUnicode4 c = (if isHexByte c then Some jsonStateInString else None)"
| "lexical jsonStateNegative c =
     (if c = CHR ''0'' then Some jsonStateZero else if isDigit19 c then Some jsonStateInteger else None)"
| "lexical jsonStateZero c =
     (if c = CHR ''.'' then Some jsonStateDecimalPoint
      else if c = CHR ''e'' \<or> c = CHR ''E'' then Some jsonStateExponent else None)"
| "lexical jsonStateInteger c =
     (if isDigitByte c then Some jsonStateInteger
      else if c = CHR ''.'' then Some jsonStateDecimalPoint
      else if c = CHR ''e'' \<or> c = CHR ''E'' then Some jsonStateExponent else None)"
| "lexical jsonStateDecimalPoint c = (if isDigitByte c then Some jsonStateDecimal else None)"
| "lexical jsonStateDecimal c =
     (if isDigitByte c then Some jsonStateDecimal
      else if c = CHR ''e'' \<or> c = CHR ''E'' then Some jsonStateExponent else None)"
| "lexical jsonStateExponent c =
     (if c = CHR ''+'' \<or> c = CHR ''-'' then Some jsonStateExponentSign
      else if isDigitByte c then Some jsonStateExponentDigits else None)"
| "lexical jsonStateExponentSign c = (if isDigitByte c then Some jsonStateExponentDigits else None)"
| "lexical jsonStateExponentDigits c = (if isDigitByte c then Some jsonStateExponentDigits else None)"
| "lexical jsonStateTrueR c = (if c = CHR ''r'' then Some jsonStateTrueU else None)"
| "lexical jsonStateTrueU c = (if c = CHR ''u'' then Some jsonStateTrueE else None)"
| "lexical jsonStateTrueE c = (if c = CHR ''e'' then Some jsonStateEndValue else None)"
| "lexical jsonStateFalseA c = (if c = CHR ''a'' then Some jsonStateFalseL else None)"
| "lexical jsonStateFalseL c = (if c = CHR ''l'' then Some jsonStateFalseS else None)"
| "lexical jsonStateFalseS c = (if c = CHR ''s'' then Some jsonStateFalseE else None)"
| "lexical jsonStateFalseE c = (if c = CHR ''e'' then Some jsonStateEndValue else None)"
| "lexical jsonStateNullU c = (if c = CHR ''u'' then Some jsonStateNullL1 else None)"
| "lexical jsonStateNullL1 c = (if c = CHR ''l'' then Some jsonStateNullL2 else None)"
| "lexical jsonStateNullL2 c = (if c = CHR ''l'' then Some jsonStateEndValue else None)"
| "lexical _ c = None"

definition closed_container :: "jsonParseState list \<Rightarrow> pda" where
  "closed_container stk = (if stk = [] then jsonStateEndTop else jsonStateEndValue, stk)"

fun pda_end :: "jsonParseState list \<Rightarrow> char \<Rightarrow> pda option" where
  "pda_end [] c = (if isJSONWhitespace c then Some (jsonStateEndTop, []) else None)"
| "pda_end (t # stk) c =
     (if isJSONWhitespace c then Some (jsonStateEndValue, t # stk)
      else case t of
        jsonParseObjectKey \<Rightarrow> if c = CHR '':'' then Some (jsonStateBeginValue, jsonParseObjectValue # stk) else None
      | jsonParseObjectValue \<Rightarrow>
          if c = CHR '','' then Some (jsonStateBeginString, jsonParseObjectKey # stk)
          else if c = CHR ''}'' then Some (closed_container stk) else None
      | jsonParseArrayValue \<Rightarrow>
          if c = CHR '','' then Some (jsonStateBeginValue, jsonParseArrayValue # stk)
          else if c = CHR '']'' then Some (closed_container stk) else None)"

definition open_container :: "jsonParseState \<Rightarrow> jsonScanState \<Rightarrow> jsonParseState list \<Rightarrow> pda option" where
  "open_container t q stk = (if length stk = maxJSONNestingDepth then None else Some (q, t # stk))"

definition pda_begin :: "jsonParseState list \<Rightarrow> char \<Rightarrow> pda option" where
  "pda_begin stk c =
     (if c = CHR ''{'' then open_container jsonParseObjectKey jsonStateBeginStringOrEmpty stk
      else if c = CHR ''['' then open_container jsonParseArrayValue jsonStateBeginValueOrEmpty stk
      else if c = quote_byte then Some (jsonStateInString, stk)
      else if c = CHR ''-'' then Some (jsonStateNegative, stk)
      else if c = CHR ''0'' then Some (jsonStateZero, stk)
      else if c = CHR ''t'' then Some (jsonStateTrueR, stk)
      else if c = CHR ''f'' then Some (jsonStateFalseA, stk)
      else if c = CHR ''n'' then Some (jsonStateNullU, stk)
      else if isDigit19 c then Some (jsonStateInteger, stk)
      else None)"

definition pda_key :: "jsonParseState list \<Rightarrow> char \<Rightarrow> pda option" where
  "pda_key stk c = (if c = quote_byte then Some (jsonStateInString, stk) else None)"

definition pda_structure :: "pda \<Rightarrow> char \<Rightarrow> pda option" where
  "pda_structure p c =
     (let (q, stk) = p in
      if q \<in> {jsonStateEndValue, jsonStateZero, jsonStateInteger, jsonStateDecimal, jsonStateExponentDigits}
      then pda_end stk c
      else if q \<notin> {jsonStateBeginValue, jsonStateBeginValueOrEmpty, jsonStateBeginStringOrEmpty,
                   jsonStateBeginString, jsonStateEndTop} then None
      else if isJSONWhitespace c then Some p
      else if q = jsonStateBeginValue then pda_begin stk c
      else if q = jsonStateBeginValueOrEmpty then (if c = CHR '']'' then pda_end stk c else pda_begin stk c)
      else if q = jsonStateBeginStringOrEmpty
        then (if c = CHR ''}'' then Some (closed_container (tl stk)) else pda_key stk c)
      else if q = jsonStateBeginString then pda_key stk c
      else None)"

definition pda_step :: "pda \<Rightarrow> char \<Rightarrow> pda option" where
  "pda_step p c =
     (case lexical (fst p) c of Some q \<Rightarrow> Some (q, snd p) | None \<Rightarrow> pda_structure p c)"

section \<open>Refinement\<close>

definition tops :: "incrementalJSONValidator \<Rightarrow> jsonParseState list" where
  "tops v = rev (take (jv_depth v) (jv_stack v))"

definition jv_abs :: "incrementalJSONValidator \<Rightarrow> pda option" where
  "jv_abs v = (if jv_failed v then None else Some (jv_state v, tops v))"

fun jv_shape :: "jsonScanState \<Rightarrow> jsonParseState list \<Rightarrow> bool" where
  "jv_shape jsonStateEndTop stk \<longleftrightarrow> stk = []"
| "jv_shape jsonStateBeginValueOrEmpty stk \<longleftrightarrow> stk \<noteq> [] \<and> hd stk = jsonParseArrayValue"
| "jv_shape jsonStateBeginStringOrEmpty stk \<longleftrightarrow> stk \<noteq> [] \<and> hd stk = jsonParseObjectKey"
| "jv_shape jsonStateBeginString stk \<longleftrightarrow> stk \<noteq> [] \<and> hd stk = jsonParseObjectKey"
| "jv_shape jsonStateError stk \<longleftrightarrow> False"
| "jv_shape _ stk \<longleftrightarrow> True"

definition jv_ok :: "incrementalJSONValidator \<Rightarrow> bool" where
  "jv_ok v \<longleftrightarrow> length (jv_stack v) = maxJSONNestingDepth \<and> jv_depth v \<le> maxJSONNestingDepth \<and>
     (if jv_failed v then jv_state v = jsonStateError
      else jv_shape (jv_state v) (tops v) \<and> (jv_endTop v \<longleftrightarrow> jv_state v = jsonStateEndTop))"

text \<open>A running validator, whatever the scan state: the array is in range and nothing has ended.\<close>

definition jv_running :: "incrementalJSONValidator \<Rightarrow> bool" where
  "jv_running v \<longleftrightarrow> length (jv_stack v) = maxJSONNestingDepth \<and> jv_depth v \<le> maxJSONNestingDepth \<and>
     \<not> jv_failed v \<and> \<not> jv_endTop v"

lemma running_ok: "jv_ok v \<Longrightarrow> \<not> jv_failed v \<Longrightarrow> jv_state v \<noteq> jsonStateEndTop \<Longrightarrow> jv_running v"
  by (simp add: jv_ok_def jv_running_def)

lemma length_tops: "jv_running v \<Longrightarrow> length (tops v) = jv_depth v"
  by (simp add: jv_running_def tops_def)

lemma tops_Nil_iff: "jv_running v \<Longrightarrow> tops v = [] \<longleftrightarrow> jv_depth v = 0"
  by (metis length_tops length_0_conv)

lemma take_Suc_update: "n < length xs \<Longrightarrow> take (Suc n) (xs[n := x]) = take n xs @ [x]"
  by (simp add: take_Suc_conv_app_nth)

lemma tops_cases:
  assumes "jv_running v" and "jv_depth v \<noteq> 0"
  obtains n where "jv_depth v = Suc n" and "n < length (jv_stack v)"
    and "tops v = jv_stack v ! n # rev (take n (jv_stack v))"
  using assms by (cases "jv_depth v") (auto simp: jv_running_def tops_def take_Suc_conv_app_nth)

text \<open>What a step must establish: the invariant, and the automaton's move.\<close>

definition refines :: "scanned \<Rightarrow> pda option \<Rightarrow> bool" where
  "refines r p \<longleftrightarrow> jv_ok (fst r) \<and> jv_abs (fst r) = p \<and> (snd r = jsonScanError \<longleftrightarrow> p = None)"

lemma refines_fail:
  "length (jv_stack v) = maxJSONNestingDepth \<Longrightarrow> jv_depth v \<le> maxJSONNestingDepth \<Longrightarrow> refines (jv_fail v) None"
  by (simp add: refines_def jv_fail_def jv_ok_def jv_abs_def)

lemma refines_fail_running: "jv_running v \<Longrightarrow> refines (jv_fail v) None"
  by (simp add: refines_fail jv_running_def)

lemma refines_goto:
  "jv_running v \<Longrightarrow> q \<noteq> jsonStateEndTop \<Longrightarrow> jv_shape q (tops v) \<Longrightarrow> refines (jv_goto q v) (Some (q, tops v))"
  by (simp add: refines_def jv_goto_def jv_ok_def jv_abs_def tops_def jv_running_def)

lemma refines_stay: "jv_ok v \<Longrightarrow> \<not> jv_failed v \<Longrightarrow> refines (v, jsonScanContinue) (Some (jv_state v, tops v))"
  by (simp add: refines_def jv_abs_def)

lemma setTop_running:
  assumes "jv_running v" and "jv_depth v \<noteq> 0"
  shows "jv_running (jv_setTop t v)" and "tops (jv_setTop t v) = t # tl (tops v)"
    and "jv_depth (jv_setTop t v) = jv_depth v"
proof -
  obtain n where n: "jv_depth v = Suc n" "n < length (jv_stack v)" "tops v = jv_stack v ! n # rev (take n (jv_stack v))"
    by (rule tops_cases [OF assms])
  show "tops (jv_setTop t v) = t # tl (tops v)"
    using n by (simp add: tops_def jv_setTop_def take_Suc_update)
  show "jv_running (jv_setTop t v)" "jv_depth (jv_setTop t v) = jv_depth v"
    using assms by (simp_all add: jv_running_def jv_setTop_def)
qed

lemma refines_push:
  assumes "jv_running v" and "q \<noteq> jsonStateEndTop" and "\<And>stk. jv_shape q (t # stk)"
  shows "refines (beginNested t q v) (open_container t q (tops v))"
proof (cases "jv_depth v = maxJSONNestingDepth")
  case True
  then show ?thesis
    using assms(1) refines_fail_running [OF assms(1)] length_tops [OF assms(1)]
    by (simp add: beginNested_def jv_push_def open_container_def jv_running_def refines_def)
next
  case False
  then have "jv_depth v < length (jv_stack v)" using assms(1) by (auto simp: jv_running_def)
  then have "tops (v\<lparr>jv_stack := (jv_stack v)[jv_depth v := t], jv_depth := jv_depth v + 1\<rparr>) = t # tops v"
    by (simp add: tops_def take_Suc_update)
  then show ?thesis
    using False assms length_tops [OF assms(1)]
    by (simp add: beginNested_def jv_push_def open_container_def jv_ok_def refines_def jv_goto_def jv_abs_def
        jv_running_def tops_def)
qed

lemma refines_pop:
  assumes "jv_running v" and "jv_depth v \<noteq> 0" and "op \<noteq> jsonScanError"
  shows "refines (jv_pop v, op) (Some (closed_container (tl (tops v))))"
proof -
  obtain n where n: "jv_depth v = Suc n" "n < length (jv_stack v)" "tops v = jv_stack v ! n # rev (take n (jv_stack v))"
    by (rule tops_cases [OF assms(1,2)])
  then have tn: "rev (take n (jv_stack v)) = [] \<longleftrightarrow> n = 0" by (cases "jv_stack v") auto
  show ?thesis
    using assms n tn
    by (auto simp: refines_def jv_pop_def Let_def jv_ok_def jv_abs_def closed_container_def tops_def jv_running_def)
qed

lemma refines_endValue:
  assumes "jv_running v"
  shows "refines (endValue c v) (pda_end (tops v) c)"
proof (cases "jv_depth v = 0")
  case True
  moreover have "tops v = []" using True by (simp add: tops_def)
  ultimately show ?thesis
    using assms by (auto simp: endValue_def Let_def refines_def jv_ok_def jv_abs_def tops_def jv_running_def jv_fail_def)
next
  case False
  then obtain n where n: "jv_depth v = Suc n" "tops v = jv_stack v ! n # rev (take n (jv_stack v))"
    by (rule tops_cases [OF assms])
  have top: "jv_stack v ! (jv_depth v - 1) = jv_stack v ! n" using n(1) by simp
  have set_top: "refines (jv_goto q (jv_setTop t v)) (Some (q, t # rev (take n (jv_stack v))))"
    if "q \<noteq> jsonStateEndTop" "jv_shape q (t # rev (take n (jv_stack v)))" for q t
    using refines_goto [of "jv_setTop t v" q] setTop_running [OF assms False, of t] that n(2) by simp
  have pop: "refines (jv_pop v, op) (Some (closed_container (rev (take n (jv_stack v)))))" if "op \<noteq> jsonScanError" for op
    using refines_pop [OF assms False that] n(2) by simp
  have stay: "refines (jv_goto q v) (Some (q, jv_stack v ! n # rev (take n (jv_stack v))))"
    if "q = jsonStateEndValue \<or> q = jsonStateBeginValue" for q
    using refines_goto [OF assms, of q] that n(2) by auto
  show ?thesis
    unfolding endValue_def top n(2) pda_end.simps
    using False set_top pop stay refines_fail_running [OF assms]
    by (cases "jv_stack v ! n") (auto split: if_splits)
qed

lemma refines_beginValue:
  assumes "jv_running v" and "jv_ok v"
  shows "refines (beginValue c v) (if isJSONWhitespace c then Some (jv_state v, tops v) else pda_begin (tops v) c)"
  using assms refines_stay [OF assms(2)] refines_goto [OF assms(1)] refines_fail_running [OF assms(1)]
    refines_push [OF assms(1)]
  by (simp add: beginValue_def pda_begin_def jv_running_def)

lemma refines_beginString:
  assumes "jv_running v" and "jv_ok v"
  shows "refines (beginString c v) (if isJSONWhitespace c then Some (jv_state v, tops v) else pda_key (tops v) c)"
  using assms refines_stay [OF assms(2)] refines_goto [OF assms(1)] refines_fail_running [OF assms(1)]
  by (simp add: beginString_def pda_key_def jv_running_def)

lemma close_empty_object:
  assumes "jv_running v" and "jv_depth v \<noteq> 0"
  shows "refines (endValue (CHR ''}'') (jv_setTop jsonParseObjectValue v)) (Some (closed_container (tl (tops v))))"
  using refines_endValue [OF setTop_running(1) [OF assms], of "CHR ''}''" jsonParseObjectValue]
    setTop_running(2) [OF assms, of jsonParseObjectValue]
  by (simp add: isJSONWhitespace_def byteval_def)

lemma stepStructure_refines:
  assumes "jv_ok v" and "\<not> jv_failed v"
    and "jv_state v \<in> {jsonStateBeginValue, jsonStateBeginValueOrEmpty, jsonStateBeginStringOrEmpty,
       jsonStateBeginString, jsonStateEndValue, jsonStateEndTop}"
  shows "refines (stepStructure c v) (pda_structure (jv_state v, tops v) c)"
proof (cases "jv_state v = jsonStateEndTop")
  case True
  then show ?thesis
    using assms refines_stay [OF assms(1,2)] refines_fail [of v]
    by (simp add: stepStructure_def pda_structure_def jv_ok_def)
next
  case False
  then have run: "jv_running v" by (rule running_ok [OF assms(1,2)])
  have shape: "jv_shape (jv_state v) (tops v)" using assms(1,2) by (simp add: jv_ok_def)
  have deep: "jv_depth v \<noteq> 0" if "tops v \<noteq> []" using tops_Nil_iff [OF run] that by simp
  consider "jv_state v = jsonStateBeginValue" | "jv_state v = jsonStateBeginValueOrEmpty"
    | "jv_state v = jsonStateBeginStringOrEmpty" | "jv_state v = jsonStateBeginString" | "jv_state v = jsonStateEndValue"
    using assms(3) False by blast
  then show ?thesis
    using refines_beginValue [OF run assms(1), of c] refines_endValue [OF run, of c] refines_stay [OF assms(1,2)]
      refines_beginString [OF run assms(1), of c] shape
    by cases (auto simp: stepStructure_def pda_structure_def intro!: close_empty_object [OF run] deep)
qed

lemma stepString_refines:
  assumes "jv_ok v" and "jv_running v"
  shows "case stepString c v of None \<Rightarrow> True | Some r \<Rightarrow> refines r (pda_step (jv_state v, tops v) c)"
  using refines_stay [OF assms(1)] assms(2)
  by (cases "jv_state v")
    (simp_all add: stepString_def pda_step_def pda_structure_def jv_unicode_def jv_running_def
      refines_goto [OF assms(2)] refines_fail_running [OF assms(2)])

lemma stepNumber_refines:
  assumes "jv_ok v" and "jv_running v"
  shows "case stepNumber c v of None \<Rightarrow> True | Some r \<Rightarrow> refines r (pda_step (jv_state v, tops v) c)"
  using refines_stay [OF assms(1)] assms(2) refines_endValue [OF assms(2), of c]
  by (cases "jv_state v")
    (simp_all add: stepNumber_def pda_step_def pda_structure_def exponentDigit_def afterInteger_def jv_running_def
      refines_goto [OF assms(2)] refines_fail_running [OF assms(2)])

lemma stepLiteral_refines:
  assumes "jv_ok v" and "jv_running v"
  shows "case stepLiteral c v of None \<Rightarrow> True | Some r \<Rightarrow> refines r (pda_step (jv_state v, tops v) c)"
  by (cases "jv_state v")
    (simp_all add: stepLiteral_def pda_step_def pda_structure_def jv_literal_def
      refines_goto [OF assms(2)] refines_fail_running [OF assms(2)])

lemma stepToken_refines:
  assumes "jv_ok v" and "\<not> jv_failed v"
    and "(case stepString c v of Some r \<Rightarrow> Some r | None \<Rightarrow>
           (case stepNumber c v of Some r \<Rightarrow> Some r | None \<Rightarrow> stepLiteral c v)) = Some r"
  shows "refines r (pda_step (jv_state v, tops v) c)"
proof -
  have "jv_state v \<noteq> jsonStateEndTop" using assms(3) by (auto simp: stepString_def stepNumber_def stepLiteral_def)
  then have "jv_running v" by (rule running_ok [OF assms(1,2)])
  note facts = stepString_refines [OF assms(1) this, of c] stepNumber_refines [OF assms(1) this, of c]
    stepLiteral_refines [OF assms(1) this, of c]
  show ?thesis using facts assms(3) by (simp split: option.splits)
qed

lemma stepByte_refines:
  assumes "jv_ok v" and "\<not> jv_failed v"
  shows "refines (stepByte c v) (pda_step (jv_state v, tops v) c)"
proof (cases "case stepString c v of Some r \<Rightarrow> Some r | None \<Rightarrow>
    (case stepNumber c v of Some r \<Rightarrow> Some r | None \<Rightarrow> stepLiteral c v)")
  case (Some r)
  then have "stepByte c v = r" using assms(2) by (auto simp: stepByte_def split: option.splits)
  with stepToken_refines [OF assms Some] show ?thesis by simp
next
  case None
  then have "stepByte c v = stepStructure c v" using assms(2) by (auto simp: stepByte_def split: option.splits)
  moreover have "jv_state v \<noteq> jsonStateError" using assms by (auto simp: jv_ok_def)
  then have q: "jv_state v \<in> {jsonStateBeginValue, jsonStateBeginValueOrEmpty, jsonStateBeginStringOrEmpty,
       jsonStateBeginString, jsonStateEndValue, jsonStateEndTop}"
    using None by (cases "jv_state v") (auto simp: stepString_def stepNumber_def stepLiteral_def)
  then have "pda_step (jv_state v, tops v) c = pda_structure (jv_state v, tops v) c"
    by (auto simp: pda_step_def)
  ultimately show ?thesis using stepStructure_refines [OF assms q] by simp
qed

section \<open>Runs\<close>

definition pda_run :: "pda option \<Rightarrow> string \<Rightarrow> pda option" where
  "pda_run p s = foldl (\<lambda>p c. Option.bind p (\<lambda>p. pda_step p c)) p s"

lemma pda_run_simps [simp]:
  "pda_run p [] = p" "pda_run p (c # s) = pda_run (Option.bind p (\<lambda>p. pda_step p c)) s"
  "pda_run p (s @ t) = pda_run (pda_run p s) t" "pda_run None s = None"
  by (simp_all add: pda_run_def) (induction s, simp_all)

lemma step_simulates:
  assumes "jv_ok v"
  shows "jv_ok (fst (stepByte c v))" and "jv_abs (fst (stepByte c v)) = pda_run (jv_abs v) [c]"
proof -
  show "jv_ok (fst (stepByte c v))"
    using assms stepByte_refines [OF assms, of c] by (cases "jv_failed v") (simp_all add: refines_def stepByte_def)
  show "jv_abs (fst (stepByte c v)) = pda_run (jv_abs v) [c]"
    using stepByte_refines [OF assms, of c]
    by (cases "jv_failed v") (simp_all add: refines_def stepByte_def jv_abs_def)
qed

lemma scan_simulates:
  assumes "jv_ok v"
  shows "jv_ok (scanBytes s v) \<and> jv_abs (scanBytes s v) = pda_run (jv_abs v) s"
  using assms
proof (induction s arbitrary: v)
  case (Cons c s)
  from Cons.IH [OF step_simulates(1) [OF Cons.prems, of c]] step_simulates(2) [OF Cons.prems, of c]
  show ?case by (simp add: scanBytes_def)
qed (simp add: scanBytes_def)

lemma eof_simulates:
  assumes "jv_ok v"
  shows "snd (jv_eof v) \<longleftrightarrow> pda_run (jv_abs v) '' '' = Some (jsonStateEndTop, [])"
proof (cases "jv_failed v")
  case True
  then show ?thesis by (simp add: jv_eof_def jv_abs_def)
next
  case False
  note ref = stepByte_refines [OF assms False, of "CHR '' ''"]
  have ok': "jv_ok (fst (stepByte (CHR '' '') v))" by (rule step_simulates(1) [OF assms])
  show ?thesis
  proof (cases "jv_endTop v")
    case True
    then show ?thesis
      using False assms by (auto simp: jv_eof_def jv_abs_def jv_ok_def pda_step_def pda_structure_def
          isJSONWhitespace_def byteval_def)
  next
    case more: False
    obtain v' op where v': "stepByte (CHR '' '') v = (v', op)" by (cases "stepByte (CHR '' '') v")
    show ?thesis
      using False more ref ok' v'
      by (auto simp: jv_eof_def refines_def jv_abs_def jv_ok_def split: if_splits)
  qed
qed

lemma reset_ok: "jv_ok (jv_reset zeroValidator)" and reset_abs: "jv_abs (jv_reset zeroValidator) = Some (jsonStateBeginValue, [])"
  by (simp_all add: jv_ok_def jv_reset_def zeroValidator_def jv_abs_def tops_def)

text \<open>C28: after any bytes the validator is in the configuration of the pushdown automaton: it has
  failed exactly when the automaton is stuck, its array and depth hold the automaton's stack, the depth
  never exceeds the array, the flag \<open>endTop\<close> is set exactly in the end state, and the verdict at the
  end of the body is the automaton's acceptance.\<close>

theorem validator_refines_automaton:
  "jv_abs (scanBytes s (jv_reset zeroValidator)) = pda_run (Some (jsonStateBeginValue, [])) s \<and>
   jv_ok (scanBytes s (jv_reset zeroValidator)) \<and>
   jv_depth (scanBytes s (jv_reset zeroValidator)) \<le> length (jv_stack (scanBytes s (jv_reset zeroValidator))) \<and>
   (validates s \<longleftrightarrow> pda_run (Some (jsonStateBeginValue, [])) (s @ '' '') = Some (jsonStateEndTop, []))"
proof -
  have sim: "jv_ok (scanBytes s (jv_reset zeroValidator))"
    "jv_abs (scanBytes s (jv_reset zeroValidator)) = pda_run (Some (jsonStateBeginValue, [])) s"
    using scan_simulates [OF reset_ok, of s] by (simp_all add: reset_abs)
  then show ?thesis
    using eof_simulates [OF sim(1)] by (simp add: validates_def jv_ok_def)
qed

lemma validates_run: "validates s \<longleftrightarrow> pda_run (Some (jsonStateBeginValue, [])) (s @ '' '') = Some (jsonStateEndTop, [])"
  using scan_simulates [OF reset_ok, of s] eof_simulates [of "scanBytes s (jv_reset zeroValidator)"]
  by (simp add: reset_abs validates_def)

end
