(* ===== verification/Json_Grammar.thy ===== *)
theory Json_Grammar
  imports Json_Automaton
begin

text \<open>
  The grammar of JSON (RFC 8259) over bytes with a bound on the nesting of containers, and the proof
  that the validator accepts exactly the texts of the grammar. \<open>accepts p s\<close> says that the automaton
  accepts the rest \<open>s\<close> of a body from the configuration \<open>p\<close>. Soundness reads a production off the
  automaton's run, by induction on the length of the rest; completeness is by rule induction on the
  grammar.
\<close>

section \<open>The grammar\<close>

definition ws :: "string \<Rightarrow> bool" where
  "ws s \<longleftrightarrow> list_all isJSONWhitespace s"

inductive string_body :: "string \<Rightarrow> bool" where
  body_empty: "string_body []"
| body_plain: "c \<noteq> quote_byte \<Longrightarrow> c \<noteq> backslash_byte \<Longrightarrow> 32 \<le> byteval c \<Longrightarrow> string_body s \<Longrightarrow> string_body (c # s)"
| body_escape: "e \<in> {CHR ''b'', CHR ''f'', CHR ''n'', CHR ''r'', CHR ''t'', backslash_byte, CHR ''/'', quote_byte} \<Longrightarrow>
    string_body s \<Longrightarrow> string_body (backslash_byte # e # s)"
| body_unicode: "isHexByte a \<Longrightarrow> isHexByte b \<Longrightarrow> isHexByte c \<Longrightarrow> isHexByte d \<Longrightarrow> string_body s \<Longrightarrow>
    string_body (backslash_byte # CHR ''u'' # a # b # c # d # s)"

definition json_string :: "string \<Rightarrow> bool" where
  "json_string s \<longleftrightarrow> (\<exists>b. s = quote_byte # b @ [quote_byte] \<and> string_body b)"

abbreviation digits :: "string \<Rightarrow> bool" where
  "digits s \<equiv> list_all isDigitByte s"

definition int_part :: "string \<Rightarrow> bool" where
  "int_part s \<longleftrightarrow> s = ''0'' \<or> (\<exists>d ds. s = d # ds \<and> isDigit19 d \<and> digits ds)"

definition frac_part :: "string \<Rightarrow> bool" where
  "frac_part s \<longleftrightarrow> s = [] \<or> (\<exists>ds. s = CHR ''.'' # ds \<and> ds \<noteq> [] \<and> digits ds)"

definition exp_part :: "string \<Rightarrow> bool" where
  "exp_part s \<longleftrightarrow> s = [] \<or>
     (\<exists>e sg ds. s = e # sg @ ds \<and> e \<in> {CHR ''e'', CHR ''E''} \<and> sg \<in> {[], ''+'', ''-''} \<and> ds \<noteq> [] \<and> digits ds)"

definition json_number :: "string \<Rightarrow> bool" where
  "json_number s \<longleftrightarrow>
     (\<exists>sg i f e. s = sg @ i @ f @ e \<and> sg \<in> {[], ''-''} \<and> int_part i \<and> frac_part f \<and> exp_part e)"

definition json_scalar :: "string \<Rightarrow> bool" where
  "json_scalar s \<longleftrightarrow> json_string s \<or> json_number s \<or> s \<in> {''true'', ''false'', ''null''}"

inductive json_value :: "nat \<Rightarrow> string \<Rightarrow> bool"
  and json_elements :: "nat \<Rightarrow> string \<Rightarrow> bool"
  and json_members :: "nat \<Rightarrow> string \<Rightarrow> bool" where
  value_scalar: "json_scalar s \<Longrightarrow> json_value n s"
| value_empty_array: "ws w \<Longrightarrow> json_value (Suc n) (CHR ''['' # w @ [CHR '']''])"
| value_array: "json_elements n b \<Longrightarrow> json_value (Suc n) (CHR ''['' # b @ [CHR '']''])"
| value_empty_object: "ws w \<Longrightarrow> json_value (Suc n) (CHR ''{'' # w @ [CHR ''}''])"
| value_object: "json_members n b \<Longrightarrow> json_value (Suc n) (CHR ''{'' # b @ [CHR ''}''])"
| elements_last: "ws w \<Longrightarrow> json_value n v \<Longrightarrow> ws u \<Longrightarrow> json_elements n (w @ v @ u)"
| elements_more: "ws w \<Longrightarrow> json_value n v \<Longrightarrow> ws u \<Longrightarrow> json_elements n b \<Longrightarrow>
    json_elements n (w @ v @ u @ CHR '','' # b)"
| members_last: "ws w \<Longrightarrow> json_string k \<Longrightarrow> ws x \<Longrightarrow> ws y \<Longrightarrow> json_value n v \<Longrightarrow> ws u \<Longrightarrow>
    json_members n (w @ k @ x @ CHR '':'' # y @ v @ u)"
| members_more: "ws w \<Longrightarrow> json_string k \<Longrightarrow> ws x \<Longrightarrow> ws y \<Longrightarrow> json_value n v \<Longrightarrow> ws u \<Longrightarrow> json_members n b \<Longrightarrow>
    json_members n (w @ k @ x @ CHR '':'' # y @ v @ u @ CHR '','' # b)"

definition json_text :: "nat \<Rightarrow> string \<Rightarrow> bool" where
  "json_text n s \<longleftrightarrow> (\<exists>w v u. s = w @ v @ u \<and> ws w \<and> json_value n v \<and> ws u)"

section \<open>Acceptance\<close>

definition accepts :: "pda \<Rightarrow> string \<Rightarrow> bool" where
  "accepts p s \<longleftrightarrow> pda_run (Some p) (s @ '' '') = Some (jsonStateEndTop, [])"

abbreviation after :: "jsonParseState list \<Rightarrow> string \<Rightarrow> bool" where
  "after stk s \<equiv> accepts (jsonStateEndValue, stk) s"

lemma accepts_Nil: "accepts p [] \<longleftrightarrow> pda_step p (CHR '' '') = Some (jsonStateEndTop, [])"
  by (simp add: accepts_def)

lemma accepts_Cons: "accepts p (c # s) \<longleftrightarrow> (\<exists>p'. pda_step p c = Some p' \<and> accepts p' s)"
  by (cases "pda_step p c") (simp_all add: accepts_def)

lemma accepts_step: "pda_step p c = Some p' \<Longrightarrow> accepts p (c # s) \<longleftrightarrow> accepts p' s"
  by (simp add: accepts_Cons)

lemma accepts_cong: "(\<And>c. pda_step p c = pda_step p' c) \<Longrightarrow> accepts p s \<longleftrightarrow> accepts p' s"
  by (cases s) (simp_all add: accepts_Nil accepts_Cons)

lemma ws_simps [simp]: "ws []" "ws (c # s) \<longleftrightarrow> isJSONWhitespace c \<and> ws s" "ws (s @ t) \<longleftrightarrow> ws s \<and> ws t"
  by (simp_all add: ws_def)

text \<open>Facts on the bytes that matter.\<close>

lemma space_ws [simp]: "isJSONWhitespace (CHR '' '')"
  by (simp add: isJSONWhitespace_def byteval_def)

lemma ws_bytes: "isJSONWhitespace c \<Longrightarrow> c \<in> {CHR '' '', CHR 0x09, CHR 0x0D, CHR 0x0A}"
proof -
  have inj: "c = d" if "byteval c = byteval d" for d :: char using that by (simp add: byteval_def)
  assume "isJSONWhitespace c"
  then show ?thesis
    using inj [of "CHR '' ''"] inj [of "CHR 0x09"] inj [of "CHR 0x0D"] inj [of "CHR 0x0A"]
    by (auto simp: isJSONWhitespace_def byteval_def)
qed

lemma not_ws [simp]:
  "\<not> isJSONWhitespace (CHR ''['')" "\<not> isJSONWhitespace (CHR '']'')" "\<not> isJSONWhitespace (CHR ''{'')"
  "\<not> isJSONWhitespace (CHR ''}'')" "\<not> isJSONWhitespace (CHR '','')" "\<not> isJSONWhitespace (CHR '':'')"
  "\<not> isJSONWhitespace quote_byte" "\<not> isJSONWhitespace (CHR ''-'')" "\<not> isJSONWhitespace (CHR ''0'')"
  "\<not> isJSONWhitespace (CHR ''t'')" "\<not> isJSONWhitespace (CHR ''f'')" "\<not> isJSONWhitespace (CHR ''n'')"
  by (simp_all add: isJSONWhitespace_def byteval_def)

lemma not_digit [simp]:
  "\<not> isDigitByte (CHR ''.'')" "\<not> isDigitByte (CHR ''e'')" "\<not> isDigitByte (CHR ''E'')" "\<not> isDigitByte (CHR ''+'')"
  "\<not> isDigitByte (CHR ''-'')"
  by (simp_all add: isDigitByte_def byteval_def)

lemma digit19_other:
  assumes "isDigit19 c"
  shows "\<not> isJSONWhitespace c" and "isDigitByte c" and "c \<notin> {CHR ''['', CHR '']'', CHR ''{'', CHR ''}'', quote_byte, CHR ''-'',
    CHR ''0'', CHR ''t'', CHR ''f'', CHR ''n''}"
  using assms by (auto simp: isJSONWhitespace_def isDigitByte_def byteval_def)

section \<open>White space\<close>

definition skips :: "pda \<Rightarrow> bool" where
  "skips p \<longleftrightarrow> fst p \<in> {jsonStateBeginValue, jsonStateBeginValueOrEmpty, jsonStateBeginStringOrEmpty, jsonStateBeginString} \<or>
     fst p = jsonStateEndValue \<and> snd p \<noteq> []"

lemma skips_step: "skips p \<Longrightarrow> isJSONWhitespace c \<Longrightarrow> pda_step p c = Some p"
  by (cases p; cases "snd p") (auto simp: skips_def pda_step_def pda_structure_def)

lemma skips_ws: "skips p \<Longrightarrow> ws w \<Longrightarrow> accepts p (w @ s) \<longleftrightarrow> accepts p s"
  by (induction w) (simp_all add: accepts_step skips_step)

lemma skips_next:
  assumes "skips p" and "accepts p s"
  obtains w c p' r where "s = w @ c # r" and "ws w" and "\<not> isJSONWhitespace c" and "pda_step p c = Some p'" and "accepts p' r"
proof -
  let ?w = "takeWhile isJSONWhitespace s" and ?u = "dropWhile isJSONWhitespace s"
  have w: "ws ?w" using set_takeWhileD by (fastforce simp: ws_def list_all_iff)
  have "accepts p ?u" using skips_ws [OF assms(1) w, of ?u] assms(2) by simp
  moreover have "\<not> accepts p []"
    using assms(1) skips_step [OF assms(1), of "CHR '' ''"] by (auto simp: accepts_Nil skips_def)
  ultimately obtain c r where u: "?u = c # r" by (cases ?u) auto
  then have "\<not> isJSONWhitespace c" by (simp add: dropWhile_eq_Cons_conv)
  moreover obtain p' where "pda_step p c = Some p'" "accepts p' r"
    using \<open>accepts p ?u\<close> u by (auto simp: accepts_Cons)
  moreover have "s = ?w @ c # r" using u by (metis takeWhile_dropWhile_id)
  ultimately show thesis using w by (intro that)
qed

lemma after_Nil: "after [] s \<longleftrightarrow> ws s"
proof -
  have "accepts (jsonStateEndTop, []) s \<longleftrightarrow> ws s"
    by (induction s) (auto simp: accepts_Nil accepts_Cons pda_step_def pda_structure_def)
  moreover have "after [] s \<longleftrightarrow> accepts (jsonStateEndTop, []) s"
    by (rule accepts_cong) (simp add: pda_step_def pda_structure_def)
  ultimately show ?thesis by simp
qed

lemma closed_after: "accepts (closed_container stk) s \<longleftrightarrow> after stk s"
proof (cases stk)
  case Nil
  show ?thesis
    unfolding Nil closed_container_def by (simp, rule accepts_cong) (simp add: pda_step_def pda_structure_def)
qed (simp add: closed_container_def)

section \<open>Strings\<close>

lemma string_complete:
  "string_body b \<Longrightarrow> accepts (jsonStateInString, stk) (b @ quote_byte # r) \<longleftrightarrow> after stk r"
  by (induction rule: string_body.induct) (auto simp: accepts_Cons pda_step_def)

lemma hex_next:
  assumes "accepts (q, stk) s"
    and "(q, q') \<in> {(jsonStateInStringUnicode1, jsonStateInStringUnicode2), (jsonStateInStringUnicode2, jsonStateInStringUnicode3),
      (jsonStateInStringUnicode3, jsonStateInStringUnicode4), (jsonStateInStringUnicode4, jsonStateInString)}"
  obtains a r where "s = a # r" and "isHexByte a" and "accepts (q', stk) r"
  using assms by (cases s) (auto simp: accepts_Nil accepts_Cons pda_step_def pda_structure_def split: if_splits)

lemma escape_sound:
  assumes "accepts (jsonStateInStringEscape, stk) s"
  obtains e r where "s = e @ r" and "\<And>b. string_body b \<Longrightarrow> string_body (backslash_byte # e @ b)"
    and "accepts (jsonStateInString, stk) r"
proof -
  obtain c t where s: "s = c # t" using assms by (cases s) (auto simp: accepts_Nil pda_step_def pda_structure_def)
  consider "c \<in> {CHR ''b'', CHR ''f'', CHR ''n'', CHR ''r'', CHR ''t'', backslash_byte, CHR ''/'', quote_byte}"
      "accepts (jsonStateInString, stk) t"
    | "c = CHR ''u''" "accepts (jsonStateInStringUnicode1, stk) t"
    using assms by (auto simp: s accepts_Cons pda_step_def pda_structure_def split: if_splits)
  then show thesis
  proof cases
    case 1
    then show thesis using s body_escape [OF 1(1)] by (intro that [of "[c]" t]) simp_all
  next
    case 2
    obtain a1 t1 where 3: "t = a1 # t1" "isHexByte a1" "accepts (jsonStateInStringUnicode2, stk) t1"
      by (rule hex_next [OF 2(2)]) simp
    obtain a2 t2 where 4: "t1 = a2 # t2" "isHexByte a2" "accepts (jsonStateInStringUnicode3, stk) t2"
      by (rule hex_next [OF 3(3)]) simp
    obtain a3 t3 where 5: "t2 = a3 # t3" "isHexByte a3" "accepts (jsonStateInStringUnicode4, stk) t3"
      by (rule hex_next [OF 4(3)]) simp
    obtain a4 t4 where 6: "t3 = a4 # t4" "isHexByte a4" "accepts (jsonStateInString, stk) t4"
      by (rule hex_next [OF 5(3)]) simp
    show thesis
      using body_unicode [OF 3(2) 4(2) 5(2) 6(2)] 6(3)
      by (intro that [of "[c, a1, a2, a3, a4]" t4]) (simp_all add: s 2(1) 3(1) 4(1) 5(1) 6(1))
  qed
qed

lemma string_sound:
  "accepts (jsonStateInString, stk) s \<Longrightarrow> \<exists>b r. s = b @ quote_byte # r \<and> string_body b \<and> after stk r"
proof (induction s rule: length_induct)
  case (1 s)
  show ?case
  proof (cases s)
    case Nil
    then show ?thesis using 1(2) by (simp add: accepts_Nil pda_step_def byteval_def)
  next
    case (Cons c t)
    have later: "\<exists>b r. u = b @ quote_byte # r \<and> string_body b \<and> after stk r"
      if "accepts (jsonStateInString, stk) u" "length u < length s" for u
      using 1(1) that by blast
    consider "c = quote_byte" | "c = backslash_byte" | "c \<noteq> quote_byte" "c \<noteq> backslash_byte" by blast
    then show ?thesis
    proof cases
      case 1
      then have "after stk t" using "1.prems" by (simp add: Cons accepts_Cons pda_step_def)
      then show ?thesis using 1 Cons body_empty by (intro exI [of _ "[]"] exI [of _ t]) simp
    next
      case 2
      then have "accepts (jsonStateInStringEscape, stk) t" using "1.prems" by (simp add: Cons accepts_Cons pda_step_def)
      then obtain e u where e: "t = e @ u" "\<And>b. string_body b \<Longrightarrow> string_body (backslash_byte # e @ b)"
        "accepts (jsonStateInString, stk) u" by (rule escape_sound) blast
      with later [of u] obtain b r where "u = b @ quote_byte # r" "string_body b" "after stk r" by (auto simp: Cons)
      then show ?thesis using 2 e by (intro exI [of _ "c # e @ b"] exI [of _ r]) (simp add: Cons)
    next
      case 3
      then have c: "32 \<le> byteval c" and "accepts (jsonStateInString, stk) t"
        using "1.prems" by (auto simp: Cons accepts_Cons pda_step_def pda_structure_def split: if_splits)
      with later [of t] obtain b r where "t = b @ quote_byte # r" "string_body b" "after stk r" by (auto simp: Cons)
      then show ?thesis using 3 c body_plain by (intro exI [of _ "c # b"] exI [of _ r]) (simp add: Cons)
    qed
  qed
qed

section \<open>Numbers\<close>

abbreviation number_end :: "jsonScanState set" where
  "number_end \<equiv> {jsonStateZero, jsonStateInteger, jsonStateDecimal, jsonStateExponentDigits}"

text \<open>A byte that may follow a value never continues a number.\<close>

lemma pda_end_byte: "pda_end stk c \<noteq> None \<Longrightarrow> q \<in> number_end \<Longrightarrow> lexical q c = None"
proof -
  assume "pda_end stk c \<noteq> None" and q: "q \<in> number_end"
  then have "isJSONWhitespace c \<or> c \<in> {CHR '':'', CHR '','', CHR ''}'', CHR '']''}"
    by (cases stk) (auto split: if_splits jsonParseState.splits)
  then have "c \<in> {CHR '' '', CHR 0x09, CHR 0x0D, CHR 0x0A, CHR '':'', CHR '','', CHR ''}'', CHR '']''}"
    using ws_bytes [of c] by blast
  with q show "lexical q c = None" by (auto simp: isDigitByte_def byteval_def)
qed

lemma number_end_step: "q \<in> number_end \<Longrightarrow> lexical q c = None \<Longrightarrow> pda_step (q, stk) c = pda_step (jsonStateEndValue, stk) c"
  by (auto simp: pda_step_def pda_structure_def)

lemma number_end_after:
  assumes "q \<in> number_end" and "after stk r"
  shows "accepts (q, stk) r"
proof -
  have "accepts (q, stk) (c # s) = accepts (jsonStateEndValue, stk) (c # s)" if "pda_step (jsonStateEndValue, stk) c \<noteq> None" for c s
  proof -
    have "pda_end stk c \<noteq> None" using that by (simp add: pda_step_def pda_structure_def)
    from number_end_step [OF assms(1) pda_end_byte [OF this assms(1)]] show ?thesis by (simp add: accepts_Cons)
  qed
  moreover have "lexical q (CHR '' '') = None" using assms(1) by (auto simp: isDigitByte_def byteval_def)
  ultimately show ?thesis
    using assms(2) number_end_step [OF assms(1), of "CHR '' ''" stk]
    by (cases r) (auto simp: accepts_Nil accepts_Cons)
qed

lemma digits_run: "q \<in> {jsonStateInteger, jsonStateDecimal, jsonStateExponentDigits} \<Longrightarrow> digits ds \<Longrightarrow>
  accepts (q, stk) (ds @ r) \<longleftrightarrow> accepts (q, stk) r"
  by (induction ds) (auto simp: accepts_Cons pda_step_def)

lemma digits_split:
  assumes "q \<in> {jsonStateInteger, jsonStateDecimal, jsonStateExponentDigits}" and "accepts (q, stk) s"
  obtains ds r where "s = ds @ r" and "digits ds" and "accepts (q, stk) r" and "r = [] \<or> \<not> isDigitByte (hd r)"
proof -
  have ds: "digits (takeWhile isDigitByte s)" using set_takeWhileD by (fastforce simp: list_all_iff)
  show thesis
    using digits_run [OF assms(1) ds, of stk "dropWhile isDigitByte s"] assms(2) ds hd_dropWhile [of isDigitByte s]
    by (intro that [of "takeWhile isDigitByte s" "dropWhile isDigitByte s"]) auto
qed

lemma number_end_leave:
  assumes "q \<in> number_end" and "accepts (q, stk) r" and "r \<noteq> [] \<Longrightarrow> lexical q (hd r) = None"
  shows "after stk r"
proof (cases r)
  case Nil
  have "lexical q (CHR '' '') = None" using assms(1) by (auto simp: isDigitByte_def byteval_def)
  then show ?thesis using assms number_end_step [OF assms(1), of "CHR '' ''" stk] Nil by (simp add: accepts_Nil)
next
  case (Cons c t)
  then show ?thesis using assms number_end_step [OF assms(1), of c stk] by (simp add: accepts_Cons)
qed

lemma exponent_digits_sound:
  assumes "accepts (jsonStateExponentDigits, stk) s"
  obtains ds r where "s = ds @ r" and "digits ds" and "after stk r"
proof -
  obtain ds r where 1: "s = ds @ r" "digits ds" "accepts (jsonStateExponentDigits, stk) r" "r = [] \<or> \<not> isDigitByte (hd r)"
    by (rule digits_split [OF _ assms]) simp
  have "after stk r" using 1(3,4) by (intro number_end_leave) auto
  then show thesis using that 1 by blast
qed

lemma exponent_digit_sound:
  assumes "accepts (q, stk) s" and "q = jsonStateExponentSign \<or> q = jsonStateExponent \<and> (s = [] \<or> hd s \<notin> {CHR ''+'', CHR ''-''})"
  obtains ds r where "s = ds @ r" and "ds \<noteq> []" and "digits ds" and "after stk r"
proof -
  obtain c t where c: "s = c # t" "isDigitByte c" "accepts (jsonStateExponentDigits, stk) t"
    using assms by (cases s) (auto simp: accepts_Nil accepts_Cons pda_step_def pda_structure_def isDigitByte_def byteval_def
        split: if_splits)
  obtain ds r where "t = ds @ r" "digits ds" "after stk r" by (rule exponent_digits_sound [OF c(3)])
  then show thesis using that [of "c # ds" r] c by simp
qed

lemma exponent_sound:
  assumes "accepts (jsonStateExponent, stk) s"
  obtains sg ds r where "s = sg @ ds @ r" and "sg \<in> {[], ''+'', ''-''}" and "ds \<noteq> []" and "digits ds" and "after stk r"
proof (cases "s \<noteq> [] \<and> hd s \<in> {CHR ''+'', CHR ''-''}")
  case True
  then obtain c t where c: "s = c # t" "c \<in> {CHR ''+'', CHR ''-''}" by (cases s) auto
  with assms have "accepts (jsonStateExponentSign, stk) t" by (auto simp: accepts_Cons pda_step_def)
  then obtain ds r where "t = ds @ r" "ds \<noteq> []" "digits ds" "after stk r" by (rule exponent_digit_sound) simp
  then show thesis using that [of "[c]" ds r] c by auto
next
  case False
  then have "jsonStateExponent = jsonStateExponentSign \<or>
      jsonStateExponent = jsonStateExponent \<and> (s = [] \<or> hd s \<notin> {CHR ''+'', CHR ''-''})" by simp
  then obtain ds r where "s = ds @ r" "ds \<noteq> []" "digits ds" "after stk r" by (rule exponent_digit_sound [OF assms])
  then show thesis using that [of "[]" ds r] by simp
qed

lemma exp_tail_sound:
  assumes "accepts (q, stk) s" and "q \<in> number_end" and "s \<noteq> [] \<Longrightarrow> lexical q (hd s) \<noteq> None \<Longrightarrow> hd s \<in> {CHR ''e'', CHR ''E''}"
    and "q \<noteq> jsonStateExponentDigits"
  obtains e r where "s = e @ r" and "exp_part e" and "after stk r"
proof (cases "s \<noteq> [] \<and> lexical q (hd s) \<noteq> None")
  case True
  with assms(3) obtain c t where c: "s = c # t" "c \<in> {CHR ''e'', CHR ''E''}" by (cases s) auto
  then have "accepts (jsonStateExponent, stk) t" using assms(1,2,4) by (auto simp: accepts_Cons pda_step_def)
  then obtain sg ds r where "t = sg @ ds @ r" "sg \<in> {[], ''+'', ''-''}" "ds \<noteq> []" "digits ds" "after stk r"
    by (rule exponent_sound)
  then show thesis using that [of "c # sg @ ds" r] c unfolding exp_part_def by auto
next
  case False
  then have "after stk s" using assms(1,2) by (intro number_end_leave [of q]) auto
  then show thesis using that [of "[]" s] by (simp add: exp_part_def)
qed

lemma decimal_sound:
  assumes "accepts (jsonStateDecimalPoint, stk) s"
  obtains ds e r where "s = ds @ e @ r" and "ds \<noteq> []" and "digits ds" and "exp_part e" and "after stk r"
proof -
  obtain c t where c: "s = c # t" "isDigitByte c" "accepts (jsonStateDecimal, stk) t"
    using assms by (cases s) (auto simp: accepts_Nil accepts_Cons pda_step_def pda_structure_def split: if_splits)
  obtain ds u where u: "t = ds @ u" "digits ds" "accepts (jsonStateDecimal, stk) u" "u = [] \<or> \<not> isDigitByte (hd u)"
    by (rule digits_split [OF _ c(3)]) simp
  obtain e r where "u = e @ r" "exp_part e" "after stk r"
    by (rule exp_tail_sound [OF u(3)]) (use u(4) in \<open>auto split: if_splits\<close>)
  then show thesis using that [of "c # ds" e r] c u by simp
qed

lemma fraction_sound:
  assumes "accepts (q, stk) s" and "q = jsonStateZero \<or> q = jsonStateInteger \<and> (s = [] \<or> \<not> isDigitByte (hd s))"
  obtains f e r where "s = f @ e @ r" and "frac_part f" and "exp_part e" and "after stk r"
proof (cases "s \<noteq> [] \<and> hd s = CHR ''.''")
  case True
  then obtain t where s: "s = CHR ''.'' # t" by (cases s) auto
  then have "accepts (jsonStateDecimalPoint, stk) t" using assms by (auto simp: accepts_Cons pda_step_def)
  then obtain ds e r where "t = ds @ e @ r" "ds \<noteq> []" "digits ds" "exp_part e" "after stk r" by (rule decimal_sound)
  then show thesis using that [of "CHR ''.'' # ds" e r] s by (simp add: frac_part_def)
next
  case False
  obtain e r where "s = e @ r" "exp_part e" "after stk r"
    by (rule exp_tail_sound [OF assms(1)]) (use False assms(2) in \<open>auto split: if_splits\<close>)
  then show thesis using that [of "[]" e r] by (simp add: frac_part_def)
qed

lemma integer_sound:
  assumes "accepts (jsonStateInteger, stk) s"
  obtains ds f e r where "s = ds @ f @ e @ r" and "digits ds" and "frac_part f" and "exp_part e" and "after stk r"
proof -
  obtain ds u where u: "s = ds @ u" "digits ds" "accepts (jsonStateInteger, stk) u" "u = [] \<or> \<not> isDigitByte (hd u)"
    by (rule digits_split [OF _ assms]) simp
  obtain f e r where "u = f @ e @ r" "frac_part f" "exp_part e" "after stk r"
    by (rule fraction_sound [OF u(3)]) (use u(4) in simp)
  then show thesis using that [of ds f e r] u by simp
qed

text \<open>A number without its sign, from its first digit on.\<close>

lemma unsigned_sound:
  assumes "accepts (q, stk) s" and "c = CHR ''0'' \<and> q = jsonStateZero \<or> isDigit19 c \<and> q = jsonStateInteger"
  obtains v r where "c # s = v @ r" and "json_number v" and "json_number (CHR ''-'' # v)" and "after stk r"
proof -
  obtain i f e r where 1: "c # s = i @ f @ e @ r" "int_part i" "frac_part f" "exp_part e" "after stk r"
  proof (cases "q = jsonStateZero")
    case True
    then obtain f e r where "s = f @ e @ r" "frac_part f" "exp_part e" "after stk r"
      using fraction_sound [OF assms(1)] by blast
    then show thesis using that [of "''0''" f e r] assms(2) True by (auto simp: int_part_def)
  next
    case False
    with assms have "accepts (jsonStateInteger, stk) s" "isDigit19 c" by auto
    then obtain ds f e r where "s = ds @ f @ e @ r" "digits ds" "frac_part f" "exp_part e" "after stk r"
      using integer_sound by blast
    then show thesis using that [of "c # ds" f e r] \<open>isDigit19 c\<close> by (auto simp: int_part_def)
  qed
  then have "json_number (sg @ i @ f @ e)" if "sg \<in> {[], ''-''}" for sg using that by (auto simp: json_number_def)
  from this [of "[]"] this [of "''-''"] show thesis using that [of "i @ f @ e" r] 1 by simp
qed

lemma number_sound:
  assumes "accepts p s" and "pda_begin stk c = Some p" and "c = CHR ''-'' \<or> c = CHR ''0'' \<or> isDigit19 c"
  obtains v r where "c # s = v @ r" and "json_number v" and "after stk r"
proof (cases "c = CHR ''-''")
  case True
  then have "accepts (jsonStateNegative, stk) s" using assms by (simp add: pda_begin_def)
  then obtain d t q where "s = d # t" "accepts (q, stk) t"
    "d = CHR ''0'' \<and> q = jsonStateZero \<or> isDigit19 d \<and> q = jsonStateInteger"
    by (cases s) (auto simp: accepts_Nil accepts_Cons pda_step_def pda_structure_def split: if_splits)
  with True show thesis using unsigned_sound [of q stk t d] that by (metis append_Cons)
next
  case False
  then have "\<exists>q. p = (q, stk) \<and> (c = CHR ''0'' \<and> q = jsonStateZero \<or> isDigit19 c \<and> q = jsonStateInteger)"
    using assms(2,3) digit19_other(3) [of c] by (auto simp: pda_begin_def)
  then show thesis using unsigned_sound [of _ stk s c] assms(1) that by metis
qed

lemma exponent_complete:
  assumes "ds \<noteq> []" and "digits ds" and "after stk r" and "sg \<in> {[], ''+'', ''-''}"
  shows "accepts (jsonStateExponent, stk) (sg @ ds @ r)"
proof -
  obtain d es where d: "ds = d # es" "isDigitByte d" "digits es" using assms(1,2) by (cases ds) auto
  have "accepts (jsonStateExponentDigits, stk) (es @ r)"
    using digits_run [of jsonStateExponentDigits es stk r] d(3) number_end_after [OF _ assms(3)] by simp
  then show ?thesis using assms(4) d(1,2) by (auto simp: accepts_Cons pda_step_def)
qed

lemma exp_complete:
  assumes "exp_part e" and "after stk r" and "q \<in> {jsonStateZero, jsonStateInteger, jsonStateDecimal}"
  shows "accepts (q, stk) (e @ r)"
proof (cases "e = []")
  case True
  then show ?thesis using number_end_after [OF _ assms(2), of q] assms(3) by auto
next
  case False
  with assms(1) obtain c sg ds where e: "e = c # sg @ ds" "c \<in> {CHR ''e'', CHR ''E''}" "sg \<in> {[], ''+'', ''-''}" "ds \<noteq> []" "digits ds"
    unfolding exp_part_def by blast
  have "pda_step (q, stk) c = Some (jsonStateExponent, stk)" using assms(3) e(2) by (auto simp: pda_step_def)
  then show ?thesis using exponent_complete [OF e(4,5) assms(2) e(3)] by (simp add: e(1) accepts_step)
qed

lemma frac_complete:
  assumes "frac_part f" and "exp_part e" and "after stk r" and "q \<in> {jsonStateZero, jsonStateInteger}"
  shows "accepts (q, stk) (f @ e @ r)"
proof (cases "f = []")
  case True
  then show ?thesis using exp_complete [OF assms(2,3), of q] assms(4) by auto
next
  case False
  with assms(1) obtain d ds where f: "f = CHR ''.'' # d # ds" "isDigitByte d" "digits ds"
    by (auto simp: frac_part_def neq_Nil_conv)
  have "accepts (jsonStateDecimal, stk) (ds @ e @ r)"
    using digits_run [of jsonStateDecimal ds stk "e @ r"] exp_complete [OF assms(2,3), of jsonStateDecimal] f(3) by simp
  then show ?thesis using assms(4) f(1,2) by (auto simp: accepts_Cons pda_step_def)
qed

lemma begin_step: "\<not> isJSONWhitespace c \<Longrightarrow> pda_step (jsonStateBeginValue, stk) c = pda_begin stk c"
  by (simp add: pda_step_def pda_structure_def)

lemma unsigned_complete:
  assumes "int_part i" and "frac_part f" and "exp_part e" and "after stk r"
  obtains c t q where "i @ f @ e @ r = c # t" and "c = CHR ''0'' \<and> q = jsonStateZero \<or> isDigit19 c \<and> q = jsonStateInteger"
    and "accepts (q, stk) t"
proof (cases "i = ''0''")
  case True
  then show thesis using that [of "CHR ''0''" "f @ e @ r" jsonStateZero] frac_complete [OF assms(2-4), of jsonStateZero] by simp
next
  case False
  with assms(1) obtain d ds where i: "i = d # ds" "isDigit19 d" "digits ds" unfolding int_part_def by blast
  have "accepts (jsonStateInteger, stk) (ds @ f @ e @ r)"
    using digits_run [of jsonStateInteger ds stk "f @ e @ r"] frac_complete [OF assms(2-4), of jsonStateInteger] i(3) by simp
  then show thesis using that [of d "ds @ f @ e @ r" jsonStateInteger] i by simp
qed

text \<open>A value starts here, and its rest is accepted.\<close>

definition begins :: "jsonParseState list \<Rightarrow> string \<Rightarrow> bool" where
  "begins stk u \<longleftrightarrow>
     (\<exists>c s p. u = c # s \<and> \<not> isJSONWhitespace c \<and> c \<noteq> CHR '']'' \<and> pda_begin stk c = Some p \<and> accepts p s)"

lemma beginsI: "\<not> isJSONWhitespace c \<Longrightarrow> c \<noteq> CHR '']'' \<Longrightarrow> pda_begin stk c = Some p \<Longrightarrow> accepts p s \<Longrightarrow> begins stk (c # s)"
  unfolding begins_def by blast

lemma begins_accepts:
  assumes "begins stk u" and "ws w"
  shows "accepts (jsonStateBeginValue, stk) (w @ u)" and "accepts (jsonStateBeginValueOrEmpty, stk) (w @ u)"
  using assms by (auto simp: begins_def skips_ws skips_def accepts_Cons pda_step_def pda_structure_def)

lemma number_complete:
  assumes "json_number v" and "after stk r"
  shows "begins stk (v @ r)"
proof -
  obtain sg i f e where v: "v = sg @ i @ f @ e" "sg \<in> {[], ''-''}" "int_part i" "frac_part f" "exp_part e"
    using assms(1) unfolding json_number_def by blast
  obtain c t q where c: "i @ f @ e @ r = c # t" "c = CHR ''0'' \<and> q = jsonStateZero \<or> isDigit19 c \<and> q = jsonStateInteger"
    "accepts (q, stk) t" by (rule unsigned_complete [OF v(3-5) assms(2)])
  have first: "\<not> isJSONWhitespace c" "c \<noteq> CHR '']''" "pda_begin stk c = Some (q, stk)"
    using c(2) digit19_other [of c] by (auto simp: pda_begin_def)
  show ?thesis
  proof (cases "sg = []")
    case True
    then have "v @ r = c # t" using v(1) c(1) by simp
    then show ?thesis using beginsI [OF first c(3)] by simp
  next
    case False
    then have "v @ r = CHR ''-'' # c # t" using v(1,2) c(1) by auto
    moreover have "pda_step (jsonStateNegative, stk) c = Some (q, stk)"
      using c(2) digit19_other(3) [of c] by (auto simp: pda_step_def)
    then have "accepts (jsonStateNegative, stk) (c # t)" using c(3) by (simp add: accepts_step)
    ultimately show ?thesis using beginsI [of "CHR ''-''" stk "(jsonStateNegative, stk)"] by (simp add: pda_begin_def)
  qed
qed

section \<open>Scalars\<close>

lemma literal_sound:
  "accepts (jsonStateTrueR, stk) s \<Longrightarrow> \<exists>r. s = ''rue'' @ r \<and> after stk r"
  "accepts (jsonStateFalseA, stk) s \<Longrightarrow> \<exists>r. s = ''alse'' @ r \<and> after stk r"
  "accepts (jsonStateNullU, stk) s \<Longrightarrow> \<exists>r. s = ''ull'' @ r \<and> after stk r"
proof -
  have next1: "\<exists>r. u = [c] @ r \<and> accepts (q', stk) r"
    if "accepts (q, stk) u" "\<And>d. pda_step (q, stk) d = (if d = c then Some (q', stk) else None)" "c \<noteq> CHR '' ''" for q u c q'
    using that by (cases u) (auto simp: accepts_Nil accepts_Cons split: if_splits)
  note simps = pda_step_def pda_structure_def
  show "\<exists>r. s = ''rue'' @ r \<and> after stk r" if "accepts (jsonStateTrueR, stk) s"
    using next1 [OF that, of "CHR ''r''" jsonStateTrueU] next1 [of jsonStateTrueU _ "CHR ''u''" jsonStateTrueE]
      next1 [of jsonStateTrueE _ "CHR ''e''" jsonStateEndValue]
    by (fastforce simp: simps)
  show "\<exists>r. s = ''alse'' @ r \<and> after stk r" if "accepts (jsonStateFalseA, stk) s"
    using next1 [OF that, of "CHR ''a''" jsonStateFalseL] next1 [of jsonStateFalseL _ "CHR ''l''" jsonStateFalseS]
      next1 [of jsonStateFalseS _ "CHR ''s''" jsonStateFalseE] next1 [of jsonStateFalseE _ "CHR ''e''" jsonStateEndValue]
    by (fastforce simp: simps)
  show "\<exists>r. s = ''ull'' @ r \<and> after stk r" if "accepts (jsonStateNullU, stk) s"
    using next1 [OF that, of "CHR ''u''" jsonStateNullL1] next1 [of jsonStateNullL1 _ "CHR ''l''" jsonStateNullL2]
      next1 [of jsonStateNullL2 _ "CHR ''l''" jsonStateEndValue]
    by (fastforce simp: simps)
qed

lemma scalar_complete:
  assumes "json_scalar v" and "after stk r"
  shows "begins stk (v @ r)"
proof -
  consider "json_string v" | "json_number v" | "v \<in> {''true'', ''false'', ''null''}"
    using assms(1) by (auto simp: json_scalar_def)
  then show ?thesis
  proof cases
    case 1
    then obtain b where "v = quote_byte # b @ [quote_byte]" "string_body b" by (auto simp: json_string_def)
    then show ?thesis 
      using string_complete [of b stk r] assms(2) beginsI [of quote_byte stk "(jsonStateInString, stk)"]
      by (simp add: pda_begin_def)
  next
    case 2
    then show ?thesis by (rule number_complete [OF _ assms(2)])
  next
    case 3
    moreover have "accepts (jsonStateTrueR, stk) (''rue'' @ r)" "accepts (jsonStateFalseA, stk) (''alse'' @ r)"
      "accepts (jsonStateNullU, stk) (''ull'' @ r)"
      using assms(2) by (simp_all add: accepts_Cons pda_step_def)
    ultimately show ?thesis
      using beginsI [of "CHR ''t''" stk "(jsonStateTrueR, stk)" "''rue'' @ r"]
        beginsI [of "CHR ''f''" stk "(jsonStateFalseA, stk)" "''alse'' @ r"]
        beginsI [of "CHR ''n''" stk "(jsonStateNullU, stk)" "''ull'' @ r"]
      by (auto simp: pda_begin_def)
  qed
qed

text \<open>The first byte of a value decides: a scalar, or a container to open.\<close>

lemma begin_sound:
  assumes "pda_begin stk c = Some p" and "accepts p s"
  obtains (scalar) v r where "c # s = v @ r" and "json_scalar v" and "after stk r"
  | (array) "c = CHR ''[''" and "length stk \<noteq> maxJSONNestingDepth" and "accepts (jsonStateBeginValueOrEmpty, jsonParseArrayValue # stk) s"
  | (object) "c = CHR ''{''" and "length stk \<noteq> maxJSONNestingDepth" and "accepts (jsonStateBeginStringOrEmpty, jsonParseObjectKey # stk) s"
proof -
  consider "c = CHR ''{''" | "c = CHR ''[''" | "c = quote_byte" | "c = CHR ''-'' \<or> c = CHR ''0'' \<or> isDigit19 c"
    | "c = CHR ''t''" | "c = CHR ''f''" | "c = CHR ''n''"
    using assms(1) by (auto simp: pda_begin_def split: if_splits)
  then show thesis
  proof cases
    case 1
    then show thesis using assms object by (auto simp: pda_begin_def open_container_def split: if_splits)
  next
    case 2
    then show thesis using assms array by (auto simp: pda_begin_def open_container_def split: if_splits)
  next
    case 3
    then have "accepts (jsonStateInString, stk) s" using assms by (simp add: pda_begin_def)
    then obtain b r where "s = b @ quote_byte # r" "string_body b" "after stk r" using string_sound by blast
    then show thesis using scalar [of "quote_byte # b @ [quote_byte]" r] 3 by (auto simp: json_scalar_def json_string_def)
  next
    case 4
    then obtain v r where "c # s = v @ r" "json_number v" "after stk r" by (rule number_sound [OF assms(2,1)])
    then show thesis using scalar by (auto simp: json_scalar_def)
  next
    case 5
    then have "accepts (jsonStateTrueR, stk) s" using assms by (simp add: pda_begin_def)
    then show thesis using literal_sound(1) scalar [of "''true''"] 5 by (fastforce simp: json_scalar_def)
  next
    case 6
    then have "accepts (jsonStateFalseA, stk) s" using assms by (simp add: pda_begin_def)
    then show thesis using literal_sound(2) scalar [of "''false''"] 6 by (fastforce simp: json_scalar_def)
  next
    case 7
    then have "accepts (jsonStateNullU, stk) s" using assms by (simp add: pda_begin_def)
    then show thesis using literal_sound(3) scalar [of "''null''"] 7 by (fastforce simp: json_scalar_def)
  qed
qed

section \<open>Containers\<close>

lemma after_array_sound:
  assumes "after (jsonParseArrayValue # stk) s"
  obtains (closed) w r where "s = w @ CHR '']'' # r" and "ws w" and "after stk r"
  | (more) w r where "s = w @ CHR '','' # r" and "ws w" and "accepts (jsonStateBeginValue, jsonParseArrayValue # stk) r"
proof -
  have "skips (jsonStateEndValue, jsonParseArrayValue # stk)" by (simp add: skips_def)
  then obtain w c p r where "s = w @ c # r" "ws w" "\<not> isJSONWhitespace c"
    "pda_step (jsonStateEndValue, jsonParseArrayValue # stk) c = Some p" "accepts p r" by (rule skips_next [OF _ assms])
  then show thesis
    using closed more by (auto simp: pda_step_def pda_structure_def closed_after split: if_splits)
qed

lemma after_key_sound:
  assumes "after (jsonParseObjectKey # stk) s"
  obtains w r where "s = w @ CHR '':'' # r" and "ws w" and "accepts (jsonStateBeginValue, jsonParseObjectValue # stk) r"
proof -
  have "skips (jsonStateEndValue, jsonParseObjectKey # stk)" by (simp add: skips_def)
  then obtain w c p r where "s = w @ c # r" "ws w" "\<not> isJSONWhitespace c"
    "pda_step (jsonStateEndValue, jsonParseObjectKey # stk) c = Some p" "accepts p r" by (rule skips_next [OF _ assms])
  then show thesis using that by (auto simp: pda_step_def pda_structure_def split: if_splits)
qed

lemma after_member_sound:
  assumes "after (jsonParseObjectValue # stk) s"
  obtains (closed) w r where "s = w @ CHR ''}'' # r" and "ws w" and "after stk r"
  | (more) w r where "s = w @ CHR '','' # r" and "ws w" and "accepts (jsonStateBeginString, jsonParseObjectKey # stk) r"
proof -
  have "skips (jsonStateEndValue, jsonParseObjectValue # stk)" by (simp add: skips_def)
  then obtain w c p r where "s = w @ c # r" "ws w" "\<not> isJSONWhitespace c"
    "pda_step (jsonStateEndValue, jsonParseObjectValue # stk) c = Some p" "accepts p r" by (rule skips_next [OF _ assms])
  then show thesis
    using closed more by (auto simp: pda_step_def pda_structure_def closed_after split: if_splits)
qed

lemma empty_array_sound:
  assumes "accepts (jsonStateBeginValueOrEmpty, jsonParseArrayValue # stk) s"
  obtains (closed) w r where "s = w @ CHR '']'' # r" and "ws w" and "after stk r"
  | (more) "accepts (jsonStateBeginValue, jsonParseArrayValue # stk) s"
proof -
  have "skips (jsonStateBeginValueOrEmpty, jsonParseArrayValue # stk)" by (simp add: skips_def)
  then obtain w c p r where 1: "s = w @ c # r" "ws w" "\<not> isJSONWhitespace c"
    "pda_step (jsonStateBeginValueOrEmpty, jsonParseArrayValue # stk) c = Some p" "accepts p r" by (rule skips_next [OF _ assms])
  show thesis
  proof (cases "c = CHR '']''")
    case True
    then have "after stk r" using 1(4,5) by (auto simp: pda_step_def pda_structure_def closed_after)
    then show thesis using closed 1(1,2) True by blast
  next
    case False
    then have "accepts (jsonStateBeginValue, jsonParseArrayValue # stk) (c # r)"
      using 1(3-5) by (simp add: accepts_step pda_step_def pda_structure_def)
    then show thesis using more 1(1,2) skips_ws by (simp add: skips_def)
  qed
qed

lemma empty_object_sound:
  assumes "accepts (jsonStateBeginStringOrEmpty, jsonParseObjectKey # stk) s"
  obtains (closed) w r where "s = w @ CHR ''}'' # r" and "ws w" and "after stk r"
  | (more) "accepts (jsonStateBeginString, jsonParseObjectKey # stk) s"
proof -
  have "skips (jsonStateBeginStringOrEmpty, jsonParseObjectKey # stk)" by (simp add: skips_def)
  then obtain w c p r where 1: "s = w @ c # r" "ws w" "\<not> isJSONWhitespace c"
    "pda_step (jsonStateBeginStringOrEmpty, jsonParseObjectKey # stk) c = Some p" "accepts p r" by (rule skips_next [OF _ assms])
  show thesis
  proof (cases "c = CHR ''}''")
    case True
    then have "after stk r" using 1(4,5) by (auto simp: pda_step_def pda_structure_def closed_after)
    then show thesis using closed 1(1,2) True by blast
  next
    case False
    then have "accepts (jsonStateBeginString, jsonParseObjectKey # stk) (c # r)"
      using 1(3-5) by (simp add: accepts_step pda_step_def pda_structure_def)
    then show thesis using more 1(1,2) skips_ws by (simp add: skips_def)
  qed
qed

lemma key_sound:
  assumes "accepts (jsonStateBeginString, jsonParseObjectKey # stk) s"
  obtains w k x r where "s = w @ k @ x @ CHR '':'' # r" and "ws w" and "json_string k" and "ws x"
    and "accepts (jsonStateBeginValue, jsonParseObjectValue # stk) r"
proof -
  have "skips (jsonStateBeginString, jsonParseObjectKey # stk)" by (simp add: skips_def)
  then obtain w c p r where 1: "s = w @ c # r" "ws w" "\<not> isJSONWhitespace c"
    "pda_step (jsonStateBeginString, jsonParseObjectKey # stk) c = Some p" "accepts p r" by (rule skips_next [OF _ assms])
  then have c: "c = quote_byte" "accepts (jsonStateInString, jsonParseObjectKey # stk) r"
    by (auto simp: pda_step_def pda_structure_def pda_key_def split: if_splits)
  from string_sound [OF c(2)] obtain b u where b: "r = b @ quote_byte # u" "string_body b" "after (jsonParseObjectKey # stk) u"
    by blast
  obtain x v where x: "u = x @ CHR '':'' # v" "ws x" "accepts (jsonStateBeginValue, jsonParseObjectValue # stk) v"
    by (rule after_key_sound [OF b(3)])
  show thesis
    using that [of w "quote_byte # b @ [quote_byte]" x v] 1(1,2) c(1) b(1,2) x by (auto simp: json_string_def)
qed

section \<open>Soundness\<close>

abbreviation room :: "jsonParseState list \<Rightarrow> nat" where
  "room stk \<equiv> maxJSONNestingDepth - length stk"

definition value_read :: "string \<Rightarrow> bool" where
  "value_read s \<longleftrightarrow> (\<forall>stk. accepts (jsonStateBeginValue, stk) s \<longrightarrow> length stk \<le> maxJSONNestingDepth \<longrightarrow>
     (\<exists>w v r. s = w @ v @ r \<and> ws w \<and> json_value (room stk) v \<and> after stk r))"

definition elements_read :: "string \<Rightarrow> bool" where
  "elements_read s \<longleftrightarrow> (\<forall>stk. accepts (jsonStateBeginValue, jsonParseArrayValue # stk) s \<longrightarrow> length stk < maxJSONNestingDepth \<longrightarrow>
     (\<exists>b r. s = b @ CHR '']'' # r \<and> json_elements (room (jsonParseArrayValue # stk)) b \<and> after stk r))"

definition members_read :: "string \<Rightarrow> bool" where
  "members_read s \<longleftrightarrow> (\<forall>stk. accepts (jsonStateBeginString, jsonParseObjectKey # stk) s \<longrightarrow> length stk < maxJSONNestingDepth \<longrightarrow>
     (\<exists>b r. s = b @ CHR ''}'' # r \<and> json_members (room (jsonParseObjectKey # stk)) b \<and> after stk r))"

lemma value_readD:
  assumes "value_read s" and "accepts (jsonStateBeginValue, stk) s" and "length stk \<le> maxJSONNestingDepth"
  obtains w v r where "s = w @ v @ r" and "ws w" and "json_value (room stk) v" and "after stk r"
  using assms unfolding value_read_def by blast

lemma room_Suc: "length stk < maxJSONNestingDepth \<Longrightarrow> room stk = Suc (room (t # stk))"
  by simp

lemma value_read_step:
  assumes "\<And>t. length t < length s \<Longrightarrow> elements_read t \<and> members_read t"
  shows "value_read s"
  unfolding value_read_def
proof (intro allI impI)
  fix stk
  assume acc: "accepts (jsonStateBeginValue, stk) s" and len: "length stk \<le> maxJSONNestingDepth"
  have "skips (jsonStateBeginValue, stk)" by (simp add: skips_def)
  then obtain w c p t where 1: "s = w @ c # t" "ws w" "\<not> isJSONWhitespace c"
    "pda_step (jsonStateBeginValue, stk) c = Some p" "accepts p t" by (rule skips_next [OF _ acc])
  have "pda_begin stk c = Some p" using 1(3,4) by (simp add: begin_step)
  then have "\<exists>v r. c # t = v @ r \<and> json_value (room stk) v \<and> after stk r" using 1(5)
  proof (cases rule: begin_sound)
    case (scalar v r)
    then show ?thesis using value_scalar by blast
  next
    case array
    then have n: "length stk < maxJSONNestingDepth" using len by simp
    from array(3) show ?thesis
    proof (cases rule: empty_array_sound)
      case (closed u r)
      have "json_value (room stk) (CHR ''['' # u @ [CHR '']''])"
        unfolding room_Suc [OF n, of jsonParseArrayValue] by (rule value_empty_array [OF closed(2)])
      moreover have "c # t = (CHR ''['' # u @ [CHR '']'']) @ r" using array(1) closed(1) by simp
      ultimately show ?thesis using closed(3) by blast
    next
      case more
      obtain b r where b: "t = b @ CHR '']'' # r" "json_elements (room (jsonParseArrayValue # stk)) b" "after stk r"
        using assms [of t] more n 1(1) unfolding elements_read_def by auto
      have "json_value (room stk) (CHR ''['' # b @ [CHR '']''])"
        unfolding room_Suc [OF n, of jsonParseArrayValue] by (rule value_array [OF b(2)])
      moreover have "c # t = (CHR ''['' # b @ [CHR '']'']) @ r" using array(1) b(1) by simp
      ultimately show ?thesis using b(3) by blast
    qed
  next
    case object
    then have n: "length stk < maxJSONNestingDepth" using len by simp
    from object(3) show ?thesis
    proof (cases rule: empty_object_sound)
      case (closed u r)
      have "json_value (room stk) (CHR ''{'' # u @ [CHR ''}''])"
        unfolding room_Suc [OF n, of jsonParseObjectKey] by (rule value_empty_object [OF closed(2)])
      moreover have "c # t = (CHR ''{'' # u @ [CHR ''}'']) @ r" using object(1) closed(1) by simp
      ultimately show ?thesis using closed(3) by blast
    next
      case more
      obtain b r where b: "t = b @ CHR ''}'' # r" "json_members (room (jsonParseObjectKey # stk)) b" "after stk r"
        using assms [of t] more n 1(1) unfolding members_read_def by auto
      have "json_value (room stk) (CHR ''{'' # b @ [CHR ''}''])"
        unfolding room_Suc [OF n, of jsonParseObjectKey] by (rule value_object [OF b(2)])
      moreover have "c # t = (CHR ''{'' # b @ [CHR ''}'']) @ r" using object(1) b(1) by simp
      ultimately show ?thesis using b(3) by blast
    qed
  qed
  then show "\<exists>w v r. s = w @ v @ r \<and> ws w \<and> json_value (room stk) v \<and> after stk r" using 1(1,2) by metis
qed

lemma elements_read_step:
  assumes "value_read s" and "\<And>t. length t < length s \<Longrightarrow> elements_read t"
  shows "elements_read s"
  unfolding elements_read_def
proof (intro allI impI)
  fix stk
  assume acc: "accepts (jsonStateBeginValue, jsonParseArrayValue # stk) s" and n: "length stk < maxJSONNestingDepth"
  let ?n = "room (jsonParseArrayValue # stk)"
  obtain w v r where v: "s = w @ v @ r" "ws w" "json_value ?n v" "after (jsonParseArrayValue # stk) r"
    by (rule value_readD [OF assms(1) acc]) (use n in simp)
  from v(4) show "\<exists>b r. s = b @ CHR '']'' # r \<and> json_elements ?n b \<and> after stk r"
  proof (cases rule: after_array_sound)
    case (closed u t)
    then show ?thesis using elements_last [OF v(2,3) closed(2)] v(1) by (intro exI [of _ "w @ v @ u"] exI [of _ t]) simp
  next
    case (more u t)
    then obtain b r' where "t = b @ CHR '']'' # r'" "json_elements ?n b" "after stk r'"
      using assms(2) [of t] n v(1) unfolding elements_read_def by auto
    then show ?thesis
      using elements_more [OF v(2,3) more(2)] v(1) more(1)
      by (intro exI [of _ "w @ v @ u @ CHR '','' # b"] exI [of _ r']) simp
  qed
qed

lemma members_read_step:
  assumes "\<And>t. length t < length s \<Longrightarrow> value_read t \<and> members_read t"
  shows "members_read s"
  unfolding members_read_def
proof (intro allI impI)
  fix stk
  assume acc: "accepts (jsonStateBeginString, jsonParseObjectKey # stk) s" and n: "length stk < maxJSONNestingDepth"
  let ?n = "room (jsonParseObjectKey # stk)"
  obtain w k x t where k: "s = w @ k @ x @ CHR '':'' # t" "ws w" "json_string k" "ws x"
    "accepts (jsonStateBeginValue, jsonParseObjectValue # stk) t" by (rule key_sound [OF acc])
  have "value_read t" using assms [of t] k(1) by simp
  then obtain y v r where v: "t = y @ v @ r" "ws y" "json_value (room (jsonParseObjectValue # stk)) v"
    "after (jsonParseObjectValue # stk) r"
    by (rule value_readD [OF _ k(5)]) (use n in simp)
  have val: "json_value ?n v" using v(3) by simp
  from v(4) show "\<exists>b r. s = b @ CHR ''}'' # r \<and> json_members ?n b \<and> after stk r"
  proof (cases rule: after_member_sound)
    case (closed u r')
    then show ?thesis
      using members_last [OF k(2-4) v(2) val closed(2)] k(1) v(1)
      by (intro exI [of _ "w @ k @ x @ CHR '':'' # y @ v @ u"] exI [of _ r']) simp
  next
    case (more u r')
    then obtain b r'' where "r' = b @ CHR ''}'' # r''" "json_members ?n b" "after stk r''"
      using assms [of r'] n k(1) v(1) unfolding members_read_def by auto
    then show ?thesis
      using members_more [OF k(2-4) v(2) val more(2)] k(1) v(1) more(1)
      by (intro exI [of _ "w @ k @ x @ CHR '':'' # y @ v @ u @ CHR '','' # b"] exI [of _ r'']) simp
  qed
qed

lemma json_read: "value_read s \<and> elements_read s \<and> members_read s"
proof (induction s rule: length_induct)
  case (1 s)
  have "value_read s" by (rule value_read_step) (use 1 in blast)
  moreover have "elements_read s" by (rule elements_read_step [OF calculation]) (use 1 in blast)
  moreover have "members_read s" by (rule members_read_step) (use 1 in blast)
  ultimately show ?case by blast
qed

section \<open>Completeness\<close>

lemma open_begins:
  assumes "length stk < maxJSONNestingDepth"
  shows "accepts (jsonStateBeginValueOrEmpty, jsonParseArrayValue # stk) s \<Longrightarrow> begins stk (CHR ''['' # s)"
    and "accepts (jsonStateBeginStringOrEmpty, jsonParseObjectKey # stk) s \<Longrightarrow> begins stk (CHR ''{'' # s)"
  using assms beginsI [of "CHR ''[''" stk "(jsonStateBeginValueOrEmpty, jsonParseArrayValue # stk)" s]
    beginsI [of "CHR ''{''" stk "(jsonStateBeginStringOrEmpty, jsonParseObjectKey # stk)" s]
  by (simp_all add: pda_begin_def open_container_def)

lemma after_array:
  assumes "ws u"
  shows "after (jsonParseArrayValue # stk) (u @ CHR '']'' # r) \<longleftrightarrow> after stk r"
    and "after (jsonParseArrayValue # stk) (u @ CHR '','' # r) \<longleftrightarrow> accepts (jsonStateBeginValue, jsonParseArrayValue # stk) r"
    and "accepts (jsonStateBeginValueOrEmpty, jsonParseArrayValue # stk) (u @ CHR '']'' # r) \<longleftrightarrow> after stk r"
  using assms closed_after [of stk r]
  by (simp_all add: skips_ws skips_def accepts_step pda_step_def pda_structure_def)

lemma after_object:
  assumes "ws u"
  shows "after (jsonParseObjectValue # stk) (u @ CHR ''}'' # r) \<longleftrightarrow> after stk r"
    and "after (jsonParseObjectValue # stk) (u @ CHR '','' # r) \<longleftrightarrow> accepts (jsonStateBeginString, jsonParseObjectKey # stk) r"
    and "after (jsonParseObjectKey # stk) (u @ CHR '':'' # r) \<longleftrightarrow> accepts (jsonStateBeginValue, jsonParseObjectValue # stk) r"
    and "accepts (jsonStateBeginStringOrEmpty, jsonParseObjectKey # stk) (u @ CHR ''}'' # r) \<longleftrightarrow> after stk r"
  using assms closed_after [of stk r]
  by (simp_all add: skips_ws skips_def accepts_step pda_step_def pda_structure_def)

lemma key_complete:
  assumes "ws w" and "json_string k" and "ws x" and "accepts (jsonStateBeginValue, jsonParseObjectValue # stk) r"
  shows "accepts (jsonStateBeginString, jsonParseObjectKey # stk) (w @ k @ x @ CHR '':'' # r)"
    and "accepts (jsonStateBeginStringOrEmpty, jsonParseObjectKey # stk) (w @ k @ x @ CHR '':'' # r)"
proof -
  obtain b where b: "k = quote_byte # b @ [quote_byte]" "string_body b" using assms(2) by (auto simp: json_string_def)
  have "accepts (jsonStateInString, jsonParseObjectKey # stk) (b @ quote_byte # x @ CHR '':'' # r)"
    using string_complete [OF b(2)] after_object(3) [OF assms(3)] assms(4) by blast
  then show "accepts (jsonStateBeginString, jsonParseObjectKey # stk) (w @ k @ x @ CHR '':'' # r)"
    and "accepts (jsonStateBeginStringOrEmpty, jsonParseObjectKey # stk) (w @ k @ x @ CHR '':'' # r)"
    using assms(1) b(1) by (simp_all add: skips_ws skips_def accepts_step pda_step_def pda_structure_def pda_key_def)
qed

lemma json_complete:
  "json_value n v \<Longrightarrow> (\<And>stk r. n + length stk \<le> maxJSONNestingDepth \<Longrightarrow> after stk r \<Longrightarrow> begins stk (v @ r))"
  "json_elements n b \<Longrightarrow> (\<And>stk r. n + length stk < maxJSONNestingDepth \<Longrightarrow> after stk r \<Longrightarrow>
     accepts (jsonStateBeginValue, jsonParseArrayValue # stk) (b @ CHR '']'' # r) \<and>
     accepts (jsonStateBeginValueOrEmpty, jsonParseArrayValue # stk) (b @ CHR '']'' # r))"
  "json_members n b \<Longrightarrow> (\<And>stk r. n + length stk < maxJSONNestingDepth \<Longrightarrow> after stk r \<Longrightarrow>
     accepts (jsonStateBeginString, jsonParseObjectKey # stk) (b @ CHR ''}'' # r) \<and>
     accepts (jsonStateBeginStringOrEmpty, jsonParseObjectKey # stk) (b @ CHR ''}'' # r))"
proof (induction rule: json_value_json_elements_json_members.inducts)
  case (value_scalar s n)
  then show ?case by (simp add: scalar_complete)
next
  case (value_empty_array w n)
  then show ?case using open_begins(1) after_array(3) by simp
next
  case (value_array n b)
  then show ?case using open_begins(1) by simp
next
  case (value_empty_object w n)
  then show ?case using open_begins(2) after_object(4) by simp
next
  case (value_object n b)
  then show ?case using open_begins(2) by simp
next
  case (elements_last w n v u)
  have "after (jsonParseArrayValue # stk) (u @ CHR '']'' # r)" using elements_last by (simp add: after_array)
  from elements_last.IH [OF _ this] elements_last.prems
  have "begins (jsonParseArrayValue # stk) (v @ u @ CHR '']'' # r)" by simp
  from begins_accepts [OF this elements_last.hyps(1)] show ?case by simp
next
  case (elements_more w n v u b)
  have "after (jsonParseArrayValue # stk) (u @ CHR '','' # b @ CHR '']'' # r)" using elements_more by (simp add: after_array)
  from elements_more.IH(1) [OF _ this] elements_more.prems
  have "begins (jsonParseArrayValue # stk) (v @ u @ CHR '','' # b @ CHR '']'' # r)" by simp
  from begins_accepts [OF this elements_more.hyps(1)] show ?case by simp
next
  case (members_last w k x y n v u)
  have "after (jsonParseObjectValue # stk) (u @ CHR ''}'' # r)" using members_last by (simp add: after_object)
  from members_last.IH [OF _ this] members_last.prems
  have "begins (jsonParseObjectValue # stk) (v @ u @ CHR ''}'' # r)" by simp
  from key_complete [OF members_last.hyps(1-3) begins_accepts(1) [OF this members_last.hyps(4)]] show ?case by simp
next
  case (members_more w k x y n v u b)
  have "after (jsonParseObjectValue # stk) (u @ CHR '','' # b @ CHR ''}'' # r)" using members_more by (simp add: after_object)
  from members_more.IH(1) [OF _ this] members_more.prems
  have "begins (jsonParseObjectValue # stk) (v @ u @ CHR '','' # b @ CHR ''}'' # r)" by simp
  from key_complete [OF members_more.hyps(1-3) begins_accepts(1) [OF this members_more.hyps(4)]] show ?case by simp
qed

section \<open>Correctness of the validator\<close>

lemma scan_chunks: "fold scanBytes chunks v = scanBytes (concat chunks) v"
  by (induction chunks arbitrary: v) (simp_all add: scanBytes_def)

lemma validates_json: "validates s \<longleftrightarrow> json_text maxJSONNestingDepth s"
proof -
  have "validates s \<longleftrightarrow> accepts (jsonStateBeginValue, []) s" by (simp add: validates_run accepts_def)
  moreover have "json_text maxJSONNestingDepth s" if acc: "accepts (jsonStateBeginValue, []) s"
  proof -
    have "value_read s" using json_read by blast
    then obtain w v r where "s = w @ v @ r" "ws w" "json_value (room []) v" "after [] r"
      by (rule value_readD [OF _ acc]) simp
    then show ?thesis by (auto simp: json_text_def after_Nil)
  qed
  moreover have "accepts (jsonStateBeginValue, []) s" if json: "json_text maxJSONNestingDepth s"
  proof -
    obtain w v u where "s = w @ v @ u" "ws w" "json_value maxJSONNestingDepth v" "ws u"
      using json unfolding json_text_def by blast
    then show ?thesis using json_complete(1) [of maxJSONNestingDepth v "[]" u] begins_accepts(1) by (simp add: after_Nil)
  qed
  ultimately show ?thesis by blast
qed

text \<open>C3: the validator accepts a body exactly when it is a JSON text of the grammar in which
  containers are nested at most 256 deep, however the body was cut into chunks.\<close>

theorem validator_accepts_exactly_json:
  "snd (jv_eof (fold scanBytes chunks (jv_reset zeroValidator))) \<longleftrightarrow> json_text maxJSONNestingDepth (concat chunks)"
  using validates_json [of "concat chunks"] by (simp add: scan_chunks validates_def)

end
