(* ===== verification/Usage_Properties.thy ===== *)
theory Usage_Properties
  imports Usage_Inspector Json_Grammar "HOL-Library.Code_Target_Nat"
begin

text \<open>
  What the usage inspector guarantees for every decoder and every way a body is cut into chunks: its
  buffers stay within their limits, and a usage is reported only if it is consistent, no invalid
  candidate was seen and, for a JSON body, the whole body is a JSON text.
\<close>

section \<open>Token counts\<close>

abbreviation tokenRange :: "int set" where
  "tokenRange \<equiv> {0..<2 ^ 63}"

definition usage_ok :: "DomainTokenUsage \<Rightarrow> bool" where
  "usage_ok u \<longleftrightarrow> DU_InputTokens u \<in> tokenRange \<and> DU_OutputTokens u \<in> tokenRange \<and>
     (case DU_CacheReadTokens u of None \<Rightarrow> True | Some c \<Rightarrow> 0 \<le> c \<and> c \<le> DU_InputTokens u)"

lemma parseInt64_less: "parseInt64 s = Some n \<Longrightarrow> n < 2 ^ 63"
  by (auto simp: parseInt64_def Let_def split: option.splits if_splits)

lemma parseTokenCount_range: "parseTokenCount v = Some n \<Longrightarrow> n \<in> tokenRange"
  by (auto simp: parseTokenCount_def split: jsonAny.splits option.splits if_splits dest: parseInt64_less)

lemma normalize_ok: "normalizeTokenUsage v = (Some u, valid, bad) \<Longrightarrow> usage_ok u \<and> valid"
  by (auto simp: normalizeTokenUsage_def usage_ok_def Let_def dest!: parseTokenCount_range
      split: jsonAny.splits option.splits prod.splits if_splits)

lemma normalize_None: "normalizeTokenUsage v = (None, valid, bad) \<Longrightarrow> \<not> valid"
  by (auto simp: normalizeTokenUsage_def Let_def split: jsonAny.splits option.splits prod.splits if_splits)

lemma byteval_digit: "n < 10 \<Longrightarrow> byteval (char_of (48 + n)) = 48 + n"
  by (simp add: byteval_def)

lemma decimalValue_snoc: "decimalValue (ds @ [c]) = 10 * decimalValue ds + (byteval c - 48)"
  by (simp add: decimalValue_def)

lemma natDigits_value: "decimalValue (natDigits n) = n"
proof (induction n rule: natDigits.induct)
  case (1 n)
  then show ?case by (subst natDigits.simps) (simp add: decimalValue_snoc byteval_digit decimalValue_def)
qed

lemma natDigits_digits: "list_all isDigitByte (natDigits n)"
proof (induction n rule: natDigits.induct)
  case (1 n)
  have "isDigitByte (char_of (48 + m))" if "m < 10" for m :: nat using that by (simp add: isDigitByte_def byteval_digit)
  then show ?case using 1 by (subst natDigits.simps) simp
qed

lemma natDigits_nonempty: "natDigits n \<noteq> []"
  by (subst natDigits.simps) simp

text \<open>Printing an integer in decimal and parsing it back is the identity on the 64-bit
  integers, every larger one is refused, and a printed count is read as a token count exactly when it is
  not negative.\<close>

theorem decimal_roundtrip:
  "parseInt64 (itoa n) = (if - (2 ^ 63) \<le> n \<and> n < 2 ^ 63 then Some n else None) \<and>
   parseTokenCount (JNumber (itoa n)) = (if 0 \<le> n \<and> n < 2 ^ 63 then Some n else None)"
proof -
  have unsigned: "unsignedDecimal (natDigits m) = Some m" for m
    by (simp add: unsignedDecimal_def natDigits_nonempty natDigits_digits natDigits_value)
  have "hd (natDigits m) \<notin> {CHR ''-'', CHR ''+''}" for m
    using natDigits_digits [of m] natDigits_nonempty [of m] by (cases "natDigits m") (auto simp: isDigitByte_def byteval_def)
  then have "parseInt64 (itoa n) = (if - (2 ^ 63) \<le> n \<and> n < 2 ^ 63 then Some n else None)"
    using unsigned by (auto simp: parseInt64_def itoa_def natDigits_nonempty)
  then show ?thesis by (simp add: parseTokenCount_def)
qed

section \<open>The invariant\<close>

definition ui_ok :: "usageInspector \<Rightarrow> bool" where
  "ui_ok i \<longleftrightarrow> length (ui_jsonCapture i) \<le> maxUsageCaptureSize \<and> length (ui_sseEvent i) \<le> maxUsageCaptureSize \<and>
     (\<not> ui_disabled i \<longrightarrow> ui_sseLineStart i \<le> length (ui_sseEvent i)) \<and> pred_option usage_ok (ui_usage i) \<and>
     (ui_disabled i \<longrightarrow> ui_usage i = None \<and> ui_failed i) \<and> (ui_invalidUsageCandidate i \<longrightarrow> ui_usage i = None) \<and>
     jv_ok (ui_jsonValidator i)"

text \<open>What the operations on the candidate leave alone.\<close>

definition same_stream :: "usageInspector \<Rightarrow> usageInspector \<Rightarrow> bool" where
  "same_stream i j \<longleftrightarrow> ui_format j = ui_format i \<and> ui_finalized j = ui_finalized i \<and>
     ui_jsonValidator j = ui_jsonValidator i \<and> ui_disabled j = ui_disabled i"

lemma same_stream_trans: "same_stream i j \<Longrightarrow> same_stream j k \<Longrightarrow> same_stream i k"
  by (simp add: same_stream_def)

lemma disable_ok: "ui_ok i \<Longrightarrow> ui_ok (disableInspection i)" "ui_disabled (disableInspection i)"
  by (simp_all add: ui_ok_def disableInspection_def)

lemma disable_frame:
  "ui_format (disableInspection i) = ui_format i" "ui_finalized (disableInspection i) = ui_finalized i"
  by (simp_all add: disableInspection_def)

lemma consumeNormalized_ok:
  assumes "ui_ok i" and "\<not> ui_disabled i"
  shows "ui_ok (consumeNormalizedUsage v i)" and "same_stream i (consumeNormalizedUsage v i)"
    and "ui_sseEvent (consumeNormalizedUsage v i) = ui_sseEvent i"
proof -
  obtain u valid bad where n: "normalizeTokenUsage v = (u, valid, bad)" by (cases "normalizeTokenUsage v")
  show "ui_ok (consumeNormalizedUsage v i)"
    using assms normalize_ok [of v _ valid bad] normalize_None [of v valid bad] n
    by (cases u) (auto simp: consumeNormalizedUsage_def ui_ok_def Let_def)
  show "same_stream i (consumeNormalizedUsage v i)" "ui_sseEvent (consumeNormalizedUsage v i) = ui_sseEvent i"
    using n by (simp_all add: consumeNormalizedUsage_def same_stream_def Let_def)
qed

lemma consumeUsageObject_ok:
  assumes "ui_ok i" and "\<not> ui_disabled i"
  shows "ui_ok (consumeUsageObject decode ob i)" and "same_stream i (consumeUsageObject decode ob i)"
  using assms consumeNormalized_ok [OF assms]
  by (auto simp: consumeUsageObject_def ui_ok_def same_stream_def split: option.splits)

lemma consumeSSE_ok:
  assumes "ui_ok i" and "\<not> ui_disabled i"
  shows "ui_ok (consumeSSEEvent decode e i)" and "same_stream i (consumeSSEEvent decode e i)"
    and "ui_sseEvent (consumeSSEEvent decode e i) = ui_sseEvent i"
  using assms consumeNormalized_ok [OF assms]
  by (auto simp: consumeSSEEvent_def ui_ok_def same_stream_def Let_def split: option.splits)

section \<open>A JSON body\<close>

lemma append_ok:
  assumes "ui_ok i" and "\<not> ui_disabled i" and "appendJSONCapture c i = (j, kept)"
  shows "ui_ok j" and "ui_format j = ui_format i" and "ui_finalized j = ui_finalized i"
    and "kept \<Longrightarrow> same_stream i j" and "\<not> kept \<Longrightarrow> ui_disabled j"
  using assms disable_ok(1) [OF assms(1)]
  by (auto simp: appendJSONCapture_def same_stream_def disable_ok disable_frame split: if_splits) (auto simp: ui_ok_def)

lemma lookOut_ok:
  assumes "ui_ok i" and "\<not> ui_disabled i" and "jsonLookOut c i = (j, kept)"
  shows "ui_ok j" and "ui_format j = ui_format i" and "ui_finalized j = ui_finalized i"
    and "kept \<Longrightarrow> same_stream i j" and "\<not> kept \<Longrightarrow> ui_disabled j"
proof -
  let ?s = "i\<lparr>ui_jsonAwaitingValue := False, ui_jsonCapturing := True,
    ui_jsonCaptureBase := jv_depth (ui_jsonValidator i), ui_jsonCapture := []\<rparr>"
  have s: "ui_ok ?s" "\<not> ui_disabled ?s" using assms(1,2) by (auto simp: ui_ok_def)
  have other: "ui_ok j \<and> same_stream i j \<and> kept" if "appendJSONCapture c ?s \<noteq> (j, kept)"
    using assms that by (auto simp: jsonLookOut_def Let_def same_stream_def ui_ok_def split: if_splits)
  have start: "same_stream i ?s" by (simp add: same_stream_def)
  show "ui_ok j" "ui_format j = ui_format i" "ui_finalized j = ui_finalized i"
    using append_ok(1-3) [OF s, of c j kept] other by (auto simp: same_stream_def)
  show "kept \<Longrightarrow> same_stream i j"
    using append_ok(4) [OF s, of c j kept] other same_stream_trans [OF start] by blast
  show "\<not> kept \<Longrightarrow> ui_disabled j" using append_ok(5) [OF s, of c j kept] other by blast
qed

lemma inside_ok: "ui_ok i \<Longrightarrow> ui_ok (jsonInside c i)" "same_stream i (jsonInside c i)"
  by (auto simp: jsonInside_def Let_def ui_ok_def same_stream_def)

lemma outside_ok:
  assumes "ui_ok i" and "\<not> ui_disabled i"
  shows "ui_ok (jsonOutside decode c b op i)" and "same_stream i (jsonOutside decode c b op i)"
proof -
  define j where "j = (if c = quote_byte
     then i\<lparr>ui_jsonInString := True, ui_jsonEscaped := False, ui_jsonStringMatches := b,
            ui_jsonStringPosition := 0, ui_jsonStringIsTopKey := b\<rparr> else i)"
  have j: "ui_ok j" "\<not> ui_disabled j" "same_stream i j" using assms by (auto simp: j_def ui_ok_def same_stream_def)
  let ?k = "j\<lparr>ui_jsonCapturing := False\<rparr>"
  have k: "ui_ok ?k" "\<not> ui_disabled ?k" "same_stream i ?k" using j by (auto simp: ui_ok_def same_stream_def)
  note m = consumeUsageObject_ok [OF k(1,2), of decode "ui_jsonCapture j"]
  have "ui_ok ((consumeUsageObject decode (ui_jsonCapture j) ?k)\<lparr>ui_jsonCapture := []\<rparr>)" using m(1) by (simp add: ui_ok_def)
  then show "ui_ok (jsonOutside decode c b op i)"
    using j(1) by (simp add: jsonOutside_def Let_def flip: j_def)
  have "same_stream i ((consumeUsageObject decode (ui_jsonCapture j) ?k)\<lparr>ui_jsonCapture := []\<rparr>)"
    using m(2) k(3) by (simp add: same_stream_def)
  then show "same_stream i (jsonOutside decode c b op i)"
    using j(3) by (simp add: jsonOutside_def Let_def flip: j_def)
qed

text \<open>What a byte does: the invariant is kept, and an inspector still enabled has validated the byte.\<close>

definition byte_step :: "char \<Rightarrow> usageInspector \<Rightarrow> usageInspector \<Rightarrow> bool" where
  "byte_step c i j \<longleftrightarrow> ui_ok j \<and> ui_format j = ui_format i \<and> ui_finalized j = ui_finalized i \<and>
     (\<not> ui_disabled j \<longrightarrow> \<not> ui_disabled i \<and> ui_jsonValidator j = fst (stepByte c (ui_jsonValidator i)))"

lemma validated_step:
  assumes "ui_ok i" and "\<not> ui_disabled i" and "same_stream k i"
    and "j = (let (v, op) = stepByte c (ui_jsonValidator i); i = i\<lparr>ui_jsonValidator := v\<rparr>
       in if op = jsonScanError then disableInspection i
          else if ui_jsonInString i then jsonInside c i else jsonOutside decode c b op i)"
  shows "byte_step c k j"
proof -
  obtain v op where v: "stepByte c (ui_jsonValidator i) = (v, op)" by (cases "stepByte c (ui_jsonValidator i)")
  let ?i = "i\<lparr>ui_jsonValidator := v\<rparr>"
  have "jv_ok v" using step_simulates(1) [of "ui_jsonValidator i" c] assms(1) v by (simp add: ui_ok_def)
  then have i: "ui_ok ?i" "\<not> ui_disabled ?i" using assms(1,2) by (auto simp: ui_ok_def)
  have st: "ui_format i = ui_format k" "ui_finalized i = ui_finalized k" "ui_jsonValidator i = ui_jsonValidator k"
    "ui_disabled i = ui_disabled k" using assms(3) by (simp_all add: same_stream_def)
  have fin: "byte_step c k m" if "ui_ok m" "same_stream ?i m" for m
    using that v i(2) st by (simp add: byte_step_def same_stream_def)
  have stop: "byte_step c k (disableInspection ?i)"
    using disable_ok [of ?i] i(1) st by (simp add: byte_step_def disable_frame)
  show ?thesis
    unfolding assms(4) v
    using fin [OF inside_ok(1) [OF i(1)] inside_ok(2)] fin [OF outside_ok [OF i]] stop by (simp add: Let_def)
qed

lemma jsonByte_step:
  assumes "ui_ok i"
  shows "byte_step c i (jsonByte decode c i)"
proof (cases "ui_disabled i")
  case True
  then show ?thesis using assms by (simp add: byte_step_def jsonByte_def)
next
  case False
  obtain i1 k1 where 1: "(if ui_jsonCapturing i then appendJSONCapture c i else (i, True)) = (i1, k1)"
    by (cases "if ui_jsonCapturing i then appendJSONCapture c i else (i, True)")
  obtain i2 k2 where 2: "jsonLookOut c i1 = (i2, k2)" by (cases "jsonLookOut c i1")
  have ok1: "ui_ok i1" "ui_format i1 = ui_format i" "ui_finalized i1 = ui_finalized i" "k1 \<Longrightarrow> same_stream i i1" "\<not> k1 \<Longrightarrow> ui_disabled i1"
    using 1 append_ok [OF assms False, of c i1 k1] assms by (auto simp: same_stream_def split: if_splits)
  show ?thesis
  proof (cases k1)
    case False
    then have "jsonByte decode c i = i1" using 1 \<open>\<not> ui_disabled i\<close> by (simp add: jsonByte_def)
    then show ?thesis using ok1 False by (simp add: byte_step_def)
  next
    case True
    then have en: "\<not> ui_disabled i1" and s1: "same_stream i i1" using ok1(4) \<open>\<not> ui_disabled i\<close> by (simp_all add: same_stream_def)
    note ok2 = lookOut_ok [OF ok1(1) en 2]
    show ?thesis
    proof (cases k2)
      case False
      then have "jsonByte decode c i = i2" using 1 2 True \<open>\<not> ui_disabled i\<close> by (simp add: jsonByte_def)
      then show ?thesis using ok1 ok2 False by (simp add: byte_step_def)
    next
      case go: True
      have s2: "same_stream i i2" using same_stream_trans [OF s1 ok2(4) [OF go]] .
      have en2: "\<not> ui_disabled i2" using ok2(4) [OF go] en by (simp add: same_stream_def)
      show ?thesis
        by (rule validated_step [OF ok2(1) en2 s2,
              where decode = decode and b = "\<not> ui_jsonInString i1 \<and> c = quote_byte \<and> expectsTopLevelObjectKey (ui_jsonValidator i1)"])
          (use 1 2 True go \<open>\<not> ui_disabled i\<close> in \<open>simp add: jsonByte_def\<close>)
    qed
  qed
qed

lemma writeJSON_step:
  assumes "ui_ok i"
  shows "ui_ok (writeJSON decode data i) \<and> ui_format (writeJSON decode data i) = ui_format i \<and>
    ui_finalized (writeJSON decode data i) = ui_finalized i \<and>
    (\<not> ui_disabled (writeJSON decode data i) \<longrightarrow>
       \<not> ui_disabled i \<and> ui_jsonValidator (writeJSON decode data i) = scanBytes data (ui_jsonValidator i))"
  using assms
proof (induction data arbitrary: i)
  case (Cons c data)
  from jsonByte_step [OF Cons.prems, of c decode] have b: "byte_step c i (jsonByte decode c i)" .
  then have "ui_ok (jsonByte decode c i)" by (simp add: byte_step_def)
  from Cons.IH [OF this] b show ?case by (simp add: writeJSON_def byte_step_def scanBytes_def)
qed (simp add: writeJSON_def scanBytes_def)

lemma writeJSON_append: "writeJSON decode (a @ b) i = writeJSON decode b (writeJSON decode a i)"
  by (simp add: writeJSON_def)

section \<open>An event stream\<close>

lemma writeSSE_ok:
  assumes "ui_ok i" and "\<not> ui_disabled i"
  shows "ui_ok (writeSSE decode data i) \<and> ui_format (writeSSE decode data i) = ui_format i \<and>
    ui_finalized (writeSSE decode data i) = ui_finalized i"
  using assms
proof (induction decode data i rule: writeSSE.induct)
  case (2 decode c data i)
  let ?e = "ui_sseEvent i @ [c]"
  let ?i = "i\<lparr>ui_sseEvent := ?e\<rparr>"
  have room: "ui_ok ?i" if "length (ui_sseEvent i) \<noteq> maxUsageCaptureSize" using 2(4,5) that by (auto simp: ui_ok_def)
  show ?case
  proof (cases "length (ui_sseEvent i) = maxUsageCaptureSize")
    case True
    then show ?thesis using disable_ok(1) [OF 2(4)] by (simp add: disable_frame)
  next
    case False
    note r = room [OF False]
    consider "c \<noteq> CHR 0x0A" | "c = CHR 0x0A" "trimCR (drop (ui_sseLineStart i) (ui_sseEvent i)) \<noteq> []"
      | "c = CHR 0x0A" "trimCR (drop (ui_sseLineStart i) (ui_sseEvent i)) = []" by blast
    then show ?thesis
    proof cases
      case 1
      then show ?thesis using "2.IH"(1) [OF False refl refl 1 r] 2(5) False by simp
    next
      case 2
      let ?j = "?i\<lparr>ui_sseLineStart := length ?e\<rparr>"
      have "ui_ok ?j" using r by (auto simp: ui_ok_def)
      then show ?thesis using "2.IH"(2) [OF False refl refl] 2 "2.prems"(2) False by simp
    next
      case 3
      let ?k = "consumeSSEEvent decode (take (ui_sseLineStart i) ?e) ?i"
      let ?j = "?k\<lparr>ui_sseEvent := [], ui_sseLineStart := 0\<rparr>"
      have en: "\<not> ui_disabled ?i" using "2.prems"(2) by simp
      note k = consumeSSE_ok [OF r en, of decode "take (ui_sseLineStart i) ?e"]
      have "ui_ok ?j" "\<not> ui_disabled ?j" "ui_format ?j = ui_format i" "ui_finalized ?j = ui_finalized i"
        using k en by (auto simp: ui_ok_def same_stream_def)
      then show ?thesis using "2.IH"(3) [OF False refl refl] 3 False by simp
    qed
  qed
qed simp

section \<open>Whole responses\<close>

lemma new_inspector:
  "ui_ok (newUsageInspector P ct)" "\<not> ui_finalized (newUsageInspector P ct)"
  "ui_format (newUsageInspector P ct) = ''json'' \<Longrightarrow> ui_jsonValidator (newUsageInspector P ct) = jv_reset zeroValidator"
proof -
  have "jv_ok zeroValidator" by (simp add: jv_ok_def zeroValidator_def)
  then show "ui_ok (newUsageInspector P ct)" "\<not> ui_finalized (newUsageInspector P ct)"
    using reset_ok
    by (auto simp: newUsageInspector_def zeroInspector_def ui_ok_def Let_def split: option.splits)
  show "ui_format (newUsageInspector P ct) = ''json'' \<Longrightarrow> ui_jsonValidator (newUsageInspector P ct) = jv_reset zeroValidator"
    by (auto simp: newUsageInspector_def zeroInspector_def Let_def split: option.splits if_splits)
qed

lemma Write_step:
  assumes "ui_ok i"
  shows "ui_ok (ui_Write decode data i) \<and> ui_format (ui_Write decode data i) = ui_format i \<and>
    ui_finalized (ui_Write decode data i) = ui_finalized i \<and>
    (ui_format i = ''json'' \<longrightarrow> \<not> ui_finalized i \<longrightarrow> \<not> ui_disabled (ui_Write decode data i) \<longrightarrow>
       \<not> ui_disabled i \<and> ui_jsonValidator (ui_Write decode data i) = scanBytes data (ui_jsonValidator i))"
  using assms writeJSON_step [OF assms, of decode data] writeSSE_ok [OF assms, of decode data]
  by (auto simp: ui_Write_def scanBytes_def)

definition inspect :: "(string \<Rightarrow> jsonAny option) \<Rightarrow> string list \<Rightarrow> usageInspector \<Rightarrow> usageInspector" where
  "inspect decode chunks i = fold (ui_Write decode) chunks i"

lemma inspect_step:
  assumes "ui_ok i"
  shows "ui_ok (inspect decode chunks i) \<and> ui_format (inspect decode chunks i) = ui_format i \<and>
    ui_finalized (inspect decode chunks i) = ui_finalized i \<and>
    (ui_format i = ''json'' \<longrightarrow> \<not> ui_finalized i \<longrightarrow> \<not> ui_disabled (inspect decode chunks i) \<longrightarrow>
       \<not> ui_disabled i \<and> ui_jsonValidator (inspect decode chunks i) = scanBytes (concat chunks) (ui_jsonValidator i))"
  using assms
proof (induction chunks arbitrary: i)
  case (Cons d chunks)
  from Write_step [OF Cons.prems, of decode d] have w: "ui_ok (ui_Write decode d i)" by blast
  from Cons.IH [OF w] Write_step [OF Cons.prems, of decode d] show ?case
    by (simp add: inspect_def scanBytes_def)
qed (simp add: inspect_def scanBytes_def)

lemma inspect_chunks:
  "ui_format i = ''json'' \<Longrightarrow> \<not> ui_finalized i \<Longrightarrow> ui_ok i \<Longrightarrow> inspect decode chunks i = writeJSON decode (concat chunks) i"
proof (induction chunks arbitrary: i)
  case (Cons d chunks)
  have stay: "writeJSON decode xs i = i" if "ui_disabled i" for xs
    using that by (induction xs) (simp_all add: writeJSON_def jsonByte_def)
  have "ui_Write decode d i = writeJSON decode d i"
    using Cons.prems stay by (auto simp: ui_Write_def writeJSON_def)
  then show ?case
    using Cons.IH [of "writeJSON decode d i"] Cons.prems writeJSON_step [OF Cons.prems(3), of decode d]
    by (simp add: inspect_def writeJSON_append)
qed (simp add: inspect_def writeJSON_def)

lemma eof_ok: "jv_ok v \<Longrightarrow> jv_ok (fst (jv_eof v))"
  using step_simulates(1) [of v "CHR '' ''"] by (simp add: jv_eof_def case_prod_unfold Let_def)

lemma finalize_spec:
  assumes "ui_ok i"
  shows "ui_ok (finalizeInspection decode i)" and "ui_format (finalizeInspection decode i) = ui_format i"
    and "ui_disabled (finalizeInspection decode i) = ui_disabled i"
    and "\<not> ui_finalized i \<Longrightarrow> ui_format i = ''json'' \<Longrightarrow> ui_usage (finalizeInspection decode i) \<noteq> None \<Longrightarrow>
      snd (jv_eof (ui_jsonValidator i))"
proof -
  have "jv_ok (fst (jv_eof (ui_jsonValidator i)))" using assms eof_ok by (simp add: ui_ok_def)
  moreover have "ui_ok (i\<lparr>ui_finalized := True\<rparr>)" using assms by (simp add: ui_ok_def)
  note c = consumeSSE_ok [OF this, of decode "ui_sseEvent i"]
  ultimately show "ui_ok (finalizeInspection decode i)"
    using assms by (auto simp: finalizeInspection_def Let_def ui_ok_def case_prod_unfold)
  show "ui_format (finalizeInspection decode i) = ui_format i" "ui_disabled (finalizeInspection decode i) = ui_disabled i"
    using c by (auto simp: finalizeInspection_def Let_def same_stream_def case_prod_unfold)
  show "\<not> ui_finalized i \<Longrightarrow> ui_format i = ''json'' \<Longrightarrow> ui_usage (finalizeInspection decode i) \<noteq> None \<Longrightarrow>
      snd (jv_eof (ui_jsonValidator i))"
    by (auto simp: finalizeInspection_def Let_def case_prod_unfold split: if_splits)
qed

text \<open>C16: a usage is reported for a response only if its counts are within range and the cached
  tokens are part of the input, the inspection was not given up, no invalid candidate was seen, and
  a JSON response was, as a whole and however it was cut, a JSON text nested at most 256 deep.\<close>

theorem usage_reported_sound:
  assumes "i = inspect decode chunks (newUsageInspector P contentType)"
    and "ui_Result decode i = (i', Some u, parseFailure, failed)"
  shows "usage_ok u \<and> \<not> ui_disabled i' \<and> \<not> ui_invalidUsageCandidate i' \<and>
    (ui_format i = ''json'' \<longrightarrow> json_text maxJSONNestingDepth (concat chunks))"
proof -
  let ?n = "newUsageInspector P contentType"
  note step = inspect_step [OF new_inspector(1), of decode chunks P contentType, folded assms(1)]
  have ok: "ui_ok i" and fin: "\<not> ui_finalized i" using step new_inspector(2) by simp_all
  have i': "i' = finalizeInspection decode i" "ui_usage i' = Some u"
    using assms(2) by (auto simp: ui_Result_def Let_def split: if_splits)
  note f = finalize_spec [OF ok, of decode, folded i'(1)]
  have en: "\<not> ui_disabled i'" and "usage_ok u" "\<not> ui_invalidUsageCandidate i'"
    using f(1) i'(2) by (auto simp: ui_ok_def)
  moreover have "json_text maxJSONNestingDepth (concat chunks)" if json: "ui_format i = ''json''"
  proof -
    have "ui_jsonValidator i = scanBytes (concat chunks) (jv_reset zeroValidator)"
      using step new_inspector(2,3) [of P contentType] json en f(3) by simp
    moreover have "snd (jv_eof (ui_jsonValidator i))" using f(4) [OF fin json] i'(2) by simp
    ultimately show ?thesis using validates_json [of "concat chunks"] by (simp add: validates_def)
  qed
  ultimately show ?thesis by blast
qed

text \<open>C38: whatever is streamed, the inspector's buffers stay within 64 KiB, the nesting stack
  within its array, and once the inspection is given up no usage is held and a failure is recorded; for a
  JSON response the state only depends on the bytes, not on how they were cut.\<close>

theorem usage_memory_bounded:
  assumes "i = inspect decode chunks (newUsageInspector P contentType)"
  shows "length (ui_jsonCapture i) \<le> maxUsageCaptureSize \<and> length (ui_sseEvent i) \<le> maxUsageCaptureSize \<and>
    jv_depth (ui_jsonValidator i) \<le> maxJSONNestingDepth \<and>
    (ui_disabled i \<longrightarrow> ui_usage i = None \<and> ui_failed i) \<and>
    (ui_format i = ''json'' \<longrightarrow> i = inspect decode [concat chunks] (newUsageInspector P contentType))"
proof -
  have ok: "ui_ok i" "ui_format i = ui_format (newUsageInspector P contentType)"
    using inspect_step [OF new_inspector(1), of decode chunks P contentType] assms by simp_all
  show ?thesis
    using ok assms inspect_chunks [OF _ new_inspector(2) new_inspector(1)] by (auto simp: ui_ok_def jv_ok_def)
qed

section \<open>A response with usage\<close>

definition sample_usage :: string where
  \<open>sample_usage = ''{"prompt_tokens":3,"completion_tokens":1}''\<close>

definition sample_decode :: "string \<Rightarrow> jsonAny option" where
  "sample_decode s =
     (if s = sample_usage then Some (JObject [(''prompt_tokens'', JNumber ''3''), (''completion_tokens'', JNumber ''1'')]) else None)"

definition sample_chunks :: "string list" where
  \<open>sample_chunks = [''{"usage": {"prompt_tok'', ''ens":3,"completion_tokens":1}}'']\<close>

definition sample_inspector :: usageInspector where
  "sample_inspector = inspect sample_decode sample_chunks (newUsageInspector (\<lambda>s. Some s) ''application/json'')"

lemma sample_reported:
  "snd (ui_Result sample_decode sample_inspector) =
     (Some \<lparr>DU_InputTokens = 3, DU_OutputTokens = 1, DU_CacheReadTokens = None\<rparr>, [], False) \<and>
   ui_format sample_inspector = ''json''"
  by code_simp

theorem usage_reported_sound_witness:
  "usage_ok \<lparr>DU_InputTokens = 3, DU_OutputTokens = 1, DU_CacheReadTokens = None\<rparr> \<and>
   json_text maxJSONNestingDepth (concat sample_chunks)"
proof -
  have "ui_Result sample_decode sample_inspector =
     (fst (ui_Result sample_decode sample_inspector),
      Some \<lparr>DU_InputTokens = 3, DU_OutputTokens = 1, DU_CacheReadTokens = None\<rparr>, [], False)"
    using sample_reported by (metis prod.collapse)
  from usage_reported_sound [OF sample_inspector_def this] sample_reported show ?thesis by blast
qed

theorem usage_memory_bounded_witness:
  "length (ui_jsonCapture sample_inspector) \<le> maxUsageCaptureSize \<and>
   sample_inspector = inspect sample_decode [concat sample_chunks] (newUsageInspector (\<lambda>s. Some s) ''application/json'')"
  using usage_memory_bounded [OF sample_inspector_def] sample_reported by blast

end
