(* ===== verification/Proxy_Forward.thy ===== *)
theory Proxy_Forward
  imports Proxy_Headers Usage_Inspector
begin

text \<open>
  Forwarding a request to a backend and streaming its response (\<^verbatim>\<open>internal/proxy/proxy.go\<close>). The
  network and the client's connection are inputs: \<open>Upstream\<close> says what one attempt meets (the request
  cannot be built, the transport fails, or a response arrives with the successive reads of its body), a
  \<open>readStep\<close> what one iteration of the copy loop meets: the bytes and error of \<^verbatim>\<open>Body.Read\<close>, what
  \<^verbatim>\<open>downstream.Write\<close> takes, and whether the context is done at each of the three places that ask. A read
  or a write may also panic. The list of steps is the fuel of the copy loop: when it is used up without
  an end the loop is still reading, which is the outcome \<open>Pending\<close>. What the proxy does to the outside
  is kept in \<open>Outside\<close>: the requests sent, the client's response and the completions of the targets.
\<close>

section \<open>Requests and results\<close>

text \<open>The completion callback of a target, by what calling it does.\<close>

datatype completion = CompleteReturns | CompletePanics

record Target =
  T_Backend :: Backend
  T_UpstreamAPIKey :: string
  T_Complete :: "completion option"

record Request =
  Rq_Method :: string
  Rq_Path :: string
  Rq_Headers :: header
  Rq_Body :: string
  Rq_RequestID :: string
  Rq_Priority :: int
  Rq_Target :: Target
  Rq_SelectAlternate :: "(int list \<Rightarrow> string + Target) option"

datatype proxyError =
    CreateRequestError string
  | TransportError string
  | ContextError string
  | ReadError string
  | WriteError string
  | ShortWrite
  | SelectRetryError string

record Result =
  R_BackendID :: int
  R_Status :: int
  R_BytesSent :: int
  R_FirstByte :: duration
  R_RetryCount :: int
  R_ResponseStarted :: bool
  R_Cancelled :: bool
  R_Usage :: "DomainTokenUsage option"
  R_UsageParseFailure :: string
  R_UpstreamFailure :: string
  R_Err :: "proxyError option"

definition newResult :: "int \<Rightarrow> Result" where
  "newResult backendID = \<lparr>R_BackendID = backendID, R_Status = 0, R_BytesSent = 0, R_FirstByte = 0, R_RetryCount = 0,
     R_ResponseStarted = False, R_Cancelled = False, R_Usage = None, R_UsageParseFailure = [],
     R_UpstreamFailure = [], R_Err = None\<rparr>"

section \<open>The outside\<close>

datatype readError = ReadEOF | ReadFailed string

record readStep =
  rs_data :: string
  rs_err :: "readError option"
  rs_ctxRead :: "string option"
  rs_written :: nat
  rs_writeErr :: "string option"
  rs_ctxWrite :: "string option"
  rs_ctxEnd :: "string option"

datatype copyStep = ReadStep readStep | ReadPanics | WritePanics

record Response =
  Rs_StatusCode :: int
  Rs_Header :: header
  Rs_Elapsed :: duration
  Rs_Steps :: "copyStep list"

datatype Upstream =
    RequestInvalid string
  | TransportFails string "string option"
  | Responds Response

record Sent =
  Sent_URL :: string
  Sent_Method :: string
  Sent_Header :: header
  Sent_Body :: string

record Outside =
  Ou_sent :: "Sent list"
  Ou_header :: header
  Ou_statuses :: "int list"
  Ou_body :: string
  Ou_completed :: "(int \<times> InferenceOutcome) list"

section \<open>Copying a response\<close>

record responseCopier =
  rc_outside :: Outside
  rc_inspector :: usageInspector
  rc_result :: Result

definition rc_commit :: "Response \<Rightarrow> responseCopier \<Rightarrow> responseCopier" where
  "rc_commit response c =
     (if R_ResponseStarted (rc_result c) then c
      else c\<lparr>rc_outside := (rc_outside c)\<lparr>Ou_header := CopyResponseHeaders (Ou_header (rc_outside c)) (Rs_Header response),
                                         Ou_statuses := Ou_statuses (rc_outside c) @ [Rs_StatusCode response]\<rparr>,
             rc_result := (rc_result c)\<lparr>R_FirstByte := Rs_Elapsed response, R_ResponseStarted := True\<rparr>\<rparr>)"

definition completedOutcome :: "int \<Rightarrow> InferenceOutcome" where
  "completedOutcome status = (if status \<ge> 500 then InferenceFailure else InferenceSuccess)"

definition interruptedOutcome :: "int \<Rightarrow> bool \<Rightarrow> InferenceOutcome" where
  "interruptedOutcome status provenReadFailure =
     (if status \<ge> 500 \<or> provenReadFailure then InferenceFailure else InferenceNeutral)"

text \<open>The outcome, when the write ends the copying.\<close>

definition rc_write ::
  "(string \<Rightarrow> jsonAny option) \<Rightarrow> Response \<Rightarrow> readStep \<Rightarrow> bool \<Rightarrow> responseCopier \<Rightarrow>
     responseCopier \<times> InferenceOutcome option" where
  "rc_write decode response s provenReadFailure c =
     (let c = rc_commit response c;
          taken = take (rs_written s) (rs_data s);
          c = c\<lparr>rc_outside := (rc_outside c)\<lparr>Ou_body := Ou_body (rc_outside c) @ taken\<rparr>,
                rc_inspector := ui_Write decode taken (rc_inspector c),
                rc_result := (rc_result c)\<lparr>R_BytesSent := R_BytesSent (rc_result c) + int (length taken)\<rparr>\<rparr>
      in if rs_writeErr s = None \<and> length taken = length (rs_data s) then (c, None)
         else
           (c\<lparr>rc_result := (rc_result c)\<lparr>R_Err := Some (case rs_writeErr s of None \<Rightarrow> ShortWrite | Some e \<Rightarrow> WriteError e),
                                        R_Cancelled := (rs_ctxWrite s \<noteq> None)\<rparr>\<rparr>,
            Some (interruptedOutcome (Rs_StatusCode response) provenReadFailure)))"

definition completeUsageInspection :: "(string \<Rightarrow> jsonAny option) \<Rightarrow> responseCopier \<Rightarrow> responseCopier" where
  "completeUsageInspection decode c =
     (let (i, usage, format, failed) = ui_Result decode (rc_inspector c);
          r = (rc_result c)\<lparr>R_Usage := usage\<rparr>
      in c\<lparr>rc_inspector := i, rc_result := (if failed then r\<lparr>R_UsageParseFailure := format\<rparr> else r)\<rparr>)"

datatype 'a ending = Pending | Panicked | Ended 'a

text \<open>The end of the body: end of file, cancellation, or a failed read, which may be retried when
  nothing has reached the client.\<close>

definition rc_finish ::
  "(string \<Rightarrow> jsonAny option) \<Rightarrow> Response \<Rightarrow> bool \<Rightarrow> readStep \<Rightarrow> readError \<Rightarrow> bool \<Rightarrow> responseCopier \<Rightarrow>
     responseCopier \<times> bool \<times> InferenceOutcome" where
  "rc_finish decode response firstRead s err provenReadFailure c =
     (case err of
        ReadEOF \<Rightarrow>
          (completeUsageInspection decode (rc_commit response c), False, completedOutcome (Rs_StatusCode response))
      | ReadFailed e \<Rightarrow>
          (let r = (rc_result c)\<lparr>R_Err := Some (ReadError e), R_Cancelled := (rs_ctxEnd s \<noteq> None)\<rparr> in
           case rs_ctxEnd s of
             Some ce \<Rightarrow>
               (c\<lparr>rc_result := (if firstRead \<and> rs_data s = [] then r\<lparr>R_Err := Some (ContextError ce)\<rparr> else r)\<rparr>,
                False, interruptedOutcome (Rs_StatusCode response) provenReadFailure)
           | None \<Rightarrow>
               (c\<lparr>rc_result := r\<lparr>R_UpstreamFailure := ''upstream_body_read_error''\<rparr>\<rparr>,
                firstRead \<and> rs_data s = [] \<and> \<not> R_ResponseStarted r \<and>
                  Rs_StatusCode response \<ge> 200 \<and> Rs_StatusCode response < 300,
                InferenceFailure)))"

definition provenFailure :: "readStep \<Rightarrow> bool" where
  "provenFailure s \<longleftrightarrow> rs_err s \<noteq> None \<and> rs_err s \<noteq> Some ReadEOF \<and> rs_ctxRead s = None"

definition noteFailure :: "readStep \<Rightarrow> responseCopier \<Rightarrow> responseCopier" where
  "noteFailure s c =
     (if provenFailure s then c\<lparr>rc_result := (rc_result c)\<lparr>R_UpstreamFailure := ''upstream_body_read_error''\<rparr>\<rparr> else c)"

fun rc_copy ::
  "(string \<Rightarrow> jsonAny option) \<Rightarrow> Response \<Rightarrow> bool \<Rightarrow> copyStep list \<Rightarrow> responseCopier \<Rightarrow>
     responseCopier \<times> (bool \<times> InferenceOutcome) ending" where
  "rc_copy decode response firstRead [] c = (c, Pending)"
| "rc_copy decode response firstRead (ReadPanics # steps) c = (c, Panicked)"
| "rc_copy decode response firstRead (WritePanics # steps) c = (rc_commit response c, Panicked)"
| "rc_copy decode response firstRead (ReadStep s # steps) c =
     (let c = noteFailure s c;
          (c, ended) = (if rs_data s \<noteq> [] then rc_write decode response s (provenFailure s) c else (c, None))
      in case ended of
           Some outcome \<Rightarrow> (c, Ended (False, outcome))
         | None \<Rightarrow>
             (case rs_err s of
                Some err \<Rightarrow>
                  (let (c, retryable, outcome) = rc_finish decode response firstRead s err (provenFailure s) c
                   in (c, Ended (retryable, outcome)))
              | None \<Rightarrow> rc_copy decode response False steps c))"

section \<open>One attempt\<close>

definition upstreamURL :: "Target \<Rightarrow> Request \<Rightarrow> string" where
  "upstreamURL target request = trimRightSlash (Backend_BaseURL (T_Backend target)) @ Rq_Path request"

definition sentRequest :: "Target \<Rightarrow> Request \<Rightarrow> Sent" where
  "sentRequest target request =
     \<lparr>Sent_URL = upstreamURL target request, Sent_Method = Rq_Method request,
      Sent_Header = PrepareUpstreamHeaders (Rq_Headers request) (Rq_RequestID request) (Rq_Priority request)
        (T_UpstreamAPIKey target),
      Sent_Body = Rq_Body request\<rparr>"

definition forwardOnce ::
  "(string \<Rightarrow> jsonAny option) \<Rightarrow> (string \<Rightarrow> string option) \<Rightarrow> Upstream \<Rightarrow> Request \<Rightarrow> Target \<Rightarrow> Outside \<Rightarrow>
     Outside \<times> (Result \<times> bool \<times> InferenceOutcome) ending" where
  "forwardOnce decode ParseMediaType upstream request target w =
     (let result = newResult (Backend_ID (T_Backend target));
          w' = w\<lparr>Ou_sent := Ou_sent w @ [sentRequest target request]\<rparr>
      in case upstream of
           RequestInvalid e \<Rightarrow> (w, Ended (result\<lparr>R_Err := Some (CreateRequestError e)\<rparr>, False, InferenceNeutral))
         | TransportFails e ctxErr \<Rightarrow>
             (case ctxErr of
                Some ce \<Rightarrow> (w', Ended (result\<lparr>R_Err := Some (ContextError ce), R_Cancelled := True\<rparr>, False, InferenceNeutral))
              | None \<Rightarrow> (w', Ended (result\<lparr>R_Err := Some (TransportError e)\<rparr>, True, InferenceFailure)))
         | Responds response \<Rightarrow>
             (let c = \<lparr>rc_outside = w',
                       rc_inspector = newUsageInspector ParseMediaType (headerGet (Rs_Header response) ''Content-Type''),
                       rc_result = result\<lparr>R_Status := Rs_StatusCode response\<rparr>\<rparr>;
                  c = (if Rs_StatusCode response < 200 \<or> Rs_StatusCode response \<ge> 300 then rc_commit response c else c);
                  (c, ending) = rc_copy decode response True (Rs_Steps response) c
              in (rc_outside c,
                  case ending of
                    Pending \<Rightarrow> Pending
                  | Panicked \<Rightarrow> Panicked
                  | Ended (retryable, outcome) \<Rightarrow> Ended (rc_result c, retryable, outcome))))"

definition noteCompleted :: "Target \<Rightarrow> InferenceOutcome \<Rightarrow> Outside \<Rightarrow> Outside" where
  "noteCompleted target outcome w =
     w\<lparr>Ou_completed := Ou_completed w @ [(Backend_ID (T_Backend target), outcome)]\<rparr>"

text \<open>The deferred function of \<^verbatim>\<open>forwardAttempt\<close>: a panic completes the target once, as neutral, and
  goes on; a callback that panics itself is not called again.\<close>

definition forwardAttempt ::
  "(string \<Rightarrow> jsonAny option) \<Rightarrow> (string \<Rightarrow> string option) \<Rightarrow> Upstream \<Rightarrow> Request \<Rightarrow> Target \<Rightarrow> Outside \<Rightarrow>
     Outside \<times> (Result \<times> bool) ending" where
  "forwardAttempt decode ParseMediaType upstream request target w =
     (let (w, ending) = forwardOnce decode ParseMediaType upstream request target w in
      case ending of
        Pending \<Rightarrow> (w, Pending)
      | Panicked \<Rightarrow> (if T_Complete target \<noteq> None then noteCompleted target InferenceNeutral w else w, Panicked)
      | Ended (result, retryable, outcome) \<Rightarrow>
          (case T_Complete target of
             None \<Rightarrow> (w, Ended (result, retryable))
           | Some CompleteReturns \<Rightarrow> (noteCompleted target outcome w, Ended (result, retryable))
           | Some CompletePanics \<Rightarrow> (noteCompleted target outcome w, Panicked)))"

section \<open>The retry loop\<close>

text \<open>\<open>upstreams n\<close> is what attempt \<open>n\<close> meets; the loop runs for the attempts 0 and 1.\<close>

fun forwardFrom ::
  "(string \<Rightarrow> jsonAny option) \<Rightarrow> (string \<Rightarrow> string option) \<Rightarrow> (nat \<Rightarrow> Upstream) \<Rightarrow> Request \<Rightarrow> nat \<Rightarrow> nat \<Rightarrow>
     int list \<Rightarrow> Target \<Rightarrow> Result \<Rightarrow> Outside \<Rightarrow> Outside \<times> Result ending" where
  "forwardFrom decode ParseMediaType upstreams request 0 attempt excluded target result w = (w, Ended result)"
| "forwardFrom decode ParseMediaType upstreams request (Suc left) attempt excluded target result w =
     (let excluded = List.insert (Backend_ID (T_Backend target)) excluded;
          (w, ending) = forwardAttempt decode ParseMediaType (upstreams attempt) request target w
      in case ending of
           Pending \<Rightarrow> (w, Pending)
         | Panicked \<Rightarrow> (w, Panicked)
         | Ended (attemptResult, retryable) \<Rightarrow>
             (let result = attemptResult\<lparr>R_RetryCount := R_RetryCount result\<rparr> in
              if \<not> retryable \<or> attempt = 1 then (w, Ended result)
              else
                (case Rq_SelectAlternate request of
                   None \<Rightarrow> (w, Ended result)
                 | Some select \<Rightarrow>
                     (case select excluded of
                        Inl err \<Rightarrow> (w, Ended (result\<lparr>R_Err := Some (SelectRetryError err)\<rparr>))
                      | Inr next \<Rightarrow>
                          forwardFrom decode ParseMediaType upstreams request left (attempt + 1) excluded next
                            (result\<lparr>R_RetryCount := R_RetryCount result + 1\<rparr>) w))))"

definition proxy_Forward ::
  "(string \<Rightarrow> jsonAny option) \<Rightarrow> (string \<Rightarrow> string option) \<Rightarrow> (nat \<Rightarrow> Upstream) \<Rightarrow> Request \<Rightarrow> Outside \<Rightarrow>
     Outside \<times> Result ending" where
  "proxy_Forward decode ParseMediaType upstreams request w =
     forwardFrom decode ParseMediaType upstreams request 2 0 [] (Rq_Target request)
       (newResult (Backend_ID (T_Backend (Rq_Target request)))) w"

end
