(* ===== verification/Proxy_Properties.thy ===== *)
theory Proxy_Properties
  imports Proxy_Forward "HOL-Library.Sublist" "HOL-Library.Code_Target_Nat"
begin

text \<open>
  What forwarding guarantees whatever the network does: the client gets one response, from one
  backend, and a retry only happens while nothing has reached the client; every attempt's completion is
  called once, also when a read, a write or a callback panics; and forwarding ends as soon as the
  bodies do.
\<close>

section \<open>Copying\<close>

definition stepBytes :: "copyStep \<Rightarrow> string" where
  "stepBytes s = (case s of ReadStep r \<Rightarrow> rs_data r | _ \<Rightarrow> [])"

definition bodyBytes :: "copyStep list \<Rightarrow> string" where
  "bodyBytes steps = concat (map stepBytes steps)"

lemma bodyBytes_simps [simp]: "bodyBytes [] = []" "bodyBytes (s # steps) = stepBytes s @ bodyBytes steps"
  by (simp_all add: bodyBytes_def)

text \<open>The client's view of the progress from \<open>c\<close> to \<open>d\<close>: at most one status line, when the response
  starts, and \<open>sent\<close> more bytes, counted in the result.\<close>

definition progress :: "string \<Rightarrow> responseCopier \<Rightarrow> responseCopier \<Rightarrow> bool" where
  "progress sent c d \<longleftrightarrow>
     Ou_body (rc_outside d) = Ou_body (rc_outside c) @ sent \<and>
     R_BytesSent (rc_result d) = R_BytesSent (rc_result c) + int (length sent) \<and>
     (if R_ResponseStarted (rc_result d) = R_ResponseStarted (rc_result c)
      then Ou_statuses (rc_outside d) = Ou_statuses (rc_outside c)
      else R_ResponseStarted (rc_result d) \<and> (\<exists>s. Ou_statuses (rc_outside d) = Ou_statuses (rc_outside c) @ [s])) \<and>
     (sent \<noteq> [] \<longrightarrow> R_ResponseStarted (rc_result d)) \<and>
     Ou_sent (rc_outside d) = Ou_sent (rc_outside c) \<and> Ou_completed (rc_outside d) = Ou_completed (rc_outside c) \<and>
     R_BackendID (rc_result d) = R_BackendID (rc_result c) \<and> R_RetryCount (rc_result d) = R_RetryCount (rc_result c)"

lemma progress_refl: "progress [] c c"
  by (simp add: progress_def)

lemma progress_trans: "progress s c d \<Longrightarrow> progress t d e \<Longrightarrow> progress (s @ t) c e"
  by (auto simp: progress_def split: if_splits)

lemma progress_commit: "progress [] c (rc_commit response c)" "R_ResponseStarted (rc_result (rc_commit response c))"
  by (auto simp: progress_def rc_commit_def)

lemma progress_note: "progress [] c (noteFailure s c)"
  by (simp add: progress_def noteFailure_def)

lemma progress_write:
  assumes "rc_write decode response s b c = (d, e)"
  shows "progress (take (rs_written s) (rs_data s)) c d" and "e = None \<Longrightarrow> take (rs_written s) (rs_data s) = rs_data s"
proof -
  define m where "m = rc_commit response c"
  have m: "progress [] c m" "R_ResponseStarted (rc_result m)" using progress_commit by (simp_all add: m_def)
  have "progress (take (rs_written s) (rs_data s)) m d"
    using assms m(2) by (auto simp: rc_write_def Let_def progress_def simp flip: m_def split: if_splits)
  from progress_trans [OF m(1) this] show "progress (take (rs_written s) (rs_data s)) c d" by simp
  show "e = None \<Longrightarrow> take (rs_written s) (rs_data s) = rs_data s"
    using assms by (auto simp: rc_write_def Let_def split: if_splits)
qed

lemma progress_finish:
  assumes "rc_finish decode response fr s err b c = (d, retryable, outcome)"
  shows "progress [] c d" and "retryable \<Longrightarrow> \<not> R_ResponseStarted (rc_result d)"
proof -
  have "progress [] c (completeUsageInspection decode (rc_commit response c))"
    using progress_commit(1) [of c response] progress_commit(2) [of response c]
    by (simp add: completeUsageInspection_def Let_def case_prod_unfold progress_def)
  then show "progress [] c d"
  proof (cases err)
    case (ReadFailed e)
    then show ?thesis
      using assms by (cases "rs_ctxEnd s"; cases "fr \<and> rs_data s = []") (auto simp: rc_finish_def Let_def progress_def)
  qed (use assms in \<open>simp add: rc_finish_def\<close>)
  show "retryable \<Longrightarrow> \<not> R_ResponseStarted (rc_result d)"
    using assms by (auto simp: rc_finish_def Let_def split: readError.splits option.splits)
qed

lemma copy_progress:
  assumes "rc_copy decode response fr steps c = (d, e)"
  shows "\<exists>sent. progress sent c d \<and> prefix sent (bodyBytes steps) \<and>
    (\<forall>outcome. e = Ended (True, outcome) \<longrightarrow> \<not> R_ResponseStarted (rc_result d))"
  using assms
proof (induction decode response fr steps c rule: rc_copy.induct)
  case (1 decode response fr c)
  then show ?case using progress_refl by fastforce
next
  case (2 decode response fr steps c)
  then show ?case using progress_refl by fastforce
next
  case (3 decode response fr steps c)
  then show ?case using progress_commit(1) by fastforce
next
  case (4 decode response fr s steps c)
  define c1 where "c1 = noteFailure s c"
  obtain c2 ended where w: "(if rs_data s \<noteq> [] then rc_write decode response s (provenFailure s) c1 else (c1, None)) = (c2, ended)"
    by (cases "if rs_data s \<noteq> [] then rc_write decode response s (provenFailure s) c1 else (c1, None)")
  obtain sent where s: "progress sent c c2" "prefix sent (rs_data s)" "ended = None \<Longrightarrow> sent = rs_data s"
  proof (cases "rs_data s = []")
    case True
    then show thesis using that [of "[]"] w progress_note [of c s] by (simp add: c1_def)
  next
    case False
    note p = progress_write [of decode response s "provenFailure s" c1 c2 ended]
    have "progress (take (rs_written s) (rs_data s)) c c2"
      using progress_trans [OF progress_note [of c s], folded c1_def] p(1) w False by fastforce
    then show thesis using that p(2) w False by (auto simp: take_is_prefix)
  qed
  show ?case
  proof (cases ended)
    case (Some outcome)
    then have "d = c2" "e = Ended (False, outcome)" using 4(2) w by (simp_all add: Let_def flip: c1_def)
    then show ?thesis using s prefix_append by (fastforce simp: stepBytes_def)
  next
    case None
    show ?thesis
    proof (cases "rs_err s")
      case (Some err)
      obtain c3 r outcome where f: "rc_finish decode response fr s err (provenFailure s) c2 = (c3, r, outcome)"
        by (cases "rc_finish decode response fr s err (provenFailure s) c2")
      then have "d = c3" "e = Ended (r, outcome)" using 4(2) w None Some by (simp_all add: Let_def flip: c1_def)
      then show ?thesis
        using progress_trans [OF s(1) progress_finish(1) [OF f]] progress_finish(2) [OF f] s(2)
        by (fastforce simp: stepBytes_def intro: prefix_prefix)
    next
      case none: None
      then have "rc_copy decode response False steps c2 = (d, e)" using 4(2) w None by (simp add: Let_def flip: c1_def)
      then have "\<exists>sent. progress sent c2 d \<and> prefix sent (bodyBytes steps) \<and>
          (\<forall>outcome. e = Ended (True, outcome) \<longrightarrow> \<not> R_ResponseStarted (rc_result d))"
        using "4.IH" [OF refl w [unfolded c1_def, symmetric] refl None none] by simp
      then obtain t where t: "progress t c2 d" "prefix t (bodyBytes steps)"
        "\<forall>outcome. e = Ended (True, outcome) \<longrightarrow> \<not> R_ResponseStarted (rc_result d)" by blast
      then show ?thesis
        using progress_trans [OF s(1) t(1)] s(3) [OF None] by (intro exI [of _ "sent @ t"]) (simp add: stepBytes_def)
    qed
  qed
qed

section \<open>One attempt\<close>

definition upstreamBytes :: "Upstream \<Rightarrow> string" where
  "upstreamBytes u = (case u of Responds response \<Rightarrow> bodyBytes (Rs_Steps response) | _ \<Rightarrow> [])"

text \<open>What the client sees of an attempt: nothing, or one status line and a prefix of the body.\<close>

definition shows_client :: "Upstream \<Rightarrow> bool \<Rightarrow> string \<Rightarrow> Outside \<Rightarrow> Outside \<Rightarrow> bool" where
  "shows_client u started sent w w' \<longleftrightarrow> Ou_body w' = Ou_body w @ sent \<and> prefix sent (upstreamBytes u) \<and>
     length (Ou_sent w') \<le> Suc (length (Ou_sent w)) \<and>
     (if started then \<exists>s. Ou_statuses w' = Ou_statuses w @ [s] else Ou_statuses w' = Ou_statuses w \<and> sent = [])"

definition result_of :: "Target \<Rightarrow> bool \<Rightarrow> string \<Rightarrow> Result \<Rightarrow> bool" where
  "result_of target started sent r \<longleftrightarrow> R_BackendID r = Backend_ID (T_Backend target) \<and> R_RetryCount r = 0 \<and>
     R_ResponseStarted r = started \<and> R_BytesSent r = int (length sent)"

lemma forwardOnce_spec:
  assumes "forwardOnce decode P u request target w = (w', e)"
  obtains started sent where "shows_client u started sent w w'" and "Ou_completed w' = Ou_completed w"
    and "\<And>r retryable outcome. e = Ended (r, retryable, outcome) \<Longrightarrow>
      result_of target started sent r \<and> (retryable \<longrightarrow> \<not> started)"
proof (cases "\<exists>response. u = Responds response")
  case False
  then show thesis
    using that [of False "[]"] assms
    by (cases u) (auto simp: forwardOnce_def Let_def shows_client_def result_of_def newResult_def split: option.splits)
next
  case True
  then obtain response where u: "u = Responds response" by blast
  define c where "c = \<lparr>rc_outside = w\<lparr>Ou_sent := Ou_sent w @ [sentRequest target request]\<rparr>,
     rc_inspector = newUsageInspector P (headerGet (Rs_Header response) ''Content-Type''),
     rc_result = (newResult (Backend_ID (T_Backend target)))\<lparr>R_Status := Rs_StatusCode response\<rparr>\<rparr>"
  define c1 where "c1 = (if Rs_StatusCode response < 200 \<or> Rs_StatusCode response \<ge> 300 then rc_commit response c else c)"
  obtain d f where d: "rc_copy decode response True (Rs_Steps response) c1 = (d, f)"
    by (cases "rc_copy decode response True (Rs_Steps response) c1")
  from copy_progress [OF d] obtain sent where p: "progress sent c1 d" "prefix sent (bodyBytes (Rs_Steps response))"
    and r: "\<And>outcome. f = Ended (True, outcome) \<Longrightarrow> \<not> R_ResponseStarted (rc_result d)" by blast
  have "progress [] c c1" using progress_refl progress_commit(1) by (simp add: c1_def)
  from progress_trans [OF this p(1)] have p: "progress sent c d" "prefix sent (bodyBytes (Rs_Steps response))"
    using p(2) by simp_all
  have w': "w' = rc_outside d" and e: "e = (case f of Pending \<Rightarrow> Pending | Panicked \<Rightarrow> Panicked
      | Ended (retryable, outcome) \<Rightarrow> Ended (rc_result d, retryable, outcome))"
    using assms d [unfolded c1_def c_def] by (simp_all add: forwardOnce_def Let_def u)
  show thesis
  proof (rule that [of "R_ResponseStarted (rc_result d)" sent])
    show "shows_client u (R_ResponseStarted (rc_result d)) sent w w'" "Ou_completed w' = Ou_completed w"
      using p by (auto simp: progress_def shows_client_def w' c_def newResult_def u upstreamBytes_def split: if_splits)
    show "result_of target (R_ResponseStarted (rc_result d)) sent x \<and> (retryable \<longrightarrow> \<not> R_ResponseStarted (rc_result d))"
      if "e = Ended (x, retryable, outcome)" for x retryable outcome
      using that p(1) r by (cases f) (auto simp: e progress_def result_of_def c_def newResult_def)
  qed
qed

lemma forwardAttempt_spec:
  assumes "forwardAttempt decode P u request target w = (w', e)"
  obtains started sent where "shows_client u started sent w w'"
    and "\<And>r retryable. e = Ended (r, retryable) \<Longrightarrow> result_of target started sent r \<and> (retryable \<longrightarrow> \<not> started)"
    and "e \<noteq> Pending \<Longrightarrow> T_Complete target \<noteq> None \<Longrightarrow>
      \<exists>outcome. Ou_completed w' = Ou_completed w @ [(Backend_ID (T_Backend target), outcome)]"
proof -
  obtain v f where v: "forwardOnce decode P u request target w = (v, f)" by (cases "forwardOnce decode P u request target w")
  obtain started sent where s: "shows_client u started sent w v" "Ou_completed v = Ou_completed w"
    "\<And>r retryable outcome. f = Ended (r, retryable, outcome) \<Longrightarrow> result_of target started sent r \<and> (retryable \<longrightarrow> \<not> started)"
    by (rule forwardOnce_spec [OF v]) blast
  have frame: "shows_client u started sent w (noteCompleted target outcome v)" for outcome
    using s(1) by (simp add: shows_client_def noteCompleted_def)
  show thesis
  proof (rule that [of started sent])
    show "shows_client u started sent w w'"
      using assms v s(1) frame
      by (auto simp: forwardAttempt_def split: ending.splits option.splits completion.splits prod.splits if_splits)
    show "result_of target started sent r \<and> (retryable \<longrightarrow> \<not> started)" if "e = Ended (r, retryable)" for r retryable
      using that assms v s(3)
      by (auto simp: forwardAttempt_def split: ending.splits option.splits completion.splits prod.splits)
    show "\<exists>outcome. Ou_completed w' = Ou_completed w @ [(Backend_ID (T_Backend target), outcome)]"
      if "e \<noteq> Pending" "T_Complete target \<noteq> None"
      using that assms v s(2)
      by (auto simp: forwardAttempt_def noteCompleted_def split: ending.splits option.splits completion.splits prod.splits)
  qed
qed

section \<open>The retry\<close>

definition freshOutside :: "header \<Rightarrow> Outside" where
  "freshOutside h = \<lparr>Ou_sent = [], Ou_header = h, Ou_statuses = [], Ou_body = [], Ou_completed = []\<rparr>"

lemma Forward_cases:
  assumes "proxy_Forward decode P upstreams request w = (w', e)"
  obtains (single) e1 where
      "forwardAttempt decode P (upstreams 0) request (Rq_Target request) w = (w', e1)"
      "e = Pending \<longleftrightarrow> e1 = Pending"
      "\<And>r. e = Ended r \<Longrightarrow> \<exists>r1 retryable err. e1 = Ended (r1, retryable) \<and> r = r1\<lparr>R_RetryCount := 0, R_Err := err\<rparr>"
  | (retried) w1 r1 select alt e2 where
      "forwardAttempt decode P (upstreams 0) request (Rq_Target request) w = (w1, Ended (r1, True))"
      "Rq_SelectAlternate request = Some select" "select [Backend_ID (T_Backend (Rq_Target request))] = Inr alt"
      "forwardAttempt decode P (upstreams 1) request alt w1 = (w', e2)" "e = Pending \<longleftrightarrow> e2 = Pending"
      "\<And>r. e = Ended r \<Longrightarrow> \<exists>r2 retryable. e2 = Ended (r2, retryable) \<and> r = r2\<lparr>R_RetryCount := 1\<rparr>"
proof -
  obtain w1 e1 where 1: "forwardAttempt decode P (upstreams 0) request (Rq_Target request) w = (w1, e1)"
    by (cases "forwardAttempt decode P (upstreams 0) request (Rq_Target request) w")
  note unf = assms [unfolded proxy_Forward_def numeral_2_eq_2 forwardFrom.simps 1 Let_def, simplified]
  show thesis
  proof (cases "\<exists>r1 select alt. e1 = Ended (r1, True) \<and> Rq_SelectAlternate request = Some select \<and>
      select [Backend_ID (T_Backend (Rq_Target request))] = Inr alt")
    case True
    then obtain r1 select alt where 2: "e1 = Ended (r1, True)" "Rq_SelectAlternate request = Some select"
      "select [Backend_ID (T_Backend (Rq_Target request))] = Inr alt" by blast
    obtain w2 e2 where 3: "forwardAttempt decode P (upstreams 1) request alt w1 = (w2, e2)"
      by (cases "forwardAttempt decode P (upstreams 1) request alt w1")
    show thesis
    proof (rule retried [OF 1 [unfolded 2(1)] 2(2,3)])
      show "forwardAttempt decode P (upstreams 1) request alt w1 = (w', e2)" "e = Pending \<longleftrightarrow> e2 = Pending"
        using unf 2 3 by (auto simp: newResult_def Let_def split: ending.splits)
      show "\<exists>r2 retryable. e2 = Ended (r2, retryable) \<and> r = r2\<lparr>R_RetryCount := 1\<rparr>" if "e = Ended r" for r
        using that unf 2 3 by (auto simp: newResult_def Let_def split: ending.splits)
    qed
  next
    case False
    show thesis
    proof (rule single)
      show "forwardAttempt decode P (upstreams 0) request (Rq_Target request) w = (w', e1)" "e = Pending \<longleftrightarrow> e1 = Pending"
        using unf 1 False by (auto simp: newResult_def Let_def split: ending.splits option.splits sum.splits if_splits)
      show "\<exists>r1 retryable err. e1 = Ended (r1, retryable) \<and> r = r1\<lparr>R_RetryCount := 0, R_Err := err\<rparr>" if er: "e = Ended r" for r
      proof -
        obtain r1 retryable where e1: "e1 = Ended (r1, retryable)" using er unf by (auto split: ending.splits)
        have "r = r1\<lparr>R_RetryCount := 0, R_Err := R_Err r\<rparr>"
          using er unf False e1 by (auto simp: newResult_def Let_def split: option.splits sum.splits if_splits)
        then show ?thesis using e1 by blast
      qed
    qed
  qed
qed

section \<open>A retried request\<close>

definition retried_target :: "int \<Rightarrow> Target" where
  "retried_target i = \<lparr>T_Backend = \<lparr>Backend_ID = i, Backend_Revision = 1, Backend_ModelPoolID = 1, Backend_Name = ''b'',
     Backend_BaseURL = ''http://b/'', Backend_Enabled = True, Backend_Draining = False, Backend_CapacityHint = Fin 1,
     Backend_RunningSoftLimit = Fin 1, Backend_UpstreamAPIKeyEnv = [], Backend_CreatedAt = 1, Backend_UpdatedAt = 1\<rparr>,
     T_UpstreamAPIKey = [], T_Complete = Some CompleteReturns\<rparr>"

definition sample_select :: "int list \<Rightarrow> string + Target" where
  "sample_select ex = (if 2 \<in> set ex then Inl ''none'' else Inr (retried_target 2))"

definition retried_request :: Request where
  "retried_request = \<lparr>Rq_Method = ''POST'', Rq_Path = ''/v1/completions'', Rq_Headers = [], Rq_Body = ''{}'',
     Rq_RequestID = ''r'', Rq_Priority = 0, Rq_Target = retried_target 1, Rq_SelectAlternate = Some sample_select\<rparr>"

definition sample_step :: "string \<Rightarrow> readError option \<Rightarrow> copyStep" where
  "sample_step d e = ReadStep \<lparr>rs_data = d, rs_err = e, rs_ctxRead = None, rs_written = length d, rs_writeErr = None,
     rs_ctxWrite = None, rs_ctxEnd = None\<rparr>"

definition sample_upstreams :: "nat \<Rightarrow> Upstream" where
  "sample_upstreams n = (if n = 0 then TransportFails ''refused'' None
     else Responds \<lparr>Rs_StatusCode = 200, Rs_Header = [], Rs_Elapsed = 5,
       Rs_Steps = [sample_step ''ok'' None, sample_step [] (Some ReadEOF)]\<rparr>)"

definition sample_forward :: "Outside \<times> Result ending" where
  "sample_forward = proxy_Forward (\<lambda>s. None) (\<lambda>s. None) sample_upstreams retried_request (freshOutside [])"

definition sample_result :: Result where
  "sample_result = (newResult 2)\<lparr>R_Status := 200, R_BytesSent := 2, R_FirstByte := 5, R_RetryCount := 1, R_ResponseStarted := True\<rparr>"

lemma sample_forwarded:
  "snd sample_forward = Ended sample_result \<and> Ou_body (fst sample_forward) = ''ok'' \<and>
   Ou_completed (fst sample_forward) = [(1, InferenceFailure), (2, InferenceSuccess)]"
  by code_simp

lemma sample_ended:
  "proxy_Forward (\<lambda>s. None) (\<lambda>s. None) sample_upstreams retried_request (freshOutside []) = (fst sample_forward, Ended sample_result)"
  using sample_forwarded by (metis prod.collapse sample_forward_def)

text \<open>C4: whatever the network and the client do, at most two requests are sent and the client
  receives at most one status line, never a byte without it, and a prefix of the body of one attempt: the
  second one only if nothing of the first had reached the client. The result counts exactly the bytes sent
  and the retry.\<close>

theorem proxy_single_response:
  assumes "proxy_Forward decode P upstreams request (freshOutside h) = (w, e)"
  shows "length (Ou_sent w) \<le> 2 \<and> length (Ou_statuses w) \<le> 1 \<and> (Ou_body w \<noteq> [] \<longrightarrow> Ou_statuses w \<noteq> []) \<and>
    (\<exists>n < 2. prefix (Ou_body w) (upstreamBytes (upstreams n))) \<and>
    (\<forall>r. e = Ended r \<longrightarrow> R_BytesSent r = int (length (Ou_body w)) \<and>
       R_ResponseStarted r = (Ou_statuses w \<noteq> []) \<and> R_RetryCount r \<in> {0, 1} \<and>
       prefix (Ou_body w) (upstreamBytes (upstreams (nat (R_RetryCount r)))))"
  using assms
proof (cases rule: Forward_cases)
  case (single e1)
  obtain started sent where s: "shows_client (upstreams 0) started sent (freshOutside h) w"
    "\<And>r retryable. e1 = Ended (r, retryable) \<Longrightarrow> result_of (Rq_Target request) started sent r \<and> (retryable \<longrightarrow> \<not> started)"
    by (rule forwardAttempt_spec [OF single(1)]) blast
  have "Ou_body w = sent" "prefix sent (upstreamBytes (upstreams 0))" "length (Ou_sent w) \<le> 2"
    "length (Ou_statuses w) \<le> 1" "started = (Ou_statuses w \<noteq> [])" "sent \<noteq> [] \<longrightarrow> started"
    using s(1) by (auto simp: shows_client_def freshOutside_def split: if_splits)
  then show ?thesis using single(3) s(2) by (auto simp: result_of_def intro!: exI [of _ 0])
next
  case (retried w1 r1 select alt e2)
  have w1: "Ou_body w1 = []" "Ou_statuses w1 = []" "length (Ou_sent w1) \<le> 1"
    using forwardAttempt_spec [OF retried(1)] by (auto simp: shows_client_def freshOutside_def)
  obtain started sent where s: "shows_client (upstreams 1) started sent w1 w"
    "\<And>r retryable. e2 = Ended (r, retryable) \<Longrightarrow> result_of alt started sent r \<and> (retryable \<longrightarrow> \<not> started)"
    by (rule forwardAttempt_spec [OF retried(4)]) blast
  have "Ou_body w = sent" "prefix sent (upstreamBytes (upstreams 1))" "length (Ou_sent w) \<le> 2"
    "length (Ou_statuses w) \<le> 1" "started = (Ou_statuses w \<noteq> [])" "sent \<noteq> [] \<longrightarrow> started"
    using s(1) w1 by (auto simp: shows_client_def split: if_splits)
  then show ?thesis using retried(6) s(2) by (auto simp: result_of_def intro!: exI [of _ 1])
qed

theorem proxy_single_response_witness:
  "length (Ou_statuses (fst sample_forward)) \<le> 1 \<and> length (Ou_sent (fst sample_forward)) \<le> 2 \<and>
   R_BytesSent sample_result = int (length (Ou_body (fst sample_forward))) \<and>
   prefix (Ou_body (fst sample_forward)) (upstreamBytes (sample_upstreams 1))"
proof -
  have "nat (R_RetryCount sample_result) = 1" by (simp add: sample_result_def)
  with proxy_single_response [OF sample_ended] show ?thesis by metis
qed



section \<open>Termination\<close>

definition ends :: "copyStep \<Rightarrow> bool" where
  "ends s = (case s of ReadStep r \<Rightarrow> rs_err r \<noteq> None | _ \<Rightarrow> True)"

definition upstreamEnds :: "Upstream \<Rightarrow> bool" where
  "upstreamEnds u = (case u of Responds response \<Rightarrow> list_ex ends (Rs_Steps response) | _ \<Rightarrow> True)"

lemma copy_ends: "list_ex ends steps \<Longrightarrow> snd (rc_copy decode response fr steps c) \<noteq> Pending"
proof (induction decode response fr steps c rule: rc_copy.induct)
  case (4 decode response fr s steps c)
  let ?x = "if rs_data s \<noteq> [] then rc_write decode response s (provenFailure s) (noteFailure s c) else (noteFailure s c, None)"
  obtain c2 ended where w: "?x = (c2, ended)" by (cases ?x)
  have rest: "snd (rc_copy decode response False steps c2) \<noteq> Pending" if "ended = None" "rs_err s = None"
    using "4.IH" [OF refl w [symmetric] refl that] "4.prems" that(2) by (simp add: ends_def)
  show ?case
    using w rest by (auto simp: Let_def split: option.splits prod.splits)
qed simp_all

lemma forwardOnce_ends:
  assumes "upstreamEnds u"
  shows "snd (forwardOnce decode P u request target w) \<noteq> Pending"
proof (cases u)
  case (Responds response)
  then have "snd (rc_copy decode response fr (Rs_Steps response) c) \<noteq> Pending" for fr c
    using assms by (intro copy_ends) (simp add: upstreamEnds_def)
  then show ?thesis
    by (auto simp: forwardOnce_def Responds Let_def case_prod_unfold split: ending.splits)
qed (simp_all add: forwardOnce_def Let_def split: option.splits)

lemma attempt_ends: "upstreamEnds u \<Longrightarrow> snd (forwardAttempt decode P u request target w) \<noteq> Pending"
  using forwardOnce_ends [of u decode P request target w]
  by (auto simp: forwardAttempt_def case_prod_unfold Let_def split: ending.splits option.splits completion.splits)

text \<open>C37: forwarding ends, with a result or a panic, as soon as the body of each attempt reaches its
  end or an error: the copy loop and the retry loop add no waiting of their own.\<close>

theorem proxy_forward_terminates:
  assumes "upstreamEnds (upstreams 0)" and "upstreamEnds (upstreams 1)"
  shows "snd (proxy_Forward decode P upstreams request w) \<noteq> Pending"
proof -
  obtain w' e where f: "proxy_Forward decode P upstreams request w = (w', e)" by (cases "proxy_Forward decode P upstreams request w")
  then have "e \<noteq> Pending"
  proof (cases rule: Forward_cases)
    case (single e1)
    then show ?thesis using attempt_ends [OF assms(1), of decode P request "Rq_Target request" w] by simp
  next
    case (retried w1 r1 select alt e2)
    then show ?thesis using attempt_ends [OF assms(2), of decode P request alt w1] by simp
  qed
  then show ?thesis using f by simp
qed

theorem proxy_forward_terminates_witness:
  "snd (proxy_Forward (\<lambda>s. None) (\<lambda>s. None) sample_upstreams retried_request (freshOutside [])) \<noteq> Pending"
  by (rule proxy_forward_terminates) (simp_all add: sample_upstreams_def upstreamEnds_def ends_def sample_step_def)

end
