(* ===== verification/Gateway_Service.thy ===== *)
theory Gateway_Service
  imports Gateway_Types Registry Admission Routing "HOL-Library.Char_ord" "HOL-Library.List_Lexorder"
begin

text \<open>
  The gateway service (\<^verbatim>\<open>internal/gateway/service.go\<close>): authentication, readiness, load status,
  the list of models and the admission to a pool, with the API keys of \<^verbatim>\<open>internal/apikey/apikey.go\<close>
  and the selection of a target of \<^verbatim>\<open>internal/gateway/forward.go\<close>. The keyed hash of
  \<^verbatim>\<open>crypto/hmac\<close> is the parameter \<open>hmac\<close>. What the monitor reports is the parameter \<open>RuntimeView\<close>.
  The two loops that retry read the published snapshot anew in every round, so a list of rounds says what
  each of them meets; when it is used up the loop is still running, which is \<open>None\<close>.
\<close>

section \<open>API keys\<close>

definition keyPrefix :: string where "keyPrefix = ''llmgw_''"

definition randomByteCount :: nat where "randomByteCount = 32"

definition displayPrefixLen :: nat where "displayPrefixLen = 12"

record Plaintext =
  PT_Value :: string
  PT_Prefix :: string

definition urlAlphabet :: string where
  "urlAlphabet = ''ABCDEFGHIJKLMNOPQRSTUVWXYZabcdefghijklmnopqrstuvwxyz0123456789-_''"

text \<open>\<^verbatim>\<open>base64.RawURLEncoding\<close>: six bits a character, no padding.\<close>

fun rawURLEncode :: "string \<Rightarrow> string" where
  "rawURLEncode [] = []"
| "rawURLEncode [a] =
     (let n = byteval a * 16 in [urlAlphabet ! (n div 64), urlAlphabet ! (n mod 64)])"
| "rawURLEncode [a, b] =
     (let n = (byteval a * 256 + byteval b) * 4
      in [urlAlphabet ! (n div 4096), urlAlphabet ! (n div 64 mod 64), urlAlphabet ! (n mod 64)])"
| "rawURLEncode (a # b # c # s) =
     (let n = (byteval a * 256 + byteval b) * 256 + byteval c
      in [urlAlphabet ! (n div 262144), urlAlphabet ! (n div 4096 mod 64), urlAlphabet ! (n div 64 mod 64),
          urlAlphabet ! (n mod 64)] @ rawURLEncode s)"

text \<open>The entropy is what the reader can deliver; too little is an error.\<close>

definition Generate :: "string \<Rightarrow> string + Plaintext" where
  "Generate random =
     (if length random < randomByteCount then Inl ''read API key entropy''
      else
        let value = keyPrefix @ rawURLEncode (take randomByteCount random)
        in Inr \<lparr>PT_Value = value, PT_Prefix = take displayPrefixLen value\<rparr>)"

definition Verify :: "(string \<Rightarrow> string \<Rightarrow> string) \<Rightarrow> string \<Rightarrow> string \<Rightarrow> string \<Rightarrow> bool" where
  "Verify hmac secret raw expected \<longleftrightarrow> hmac secret raw = expected"

section \<open>The service and its views\<close>

record Service =
  S_hmacSecret :: string
  S_admission :: bool
  S_usage :: bool
  S_retryAfter :: duration
  S_lookupEnv :: "string \<Rightarrow> string option"
  S_router :: Router
  S_replicaID :: uuid
  S_leaseTTL :: duration

text \<open>\<^verbatim>\<open>New\<close> fills in what its dependencies leave open; \<open>fresh\<close> is the UUID it generates. The three functions
  that may be \<^verbatim>\<open>nil\<close> are options.\<close>

record Dependencies =
  D_HMACSecret :: string
  D_Admission :: bool
  D_Usage :: bool
  D_RetryAfter :: duration
  D_LookupEnv :: "(string \<Rightarrow> string option) option"
  D_Router :: Router
  D_ReplicaID :: uuid
  D_LeaseTTL :: duration

definition service_New :: "uuid \<Rightarrow> Dependencies \<Rightarrow> Service" where
  "service_New fresh d = \<lparr>S_hmacSecret = D_HMACSecret d, S_admission = D_Admission d, S_usage = D_Usage d,
     S_retryAfter = (if D_RetryAfter d \<le> 0 then 2 * second else D_RetryAfter d),
     S_lookupEnv = (case D_LookupEnv d of None \<Rightarrow> (\<lambda>name. None) | Some lookup \<Rightarrow> lookup),
     S_router = D_Router d,
     S_replicaID = (if D_ReplicaID d = 0 then fresh else D_ReplicaID d),
     S_leaseTTL = (if D_LeaseTTL d \<le> 0 then 90 * second else D_LeaseTTL d)\<rparr>"

record RuntimeView =
  RV_PoolSnapshot :: "int \<Rightarrow> instant \<Rightarrow> PoolRuntime"
  RV_Snapshot :: "int \<Rightarrow> instant \<Rightarrow> BackendRuntime"

definition access :: "Snapshot \<Rightarrow> int \<Rightarrow> int \<Rightarrow> bool" where
  "access s clientID poolID =
     (case mget (Snap_Access s) clientID of
        None \<Rightarrow> False
      | Some pools \<Rightarrow> (case mget pools poolID of None \<Rightarrow> False | Some allowed \<Rightarrow> allowed))"

definition upstreamSecret :: "Service \<Rightarrow> Backend \<Rightarrow> string \<times> bool" where
  "upstreamSecret s backend =
     (if Backend_UpstreamAPIKeyEnv backend = [] then ([], True)
      else case S_lookupEnv s (Backend_UpstreamAPIKeyEnv backend) of
             None \<Rightarrow> ([], False)
           | Some secret \<Rightarrow> (secret, secret \<noteq> []))"

section \<open>Authentication\<close>

text \<open>The loop over the candidates keeps the last one that matches.\<close>

definition lastMatch :: "(string \<Rightarrow> string \<Rightarrow> string) \<Rightarrow> string \<Rightarrow> string \<Rightarrow> APIKey list \<Rightarrow> APIKey option" where
  "lastMatch hmac secret raw candidates =
     fold (\<lambda>candidate matched. if Verify hmac secret raw (APIKey_SecretHash candidate) then Some candidate else matched)
       candidates None"

definition validateAPIKeySnapshot ::
  "(string \<Rightarrow> string \<Rightarrow> string) \<Rightarrow> Service \<Rightarrow> string \<Rightarrow> Snapshot \<Rightarrow> instant \<Rightarrow> APIError + (Client \<times> APIKey)" where
  "validateAPIKeySnapshot hmac s raw snapshot now =
     (if length raw < 12 \<or> \<not> hasPrefix raw ''llmgw_'' then Inl invalidAPIKey
      else case lastMatch hmac (S_hmacSecret s) raw (mgetl (Snap_KeyCandidates snapshot) (take 12 raw)) of
        None \<Rightarrow> Inl invalidAPIKey
      | Some matched \<Rightarrow>
          if APIKey_RevokedAt matched \<noteq> None \<or>
             (case APIKey_ExpiresAt matched of None \<Rightarrow> False | Some expires \<Rightarrow> \<not> expires > now)
          then Inl invalidAPIKey
          else case mget (Snap_Clients snapshot) (APIKey_ClientID matched) of
            None \<Rightarrow> Inl invalidAPIKey
          | Some client \<Rightarrow> if \<not> Client_Enabled client then Inl invalidAPIKey else Inr (client, matched))"

text \<open>Besides the client, the use of the key that is recorded, with its own reading of the clock.\<close>

definition authenticate ::
  "(string \<Rightarrow> string \<Rightarrow> string) \<Rightarrow> Service \<Rightarrow> string \<Rightarrow> Snapshot \<Rightarrow> instant \<Rightarrow> instant \<Rightarrow>
     (int \<times> instant) list \<times> (APIError + (Client \<times> APIKey))" where
  "authenticate hmac s raw snapshot now usedAt =
     (case validateAPIKeySnapshot hmac s raw snapshot now of
        Inl e \<Rightarrow> ([], Inl e)
      | Inr (client, matched) \<Rightarrow>
          (if S_usage s then [(APIKey_ID matched, usedAt)] else [], Inr (client, matched)))"

definition ValidateAPIKey ::
  "(string \<Rightarrow> string \<Rightarrow> string) \<Rightarrow> Service \<Rightarrow> string \<Rightarrow> Snapshot \<Rightarrow> instant \<Rightarrow> APIError + Client" where
  "ValidateAPIKey hmac s raw snapshot now =
     (case validateAPIKeySnapshot hmac s raw snapshot now of
        Inl e \<Rightarrow> Inl e | Inr (client, matched) \<Rightarrow> Inr client)"

section \<open>Readiness and load\<close>

definition availableBackends :: "Service \<Rightarrow> RuntimeView \<Rightarrow> Snapshot \<Rightarrow> int \<Rightarrow> instant \<Rightarrow> int" where
  "availableBackends s rt snapshot poolID now =
     int (length (filter (\<lambda>backend.
       \<not> (\<not> Backend_Enabled backend \<or> Backend_Draining backend) \<and>
       (let runtime = RV_Snapshot rt (Backend_ID backend) now
        in BR_Healthy runtime \<and> BR_MetricsFresh runtime \<and> BR_CircuitAvailable runtime \<and> snd (upstreamSecret s backend)))
       (mgetl (Snap_BackendsByPool snapshot) poolID)))"

record InferenceReadiness =
  IR_Status :: string
  IR_Revision :: int
  IR_PoolAvailability :: int
  IR_BackendAvailability :: int

text \<open>Whether some client may be served by emergency admission on the pool.\<close>

definition emergencyPolicy :: "EmergencyAdmission \<Rightarrow> RuntimeView \<Rightarrow> Snapshot \<Rightarrow> int \<Rightarrow> instant \<Rightarrow> bool" where
  "emergencyPolicy emergency rt snapshot poolID now \<longleftrightarrow>
     list_ex (\<lambda>(clientID, pools).
       (case mget (Snap_Clients snapshot) clientID of
          None \<Rightarrow> False
        | Some client \<Rightarrow>
            Client_Enabled client \<and> (case mget pools poolID of None \<Rightarrow> False | Some allowed \<Rightarrow> allowed) \<and>
            Emergency_CanServe (Some emergency) (Client_PriorityClass client) (Client_ID client)
              (EffectiveLimit (Client_PriorityClass client) (PR_State (RV_PoolSnapshot rt poolID now))
                (Client_MaxConcurrency client))))
       (Snap_Access snapshot)"

definition readinessStep ::
  "Service \<Rightarrow> EmergencyAdmission \<Rightarrow> RuntimeView \<Rightarrow> bool \<Rightarrow> Snapshot \<Rightarrow> instant \<Rightarrow> int \<times> ModelPool \<Rightarrow>
     InferenceReadiness \<Rightarrow> InferenceReadiness" where
  "readinessStep s emergency rt degraded snapshot now entry readiness =
     (let pool = snd entry in
      if \<not> Pool_Enabled pool then readiness
      else if degraded \<and> \<not> emergencyPolicy emergency rt snapshot (Pool_ID pool) now then readiness
      else
        let available = availableBackends s rt snapshot (Pool_ID pool) now;
            readiness = readiness\<lparr>IR_BackendAvailability := IR_BackendAvailability readiness + available\<rparr>
        in if available > 0 then readiness\<lparr>IR_PoolAvailability := IR_PoolAvailability readiness + 1\<rparr> else readiness)"

definition service_InferenceReadiness ::
  "Service \<Rightarrow> EmergencyAdmission \<Rightarrow> RuntimeView \<Rightarrow> bool \<Rightarrow> bool \<Rightarrow> Snapshot \<Rightarrow> instant \<Rightarrow> InferenceReadiness" where
  "service_InferenceReadiness s emergency rt coordinationAllowed coordinationReady snapshot now =
     (let readiness = \<lparr>IR_Status = ''unavailable'', IR_Revision = Snap_Revision snapshot, IR_PoolAvailability = 0,
            IR_BackendAvailability = 0\<rparr> in
      if \<not> coordinationAllowed then readiness
      else
        let degraded = (S_admission s \<and> \<not> coordinationReady);
            readiness = fold (readinessStep s emergency rt degraded snapshot now) (Snap_PoolsByID snapshot) readiness
        in if IR_PoolAvailability readiness > 0 \<or> IR_BackendAvailability readiness > 0
           then readiness\<lparr>IR_Status := ''ready''\<rparr> else readiness)"

datatype LoadLevel = LoadFree | LoadMedium | LoadLoaded | LoadUnavailable

fun loadLevel :: "PoolState \<Rightarrow> LoadLevel" where
  "loadLevel PoolNormal = LoadFree"
| "loadLevel PoolBusy = LoadMedium"
| "loadLevel PoolSaturated = LoadLoaded"
| "loadLevel PoolEmergency = LoadLoaded"
| "loadLevel _ = LoadUnavailable"

record LoadStatus =
  LS_Model :: string
  LS_Level :: LoadLevel
  LS_PoolState :: PoolState
  LS_BestBackendPressure :: f64
  LS_AvailableBackends :: int
  LS_WaitingRequests :: f64
  LS_GatewayInflight :: int
  LS_ConfigRevision :: int
  LS_EvaluatedAt :: instant

definition service_LoadStatus ::
  "(string \<Rightarrow> string \<Rightarrow> string) \<Rightarrow> Service \<Rightarrow> RuntimeView \<Rightarrow> Snapshot \<Rightarrow> instant \<Rightarrow> string \<Rightarrow> string \<Rightarrow>
     APIError + LoadStatus" where
  "service_LoadStatus hmac s rt snapshot now rawKey model =
     (case validateAPIKeySnapshot hmac s rawKey snapshot now of
        Inl e \<Rightarrow> Inl e
      | Inr (client, matched) \<Rightarrow>
          (let model = trimSpace model in
           if model = [] then Inl (invalidRequest ''Model is required'')
           else case mget (Snap_PoolsByName snapshot) model of
             None \<Rightarrow> Inl modelNotAllowed
           | Some pool \<Rightarrow>
               if \<not> Pool_Enabled pool \<or> \<not> access snapshot (Client_ID client) (Pool_ID pool) then Inl modelNotAllowed
               else
                 let runtime = RV_PoolSnapshot rt (Pool_ID pool) now;
                     available = availableBackends s rt snapshot (Pool_ID pool) now;
                     state = (if available = 0 then PoolUnavailable else PR_State runtime)
                 in Inr \<lparr>LS_Model = model, LS_Level = loadLevel state, LS_PoolState = state,
                      LS_BestBackendPressure = PR_BestBackendPressure runtime, LS_AvailableBackends = available,
                      LS_WaitingRequests = PR_TotalWaiting runtime, LS_GatewayInflight = PR_GatewayInflight runtime,
                      LS_ConfigRevision = Snap_Revision snapshot, LS_EvaluatedAt = now\<rparr>))"

text \<open>The key is checked on one snapshot and the models are read from the next one.\<close>

definition service_Models ::
  "(string \<Rightarrow> string \<Rightarrow> string) \<Rightarrow> Service \<Rightarrow> Snapshot \<Rightarrow> Snapshot \<Rightarrow> instant \<Rightarrow> instant \<Rightarrow> string \<Rightarrow>
     APIError + (ModelPool list \<times> Client)" where
  "service_Models hmac s authSnapshot snapshot now usedAt rawKey =
     (case snd (authenticate hmac s rawKey authSnapshot now usedAt) of
        Inl e \<Rightarrow> Inl e
      | Inr (client, matched) \<Rightarrow>
          (let entries = (case mget (Snap_Access snapshot) (Client_ID client) of None \<Rightarrow> [] | Some pools \<Rightarrow> pools);
               models = List.map_filter (\<lambda>(poolID, allowed).
                 case mget (Snap_PoolsByID snapshot) poolID of
                   None \<Rightarrow> None
                 | Some pool \<Rightarrow> if allowed \<and> Pool_Enabled pool then Some pool else None) entries
           in Inr (sort_key Pool_PublicModelName models, client)))"

section \<open>Admission to a pool\<close>

definition zeroPoolRuntime :: "int \<Rightarrow> PoolState \<Rightarrow> PoolRuntime" where
  "zeroPoolRuntime poolID state = \<lparr>PR_PoolID = poolID, PR_State = state, PR_BestBackendPressure = Fin 0,
     PR_AvailableBackends = 0, PR_AllBackendsWaiting = False, PR_GatewayInflight = 0, PR_TotalWaiting = Fin 0\<rparr>"

text \<open>The pool and whether it is still what the request was admitted for; a missing pool is never valid.\<close>

definition currentAdmissionPool :: "Snapshot \<Rightarrow> int \<Rightarrow> ModelPool \<Rightarrow> ModelPool option" where
  "currentAdmissionPool snapshot clientID original =
     (case (mget (Snap_PoolsByID snapshot) (Pool_ID original), mget (Snap_Clients snapshot) clientID) of
        (Some pool, Some client) \<Rightarrow>
          if Pool_Enabled pool \<and> Pool_PublicModelName pool = Pool_PublicModelName original \<and>
             Pool_UpstreamModelName pool = Pool_UpstreamModelName original \<and> Client_Enabled client \<and>
             access snapshot clientID (Pool_ID pool)
          then Some pool else None
      | _ \<Rightarrow> None)"

text \<open>The manager's slots of the pools (\<^verbatim>\<open>internal/monitor/manager.go\<close>).\<close>

definition manager_AcquirePool :: "int \<Rightarrow> int \<Rightarrow> (int, int) gomap \<Rightarrow> (int, int) gomap option" where
  "manager_AcquirePool poolID maximum poolInflight =
     (if maximum < 0 \<or> maximum > 0 \<and> cget poolInflight poolID \<ge> maximum then None
      else Some (cinc poolID poolInflight))"

definition manager_releasePool :: "int \<Rightarrow> (int, int) gomap \<Rightarrow> (int, int) gomap" where
  "manager_releasePool poolID poolInflight =
     (if cget poolInflight poolID > 1 then mput poolID (cget poolInflight poolID - 1) poolInflight
      else mdel poolID poolInflight)"

text \<open>One round of the loop: the snapshots before and after, the pool's runtime, the answer of
  \<^verbatim>\<open>AcquirePool\<close> and whether the context is done. The slots taken and given back are logged, so that
  other requests may do anything in between.\<close>

record poolRound =
  pr_before :: Snapshot
  pr_runtime :: "int \<Rightarrow> PoolRuntime"
  pr_acquire :: "int \<Rightarrow> int \<Rightarrow> bool"
  pr_after :: Snapshot
  pr_cancelled :: bool

datatype poolOp = PoolAcquired int int | PoolReleased int

type_synonym poolResult = "(PoolRuntime \<times> APIError) + (PoolRuntime \<times> bool)"

definition poolGone :: "Service \<Rightarrow> ModelPool \<Rightarrow> PoolRuntime \<times> APIError" where
  "poolGone s original =
     (zeroPoolRuntime (Pool_ID original) PoolUnavailable, backendUnavailable (S_retryAfter s) DecisionPoolUnavailable)"

text \<open>The checks before a slot is taken: an error, or the pool with its runtime.\<close>

definition poolChecks ::
  "Service \<Rightarrow> int \<Rightarrow> ModelPool \<Rightarrow> poolRound \<Rightarrow> (PoolRuntime \<times> APIError) + (ModelPool \<times> PoolRuntime)" where
  "poolChecks s clientID original r =
     (case currentAdmissionPool (pr_before r) clientID original of
        None \<Rightarrow> Inl (poolGone s original)
      | Some pool \<Rightarrow>
          if \<not> S_admission s \<and> Pool_HighPriorityReserve pool > 0
          then Inl (zeroPoolRuntime 0 PoolNone, gatewayUnavailable (S_retryAfter s))
          else
            let runtime = pr_runtime r (Pool_ID pool) in
            if PR_State runtime = PoolUnavailable
            then Inl (runtime, backendUnavailable (S_retryAfter s) DecisionPoolUnavailable)
            else if Pool_MaxWaiting pool > 0 \<and> f64_le (Fin (of_int (Pool_MaxWaiting pool))) (PR_TotalWaiting runtime)
            then Inl (runtime, overloadedError (S_retryAfter s) DecisionPoolWaitingLimit)
            else Inr (pool, runtime))"

fun acquirePool ::
  "Service \<Rightarrow> int \<Rightarrow> ModelPool \<Rightarrow> poolRound list \<Rightarrow> poolOp list \<times> poolResult option" where
  "acquirePool s clientID original [] = ([], None)"
| "acquirePool s clientID original (r # rounds) =
     (case poolChecks s clientID original r of
        Inl e \<Rightarrow> ([], Some (Inl e))
      | Inr (pool, runtime) \<Rightarrow>
          if S_admission s then
            (case currentAdmissionPool (pr_after r) clientID original of
               None \<Rightarrow> ([], Some (Inl (poolGone s original)))
             | Some _ \<Rightarrow> ([], Some (Inr (runtime, False))))
          else if \<not> pr_acquire r (Pool_ID pool) (Pool_MaxGatewayInflight pool)
          then ([], Some (Inl (runtime, overloadedError (S_retryAfter s) DecisionPoolInflightLimit)))
          else
            let taken = PoolAcquired (Pool_ID pool) (Pool_MaxGatewayInflight pool); given = PoolReleased (Pool_ID pool) in
            (case currentAdmissionPool (pr_after r) clientID original of
               None \<Rightarrow> ([taken, given], Some (Inl (poolGone s original)))
             | Some validated \<Rightarrow>
                 if Pool_HighPriorityReserve validated \<noteq> Pool_HighPriorityReserve pool \<or>
                    Pool_MaxGatewayInflight validated \<noteq> Pool_MaxGatewayInflight pool \<or>
                    Pool_MaxWaiting validated \<noteq> Pool_MaxWaiting pool
                 then
                   (if pr_cancelled r
                    then ([taken, given],
                          Some (Inl (runtime, backendUnavailable (S_retryAfter s) DecisionPoolUnavailable)))
                    else
                      let (ops, result) = acquirePool s clientID original rounds in (taken # given # ops, result))
                 else ([taken], Some (Inr (runtime, True)))))"

section \<open>Selecting a target\<close>

record targetSelector =
  TS_client :: Client
  TS_pool :: ModelPool
  TS_affinity :: string
  TS_rawAPIKey :: string

text \<open>One round: the snapshot, the two readings of the clock, the runtime of the backends, the answer of
  \<^verbatim>\<open>AcquireBackend\<close> and the random source.\<close>

record selectRound =
  sr_snapshot :: Snapshot
  sr_authNow :: instant
  sr_now :: instant
  sr_runtime :: RuntimeView
  sr_acquire :: "Backend \<Rightarrow> bool"
  sr_Intn :: "int \<Rightarrow> int"

datatype selectError = errAPIKeyBecameInvalid | selectNoBackend | selectRouteError RouteError

definition targetCandidates :: "Service \<Rightarrow> selectRound \<Rightarrow> int \<Rightarrow> Candidate list" where
  "targetCandidates s r poolID =
     map (\<lambda>backend.
       let runtime = RV_Snapshot (sr_runtime r) (Backend_ID backend) (sr_now r)
       in \<lparr>Cand_Backend = backend, Cand_Pressure = BR_Pressure runtime, Cand_GatewayInflight = BR_GatewayInflight runtime,
           Cand_Eligible = (BR_Healthy runtime \<and> BR_MetricsFresh runtime \<and> BR_CircuitAvailable runtime \<and>
             snd (upstreamSecret s backend))\<rparr>)
       (mgetl (Snap_BackendsByPool (sr_snapshot r)) poolID)"

text \<open>Whether the key, the client and the pool are still those the request was admitted with.\<close>

definition selectionError ::
  "(string \<Rightarrow> string \<Rightarrow> string) \<Rightarrow> Service \<Rightarrow> targetSelector \<Rightarrow> Snapshot \<Rightarrow> instant \<Rightarrow> selectError option" where
  "selectionError hmac s ts snapshot now =
     (case validateAPIKeySnapshot hmac s (TS_rawAPIKey ts) snapshot now of
        Inl e \<Rightarrow> Some errAPIKeyBecameInvalid
      | Inr (currentClient, matched) \<Rightarrow>
          if Client_ID currentClient \<noteq> Client_ID (TS_client ts) then Some errAPIKeyBecameInvalid
          else
            (case mget (Snap_PoolsByID snapshot) (Pool_ID (TS_pool ts)) of
               None \<Rightarrow> Some selectNoBackend
             | Some currentPool \<Rightarrow>
                 if \<not> Pool_Enabled currentPool \<or>
                    Pool_PublicModelName currentPool \<noteq> Pool_PublicModelName (TS_pool ts) \<or>
                    Pool_UpstreamModelName currentPool \<noteq> Pool_UpstreamModelName (TS_pool ts) \<or>
                    mget (Snap_Clients snapshot) (Client_ID (TS_client ts)) = None \<or> \<not> Client_Enabled currentClient \<or>
                    \<not> access snapshot (Client_ID (TS_client ts)) (Pool_ID (TS_pool ts))
                 then Some selectNoBackend else None))"

fun selectTarget ::
  "(string \<Rightarrow> string \<Rightarrow> string) \<Rightarrow> (nat list \<Rightarrow> nat list) \<Rightarrow> Service \<Rightarrow> targetSelector \<Rightarrow> selectRound list \<Rightarrow> int list \<Rightarrow>
     (selectError + (Candidate \<times> string)) option" where
  "selectTarget hmac sha256 s ts [] excluded = None"
| "selectTarget hmac sha256 s ts (r # rounds) excluded =
     (case selectionError hmac s ts (sr_snapshot r) (sr_authNow r) of
        Some e \<Rightarrow> Some (Inl e)
      | None \<Rightarrow>
          (case SelectWithSessionAffinity sha256 (sr_Intn r) (S_router s) (targetCandidates s r (Pool_ID (TS_pool ts)))
                  excluded (map byteval (TS_affinity ts)) of
             Inl e \<Rightarrow> Some (Inl (selectRouteError e))
           | Inr candidate \<Rightarrow>
               if \<not> sr_acquire r (Cand_Backend candidate)
               then selectTarget hmac sha256 s ts rounds (Backend_ID (Cand_Backend candidate) # excluded)
               else Some (Inr (candidate, fst (upstreamSecret s (Cand_Backend candidate))))))"

end
