(* ===== verification/Gateway_Properties.thy ===== *)
theory Gateway_Properties
  imports Gateway_Service Registry_Properties Slots "HOL-Library.Code_Target_Nat"
begin

text \<open>
  The gateway service is correct: authentication accepts exactly the holders of a usable key, a
  revoked key is out for good whatever is published later, an issued key is accepted, the admission to a
  pool gives back what it takes, and the selection of a target ends and honours its exclusions.
\<close>

section \<open>Authentication\<close>

definition usable_key :: "APIKey \<Rightarrow> instant \<Rightarrow> bool" where
  "usable_key key now \<longleftrightarrow> APIKey_RevokedAt key = None \<and> pred_option (\<lambda>t. now < t) (APIKey_ExpiresAt key)"

lemma lastMatch_filter:
  "lastMatch hmac secret raw ks =
     (let ms = filter (\<lambda>k. hmac secret raw = APIKey_SecretHash k) ks in if ms = [] then None else Some (last ms))"
proof -
  have "fold (\<lambda>k m. if hmac secret raw = APIKey_SecretHash k then Some k else m) ks m0 =
      (let ms = filter (\<lambda>k. hmac secret raw = APIKey_SecretHash k) ks in if ms = [] then m0 else Some (last ms))" for m0
    by (induction ks arbitrary: m0) (auto simp: Let_def)
  then show ?thesis by (simp add: lastMatch_def Verify_def)
qed

lemma validate_Inr:
  "validateAPIKeySnapshot hmac s raw snapshot now = Inr (client, key) \<longleftrightarrow>
     12 \<le> length raw \<and> hasPrefix raw ''llmgw_'' \<and>
     lastMatch hmac (S_hmacSecret s) raw (mgetl (Snap_KeyCandidates snapshot) (take 12 raw)) = Some key \<and>
     usable_key key now \<and> mget (Snap_Clients snapshot) (APIKey_ClientID key) = Some client \<and> Client_Enabled client"
  by (auto simp: validateAPIKeySnapshot_def usable_key_def split: option.splits if_splits)

lemma validate_error: "validateAPIKeySnapshot hmac s raw snapshot now = Inl e \<Longrightarrow> e = invalidAPIKey"
  by (auto simp: validateAPIKeySnapshot_def split: option.splits if_splits)

lemma candidate_key: "k \<in> set (mgetl (Snap_KeyCandidates s) p) \<Longrightarrow> k \<in> set (snapshot_keys s)"
proof -
  assume "k \<in> set (mgetl (Snap_KeyCandidates s) p)"
  then obtain vs where "mget (Snap_KeyCandidates s) p = Some vs" "k \<in> set vs"
    by (cases "mget (Snap_KeyCandidates s) p") (auto simp: mgetl_def)
  then have "(p, vs) \<in> set (Snap_KeyCandidates s)" by (auto simp: mget_def dest: map_of_SomeD)
  with \<open>k \<in> set vs\<close> show ?thesis by (force simp: snapshot_keys_def)
qed

section \<open>A sample configuration\<close>

definition demo_hash :: "string \<Rightarrow> string \<Rightarrow> string" where
  "demo_hash secret raw = secret @ raw"

definition demo_plain :: Plaintext where
  "demo_plain = projr (Generate (replicate 32 (CHR ''B'')))"

definition demo_key :: "int \<Rightarrow> string \<Rightarrow> APIKey" where
  "demo_key i raw = \<lparr>APIKey_ID = i, APIKey_ClientID = 1, APIKey_Prefix = take 12 raw, APIKey_SecretHash = demo_hash ''k'' raw,
     APIKey_CreatedAt = 0, APIKey_ExpiresAt = Some 1000, APIKey_RevokedAt = None, APIKey_LastUsedAt = None\<rparr>"

definition demo_pool :: "int \<Rightarrow> ModelPool" where
  "demo_pool maximum = \<lparr>Pool_ID = 2, Pool_Revision = 1, Pool_PublicModelName = ''m'', Pool_UpstreamModelName = ''u'',
     Pool_Enabled = True, Pool_MaxGatewayInflight = maximum, Pool_HighPriorityReserve = 0, Pool_MaxWaiting = 0,
     Pool_CreatedAt = 0, Pool_UpdatedAt = 0\<rparr>"

definition demo_data :: "int \<Rightarrow> int \<Rightarrow> Data" where
  "demo_data revision maximum = \<lparr>Data_Revision = revision, Data_Clients = Data_Clients (sample_data 1),
     Data_Keys = [demo_key 5 ''llmgw_abcdef1'', demo_key 6 (PT_Value demo_plain)],
     Data_Pools = [demo_pool maximum],
     Data_Access = [\<lparr>Access_ClientID = 1, Access_ModelPoolID = 2, Access_Enabled = True\<rparr>],
     Data_Backends = [(demo_backend 3)\<lparr>Backend_ModelPoolID := 2\<rparr>]\<rparr>"

definition demo_snapshot :: "int \<Rightarrow> Snapshot" where
  "demo_snapshot maximum = fst (Reload (Inr (demo_data 1 maximum)) NewRegistry)"

definition demo_service :: Service where
  "demo_service = \<lparr>S_hmacSecret = ''k'', S_admission = False, S_usage = True, S_retryAfter = 2000000000,
     S_lookupEnv = (\<lambda>name. None), S_router = NewRouter (Fin 0),
     S_replicaID = 1, S_leaseTTL = 90\<rparr>"

definition demo_client :: Client where
  "demo_client = hd (Data_Clients (sample_data 1))"

lemma demo_generated: "Generate (replicate 32 (CHR ''B'')) = Inr demo_plain"
  by code_simp

text \<open>C15: authentication succeeds exactly when the key has the right form, the last candidate under its
  prefix whose stored digest is the keyed hash of the presented key is neither revoked nor expired, and
  its client exists and is enabled; otherwise the answer is always the same error, status 401, which
  does not tell the reasons apart.\<close>

theorem authentication_exact:
  "(validateAPIKeySnapshot hmac s raw snapshot now = Inr (client, key) \<longleftrightarrow>
     (let matching = filter (\<lambda>k. hmac (S_hmacSecret s) raw = APIKey_SecretHash k)
            (mgetl (Snap_KeyCandidates snapshot) (take 12 raw))
      in 12 \<le> length raw \<and> take 6 raw = ''llmgw_'' \<and> matching \<noteq> [] \<and> key = last matching \<and>
         usable_key key now \<and> mget (Snap_Clients snapshot) (APIKey_ClientID key) = Some client \<and> Client_Enabled client)) \<and>
   (\<exists>r. validateAPIKeySnapshot hmac s raw snapshot now = Inr r \<or>
      validateAPIKeySnapshot hmac s raw snapshot now = Inl invalidAPIKey \<and> AE_HTTPStatus invalidAPIKey = 401)"
proof -
  have "validateAPIKeySnapshot hmac s raw snapshot now = Inl invalidAPIKey \<or>
      (\<exists>r. validateAPIKeySnapshot hmac s raw snapshot now = Inr r)"
    using validate_error by (cases "validateAPIKeySnapshot hmac s raw snapshot now") auto
  moreover have "hasPrefix raw ''llmgw_'' \<longleftrightarrow> take 6 raw = ''llmgw_''" by (simp add: hasPrefix_def numeral_eq_Suc)
  moreover have "AE_HTTPStatus invalidAPIKey = 401" by (simp add: invalidAPIKey_def)
  ultimately show ?thesis by (auto simp: validate_Inr lastMatch_filter Let_def)
qed


definition demo_revoked :: Snapshot where
  "demo_revoked = fst (MarkKeyRevoked 5 20 (demo_snapshot 4))"

lemma demo_other_key:
  "validateAPIKeySnapshot demo_hash demo_service (PT_Value demo_plain)
     (fold publish [PubReload (Inr (demo_data 2 4))] demo_revoked) 30 = Inr (demo_client, demo_key 6 (PT_Value demo_plain))"
  by code_simp

lemma demo_revocation: "snd (MarkKeyRevoked 5 20 (demo_snapshot 4)) = True"
  by code_simp


section \<open>Issued keys\<close>

lemma length_rawURLEncode: "length (rawURLEncode s) = (4 * length s + 2) div 3"
  by (induction s rule: rawURLEncode.induct) (simp_all add: Let_def)

lemma generated_form:
  assumes "Generate random = Inr plain"
  shows "length (PT_Value plain) = 49" and "hasPrefix (PT_Value plain) ''llmgw_''" and "PT_Prefix plain = take 12 (PT_Value plain)"
  using assms
  by (auto simp: Generate_def Let_def keyPrefix_def randomByteCount_def displayPrefixLen_def length_rawURLEncode
      hasPrefix_def split: if_splits)

text \<open>C35: a key issued by the admin API, stored under its display prefix with the keyed hash of its
  plaintext, authenticates its client from then on until it is revoked or expires, provided no other
  candidate under the prefix has the same digest.\<close>

theorem issued_key_authenticates:
  assumes "Generate random = Inr plain"
    and "key \<in> set (mgetl (Snap_KeyCandidates snapshot) (PT_Prefix plain))"
    and "APIKey_SecretHash key = hmac (S_hmacSecret s) (PT_Value plain)"
    and "\<forall>k \<in> set (mgetl (Snap_KeyCandidates snapshot) (PT_Prefix plain)).
      APIKey_SecretHash k = APIKey_SecretHash key \<longrightarrow> k = key"
    and "mget (Snap_Clients snapshot) (APIKey_ClientID key) = Some client" and "Client_Enabled client"
  shows "validateAPIKeySnapshot hmac s (PT_Value plain) snapshot now =
    (if usable_key key now then Inr (client, key) else Inl invalidAPIKey)"
proof -
  let ?ks = "mgetl (Snap_KeyCandidates snapshot) (take 12 (PT_Value plain))"
  let ?ms = "filter (\<lambda>k. hmac (S_hmacSecret s) (PT_Value plain) = APIKey_SecretHash k) ?ks"
  note form = generated_form [OF assms(1)]
  have "key \<in> set ?ms" using assms(2,3) form(3) by simp
  moreover have "\<forall>k \<in> set ?ms. k = key" using assms(3,4) form(3) by auto
  moreover have ne: "?ms \<noteq> []" using calculation(1) by (metis empty_iff list.set(1))
  ultimately have "last ?ms = key" using last_in_set [OF ne] by blast
  then have m: "lastMatch hmac (S_hmacSecret s) (PT_Value plain) ?ks = Some key" using ne by (simp add: lastMatch_filter Let_def)
  show ?thesis
  proof (cases "usable_key key now")
    case True
    then show ?thesis using m form(1,2) assms(5,6) by (simp add: validate_Inr)
  next
    case False
    then show ?thesis using m form(1,2)
      by (cases "APIKey_ExpiresAt key") (auto simp: validateAPIKeySnapshot_def usable_key_def)
  qed
qed

lemma demo_candidates: "mgetl (Snap_KeyCandidates (demo_snapshot 4)) (PT_Prefix demo_plain) = [demo_key 6 (PT_Value demo_plain)]"
  by code_simp

theorem issued_key_authenticates_witness:
  "validateAPIKeySnapshot demo_hash demo_service (PT_Value demo_plain) (demo_snapshot 4) 30 =
     Inr (demo_client, demo_key 6 (PT_Value demo_plain))"
proof -
  have "mget (Snap_Clients (demo_snapshot 4)) 1 = Some demo_client" by code_simp
  moreover have "Client_Enabled demo_client" by code_simp
  ultimately show ?thesis
    using issued_key_authenticates [OF demo_generated, where key = "demo_key 6 (PT_Value demo_plain)" and
        snapshot = "demo_snapshot 4" and hmac = demo_hash and s = demo_service and client = demo_client and now = 30]
    by (simp add: demo_candidates demo_key_def demo_service_def usable_key_def)
qed

section \<open>Pool slots\<close>

text \<open>The manager's pool slots as an in-flight counter. A pool without a maximum is not bounded, so its
  requests carry no limit.\<close>

interpretation pool_slots: slot_counter
  "\<lambda>(p, maximum) slots. if maximum > 0 then manager_AcquirePool p maximum slots else None"
  "\<lambda>(p, maximum) slots. manager_releasePool p slots"
  "\<lambda>slots p. cget slots p" "\<lambda>(p, maximum) k. k = p" "\<lambda>(p, maximum) k. maximum"
proof (unfold_locales, goal_cases)
  case (1 r s s' k)
  then show ?case by (auto simp: manager_AcquirePool_def split: if_splits prod.splits)
next
  case (2 r s s' k)
  then show ?case by (auto simp: manager_AcquirePool_def split: if_splits prod.splits)
next
  case (3 r s k)
  obtain p maximum where r: "r = (p, maximum)" by (cases r)
  have "0 < cget s p" using 3(1) [of p] by (simp add: r)
  then have pos: "cget s p = 1 \<or> 1 < cget s p" by auto
  then show ?case by (auto simp: r manager_releasePool_def cget_def)
qed

lemma pool_slots_bounded:
  fixes es :: "(int \<times> int) slot_event list"
  assumes "\<forall>m. SlotAcquire (p, m) \<in> set es \<longrightarrow> m \<le> L" and "0 \<le> L"
  defines "x \<equiv> slot_run (\<lambda>(p, m) slots. if m > 0 then manager_AcquirePool p m slots else None)
    (\<lambda>(p, m) slots. manager_releasePool p slots) (mempty, []) es"
  shows "cget (fst x) p = int (live_slots (\<lambda>(q, m). p = q) (snd x))" and "cget (fst x) p \<le> L"
  using pool_slots.run_from_empty [of mempty L es p] assms by (auto simp: x_def case_prod_unfold)

fun balanced_ops :: "poolOp list \<Rightarrow> bool" where
  "balanced_ops [] = True"
| "balanced_ops (PoolAcquired p m # PoolReleased q # ops) = (p = q \<and> balanced_ops ops)"
| "balanced_ops _ = False"

text \<open>A round that ends the loop: it fails, or the limits of the pool did not change meanwhile.\<close>

definition settled_round :: "int \<Rightarrow> ModelPool \<Rightarrow> poolRound \<Rightarrow> bool" where
  "settled_round clientID original r \<longleftrightarrow> pr_cancelled r \<or>
     (\<forall>before after. currentAdmissionPool (pr_before r) clientID original = Some before \<longrightarrow>
        currentAdmissionPool (pr_after r) clientID original = Some after \<longrightarrow>
        Pool_HighPriorityReserve after = Pool_HighPriorityReserve before \<and>
        Pool_MaxGatewayInflight after = Pool_MaxGatewayInflight before \<and> Pool_MaxWaiting after = Pool_MaxWaiting before)"

definition pool_error_ok :: "Service \<Rightarrow> APIError \<Rightarrow> bool" where
  "pool_error_ok s e \<longleftrightarrow> AE_HTTPStatus e \<in> {429, 503} \<and> AE_RetryAfter e = S_retryAfter s"

definition pool_admitted :: "Service \<Rightarrow> int \<Rightarrow> ModelPool \<Rightarrow> poolRound \<Rightarrow> bool \<Rightarrow> poolOp list \<Rightarrow> bool" where
  "pool_admitted s clientID original r held ops \<longleftrightarrow> held = (\<not> S_admission s) \<and>
     (\<exists>pool pool'. currentAdmissionPool (pr_before r) clientID original = Some pool \<and>
       currentAdmissionPool (pr_after r) clientID original = Some pool' \<and>
       (if held then Pool_MaxGatewayInflight pool' = Pool_MaxGatewayInflight pool \<and>
          (\<exists>before. ops = before @ [PoolAcquired (Pool_ID pool) (Pool_MaxGatewayInflight pool)] \<and> balanced_ops before)
        else ops = []))"

lemma errors_ok:
  "pool_error_ok s (backendUnavailable (S_retryAfter s) reason)" "pool_error_ok s (overloadedError (S_retryAfter s) reason)"
  "pool_error_ok s (gatewayUnavailable (S_retryAfter s))"
  by (simp_all add: pool_error_ok_def backendUnavailable_def overloadedError_def gatewayUnavailable_def)

lemma poolChecks_Inl: "poolChecks s clientID original r = Inl (runtime, e) \<Longrightarrow> pool_error_ok s e"
  by (auto simp: poolChecks_def poolGone_def Let_def errors_ok split: option.splits if_splits)

lemma poolChecks_Inr:
  "poolChecks s clientID original r = Inr (pool, runtime) \<Longrightarrow>
     currentAdmissionPool (pr_before r) clientID original = Some pool \<and> PR_State runtime \<noteq> PoolUnavailable"
  by (auto simp: poolChecks_def Let_def split: option.splits if_splits)

lemma admitted_later:
  "pool_admitted s clientID original r held ops \<Longrightarrow> \<not> S_admission s \<Longrightarrow>
     pool_admitted s clientID original r held (PoolAcquired p m # PoolReleased p # ops)"
  by (auto simp: pool_admitted_def)

lemma acquirePool_outcome:
  assumes "acquirePool s clientID original rounds = (ops, result)"
  shows "case result of
      None \<Rightarrow> list_all (\<lambda>r. \<not> settled_round clientID original r) rounds
    | Some (Inl (runtime, e)) \<Rightarrow> balanced_ops ops \<and> pool_error_ok s e
    | Some (Inr (runtime, held)) \<Rightarrow> PR_State runtime \<noteq> PoolUnavailable \<and>
        (\<exists>r \<in> set rounds. pool_admitted s clientID original r held ops)"
  using assms
proof (induction rounds arbitrary: ops)
  case (Cons r rounds)
  note step = acquirePool.simps(2) [of s clientID original r rounds]
  show ?case
  proof (cases "poolChecks s clientID original r")
    case (Inl x)
    then show ?thesis using Cons.prems poolChecks_Inl [of s clientID original r] by (cases x) auto
  next
    case (Inr x)
    obtain pool runtime where x: "x = (pool, runtime)" by (cases x)
    note ok = poolChecks_Inr [OF Inr [unfolded x]]
    let ?after = "currentAdmissionPool (pr_after r) clientID original"
    let ?changed = "\<lambda>v. Pool_HighPriorityReserve v \<noteq> Pool_HighPriorityReserve pool \<or>
       Pool_MaxGatewayInflight v \<noteq> Pool_MaxGatewayInflight pool \<or> Pool_MaxWaiting v \<noteq> Pool_MaxWaiting pool"
    show ?thesis
    proof (cases "\<exists>v. \<not> S_admission s \<and> pr_acquire r (Pool_ID pool) (Pool_MaxGatewayInflight pool) \<and> ?after = Some v \<and>
        ?changed v \<and> \<not> pr_cancelled r")
      case True
      then obtain v where v: "\<not> S_admission s" "pr_acquire r (Pool_ID pool) (Pool_MaxGatewayInflight pool)" "?after = Some v"
        "?changed v" "\<not> pr_cancelled r" by blast
      obtain ops' result' where rest: "acquirePool s clientID original rounds = (ops', result')"
        by (cases "acquirePool s clientID original rounds")
      have eq: "result = result'" "ops = PoolAcquired (Pool_ID pool) (Pool_MaxGatewayInflight pool) # PoolReleased (Pool_ID pool) # ops'"
        using Cons.prems v rest by (simp_all add: Inr x)
      have "\<not> settled_round clientID original r" using ok v by (auto simp: settled_round_def)
      moreover have "pool_admitted s clientID original q held ops" if "pool_admitted s clientID original q held ops'" for q held
        using admitted_later [OF that v(1)] by (simp add: eq(2))
      moreover have "balanced_ops ops = balanced_ops ops'" by (simp add: eq(2))
      ultimately show ?thesis
        using Cons.IH [of ops'] rest unfolding eq(1)
        by (cases result' rule: option.exhaust) (auto split: sum.splits)
    next
      case False
      then show ?thesis
        using Cons.prems ok
        by (auto simp: Inr x poolGone_def errors_ok pool_admitted_def Let_def split: option.splits if_splits)
    qed
  qed
qed simp


definition demo_round :: "int \<Rightarrow> poolRound" where
  "demo_round after = \<lparr>pr_before = demo_snapshot 4, pr_runtime = (\<lambda>i. zeroPoolRuntime i PoolNormal), pr_acquire = (\<lambda>i m. True),
     pr_after = demo_snapshot after, pr_cancelled = False\<rparr>"

lemma demo_acquirePool:
  "acquirePool demo_service 1 (demo_pool 4) [demo_round 5, demo_round 4] =
     ([PoolAcquired 2 4, PoolReleased 2, PoolAcquired 2 4], Some (Inr (zeroPoolRuntime 2 PoolNormal, True)))"
  by code_simp



section \<open>Selecting a target\<close>

lemma affinity_select_eligible:
  assumes "SelectWithSessionAffinity sha256 Intn r cs ex k = Inr c"
  shows "c \<in> set (eligibleCandidates cs ex)"
proof -
  have "c \<in> set es" if "selectEligible Intn r es = Inr c" for es
  proof -
    have "c \<in> set (finalists r es)"
      using that by (auto simp: selectEligible_def Let_def nat_less_iff split: if_splits)
    then show ?thesis by (auto simp: finalists_def Let_def)
  qed
  then show ?thesis
    using assms preferred_best(1) by (auto simp: SelectWithSessionAffinity_def Let_def split: if_splits)
qed

lemma eligible_target:
  assumes "c \<in> set (eligibleCandidates (targetCandidates s r poolID) ex)"
  defines "rt \<equiv> RV_Snapshot (sr_runtime r) (Backend_ID (Cand_Backend c)) (sr_now r)"
  shows "Cand_Backend c \<in> set (mgetl (Snap_BackendsByPool (sr_snapshot r)) poolID)"
    and "Backend_ID (Cand_Backend c) \<notin> set ex"
    and "Backend_Enabled (Cand_Backend c) \<and> \<not> Backend_Draining (Cand_Backend c) \<and> BR_Healthy rt \<and> BR_MetricsFresh rt \<and>
      BR_CircuitAvailable rt \<and> snd (upstreamSecret s (Cand_Backend c))"
  using assms by (auto simp: eligibleCandidates_def targetCandidates_def Let_def)

text \<open>What a selected target is: not excluded, offered by the snapshot of a round in which the key, the
  client and the pool were still valid, enabled, healthy, fresh, with an available circuit and secret, and
  acquired.\<close>

definition target_ok ::
  "(string \<Rightarrow> string \<Rightarrow> string) \<Rightarrow> Service \<Rightarrow> targetSelector \<Rightarrow> selectRound \<Rightarrow> Backend \<Rightarrow> bool" where
  "target_ok hmac s ts r backend \<longleftrightarrow>
     (let rt = RV_Snapshot (sr_runtime r) (Backend_ID backend) (sr_now r) in
      selectionError hmac s ts (sr_snapshot r) (sr_authNow r) = None \<and>
      backend \<in> set (mgetl (Snap_BackendsByPool (sr_snapshot r)) (Pool_ID (TS_pool ts))) \<and>
      Backend_Enabled backend \<and> \<not> Backend_Draining backend \<and> BR_Healthy rt \<and> BR_MetricsFresh rt \<and>
      BR_CircuitAvailable rt \<and> snd (upstreamSecret s backend) \<and> sr_acquire r backend)"

lemma selectTarget_ok:
  assumes "selectTarget hmac sha256 s ts rounds excluded = Some (Inr (candidate, secret))"
  shows "Backend_ID (Cand_Backend candidate) \<notin> set excluded \<and> secret = fst (upstreamSecret s (Cand_Backend candidate)) \<and>
    (\<exists>r \<in> set rounds. target_ok hmac s ts r (Cand_Backend candidate))"
  using assms
proof (induction rounds arbitrary: excluded)
  case (Cons r rounds)
  have none: "selectionError hmac s ts (sr_snapshot r) (sr_authNow r) = None"
    using Cons.prems by (auto split: option.splits)
  let ?sel = "SelectWithSessionAffinity sha256 (sr_Intn r) (S_router s) (targetCandidates s r (Pool_ID (TS_pool ts)))
    excluded (map byteval (TS_affinity ts))"
  obtain c where c: "?sel = Inr c" using Cons.prems none by (cases ?sel) auto
  note el = eligible_target [OF affinity_select_eligible [OF c]]
  show ?case
  proof (cases "sr_acquire r (Cand_Backend c)")
    case True
    then have "candidate = c" "secret = fst (upstreamSecret s (Cand_Backend c))"
      using Cons.prems none c by auto
    then show ?thesis using el none True by (auto simp: target_ok_def Let_def)
  next
    case False
    then have "selectTarget hmac sha256 s ts rounds (Backend_ID (Cand_Backend c) # excluded) = Some (Inr (candidate, secret))"
      using Cons.prems none c by simp
    from Cons.IH [OF this] show ?thesis by auto
  qed
qed simp

lemma selectTarget_ends:
  assumes "finite B" and "\<forall>r \<in> set rounds. Backend_ID ` set (mgetl (Snap_BackendsByPool (sr_snapshot r)) (Pool_ID (TS_pool ts))) \<subseteq> B"
    and "card (B - set excluded) < length rounds"
  shows "selectTarget hmac sha256 s ts rounds excluded \<noteq> None"
  using assms(2,3)
proof (induction rounds arbitrary: excluded)
  case (Cons r rounds)
  let ?sel = "SelectWithSessionAffinity sha256 (sr_Intn r) (S_router s) (targetCandidates s r (Pool_ID (TS_pool ts)))
    excluded (map byteval (TS_affinity ts))"
  show ?case
  proof (cases ?sel)
    case (Inr c)
    note el = eligible_target [OF affinity_select_eligible [OF Inr]]
    let ?b = "Backend_ID (Cand_Backend c)"
    have "?b \<in> B - set excluded" using el(1,2) Cons.prems(1) by auto
    then have "card (B - set (?b # excluded)) < card (B - set excluded)"
      using assms(1) by (intro psubset_card_mono) auto
    then have "selectTarget hmac sha256 s ts rounds (?b # excluded) \<noteq> None"
      using Cons.IH [of "?b # excluded"] Cons.prems by simp
    then show ?thesis using Inr by (auto split: option.splits)
  qed (auto split: option.splits)
qed simp

text \<open>C25: selecting a target tries every backend at most once: with \<open>n\<close> backends in the pool it ends
  within \<open>n + 1\<close> rounds, and what it selects was not excluded, belongs to the pool, is enabled, healthy,
  with fresh metrics, an available circuit and its secret, was acquired, and was selected while the key,
  the client and the pool were still valid.\<close>

theorem selectTarget_sound_and_ends:
  assumes "\<forall>r \<in> set rounds. map Backend_ID (mgetl (Snap_BackendsByPool (sr_snapshot r)) (Pool_ID (TS_pool ts))) = ids"
    and "length ids < length rounds"
  shows "\<exists>result. selectTarget hmac sha256 s ts rounds excluded = Some result \<and>
    (\<forall>candidate secret backend. result = Inr (candidate, secret) \<longrightarrow> backend = Cand_Backend candidate \<longrightarrow>
       Backend_ID backend \<notin> set excluded \<and> Backend_ID backend \<in> set ids \<and>
       (\<exists>r \<in> set rounds. target_ok hmac s ts r backend))"
proof -
  have sub: "\<forall>r \<in> set rounds. Backend_ID ` set (mgetl (Snap_BackendsByPool (sr_snapshot r)) (Pool_ID (TS_pool ts))) \<subseteq> set ids"
    using assms(1) by (metis list.set_map order_refl)
  have "card (set ids - set excluded) \<le> length ids"
    by (meson Diff_subset List.finite_set card_length card_mono order_trans)
  then obtain result where "selectTarget hmac sha256 s ts rounds excluded = Some result"
    using selectTarget_ends [OF _ sub, of excluded hmac sha256 s] assms(2) by fastforce
  moreover have "Backend_ID backend \<in> set ids" if "r \<in> set rounds" "target_ok hmac s ts r backend" for r backend
    using that sub by (auto simp: target_ok_def Let_def)
  ultimately show ?thesis using selectTarget_ok [of hmac sha256 s ts rounds excluded] by fastforce
qed

definition demo_runtime :: BackendRuntime where
  "demo_runtime = \<lparr>BR_BackendID = 3, BR_State = BackendHealthy, BR_CircuitState = CircuitClosed, BR_CircuitFailures = 0,
     BR_CircuitRetryAt = 0, BR_CircuitProbesInFlight = 0, BR_CircuitAvailable = True, BR_Healthy = True,
     BR_MetricsFresh = True, BR_Running = Fin 0, BR_Waiting = Fin 0, BR_KVCacheUsage = Fin 0, BR_RawPressure = Fin 0,
     BR_Pressure = Fin 0, BR_GatewayInflight = 0, BR_LastHealthAt = 1, BR_LastMetricsAt = 1, BR_ConsecutiveFailure = 0,
     BR_ConsecutiveSuccess = 1\<rparr>"

definition demo_select_round :: selectRound where
  "demo_select_round = \<lparr>sr_snapshot = demo_snapshot 4, sr_authNow = 30, sr_now = 31,
     sr_runtime = \<lparr>RV_PoolSnapshot = (\<lambda>i t. zeroPoolRuntime i PoolNormal), RV_Snapshot = (\<lambda>i t. demo_runtime)\<rparr>,
     sr_acquire = (\<lambda>b. True), sr_Intn = (\<lambda>n. 0)\<rparr>"

definition demo_selector :: targetSelector where
  "demo_selector = \<lparr>TS_client = demo_client, TS_pool = demo_pool 4, TS_affinity = [], TS_rawAPIKey = PT_Value demo_plain\<rparr>"

lemma demo_backends: "map Backend_ID (mgetl (Snap_BackendsByPool (demo_snapshot 4)) 2) = [3]"
  by code_simp

lemma demo_selected:
  "selectTarget demo_hash (\<lambda>bs. bs) demo_service demo_selector [demo_select_round, demo_select_round] [] =
     Some (Inr (\<lparr>Cand_Backend = (demo_backend 3)\<lparr>Backend_ModelPoolID := 2\<rparr>, Cand_Pressure = Fin 0,
       Cand_GatewayInflight = 0, Cand_Eligible = True\<rparr>, []))"
  by code_simp

theorem selectTarget_sound_and_ends_witness:
  "target_ok demo_hash demo_service demo_selector demo_select_round ((demo_backend 3)\<lparr>Backend_ModelPoolID := 2\<rparr>)"
  using selectTarget_sound_and_ends [where rounds = "[demo_select_round, demo_select_round]" and ts = demo_selector
      and ids = "[3]" and hmac = demo_hash and ?sha256.0 = "\<lambda>bs. bs" and s = demo_service and excluded = "[]"]
    demo_backends demo_selected
  by (auto simp: demo_select_round_def demo_selector_def demo_pool_def)

end
