(* ===== verification/Recovery.thy ===== *)
theory Recovery
  imports Coordination_Types "HOL-Library.Word"
begin

text \<open>
  The recovery manager (\<^verbatim>\<open>internal/coordination/recovery.go\<close>). A recovery runs its six steps
  without holding the state mutex, so failures reported by other goroutines interleave with it: the
  manager's operations are functions of its state, and the relation \<open>recovery_step\<close> interleaves the
  stages of one recovery (\<^verbatim>\<open>recoverMu\<close> admits one at a time) with reported failures. The
  counter of failures is the 64-bit word of the source. A step function that is \<^verbatim>\<open>nil\<close> is not
  configured; \<open>RecoveryReturn\<close> distinguishes the error that \<^verbatim>\<open>Recover\<close> passes on from the
  \<^verbatim>\<open>PermanentError\<close> it builds around the last error, which may be \<^verbatim>\<open>nil\<close>.
\<close>

section \<open>Types\<close>

datatype RecoveryState = RecoveryReady | RecoveryDegraded | RecoveryPermanentFault

datatype RecoveryStep =
  Ping | CheckFingerprint | ReloadConfiguration | ReconcileLeases | ReplayFailures | RefreshCircuits

record RecoveryStatus =
  RS_State :: RecoveryState
  RS_LastError :: "go_error option"
  RS_LastSuccess :: instant

record RecoveryManager =
  RM_configured :: "RecoveryStep \<Rightarrow> bool"
  RM_status :: RecoveryStatus
  RM_failures :: "64 word"
  RM_transitions :: "(RecoveryState \<times> RecoveryState) list"

datatype RecoveryReturn = Returned "go_error option" | ReturnedPermanent "go_error option"

definition NewRecoveryManager :: "(RecoveryStep \<Rightarrow> bool) \<Rightarrow> RecoveryManager" where
  "NewRecoveryManager configured = \<lparr>RM_configured = configured,
     RM_status = \<lparr>RS_State = RecoveryReady, RS_LastError = None, RS_LastSuccess = 0\<rparr>,
     RM_failures = 0, RM_transitions = []\<rparr>"

section \<open>Operations\<close>

text \<open>The observer's calls are recorded in \<open>RM_transitions\<close>, newest last.\<close>

definition observeTransition :: "RecoveryState \<Rightarrow> RecoveryState \<Rightarrow> RecoveryManager \<Rightarrow> RecoveryManager" where
  "observeTransition old new m =
     (if old \<noteq> new then m\<lparr>RM_transitions := RM_transitions m @ [(old, new)]\<rparr> else m)"

definition MarkDegraded :: "go_error option \<Rightarrow> RecoveryManager \<Rightarrow> RecoveryManager" where
  "MarkDegraded err m =
     (if RS_State (RM_status m) = RecoveryPermanentFault then m
      else
        let previous = RS_State (RM_status m) in
        observeTransition previous RecoveryDegraded
          (m\<lparr>RM_status := (RM_status m)\<lparr>RS_State := RecoveryDegraded, RS_LastError := err\<rparr>,
             RM_failures := RM_failures m + 1\<rparr>))"

definition MarkPermanent :: "go_error option \<Rightarrow> RecoveryManager \<Rightarrow> RecoveryManager" where
  "MarkPermanent err m =
     (let previous = RS_State (RM_status m) in
      observeTransition previous RecoveryPermanentFault
        (m\<lparr>RM_status := (RM_status m)\<lparr>RS_State := RecoveryPermanentFault, RS_LastError := err\<rparr>,
           RM_failures := RM_failures m + 1\<rparr>))"

definition CoordinationFailure :: "go_error \<Rightarrow> RecoveryManager \<Rightarrow> RecoveryManager" where
  "CoordinationFailure err m =
     (if errors_AsPermanent err then MarkPermanent (Some err) m else MarkDegraded (Some err) m)"

text \<open>
  \<^verbatim>\<open>Recover\<close> in three stages: reading the state, one step, and the final check that no failure was
  reported meanwhile.
\<close>

definition recoverySteps :: "RecoveryManager \<Rightarrow> RecoveryStep list" where
  "recoverySteps m = filter (RM_configured m)
     [Ping, CheckFingerprint, ReloadConfiguration, ReconcileLeases, ReplayFailures, RefreshCircuits]"

definition recoverBegin :: "RecoveryManager \<Rightarrow> RecoveryReturn + 64 word \<times> RecoveryStep list" where
  "recoverBegin m =
     (if RS_State (RM_status m) = RecoveryPermanentFault
      then Inl (ReturnedPermanent (RS_LastError (RM_status m)))
      else Inr (RM_failures m, recoverySteps m))"

definition recoverFailed :: "go_error \<Rightarrow> RecoveryManager \<Rightarrow> RecoveryManager \<times> RecoveryReturn" where
  "recoverFailed err m =
     (if errors_AsPermanent err then MarkPermanent (Some err) m else MarkDegraded (Some err) m,
      Returned (Some err))"

definition recoverEnd :: "64 word \<Rightarrow> instant \<Rightarrow> RecoveryManager \<Rightarrow> RecoveryManager \<times> RecoveryReturn" where
  "recoverEnd startingFailures now m =
     (if RM_failures m \<noteq> startingFailures then
        (m, if RS_State (RM_status m) = RecoveryPermanentFault
            then ReturnedPermanent (RS_LastError (RM_status m))
            else Returned (RS_LastError (RM_status m)))
      else
        let previous = RS_State (RM_status m) in
        (observeTransition previous RecoveryReady
           (m\<lparr>RM_status := \<lparr>RS_State = RecoveryReady, RS_LastError = None, RS_LastSuccess = now\<rparr>\<rparr>),
         Returned None))"

section \<open>Interleaving\<close>

text \<open>
  The system is the manager with the running recovery: the failures counted at its start, the steps
  that remain, and the number of failures reported since (not part of the program; it states what the
  counter is for).
\<close>

record RecoveryRun =
  RR_startingFailures :: "64 word"
  RR_remaining :: "RecoveryStep list"
  RR_done :: "RecoveryStep list"
  RR_reported :: nat

record RecoverySystem =
  SY_manager :: RecoveryManager
  SY_run :: "RecoveryRun option"

datatype RecoveryEvent =
    Reported go_error
  | Degraded "go_error option"
  | Faulted "go_error option"
  | Began
  | Refused RecoveryReturn
  | StepDone RecoveryStep
  | StepFailed RecoveryStep go_error
  | Finished instant RecoveryReturn

definition noteReport :: "RecoveryRun option \<Rightarrow> RecoveryRun option" where
  "noteReport = map_option (\<lambda>r. r\<lparr>RR_reported := Suc (RR_reported r)\<rparr>)"

inductive recovery_step :: "RecoverySystem \<Rightarrow> RecoveryEvent \<Rightarrow> RecoverySystem \<Rightarrow> bool" where
  reported: "recovery_step s (Reported err)
     \<lparr>SY_manager = CoordinationFailure err (SY_manager s), SY_run = noteReport (SY_run s)\<rparr>"
| degraded: "recovery_step s (Degraded err)
     \<lparr>SY_manager = MarkDegraded err (SY_manager s), SY_run = noteReport (SY_run s)\<rparr>"
| faulted: "recovery_step s (Faulted err)
     \<lparr>SY_manager = MarkPermanent err (SY_manager s), SY_run = noteReport (SY_run s)\<rparr>"
| began: "SY_run s = None \<Longrightarrow> recoverBegin (SY_manager s) = Inr (f, steps) \<Longrightarrow>
     recovery_step s Began
       (s\<lparr>SY_run := Some \<lparr>RR_startingFailures = f, RR_remaining = steps, RR_done = [], RR_reported = 0\<rparr>\<rparr>)"
| refused: "SY_run s = None \<Longrightarrow> recoverBegin (SY_manager s) = Inl r \<Longrightarrow> recovery_step s (Refused r) s"
| step_done: "SY_run s = Some r \<Longrightarrow> RR_remaining r = x # xs \<Longrightarrow>
     recovery_step s (StepDone x) (s\<lparr>SY_run := Some (r\<lparr>RR_remaining := xs, RR_done := RR_done r @ [x]\<rparr>)\<rparr>)"
| step_failed: "SY_run s = Some r \<Longrightarrow> RR_remaining r = x # xs \<Longrightarrow>
     recovery_step s (StepFailed x err)
       \<lparr>SY_manager = fst (recoverFailed err (SY_manager s)), SY_run = None\<rparr>"
| finished: "SY_run s = Some r \<Longrightarrow> RR_remaining r = [] \<Longrightarrow>
     recoverEnd (RR_startingFailures r) now (SY_manager s) = (m, ret) \<Longrightarrow>
     recovery_step s (Finished now ret) \<lparr>SY_manager = m, SY_run = None\<rparr>"

inductive_cases recovery_stepE: "recovery_step s e s'"

inductive_simps recovery_finished_iff: "recovery_step s (Finished now ret) s'"

inductive recovery_reach :: "RecoverySystem \<Rightarrow> RecoveryEvent list \<Rightarrow> RecoverySystem \<Rightarrow> bool" where
  reach_nil: "recovery_reach s [] s"
| reach_snoc: "recovery_reach s es t \<Longrightarrow> recovery_step t e u \<Longrightarrow> recovery_reach s (es @ [e]) u"

definition recovery_start :: "(RecoveryStep \<Rightarrow> bool) \<Rightarrow> RecoverySystem" where
  "recovery_start configured = \<lparr>SY_manager = NewRecoveryManager configured, SY_run = None\<rparr>"

section \<open>Facts about the operations\<close>

lemma observeTransition_simps [simp]:
  "RM_status (observeTransition a b m) = RM_status m"
  "RM_failures (observeTransition a b m) = RM_failures m"
  "RM_configured (observeTransition a b m) = RM_configured m"
  by (simp_all add: observeTransition_def)

lemmas recovery_ops = MarkDegraded_def MarkPermanent_def CoordinationFailure_def recoverFailed_def

lemma permanent_absorbs:
  "RS_State (RM_status m) = RecoveryPermanentFault \<Longrightarrow>
     RS_State (RM_status (MarkDegraded e m)) = RecoveryPermanentFault \<and>
     RS_State (RM_status (MarkPermanent e m)) = RecoveryPermanentFault \<and>
     RS_State (RM_status (CoordinationFailure err m)) = RecoveryPermanentFault \<and>
     RS_State (RM_status (fst (recoverFailed err m))) = RecoveryPermanentFault"
  by (simp add: recovery_ops Let_def)

definition reports :: "RecoveryManager \<Rightarrow> RecoveryManager \<Rightarrow> bool" where
  "reports m m' \<longleftrightarrow> RM_configured m' = RM_configured m \<and> RS_State (RM_status m') \<noteq> RecoveryReady \<and>
     (RM_failures m' = RM_failures m + 1 \<or>
      m' = m \<and> RS_State (RM_status m) = RecoveryPermanentFault)"

lemma ops_report:
  "reports m (MarkDegraded e m)" "reports m (MarkPermanent e m)" "reports m (CoordinationFailure err m)"
  "reports m (fst (recoverFailed err m))"
  by (auto simp: reports_def recovery_ops Let_def)

section \<open>Invariant\<close>

definition run_ok :: "nat \<Rightarrow> RecoveryManager \<Rightarrow> RecoveryRun \<Rightarrow> bool" where
  "run_ok n m r \<longleftrightarrow> RR_done r @ RR_remaining r = recoverySteps m \<and> RR_reported r \<le> n \<and>
     (if RR_reported r = 0
      then RM_failures m = RR_startingFailures r \<and> RS_State (RM_status m) \<noteq> RecoveryPermanentFault
      else RS_State (RM_status m) \<noteq> RecoveryReady \<and>
        (\<exists>k. 0 < k \<and> k \<le> RR_reported r \<and> RM_failures m = RR_startingFailures r + of_nat k))"

definition recovery_inv :: "(RecoveryStep \<Rightarrow> bool) \<Rightarrow> nat \<Rightarrow> RecoverySystem \<Rightarrow> bool" where
  "recovery_inv configured n s \<longleftrightarrow> RM_configured (SY_manager s) = configured \<and>
     (\<forall>r. SY_run s = Some r \<longrightarrow> run_ok n (SY_manager s) r)"

lemma run_ok_report:
  assumes "run_ok n m r" and "reports m m'"
  shows "run_ok (Suc n) m' (r\<lparr>RR_reported := Suc (RR_reported r)\<rparr>)"
proof -
  have steps: "recoverySteps m' = recoverySteps m" using assms(2) by (simp add: reports_def recoverySteps_def)
  have "\<exists>k. 0 < k \<and> k \<le> Suc (RR_reported r) \<and> RM_failures m' = RR_startingFailures r + of_nat k"
  proof (cases "RM_failures m' = RM_failures m + 1")
    case True
    obtain k where "k \<le> RR_reported r" "RM_failures m = RR_startingFailures r + of_nat k"
      using assms(1) by (cases "RR_reported r = 0") (auto simp: run_ok_def)
    with True show ?thesis by (intro exI [of _ "Suc k"]) (simp add: algebra_simps)
  next
    case False
    with assms(2) have "m' = m" "RS_State (RM_status m) = RecoveryPermanentFault" by (auto simp: reports_def)
    with assms(1) show ?thesis by (auto simp: run_ok_def split: if_splits intro: le_SucI)
  qed
  then show ?thesis using assms steps by (simp add: run_ok_def reports_def)
qed

lemma run_ok_mono: "run_ok n m r \<Longrightarrow> run_ok (Suc n) m r"
  by (simp add: run_ok_def)

lemma recovery_inv_report:
  "recovery_inv configured n s \<Longrightarrow> reports (SY_manager s) m \<Longrightarrow>
     recovery_inv configured (Suc n) \<lparr>SY_manager = m, SY_run = noteReport (SY_run s)\<rparr>"
  using run_ok_report by (auto simp: recovery_inv_def noteReport_def reports_def)

lemma recoverEnd_configured: "recoverEnd f now m = (m', ret) \<Longrightarrow> RM_configured m' = RM_configured m"
  by (auto simp: recoverEnd_def Let_def split: if_splits)

lemma recovery_step_inv:
  assumes "recovery_step s e s'" and "recovery_inv configured n s"
  shows "recovery_inv configured (Suc n) s'"
  using assms(1)
proof cases
  case (began f steps)
  then show ?thesis
    using assms(2) by (auto simp: recovery_inv_def run_ok_def recoverBegin_def split: if_splits)
next
  case (step_failed r x xs err)
  then show ?thesis
    using assms(2) ops_report(4) [of "SY_manager s" err] by (simp add: recovery_inv_def reports_def)
next
  case (finished r now m ret)
  then show ?thesis using assms(2) recoverEnd_configured by (simp add: recovery_inv_def)
next
  case (step_done r x xs)
  then show ?thesis using assms(2) by (auto simp: recovery_inv_def run_ok_def)
next
  case (refused r)
  then show ?thesis using assms(2) by (simp add: recovery_inv_def)
qed (use assms(2) in \<open>simp_all add: recovery_inv_report ops_report\<close>)

lemma recovery_reach_inv:
  assumes "recovery_reach s es s'" and "recovery_inv configured n s"
  shows "recovery_inv configured (n + length es) s'"
  using assms by (induction rule: recovery_reach.induct) (auto dest: recovery_step_inv)

lemma recovery_start_inv: "recovery_inv configured 0 (recovery_start configured)"
  by (simp add: recovery_inv_def recovery_start_def NewRecoveryManager_def)

lemma counter_moved: "0 < k \<Longrightarrow> k < 2 ^ 64 \<Longrightarrow> (f :: 64 word) + of_nat k \<noteq> f"
  by (auto simp: word_of_nat_eq_0_iff dest: nat_dvd_not_less)

lemma fault_step:
  assumes "recovery_step s e s'" and "recovery_inv configured n s" and "n < 2 ^ 64"
    and "RS_State (RM_status (SY_manager s)) = RecoveryPermanentFault"
  shows "RS_State (RM_status (SY_manager s')) = RecoveryPermanentFault \<and> (\<forall>now. e \<noteq> Finished now (Returned None))"
  using assms(1)
proof cases
  case (finished r now m ret)
  have "run_ok n (SY_manager s) r" using assms(2) finished by (simp add: recovery_inv_def)
  then obtain k where k: "0 < k" "k \<le> n" "RM_failures (SY_manager s) = RR_startingFailures r + of_nat k"
    using assms(4) by (auto simp: run_ok_def split: if_splits)
  with assms(3) counter_moved have "RM_failures (SY_manager s) \<noteq> RR_startingFailures r" by simp
  with finished assms(4) show ?thesis by (auto simp: recoverEnd_def)
qed (use assms(4) permanent_absorbs in \<open>auto simp: recoverBegin_def\<close>)

lemma fault_reach:
  assumes "recovery_reach s es s'" and "recovery_inv configured n s" and "n + length es < 2 ^ 64"
    and "RS_State (RM_status (SY_manager s)) = RecoveryPermanentFault"
  shows "RS_State (RM_status (SY_manager s')) = RecoveryPermanentFault \<and> (\<forall>now. Finished now (Returned None) \<notin> set es)"
  using assms
proof (induction rule: recovery_reach.induct)
  case (reach_snoc s es t e u)
  have "recovery_inv configured (n + length es) t" using recovery_reach_inv [OF reach_snoc(1,4)] .
  note step = fault_step [OF reach_snoc(2) this]
  have "RS_State (RM_status (SY_manager t)) = RecoveryPermanentFault" "\<forall>now. Finished now (Returned None) \<notin> set es"
    using reach_snoc by simp_all
  moreover have "n + length es < 2 ^ 64" using reach_snoc(5) by simp
  ultimately show ?case using step by auto
qed simp

section \<open>Properties\<close>

text \<open>C8: a recovery declares the gateway ready exactly when every configured step has succeeded, in
  the order ping, fingerprint, configuration, leases, replay, circuits, and no failure was reported by
  anyone since it began. Otherwise it leaves the state and its error as they were. (Fewer than
  \<open>2 ^ 64\<close> events have happened, so that the failure counter has not wrapped around.)\<close>

theorem recovery_ready_exact:
  assumes "recovery_reach (recovery_start configured) es s" and "length es < 2 ^ 64"
    and "recovery_step s (Finished now ret) s'"
  shows "\<exists>r. SY_run s = Some r \<and>
    RR_done r = filter configured
      [Ping, CheckFingerprint, ReloadConfiguration, ReconcileLeases, ReplayFailures, RefreshCircuits] \<and>
    (if RR_reported r = 0
     then RM_status (SY_manager s') = \<lparr>RS_State = RecoveryReady, RS_LastError = None, RS_LastSuccess = now\<rparr> \<and>
       ret = Returned None
     else SY_manager s' = SY_manager s \<and> RS_State (RM_status (SY_manager s')) \<noteq> RecoveryReady)"
proof -
  from assms(3) obtain r m where r: "SY_run s = Some r" "RR_remaining r = []"
    "recoverEnd (RR_startingFailures r) now (SY_manager s) = (m, ret)"
    and s': "s' = \<lparr>SY_manager = m, SY_run = None\<rparr>"
    by (auto simp: recovery_finished_iff)
  have inv: "recovery_inv configured (length es) s"
    using recovery_reach_inv [OF assms(1) recovery_start_inv] by simp
  then have ok: "run_ok (length es) (SY_manager s) r" and c: "RM_configured (SY_manager s) = configured"
    using r(1) by (simp_all add: recovery_inv_def)
  have "RR_done r = recoverySteps (SY_manager s)" using ok r(2) by (simp add: run_ok_def)
  note d = this [unfolded recoverySteps_def c]
  have "if RR_reported r = 0
     then RM_status m = \<lparr>RS_State = RecoveryReady, RS_LastError = None, RS_LastSuccess = now\<rparr> \<and> ret = Returned None
     else m = SY_manager s \<and> RS_State (RM_status m) \<noteq> RecoveryReady"
  proof (cases "RR_reported r = 0")
    case True
    with ok r(3) show ?thesis by (auto simp: run_ok_def recoverEnd_def Let_def)
  next
    case False
    with ok obtain k where k: "0 < k" "k \<le> RR_reported r"
      "RM_failures (SY_manager s) = RR_startingFailures r + of_nat k" by (auto simp: run_ok_def)
    have "k < 2 ^ 64" using k(2) ok assms(2) by (simp add: run_ok_def)
    with k counter_moved have "RM_failures (SY_manager s) \<noteq> RR_startingFailures r" by simp
    with False ok r(3) show ?thesis by (auto simp: run_ok_def recoverEnd_def)
  qed
  then have "if RR_reported r = 0
     then RM_status (SY_manager s') = \<lparr>RS_State = RecoveryReady, RS_LastError = None, RS_LastSuccess = now\<rparr> \<and>
       ret = Returned None
     else SY_manager s' = SY_manager s \<and> RS_State (RM_status (SY_manager s')) \<noteq> RecoveryReady"
    by (simp only: s' RecoverySystem.simps)
  with r(1) d show ?thesis by blast
qed

text \<open>C21: a permanent fault latches: whatever happens later, the manager stays faulted, a recovery that
  had begun does not clear it, and every later recovery is refused.\<close>

theorem recovery_fault_latches:
  assumes "recovery_reach (recovery_start configured) before t" and "recovery_step t (Faulted err) u"
    and "recovery_reach u es s" and "length before + length es + 1 < 2 ^ 64"
  shows "RS_State (RM_status (SY_manager s)) = RecoveryPermanentFault \<and>
    (\<exists>e. recoverBegin (SY_manager s) = Inl (ReturnedPermanent e)) \<and> (\<forall>now. Finished now (Returned None) \<notin> set es)"
proof -
  have "recovery_inv configured (Suc (length before)) u"
    using recovery_step_inv [OF assms(2) recovery_reach_inv [OF assms(1) recovery_start_inv]] by simp
  moreover have "RS_State (RM_status (SY_manager u)) = RecoveryPermanentFault"
    using assms(2) by cases (simp add: MarkPermanent_def Let_def)
  ultimately have "RS_State (RM_status (SY_manager s)) = RecoveryPermanentFault \<and>
      (\<forall>now. Finished now (Returned None) \<notin> set es)"
    using fault_reach [OF assms(3)] assms(4) by simp
  then show ?thesis by (auto simp: recoverBegin_def)
qed

section \<open>An example\<close>

text \<open>Start-up with only the ping configured: degraded, then recovered.\<close>

definition demo_begun :: RecoverySystem where
  "demo_begun = \<lparr>SY_manager = MarkDegraded None (NewRecoveryManager (\<lambda>x. x = Ping)),
     SY_run = Some \<lparr>RR_startingFailures = 1, RR_remaining = [], RR_done = [Ping], RR_reported = 0\<rparr>\<rparr>"

definition demo_recovered :: RecoverySystem where
  "demo_recovered = \<lparr>SY_manager = fst (recoverEnd 1 9 (SY_manager demo_begun)), SY_run = None\<rparr>"

lemma demo_reach:
  "recovery_reach (recovery_start (\<lambda>x. x = Ping)) [Degraded None, Began, StepDone Ping] demo_begun"
proof -
  let ?m = "MarkDegraded None (NewRecoveryManager (\<lambda>x. x = Ping))"
  let ?s0 = "recovery_start (\<lambda>x. x = Ping)"
  let ?s1 = "\<lparr>SY_manager = ?m, SY_run = None\<rparr>"
  let ?s2 = "?s1\<lparr>SY_run := Some \<lparr>RR_startingFailures = 1, RR_remaining = [Ping], RR_done = [], RR_reported = 0\<rparr>\<rparr>"
  have 1: "recovery_step ?s0 (Degraded None) ?s1"
    using recovery_step.degraded [of ?s0 None] by (simp add: recovery_start_def noteReport_def)
  have "recoverBegin ?m = Inr (1, [Ping])"
    by (simp add: recoverBegin_def recoverySteps_def MarkDegraded_def NewRecoveryManager_def Let_def)
  then have 2: "recovery_step ?s1 Began ?s2" using recovery_step.began [of ?s1 1 "[Ping]"] by simp
  have 3: "recovery_step ?s2 (StepDone Ping) demo_begun"
    using recovery_step.step_done [of ?s2 _ Ping "[]"] by (simp add: demo_begun_def)
  show ?thesis using reach_snoc [OF reach_snoc [OF reach_snoc [OF reach_nil 1] 2] 3] by simp
qed

lemma demo_finish: "recovery_step demo_begun (Finished 9 (Returned None)) demo_recovered"
  by (simp add: recovery_finished_iff demo_begun_def demo_recovered_def recoverEnd_def MarkDegraded_def
      NewRecoveryManager_def Let_def)

theorem recovery_ready_exact_witness:
  "RM_status (SY_manager demo_recovered) = \<lparr>RS_State = RecoveryReady, RS_LastError = None, RS_LastSuccess = 9\<rparr>"
  using recovery_ready_exact [OF demo_reach _ demo_finish] by (simp add: demo_begun_def)

text \<open>The same recovery with a permanent fault reported before it ends.\<close>

definition demo_faulted :: RecoverySystem where
  "demo_faulted = \<lparr>SY_manager = MarkPermanent None (SY_manager demo_begun), SY_run = noteReport (SY_run demo_begun)\<rparr>"

definition demo_latched :: RecoverySystem where
  "demo_latched = \<lparr>SY_manager = SY_manager demo_faulted, SY_run = None\<rparr>"

lemma demo_latch: "recovery_reach demo_faulted [Finished 9 (ReturnedPermanent None)] demo_latched"
proof -
  have "recovery_step demo_faulted (Finished 9 (ReturnedPermanent None)) demo_latched"
    by (simp add: recovery_finished_iff demo_faulted_def demo_latched_def demo_begun_def noteReport_def recoverEnd_def
        MarkPermanent_def MarkDegraded_def NewRecoveryManager_def Let_def)
  from reach_snoc [OF reach_nil this] show ?thesis by simp
qed

theorem recovery_fault_latches_witness:
  "RS_State (RM_status (SY_manager demo_latched)) = RecoveryPermanentFault"
  using recovery_fault_latches [OF demo_reach recovery_step.faulted demo_latch [unfolded demo_faulted_def]] by simp

end
