(* ===== verification/Lease_Manager.thy ===== *)
theory Lease_Manager
  imports Coordination_Types "HOL-Library.Word" "HOL-Library.Multiset"
begin

text \<open>
  The lease manager (\<^verbatim>\<open>internal/coordination/lease_manager.go\<close>): it renews the leases of running
  requests and delivers their completions to the admission coordinator, in batches and with retries. The
  coordinator is an interface: what a call of it returns (results and error together, as in Go) is an
  argument of the operation that makes the call. The buffered channel \<^verbatim>\<open>completions\<close> is a list of at
  most \<open>LM_backlogCap\<close> items. Calls of the observer are counted.
\<close>

section \<open>Types\<close>

record pendingCompletion =
  PC_items :: "LeaseCompletion list"
  PC_next :: instant
  PC_backoff :: duration

record LeaseManager =
  LM_completions :: "LeaseCompletion list"
  LM_backlogCap :: int
  LM_pending :: "pendingCompletion list"
  LM_active :: "(uuid, LeaseIdentity) gomap"
  LM_dropped :: "64 word"
  LM_shutdownTimeout :: duration
  LM_observer :: bool
  LM_lost :: nat
  LM_renewFailures :: nat

record LeaseHandle =
  LH_lease :: LeaseIdentity
  LH_completed :: bool

record LeaseManagerOptions =
  LO_RenewInterval :: duration
  LO_CompletionBacklog :: int
  LO_ShutdownTimeout :: duration
  LO_Observer :: bool

definition NewLeaseManager :: "LeaseManagerOptions \<Rightarrow> LeaseManager" where
  "NewLeaseManager o' =
     (let backlog = (if LO_CompletionBacklog o' \<le> 0 then 4096 else LO_CompletionBacklog o');
          shutdown = (if LO_ShutdownTimeout o' \<le> 0 then 2 * second else LO_ShutdownTimeout o')
      in \<lparr>LM_completions = [], LM_backlogCap = backlog, LM_pending = [], LM_active = mempty, LM_dropped = 0,
          LM_shutdownTimeout = shutdown, LM_observer = LO_Observer o', LM_lost = 0, LM_renewFailures = 0\<rparr>)"

section \<open>Tracking and completing a lease\<close>

definition Track :: "LeaseIdentity \<Rightarrow> LeaseManager \<Rightarrow> LeaseManager \<times> LeaseHandle" where
  "Track l m = (m\<lparr>LM_active := mput (LI_LeaseID l) l (LM_active m)\<rparr>, \<lparr>LH_lease = l, LH_completed = False\<rparr>)"

definition lm_remove :: "LeaseIdentity \<Rightarrow> LeaseManager \<Rightarrow> LeaseManager" where
  "lm_remove l m = m\<lparr>LM_active := mdel (LI_LeaseID l) (LM_active m)\<rparr>"

definition observeDropped :: "nat \<Rightarrow> LeaseManager \<Rightarrow> LeaseManager" where
  "observeDropped n m = (if n = 0 then m else m\<lparr>LM_dropped := LM_dropped m + of_nat n\<rparr>)"

definition lostResult :: "CompleteResult \<Rightarrow> bool" where
  "lostResult r \<longleftrightarrow> CR_Result r = CompletionLeaseLost \<or> CR_Reason r = ReasonLeaseLost \<or>
     (CR_Result r = CompletionAlreadyCompleted \<and> CR_OriginalResult r = CompletionLeaseLost)"

definition observeLost :: "CompleteResult list \<Rightarrow> LeaseManager \<Rightarrow> LeaseManager" where
  "observeLost results m =
     (if \<not> LM_observer m then m else m\<lparr>LM_lost := LM_lost m + length (filter lostResult results)\<rparr>)"

definition Handle_Complete ::
  "TokenUsage option \<Rightarrow> LeaseHandle \<Rightarrow> LeaseManager \<Rightarrow> LeaseHandle \<times> LeaseManager \<times> bool" where
  "Handle_Complete usage h m =
     (if LH_completed h then (h, m, False)
      else
        let h = h\<lparr>LH_completed := True\<rparr>;
            item = \<lparr>LC_Lease = LH_lease h, LC_Usage = usage\<rparr>
        in if int (length (LM_completions m)) < LM_backlogCap m
           then (h, m\<lparr>LM_completions := LM_completions m @ [item]\<rparr>, True)
           else (h, observeDropped 1 (lm_remove (LH_lease h) m), False))"

definition ActiveCount :: "LeaseManager \<Rightarrow> nat" where
  "ActiveCount m = mlen (LM_active m)"

definition queuedItems :: "pendingCompletion list \<Rightarrow> nat" where
  "queuedItems ps = sum_list (map (\<lambda>p. length (PC_items p)) ps)"

definition PendingCompletions :: "LeaseManager \<Rightarrow> nat" where
  "PendingCompletions m = length (LM_completions m) + queuedItems (LM_pending m)"

section \<open>Renewal\<close>

definition renewBatch :: "LeaseManager \<Rightarrow> LeaseIdentity list" where
  "renewBatch m = map snd (LM_active m)"

definition renewResult :: "RenewResult \<Rightarrow> LeaseManager \<Rightarrow> LeaseManager" where
  "renewResult r m =
     (let i = LI_LeaseID (RR_Lease r) in
      if RR_Reason r = ReasonLeaseLost
      then (let m = m\<lparr>LM_active := mdel i (LM_active m)\<rparr> in
            if LM_observer m then m\<lparr>LM_lost := LM_lost m + 1\<rparr> else m)
      else if i \<noteq> 0 \<and> mget (LM_active m) i \<noteq> None
      then m\<lparr>LM_active := mput i (RR_Lease r) (LM_active m)\<rparr>
      else m)"

text \<open>What \<^verbatim>\<open>renewContext\<close> does once the coordinator has answered; the leases may have changed meanwhile.\<close>

definition renewContext :: "RenewResult list \<Rightarrow> go_error option \<Rightarrow> LeaseManager \<Rightarrow> LeaseManager \<times> go_error option" where
  "renewContext results err m =
     (let m = (if err \<noteq> None \<and> LM_observer m then m\<lparr>LM_renewFailures := LM_renewFailures m + 1\<rparr> else m)
      in (fold renewResult results m, err))"

section \<open>Delivery\<close>

text \<open>How many of the items the coordinator has acknowledged: all of them without an error, else the
  prefix that the results name in order.\<close>

definition acknowledged :: "LeaseCompletion list \<Rightarrow> CompleteResult list \<Rightarrow> go_error option \<Rightarrow> nat" where
  "acknowledged items results err =
     (if err = None then length items
      else if length results > length items then 0
      else if list_all (\<lambda>(r, item). CR_LeaseID r = LI_LeaseID (LC_Lease item)) (zip results items)
      then length results else 0)"

definition removeLeases :: "LeaseCompletion list \<Rightarrow> LeaseManager \<Rightarrow> LeaseManager" where
  "removeLeases items m = fold (\<lambda>item. lm_remove (LC_Lease item)) items m"

definition remainingCompletions ::
  "LeaseCompletion list \<Rightarrow> CompleteResult list \<Rightarrow> go_error option \<Rightarrow> LeaseManager \<Rightarrow> LeaseManager \<times> LeaseCompletion list" where
  "remainingCompletions items results err m =
     (let completed = acknowledged items results err;
          completedResults = (if err = None then results else take completed results);
          m = observeLost completedResults m
      in (removeLeases (take completed items) m, drop completed items))"

definition queueRetry :: "pendingCompletion \<Rightarrow> LeaseManager \<Rightarrow> LeaseManager" where
  "queueRetry pending m =
     (if int (queuedItems (LM_pending m) + length (PC_items pending)) \<le> LM_backlogCap m
      then m\<lparr>LM_pending := LM_pending m @ [pending]\<rparr>
      else observeDropped (length (PC_items pending)) (removeLeases (PC_items pending) m))"

text \<open>\<^verbatim>\<open>complete\<close> first fills its batch from the channel, up to 64 items, then delivers it.\<close>

definition takeBatch :: "LeaseCompletion \<Rightarrow> LeaseManager \<Rightarrow> LeaseManager \<times> LeaseCompletion list" where
  "takeBatch first m =
     (m\<lparr>LM_completions := drop 63 (LM_completions m)\<rparr>, first # take 63 (LM_completions m))"

definition deliverBatch ::
  "LeaseCompletion list \<Rightarrow> CompleteResult list \<Rightarrow> go_error option \<Rightarrow> instant \<Rightarrow> LeaseManager \<Rightarrow> LeaseManager" where
  "deliverBatch batch results err now m =
     (let (m, remaining) = remainingCompletions batch results err m in
      if remaining = [] then m
      else queueRetry \<lparr>PC_items = remaining, PC_next = now + 10 * millisecond, PC_backoff = 10 * millisecond\<rparr> m)"

definition takeDue :: "instant \<Rightarrow> LeaseManager \<Rightarrow> LeaseManager \<times> pendingCompletion list" where
  "takeDue now m =
     (m\<lparr>LM_pending := filter (\<lambda>p. PC_next p > now) (LM_pending m)\<rparr>,
      filter (\<lambda>p. \<not> PC_next p > now) (LM_pending m))"

definition retryOne ::
  "instant \<Rightarrow> pendingCompletion \<Rightarrow> CompleteResult list \<Rightarrow> go_error option \<Rightarrow> LeaseManager \<Rightarrow> LeaseManager" where
  "retryOne now pending results err m =
     (let (m, remaining) = remainingCompletions (PC_items pending) results err m in
      if remaining = [] then m
      else
        let doubled = PC_backoff pending * 2;
            backoff = (if doubled > 5 * second then 5 * second else doubled)
        in queueRetry \<lparr>PC_items = remaining, PC_next = now + backoff, PC_backoff = backoff\<rparr> m)"

section \<open>Shutdown\<close>

definition drainItems :: "LeaseManager \<Rightarrow> LeaseManager \<times> LeaseCompletion list" where
  "drainItems m =
     (m\<lparr>LM_completions := [], LM_pending := []\<rparr>, LM_completions m @ concat (map PC_items (LM_pending m)))"

text \<open>
  One round of the loop of \<^verbatim>\<open>drainShutdown\<close>: the answer of the coordinator, and whether the context
  ends before the backoff timer fires.
\<close>

record drainRound =
  DR_results :: "CompleteResult list"
  DR_err :: "go_error option"
  DR_ctxErr :: "go_error option"
  DR_done :: bool

fun drainLoop :: "drainRound list \<Rightarrow> LeaseCompletion list \<Rightarrow> LeaseManager \<Rightarrow> LeaseManager \<times> go_error option option" where
  "drainLoop [] items m = (m, None)"
| "drainLoop (r # rs) items m =
     (let (m, items) = remainingCompletions items (DR_results r) (DR_err r) m in
      if items = [] then (m, Some None)
      else
        let lastErr = (if DR_err r = None then DR_ctxErr r else DR_err r) in
        if DR_done r then (observeDropped (length items) (removeLeases items m), Some lastErr)
        else drainLoop rs items m)"

definition drainShutdown :: "drainRound list \<Rightarrow> LeaseManager \<Rightarrow> LeaseManager \<times> go_error option option" where
  "drainShutdown rounds m =
     (let (m, items) = drainItems m in
      if items = [] then (m, Some None) else drainLoop rounds items m)"

section \<open>Facts about the operations\<close>

lemma removeLeases_simps [simp]:
  "LM_completions (removeLeases items m) = LM_completions m" "LM_pending (removeLeases items m) = LM_pending m"
  "LM_backlogCap (removeLeases items m) = LM_backlogCap m" "LM_dropped (removeLeases items m) = LM_dropped m"
  "LM_observer (removeLeases items m) = LM_observer m"
  by (induction items arbitrary: m) (simp_all add: removeLeases_def lm_remove_def)

lemma removeLeases_active:
  "mget (LM_active (removeLeases items m)) i =
     (if i \<in> (LI_LeaseID \<circ> LC_Lease) ` set items then None else mget (LM_active m) i)"
  by (induction items arbitrary: m) (auto simp: removeLeases_def lm_remove_def)

lemma observeLost_simps [simp]:
  "LM_completions (observeLost rs m) = LM_completions m" "LM_pending (observeLost rs m) = LM_pending m"
  "LM_backlogCap (observeLost rs m) = LM_backlogCap m" "LM_dropped (observeLost rs m) = LM_dropped m"
  "LM_active (observeLost rs m) = LM_active m"
  by (simp_all add: observeLost_def)

lemma observeDropped_simps [simp]:
  "LM_completions (observeDropped n m) = LM_completions m" "LM_pending (observeDropped n m) = LM_pending m"
  "LM_backlogCap (observeDropped n m) = LM_backlogCap m" "LM_active (observeDropped n m) = LM_active m"
  "LM_dropped (observeDropped n m) = LM_dropped m + of_nat n"
  by (simp_all add: observeDropped_def)

lemma lm_remove_simps [simp]:
  "LM_completions (lm_remove l m) = LM_completions m" "LM_pending (lm_remove l m) = LM_pending m"
  "LM_backlogCap (lm_remove l m) = LM_backlogCap m" "LM_dropped (lm_remove l m) = LM_dropped m"
  "LM_active (lm_remove l m) = mdel (LI_LeaseID l) (LM_active m)"
  by (simp_all add: lm_remove_def)

lemma remaining_simps [simp]:
  "LM_completions (fst (remainingCompletions items rs e m)) = LM_completions m"
  "LM_pending (fst (remainingCompletions items rs e m)) = LM_pending m"
  "LM_backlogCap (fst (remainingCompletions items rs e m)) = LM_backlogCap m"
  "LM_dropped (fst (remainingCompletions items rs e m)) = LM_dropped m"
  "snd (remainingCompletions items rs e m) = drop (acknowledged items rs e) items"
  by (simp_all add: remainingCompletions_def Let_def)

lemma renewResult_simps [simp]:
  "LM_completions (renewResult r m) = LM_completions m" "LM_pending (renewResult r m) = LM_pending m"
  "LM_backlogCap (renewResult r m) = LM_backlogCap m" "LM_dropped (renewResult r m) = LM_dropped m"
  by (simp_all add: renewResult_def Let_def)

lemma renewContext_simps [simp]:
  "LM_completions (fst (renewContext rs e m)) = LM_completions m"
  "LM_pending (fst (renewContext rs e m)) = LM_pending m"
  "LM_backlogCap (fst (renewContext rs e m)) = LM_backlogCap m"
  "LM_dropped (fst (renewContext rs e m)) = LM_dropped m"
proof -
  have "LM_completions (fold renewResult rs m) = LM_completions m \<and> LM_pending (fold renewResult rs m) = LM_pending m \<and>
    LM_backlogCap (fold renewResult rs m) = LM_backlogCap m \<and> LM_dropped (fold renewResult rs m) = LM_dropped m" for m
    by (induction rs arbitrary: m) simp_all
  then show "LM_completions (fst (renewContext rs e m)) = LM_completions m"
    "LM_pending (fst (renewContext rs e m)) = LM_pending m"
    "LM_backlogCap (fst (renewContext rs e m)) = LM_backlogCap m"
    "LM_dropped (fst (renewContext rs e m)) = LM_dropped m"
    by (simp_all add: renewContext_def Let_def)
qed

text \<open>A renewal never starts tracking a lease that is not tracked.\<close>

lemma renewResult_tracks: "mget (LM_active (renewResult r m)) i \<noteq> None \<Longrightarrow> mget (LM_active m) i \<noteq> None"
  by (auto simp: renewResult_def Let_def split: if_splits)

lemma renew_tracks: "mget (LM_active (fst (renewContext rs e m))) i \<noteq> None \<Longrightarrow> mget (LM_active m) i \<noteq> None"
proof -
  have "mget (LM_active (fold renewResult rs m)) i \<noteq> None \<Longrightarrow> mget (LM_active m) i \<noteq> None" for m
  proof (induction rs arbitrary: m)
    case (Cons r rs)
    then show ?case using renewResult_tracks [of r m i] by simp
  qed simp
  then show "mget (LM_active (fst (renewContext rs e m))) i \<noteq> None \<Longrightarrow> mget (LM_active m) i \<noteq> None"
    by (fastforce simp: renewContext_def Let_def split: if_splits)
qed

end
