(* ===== verification/Lease_Delivery.thy ===== *)
theory Lease_Delivery
  imports Lease_Manager
begin

text \<open>
  The lease manager at work: request goroutines track leases and complete their handles, the manager's
  goroutine receives, delivers, retries and renews, in any order and with any answers of the coordinator.
  \<open>lease_step\<close> interleaves the operations of \<^verbatim>\<open>lease_manager.go\<close>; between taking a batch and the
  coordinator's answer the batch is held by the goroutine (\<open>runner\<close>). The last four fields of the system
  record what happened, for the statements.
\<close>

section \<open>The system\<close>

datatype runner =
    Waiting
  | Delivering "LeaseCompletion list"
  | Retrying instant "pendingCompletion list"

record LeaseSystem =
  LS_manager :: LeaseManager
  LS_handles :: "LeaseHandle list"
  LS_runner :: runner
  LS_accepted :: "LeaseCompletion list"
  LS_refused :: "LeaseIdentity list"
  LS_acknowledged :: "LeaseCompletion list"
  LS_discarded :: "LeaseCompletion list"

datatype lease_event =
    LvTrack LeaseIdentity
  | LvComplete nat "TokenUsage option"
  | LvReceive
  | LvDelivered "CompleteResult list" "go_error option" instant
  | LvTick instant
  | LvRetried "CompleteResult list" "go_error option"
  | LvRenewed "RenewResult list" "go_error option"

definition fits :: "LeaseCompletion list \<Rightarrow> LeaseManager \<Rightarrow> bool" where
  "fits items m \<longleftrightarrow> int (queuedItems (LM_pending m) + length items) \<le> LM_backlogCap m"

text \<open>The bookkeeping of one answer: the acknowledged prefix, and the rest if there is no room for it.\<close>

definition settle ::
  "LeaseCompletion list \<Rightarrow> CompleteResult list \<Rightarrow> go_error option \<Rightarrow> LeaseSystem \<Rightarrow> LeaseSystem" where
  "settle items results err s =
     (let k = acknowledged items results err in
      s\<lparr>LS_acknowledged := LS_acknowledged s @ take k items,
        LS_discarded := LS_discarded s @ (if fits (drop k items) (LS_manager s) then [] else drop k items)\<rparr>)"

fun lease_step :: "LeaseSystem \<Rightarrow> lease_event \<Rightarrow> LeaseSystem" where
  "lease_step s (LvTrack l) =
     (let (m, h) = Track l (LS_manager s) in s\<lparr>LS_manager := m, LS_handles := LS_handles s @ [h]\<rparr>)"
| "lease_step s (LvComplete n usage) =
     (if n < length (LS_handles s) \<and> \<not> LH_completed (LS_handles s ! n) then
        let h = LS_handles s ! n; (h', m, sent) = Handle_Complete usage h (LS_manager s);
            s = s\<lparr>LS_manager := m, LS_handles := (LS_handles s)[n := h']\<rparr>
        in if sent then s\<lparr>LS_accepted := LS_accepted s @ [\<lparr>LC_Lease = LH_lease h, LC_Usage = usage\<rparr>]\<rparr>
           else s\<lparr>LS_refused := LS_refused s @ [LH_lease h]\<rparr>
      else s)"
| "lease_step s LvReceive =
     (case (LS_runner s, LM_completions (LS_manager s)) of
        (Waiting, first # rest) \<Rightarrow>
          let (m, batch) = takeBatch first ((LS_manager s)\<lparr>LM_completions := rest\<rparr>)
          in s\<lparr>LS_manager := m, LS_runner := Delivering batch\<rparr>
      | _ \<Rightarrow> s)"
| "lease_step s (LvDelivered results err now) =
     (case LS_runner s of
        Delivering batch \<Rightarrow>
          (settle batch results err s)\<lparr>LS_manager := deliverBatch batch results err now (LS_manager s), LS_runner := Waiting\<rparr>
      | _ \<Rightarrow> s)"
| "lease_step s (LvTick now) =
     (case LS_runner s of
        Waiting \<Rightarrow> let (m, due) = takeDue now (LS_manager s) in s\<lparr>LS_manager := m, LS_runner := Retrying now due\<rparr>
      | _ \<Rightarrow> s)"
| "lease_step s (LvRetried results err) =
     (case LS_runner s of
        Retrying now [] \<Rightarrow> s\<lparr>LS_runner := Waiting\<rparr>
      | Retrying now (p # ps) \<Rightarrow>
          (settle (PC_items p) results err s)
            \<lparr>LS_manager := retryOne now p results err (LS_manager s), LS_runner := Retrying now ps\<rparr>
      | _ \<Rightarrow> s)"
| "lease_step s (LvRenewed results err) = s\<lparr>LS_manager := fst (renewContext results err (LS_manager s))\<rparr>"

definition lease_start :: "LeaseManagerOptions \<Rightarrow> LeaseSystem" where
  "lease_start o' = \<lparr>LS_manager = NewLeaseManager o', LS_handles = [], LS_runner = Waiting, LS_accepted = [],
     LS_refused = [], LS_acknowledged = [], LS_discarded = []\<rparr>"

definition lease_run :: "LeaseSystem \<Rightarrow> lease_event list \<Rightarrow> LeaseSystem" where
  "lease_run s es = foldl lease_step s es"

section \<open>The books\<close>

fun runnerItems :: "runner \<Rightarrow> LeaseCompletion list" where
  "runnerItems Waiting = []"
| "runnerItems (Delivering batch) = batch"
| "runnerItems (Retrying now ps) = concat (map PC_items ps)"

definition pendingItems :: "LeaseManager \<Rightarrow> LeaseCompletion list" where
  "pendingItems m = concat (map PC_items (LM_pending m))"

definition outstanding :: "LeaseSystem \<Rightarrow> LeaseCompletion list" where
  "outstanding s = LM_completions (LS_manager s) @ runnerItems (LS_runner s) @ pendingItems (LS_manager s)"

definition idOf :: "LeaseCompletion \<Rightarrow> uuid" where
  "idOf item = LI_LeaseID (LC_Lease item)"

definition books :: "LeaseSystem \<Rightarrow> bool" where
  "books s \<longleftrightarrow>
     mset (LS_accepted s) = mset (outstanding s) + mset (LS_acknowledged s) + mset (LS_discarded s)"

definition counters :: "LeaseSystem \<Rightarrow> bool" where
  "counters s \<longleftrightarrow> LM_dropped (LS_manager s) = of_nat (length (LS_discarded s) + length (LS_refused s)) \<and>
     mset (map LH_lease (filter LH_completed (LS_handles s))) = mset (map LC_Lease (LS_accepted s) @ LS_refused s)"

definition bounded :: "LeaseSystem \<Rightarrow> bool" where
  "bounded s \<longleftrightarrow> 0 < LM_backlogCap (LS_manager s) \<and>
     int (length (LM_completions (LS_manager s))) \<le> LM_backlogCap (LS_manager s) \<and>
     int (queuedItems (LM_pending (LS_manager s))) \<le> LM_backlogCap (LS_manager s)"

definition tracked :: "LeaseSystem \<Rightarrow> bool" where
  "tracked s \<longleftrightarrow> (\<forall>i. mget (LM_active (LS_manager s)) i \<noteq> None \<longrightarrow>
     (\<exists>h \<in> set (LS_handles s). \<not> LH_completed h \<and> LI_LeaseID (LH_lease h) = i) \<or> i \<in> idOf ` set (outstanding s))"

definition lease_inv :: "LeaseSystem \<Rightarrow> bool" where
  "lease_inv s \<longleftrightarrow> books s \<and> counters s \<and> bounded s \<and> tracked s"

lemmas lease_inv_defs = lease_inv_def books_def counters_def bounded_def tracked_def

lemma queuedItems_simps [simp]:
  "queuedItems [] = 0" "queuedItems (p # ps) = length (PC_items p) + queuedItems ps"
  "queuedItems (ps @ qs) = queuedItems ps + queuedItems qs"
  by (simp_all add: queuedItems_def)

lemma queuedItems_filter: "queuedItems (filter P ps) \<le> queuedItems ps"
  by (induction ps) auto

lemma mset_split_pending:
  "mset (concat (map PC_items ps)) = mset (concat (map PC_items (filter P ps))) + mset (concat (map PC_items (filter (\<lambda>p. \<not> P p) ps)))"
  by (induction ps) auto

section \<open>One answer of the coordinator\<close>

text \<open>Delivering a batch and retrying one differ only in the time and the backoff of the next try.\<close>

definition requeue :: "(LeaseCompletion list \<Rightarrow> pendingCompletion) \<Rightarrow> LeaseCompletion list \<Rightarrow> CompleteResult list \<Rightarrow>
    go_error option \<Rightarrow> LeaseManager \<Rightarrow> LeaseManager" where
  "requeue mk items results err m =
     (let (m, remaining) = remainingCompletions items results err m in
      if remaining = [] then m else queueRetry (mk remaining) m)"

lemma deliverBatch_requeue: "deliverBatch batch results err now =
    requeue (\<lambda>items. \<lparr>PC_items = items, PC_next = now + 10 * millisecond, PC_backoff = 10 * millisecond\<rparr>) batch results err"
  by (rule ext) (simp only: deliverBatch_def requeue_def Let_def)

lemma retryOne_requeue: "retryOne now p results err =
    requeue (\<lambda>items. let backoff = (if PC_backoff p * 2 > 5 * second then 5 * second else PC_backoff p * 2) in
       \<lparr>PC_items = items, PC_next = now + backoff, PC_backoff = backoff\<rparr>) (PC_items p) results err"
  by (rule ext) (simp only: retryOne_def requeue_def Let_def)

lemma requeue_spec:
  assumes mk: "\<And>items. PC_items (mk items) = items"
    and "k = acknowledged items results err" and m': "m' = requeue mk items results err m"
  shows "LM_completions m' = LM_completions m" and "LM_backlogCap m' = LM_backlogCap m"
    and "fits (drop k items) m \<Longrightarrow> mset (pendingItems m') = mset (pendingItems m) + mset (drop k items) \<and>
      queuedItems (LM_pending m') = queuedItems (LM_pending m) + length (drop k items) \<and> LM_dropped m' = LM_dropped m"
    and "\<not> fits (drop k items) m \<Longrightarrow> LM_pending m' = LM_pending m \<and>
      LM_dropped m' = LM_dropped m + of_nat (length (drop k items))"
    and "mget (LM_active m') i \<noteq> None \<Longrightarrow> mget (LM_active m) i \<noteq> None \<and> i \<notin> idOf ` set (take k items) \<and>
      (fits (drop k items) m \<or> i \<notin> idOf ` set (drop k items))"
proof -
  let ?m = "fst (remainingCompletions items results err m)"
  have eq: "m' = (if drop k items = [] then ?m else queueRetry (mk (drop k items)) ?m)"
    using assms(2,3) by (simp add: requeue_def case_prod_unfold Let_def)
  have fit: "fits (drop k items) ?m = fits (drop k items) m" by (simp add: fits_def)
  have act: "mget (LM_active ?m) i = (if i \<in> idOf ` set (take k items) then None else mget (LM_active m) i)" for i
    using assms(2) by (simp add: remainingCompletions_def Let_def removeLeases_active idOf_def comp_def)
  show "LM_completions m' = LM_completions m" "LM_backlogCap m' = LM_backlogCap m"
    by (simp_all add: eq queueRetry_def)
  show "fits (drop k items) m \<Longrightarrow> mset (pendingItems m') = mset (pendingItems m) + mset (drop k items) \<and>
      queuedItems (LM_pending m') = queuedItems (LM_pending m) + length (drop k items) \<and> LM_dropped m' = LM_dropped m"
    using fit by (auto simp: eq queueRetry_def mk fits_def pendingItems_def)
  show "\<not> fits (drop k items) m \<Longrightarrow> LM_pending m' = LM_pending m \<and>
      LM_dropped m' = LM_dropped m + of_nat (length (drop k items))"
    using fit by (auto simp: eq queueRetry_def mk fits_def)
  show "mget (LM_active m') i \<noteq> None \<Longrightarrow> mget (LM_active m) i \<noteq> None \<and> i \<notin> idOf ` set (take k items) \<and>
      (fits (drop k items) m \<or> i \<notin> idOf ` set (drop k items))"
    using act [of i] fit
    by (auto simp: eq queueRetry_def mk fits_def removeLeases_active idOf_def comp_def split: if_splits)
qed

lemma answer_inv:
  assumes inv: "lease_inv s" and run: "runnerItems (LS_runner s) = items @ rest" "runnerItems run' = rest"
    and mk: "\<And>items. PC_items (mk items) = items"
  shows "lease_inv ((settle items results err s)\<lparr>LS_manager := requeue mk items results err (LS_manager s), LS_runner := run'\<rparr>)"
proof -
  define k where "k = acknowledged items results err"
  define m where "m = LS_manager s"
  define m' where "m' = requeue mk items results err m"
  note r = requeue_spec [OF mk k_def m'_def]
  define s' where "s' = (settle items results err s)\<lparr>LS_manager := m', LS_runner := run'\<rparr>"
  have s': "LS_manager s' = m'" "LS_runner s' = run'" "LS_handles s' = LS_handles s" "LS_accepted s' = LS_accepted s"
    "LS_refused s' = LS_refused s" "LS_acknowledged s' = LS_acknowledged s @ take k items"
    "LS_discarded s' = LS_discarded s @ (if fits (drop k items) m then [] else drop k items)"
    by (simp_all add: s'_def settle_def Let_def k_def m_def)
  have split: "mset items = mset (take k items) + mset (drop k items)" "set items = set (take k items) \<union> set (drop k items)"
    by (metis append_take_drop_id mset_append, metis append_take_drop_id set_append)
  have mgr: "outstanding s = LM_completions m @ (items @ rest) @ pendingItems m"
    by (simp add: outstanding_def m_def run)
  have out: "mset (outstanding s') + mset (take k items) + (if fits (drop k items) m then {#} else mset (drop k items)) = mset (outstanding s)"
    unfolding mgr using r(3,4) by (auto simp: outstanding_def s' r(1) run(2) split(1) pendingItems_def)
  then have "books s'" using inv by (auto simp: lease_inv_def books_def s' add_ac)
  moreover have "counters s'" using inv r(3,4) by (auto simp: lease_inv_def counters_def s' m_def algebra_simps)
  moreover have "bounded s'" using inv r(1-4) by (cases "fits (drop k items) m") (auto simp: lease_inv_def bounded_def s' m_def fits_def)
  moreover have "tracked s'"
    unfolding tracked_def
  proof (intro allI impI)
    fix i assume i: "mget (LM_active (LS_manager s')) i \<noteq> None"
    note a = r(5) [OF i [unfolded s'(1)]]
    have "set (outstanding s) \<subseteq> set (outstanding s') \<union> set (take k items) \<union> (if fits (drop k items) m then {} else set (drop k items))"
      using arg_cong [OF out, of set_mset] by (auto split: if_splits)
    moreover have "(\<exists>h \<in> set (LS_handles s). \<not> LH_completed h \<and> LI_LeaseID (LH_lease h) = i) \<or> i \<in> idOf ` set (outstanding s)"
      using inv a by (simp add: lease_inv_def tracked_def m_def)
    ultimately show "(\<exists>h \<in> set (LS_handles s'). \<not> LH_completed h \<and> LI_LeaseID (LH_lease h) = i) \<or> i \<in> idOf ` set (outstanding s')"
      using a by (auto simp: s'(3) split: if_splits)
  qed
  ultimately show ?thesis unfolding lease_inv_def s'_def m'_def m_def by simp
qed

section \<open>Every step keeps the books\<close>

lemma track_inv:
  assumes "lease_inv s"
  shows "lease_inv (lease_step s (LvTrack l))"
proof -
  have "tracked (lease_step s (LvTrack l))"
    using assms unfolding lease_inv_def tracked_def by (auto simp: Track_def outstanding_def pendingItems_def)
  then show ?thesis
    using assms by (simp add: lease_inv_def books_def counters_def bounded_def Track_def outstanding_def pendingItems_def)
qed

lemma mset_filter_update:
  "n < length hs \<Longrightarrow> \<not> P (hs ! n) \<Longrightarrow> P h \<Longrightarrow> mset (map f (filter P (hs[n := h]))) = mset (map f (filter P hs)) + {#f h#}"
proof (induction hs arbitrary: n)
  case (Cons x hs)
  then show ?case by (cases n) auto
qed simp

lemma complete_inv:
  assumes inv: "lease_inv s"
  shows "lease_inv (lease_step s (LvComplete n usage))"
proof (cases "n < length (LS_handles s) \<and> \<not> LH_completed (LS_handles s ! n)")
  case True
  define h where "h = LS_handles s ! n"
  define m where "m = LS_manager s"
  define item where "item = \<lparr>LC_Lease = LH_lease h, LC_Usage = usage\<rparr>"
  define hs where "hs = (LS_handles s)[n := h\<lparr>LH_completed := True\<rparr>]"
  have hs: "mset (map LH_lease (filter LH_completed hs)) = mset (map LH_lease (filter LH_completed (LS_handles s))) + {#LH_lease h#}"
    using mset_filter_update [of n "LS_handles s" LH_completed "h\<lparr>LH_completed := True\<rparr>" LH_lease] True
    by (simp add: hs_def h_def)
  have live: "g \<in> set (LS_handles s) \<Longrightarrow> \<not> LH_completed g \<Longrightarrow> g \<noteq> h \<Longrightarrow> g \<in> set hs" for g
    unfolding hs_def h_def by (metis in_set_conv_nth length_list_update nth_list_update_neq)
  have t: "(\<exists>g \<in> set hs. \<not> LH_completed g \<and> LI_LeaseID (LH_lease g) = i) \<or> i = LI_LeaseID (LH_lease h) \<or> i \<in> idOf ` set (outstanding s)"
    if "mget (LM_active m) i \<noteq> None" for i
    using inv live that unfolding lease_inv_def tracked_def m_def by metis
  show ?thesis
  proof (cases "int (length (LM_completions m)) < LM_backlogCap m")
    case room: True
    have e: "lease_step s (LvComplete n usage) =
        s\<lparr>LS_manager := m\<lparr>LM_completions := LM_completions m @ [item]\<rparr>, LS_handles := hs, LS_accepted := LS_accepted s @ [item]\<rparr>"
      using True room by (simp add: Handle_Complete_def h_def m_def hs_def item_def Let_def)
    have "idOf item = LI_LeaseID (LH_lease h)" by (simp add: idOf_def item_def)
    with t have "tracked (lease_step s (LvComplete n usage))"
      unfolding e tracked_def by (fastforce simp: outstanding_def pendingItems_def m_def)
    then show ?thesis
      using inv room hs unfolding e
      by (auto simp: lease_inv_def books_def counters_def bounded_def outstanding_def pendingItems_def m_def item_def)
  next
    case full: False
    have e: "lease_step s (LvComplete n usage) =
        s\<lparr>LS_manager := observeDropped 1 (lm_remove (LH_lease h) m), LS_handles := hs, LS_refused := LS_refused s @ [LH_lease h]\<rparr>"
      using True full by (simp add: Handle_Complete_def h_def m_def hs_def Let_def)
    from t have "tracked (lease_step s (LvComplete n usage))"
      unfolding e tracked_def by (fastforce simp: outstanding_def pendingItems_def m_def split: if_splits)
    then show ?thesis
      using inv hs unfolding e
      by (auto simp: lease_inv_def books_def counters_def bounded_def outstanding_def pendingItems_def m_def algebra_simps)
  qed
qed (use inv in auto)

text \<open>A step that only moves items between the channel, the goroutine and the retry list.\<close>

lemma move_inv:
  assumes "lease_inv s" and "mset (outstanding s') = mset (outstanding s)" and "bounded s'"
    and "LM_dropped (LS_manager s') = LM_dropped (LS_manager s)"
    and "\<And>i. mget (LM_active (LS_manager s')) i \<noteq> None \<Longrightarrow> mget (LM_active (LS_manager s)) i \<noteq> None"
    and "LS_handles s' = LS_handles s" "LS_accepted s' = LS_accepted s" "LS_refused s' = LS_refused s"
      "LS_acknowledged s' = LS_acknowledged s" "LS_discarded s' = LS_discarded s"
  shows "lease_inv s'"
proof -
  have "set (outstanding s') = set (outstanding s)" using assms(2) by (rule mset_eq_setD)
  then have "tracked s'" using assms(1,5) unfolding lease_inv_def tracked_def assms(6) by metis
  then show ?thesis using assms by (simp add: lease_inv_def books_def counters_def)
qed

lemma receive_inv:
  assumes "lease_inv s"
  shows "lease_inv (lease_step s LvReceive)"
proof (cases "LS_runner s = Waiting \<and> LM_completions (LS_manager s) \<noteq> []")
  case True
  then obtain first rest where c: "LM_completions (LS_manager s) = first # rest" by (cases "LM_completions (LS_manager s)") auto
  have "mset rest = mset (take 63 rest) + mset (drop 63 rest)" by (metis append_take_drop_id mset_append)
  with assms True c show ?thesis
    by (intro move_inv [OF assms]) (auto simp: outstanding_def pendingItems_def takeBatch_def lease_inv_def bounded_def)
qed (use assms in \<open>auto split: runner.split list.split\<close>)

lemma tick_inv:
  assumes "lease_inv s"
  shows "lease_inv (lease_step s (LvTick now))"
proof (cases "LS_runner s")
  case Waiting
  note split = mset_split_pending [of "LM_pending (LS_manager s)" "\<lambda>p. PC_next p > now"]
  from Waiting split queuedItems_filter [of "\<lambda>p. PC_next p > now" "LM_pending (LS_manager s)"] assms show ?thesis
    by (intro move_inv [OF assms]) (auto simp: outstanding_def pendingItems_def takeDue_def lease_inv_def bounded_def)
qed (use assms in auto)

lemma renewed_inv:
  assumes "lease_inv s"
  shows "lease_inv (lease_step s (LvRenewed results err))"
  using assms renew_tracks [of results err "LS_manager s"]
  by (intro move_inv [OF assms]) (auto simp: outstanding_def pendingItems_def lease_inv_def bounded_def)

lemma delivered_inv:
  assumes "lease_inv s"
  shows "lease_inv (lease_step s (LvDelivered results err now))"
proof (cases "LS_runner s")
  case (Delivering batch)
  show ?thesis
    using answer_inv [of s batch "[]" Waiting, OF assms] Delivering by (simp add: deliverBatch_requeue)
qed (use assms in auto)

lemma retried_inv:
  assumes "lease_inv s"
  shows "lease_inv (lease_step s (LvRetried results err))"
proof (cases "LS_runner s")
  case (Retrying now ps)
  show ?thesis
  proof (cases ps)
    case Nil
    then show ?thesis
      using assms Retrying by (intro move_inv [OF assms]) (auto simp: outstanding_def lease_inv_def bounded_def)
  next
    case (Cons p ps')
    then show ?thesis
      using answer_inv [of s "PC_items p" "concat (map PC_items ps')" "Retrying now ps'", OF assms] Retrying
      by (simp add: retryOne_requeue Let_def)
  qed
qed (use assms in auto)

lemmas lease_step_invs = track_inv complete_inv receive_inv delivered_inv tick_inv retried_inv renewed_inv

lemma lease_step_inv: "lease_inv s \<Longrightarrow> lease_inv (lease_step s e)"
  by (cases e) (simp_all only: lease_step_invs)

lemma lease_run_inv: "lease_inv s \<Longrightarrow> lease_inv (lease_run s es)"
  unfolding lease_run_def by (induction es arbitrary: s) (simp_all add: lease_step_inv del: lease_step.simps)

lemma lease_start_inv: "lease_inv (lease_start o')"
  by (simp add: lease_inv_defs lease_start_def NewLeaseManager_def Let_def outstanding_def pendingItems_def)

section \<open>Leases that may still be held\<close>

text \<open>
  The leases whose slot may still be taken: those of requests that run, of completions on their way, and
  of completions that were given up (their slots return when the lease expires).
\<close>

definition liveIds :: "LeaseSystem \<Rightarrow> uuid set" where
  "liveIds s = (LI_LeaseID \<circ> LH_lease) ` {h \<in> set (LS_handles s). \<not> LH_completed h} \<union>
     idOf ` set (outstanding s) \<union> idOf ` set (LS_discarded s) \<union> LI_LeaseID ` set (LS_refused s)"

fun answered :: "LeaseSystem \<Rightarrow> lease_event \<Rightarrow> LeaseCompletion list" where
  "answered s (LvDelivered results err now) =
     (case LS_runner s of Delivering batch \<Rightarrow> take (acknowledged batch results err) batch | _ \<Rightarrow> [])"
| "answered s (LvRetried results err) =
     (case LS_runner s of Retrying now (p # ps) \<Rightarrow> take (acknowledged (PC_items p) results err) (PC_items p) | _ \<Rightarrow> [])"
| "answered s _ = []"

lemma answer_live:
  assumes "runnerItems (LS_runner s) = items @ rest" "runnerItems run' = rest"
    and mk: "\<And>items. PC_items (mk items) = items"
  shows "liveIds s \<subseteq> liveIds ((settle items results err s)\<lparr>LS_manager := requeue mk items results err (LS_manager s), LS_runner := run'\<rparr>) \<union>
    idOf ` set (take (acknowledged items results err) items)"
proof -
  define k where "k = acknowledged items results err"
  define m' where "m' = requeue mk items results err (LS_manager s)"
  note r = requeue_spec [OF mk k_def m'_def]
  have split: "set items = set (take k items) \<union> set (drop k items)" by (metis append_take_drop_id set_append)
  have "set (drop k items) \<subseteq> set (pendingItems m')" "set (pendingItems (LS_manager s)) \<subseteq> set (pendingItems m')"
    if "fits (drop k items) (LS_manager s)" using arg_cong [OF conjunct1 [OF r(3) [OF that]], of set_mset] by auto
  moreover have "pendingItems m' = pendingItems (LS_manager s)" if "\<not> fits (drop k items) (LS_manager s)"
    using r(4) [OF that] by (simp add: pendingItems_def)
  ultimately show ?thesis
    unfolding m'_def [symmetric] k_def [symmetric] liveIds_def outstanding_def
    using assms(1,2) r(1) split by (cases "fits (drop k items) (LS_manager s)") (auto simp: settle_def Let_def k_def)
qed

lemma complete_live: "liveIds s \<subseteq> liveIds (lease_step s (LvComplete n usage))"
proof (cases "n < length (LS_handles s) \<and> \<not> LH_completed (LS_handles s ! n)")
  case True
  define h where "h = LS_handles s ! n"
  define hs where "hs = (LS_handles s)[n := h\<lparr>LH_completed := True\<rparr>]"
  have live: "g \<in> set (LS_handles s) \<Longrightarrow> \<not> LH_completed g \<Longrightarrow> g = h \<or> g \<in> set hs" for g
    unfolding hs_def h_def by (metis in_set_conv_nth length_list_update nth_list_update_neq)
  show ?thesis
    using True live
    by (auto simp: liveIds_def outstanding_def pendingItems_def Handle_Complete_def Let_def hs_def h_def idOf_def)
next
  case False
  then have "lease_step s (LvComplete n usage) = s" by (simp only: lease_step.simps if_False)
  then show ?thesis by simp
qed

lemma move_live:
  assumes "mset (outstanding s') = mset (outstanding s)" and "LS_handles s' = LS_handles s"
    and "LS_discarded s' = LS_discarded s" and "LS_refused s' = LS_refused s"
  shows "liveIds s' = liveIds s"
  using mset_eq_setD [OF assms(1)] assms(2-) by (simp add: liveIds_def)

lemma receive_live: "liveIds (lease_step s LvReceive) = liveIds s"
proof (cases "LS_runner s = Waiting \<and> LM_completions (LS_manager s) \<noteq> []")
  case True
  then obtain first rest where c: "LM_completions (LS_manager s) = first # rest" by (cases "LM_completions (LS_manager s)") auto
  have "mset rest = mset (take 63 rest) + mset (drop 63 rest)" by (metis append_take_drop_id mset_append)
  with True c show ?thesis by (intro move_live) (auto simp: outstanding_def pendingItems_def takeBatch_def)
qed (auto split: runner.split list.split)

lemma tick_live: "liveIds (lease_step s (LvTick now)) = liveIds s"
proof (cases "LS_runner s")
  case Waiting
  with mset_split_pending [of "LM_pending (LS_manager s)" "\<lambda>p. PC_next p > now"] show ?thesis
    by (intro move_live) (auto simp: outstanding_def pendingItems_def takeDue_def)
qed auto

lemma lease_step_live: "liveIds s \<subseteq> liveIds (lease_step s e) \<union> idOf ` set (answered s e)"
proof (cases e)
  case (LvTrack l)
  then show ?thesis by (auto simp: liveIds_def Track_def outstanding_def pendingItems_def)
next
  case (LvComplete n usage)
  then show ?thesis using complete_live by blast
next
  case LvReceive
  then show ?thesis by (simp only: receive_live) blast
next
  case (LvTick now)
  then show ?thesis by (simp only: tick_live) blast
next
  case (LvRenewed results err)
  then show ?thesis by (auto simp: liveIds_def outstanding_def pendingItems_def)
next
  case (LvDelivered results err now)
  then show ?thesis
  proof (cases "LS_runner s")
    case (Delivering batch)
    then show ?thesis
      using answer_live [of s batch "[]" Waiting] LvDelivered by (simp add: deliverBatch_requeue)
  qed auto
next
  case (LvRetried results err)
  then show ?thesis
  proof (cases "LS_runner s")
    case (Retrying now ps)
    show ?thesis
    proof (cases ps)
      case Nil
      then show ?thesis using LvRetried Retrying by (auto simp: liveIds_def outstanding_def)
    next
      case (Cons p ps')
      then show ?thesis
        using answer_live [of s "PC_items p" "concat (map PC_items ps')" "Retrying now ps'"] LvRetried Retrying
        by (simp add: retryOne_requeue Let_def)
    qed
  qed auto
qed

section \<open>The coordinator's side of the contract\<close>

text \<open>
  What the lease manager relies on: completing leases frees their slots and takes none. \<open>held\<close> are the
  leases that occupy a slot of the coordinator.
\<close>

locale completion_service =
  fixes inv :: "'c \<Rightarrow> bool" and held :: "'c \<Rightarrow> uuid set"
    and complete :: "'c \<Rightarrow> instant \<Rightarrow> LeaseCompletion list \<Rightarrow> 'c \<times> CompleteResult list"
  assumes complete_keeps: "inv c \<Longrightarrow> 0 < now \<Longrightarrow> inv (fst (complete c now items))"
    and complete_releases: "inv c \<Longrightarrow> 0 < now \<Longrightarrow> item \<in> set items \<Longrightarrow> idOf item \<notin> held (fst (complete c now items))"
    and complete_shrinks: "inv c \<Longrightarrow> 0 < now \<Longrightarrow> held (fst (complete c now items)) \<subseteq> held c"
begin

lemma answer_releases:
  assumes "inv c" "0 < now" and "held c \<subseteq> liveIds s" and "set (answered s e) \<subseteq> set items"
  shows "held (fst (complete c now items)) \<subseteq> liveIds (lease_step s e)"
proof
  fix i assume i: "i \<in> held (fst (complete c now items))"
  then have "i \<in> liveIds s" using complete_shrinks assms by blast
  moreover have "i \<notin> idOf ` set (answered s e)" using complete_releases [OF assms(1,2)] i assms(4) by blast
  ultimately show "i \<in> liveIds (lease_step s e)" using lease_step_live [of s e] by blast
qed

lemma shutdown_releases:
  assumes "inv c" "0 < now" and d: "drainItems m = (m1, items)"
    and r: "DR_results r = snd (complete c now items)" "DR_err r = None"
    and "drainShutdown (r # rs) m = (m', res)" and "i \<in> idOf ` set items"
  shows "i \<notin> held (fst (complete c now items)) \<and> mget (LM_active m') i = None"
proof -
  have "items \<noteq> []" using assms(7) by auto
  then have "m' = fst (remainingCompletions items (DR_results r) None m1)"
    using assms(6) d r(2) by (auto simp: drainShutdown_def acknowledged_def case_prod_unfold Let_def)
  then have "mget (LM_active m') i = None"
    using assms(7) by (auto simp: remainingCompletions_def acknowledged_def removeLeases_active idOf_def Let_def)
  then show ?thesis using complete_releases [OF assms(1,2)] assms(7) by blast
qed

end

section \<open>Properties\<close>


lemma remaining_active:
  "mget (LM_active (fst (remainingCompletions items results err m))) i =
     (if i \<in> idOf ` set (take (acknowledged items results err) items) then None else mget (LM_active m) i)"
  by (simp add: remainingCompletions_def Let_def removeLeases_active idOf_def comp_def)

lemma drainLoop_untracks: "mget (LM_active m) i = None \<Longrightarrow> mget (LM_active (fst (drainLoop rounds items m))) i = None"
  by (induction rounds arbitrary: items m)
    (auto simp: case_prod_unfold Let_def remaining_active removeLeases_active)

definition drained :: "LeaseCompletion list \<Rightarrow> LeaseManager \<Rightarrow> LeaseManager \<Rightarrow> go_error option \<Rightarrow> bool" where
  "drained items m m' e \<longleftrightarrow> LM_completions m' = LM_completions m \<and> LM_pending m' = LM_pending m \<and>
     (\<exists>d \<le> length items. LM_dropped m' = LM_dropped m + of_nat d \<and> (e \<noteq> None) = (0 < d)) \<and>
     (\<forall>item \<in> set items. mget (LM_active m') (idOf item) = None)"

lemma drainedI:
  assumes "LM_completions m' = LM_completions m" "LM_pending m' = LM_pending m" "d \<le> length items"
    "LM_dropped m' = LM_dropped m + of_nat d" "(e \<noteq> None) = (0 < d)"
    "\<forall>item \<in> set items. mget (LM_active m') (idOf item) = None"
  shows "drained items m m' e"
  using assms unfolding drained_def by blast

lemma drainLoop_spec:
  assumes "drainLoop rounds items m = (m', Some e)" and "items \<noteq> []"
  shows "drained items m m' e"
  using assms
proof (induction rounds arbitrary: items m)
  case (Cons r rounds)
  let ?k = "acknowledged items (DR_results r) (DR_err r)"
  let ?m = "fst (remainingCompletions items (DR_results r) (DR_err r) m)"
  have split: "set items = set (take ?k items) \<union> set (drop ?k items)" by (metis append_take_drop_id set_append)
  have err: "DR_err r \<noteq> None" if "drop ?k items \<noteq> []" using that by (auto simp: acknowledged_def split: if_splits)
  have "drainLoop (r # rounds) items m =
      (if drop ?k items = [] then (?m, Some None)
       else if DR_done r then (observeDropped (length (drop ?k items)) (removeLeases (drop ?k items) ?m),
         Some (if DR_err r = None then DR_ctxErr r else DR_err r))
       else drainLoop rounds (drop ?k items) ?m)"
    unfolding drainLoop.simps case_prod_unfold Let_def remaining_simps ..
  note step = this [unfolded Cons.prems(1)]
  consider "drop ?k items = []" "m' = ?m" "e = None"
    | "drop ?k items \<noteq> []" "m' = observeDropped (length (drop ?k items)) (removeLeases (drop ?k items) ?m)" "e = DR_err r"
    | "drop ?k items \<noteq> []" "drainLoop rounds (drop ?k items) ?m = (m', Some e)"
  proof (cases "drop ?k items = []")
    case True
    with step that(1) show thesis by simp
  next
    case False
    with step err [OF False] that(2,3) show thesis by (cases "DR_done r"; cases "DR_err r") simp_all
  qed
  then show ?case
  proof cases
    case 1
    have "take ?k items = items" using 1(1) by simp
    then have "\<forall>item \<in> set items. mget (LM_active ?m) (idOf item) = None" by (simp add: remaining_active)
    with 1(2,3) show ?thesis by (intro drainedI [where d = 0]) simp_all
  next
    case 2
    have "mget (LM_active m') (idOf item) = None" if "item \<in> set items" for item
      using that split unfolding 2(2) by (simp add: remaining_active removeLeases_active idOf_def [abs_def] comp_def) blast
    with 2 err show ?thesis by (intro drainedI [where d = "length (drop ?k items)"]) simp_all
  next
    case 3
    note rest = Cons.IH [OF 3(2,1), unfolded drained_def]
    obtain d where d: "d \<le> length (drop ?k items)" "LM_dropped m' = LM_dropped ?m + of_nat d" "(e \<noteq> None) = (0 < d)"
      using rest by blast
    have "mget (LM_active m') (idOf item) = None" if "item \<in> set items" for item
      using drainLoop_untracks [of ?m "idOf item" rounds "drop ?k items"] 3(2) that split rest
      by (cases "item \<in> set (take ?k items)") (simp_all add: remaining_active)
    with d rest show ?thesis by (intro drainedI [where d = d]) simp_all
  qed
qed simp

lemma drainLoop_ends:
  "r \<in> set rounds \<Longrightarrow> DR_err r = None \<or> DR_done r \<Longrightarrow> \<exists>e. snd (drainLoop rounds items m) = Some e"
proof (induction rounds arbitrary: items m)
  case (Cons x rounds)
  then show ?case by (auto simp: case_prod_unfold Let_def acknowledged_def)
qed simp


section \<open>An example\<close>

text \<open>Two completed requests, of which one delivery failed; at shutdown the coordinator answers for the
  first and then the budget is used up.\<close>

definition demo_lease :: "uuid \<Rightarrow> LeaseIdentity" where
  "demo_lease i = \<lparr>LI_LeaseID = i, LI_ClientID = 7, LI_PoolID = 1, LI_RequestID = [], LI_ReplicaID = 1,
     LI_ExpiresAt = 1000, LI_TTL = 500\<rparr>"

definition demo_manager :: LeaseManager where
  "demo_manager = LS_manager (lease_run
     (lease_start \<lparr>LO_RenewInterval = 0, LO_CompletionBacklog = 0, LO_ShutdownTimeout = 0, LO_Observer = True\<rparr>)
     [LvTrack (demo_lease 4), LvTrack (demo_lease 5), LvComplete 0 None, LvReceive,
      LvDelivered [] (Some ErrDeadlineExceeded) 100, LvComplete 1 None])"

definition demo_round :: drainRound where
  "demo_round = \<lparr>DR_results = [\<lparr>CR_LeaseID = 5, CR_Result = CompletionReleased, CR_OriginalResult = NoCompletion,
     CR_Reason = NoReason\<rparr>], DR_err = Some ErrDeadlineExceeded, DR_ctxErr = Some ErrDeadlineExceeded, DR_done = True\<rparr>"

lemma demo_drain: "PendingCompletions demo_manager = 2 \<and> LM_dropped (fst (drainShutdown [demo_round] demo_manager)) = 1"
  by code_simp


end
