(* ===== verification/Lease_Composition.thy ===== *)
theory Lease_Composition
  imports Lease_Delivery Admission_Properties
begin

text \<open>
  Admission and its lease manager together, as the gateway wires them with the local coordinator
  (\<^verbatim>\<open>cmd/gateway/application.go\<close>, \<^verbatim>\<open>internal/gateway/forward_admission.go\<close>): an admitted request
  tracks its lease, a finished one completes its handle, and the manager's goroutine delivers the
  completions to \<^verbatim>\<open>internal/coordination/local/admission.go\<close>. The local coordinator provides the
  contract \<open>completion_service\<close>.
\<close>

section \<open>The local coordinator provides the contract\<close>

definition heldLeases :: "'fp AdmissionCoordinator \<Rightarrow> uuid set" where
  "heldLeases c = {i. mget (AC_leases c) i \<noteq> None}"

definition completeAll ::
  "'fp AdmissionCoordinator \<Rightarrow> instant \<Rightarrow> LeaseCompletion list \<Rightarrow> 'fp AdmissionCoordinator \<times> CompleteResult list" where
  "completeAll c now items = mapState (\<lambda>c. completeOne c now) (expire c now) items"

lemma Complete_completeAll:
  "Complete c None now items = (fst (completeAll c now items), Inr (snd (completeAll c now items)))"
  by (simp add: Complete_def completeAll_def case_prod_unfold Let_def)

lemma shrinks_held: "shrinks c c' \<Longrightarrow> heldLeases c' \<subseteq> heldLeases c"
  by (fastforce simp: shrinks_def heldLeases_def)

lemma completeOne_frees:
  assumes "admission_inv c"
  shows "mget (AC_leases (fst (completeOne c now item))) (LI_LeaseID (LC_Lease item)) = None"
proof (cases "mget (AC_leases c) (LI_LeaseID (LC_Lease item))")
  case None
  show ?thesis
  proof (cases "mget (AC_receipts c) (LI_LeaseID (LC_Lease item))")
    case (Some r)
    show ?thesis
    proof (cases "AD_Lease (rc_decision r) = None \<or> rc_completed r")
      case False
      then obtain res where "fst (completeOne c now item) = completed c now item r res"
        using completeOne_open [OF Some, of now] by auto
      then show ?thesis by (simp add: completed_receipt)
    qed (use None Some in \<open>auto simp: completeOne_def Let_def\<close>)
  qed (use None in \<open>simp add: completeOne_def Let_def\<close>)
next
  case (Some l)
  have "books_ok c" using assms by (simp add: admission_inv_def core_inv_def)
  from books_receipt [OF this Some] obtain r where r: "mget (AC_receipts c) (LI_LeaseID (LC_Lease item)) = Some r"
    "backs (LI_LeaseID (LC_Lease item)) l r" by blast
  then obtain res where "fst (completeOne c now item) = completed c now item r res"
    using completeOne_open [OF r(1), of now] by (auto simp: backs_def)
  then show ?thesis by (simp add: completed_receipt)
qed

lemma completeEach:
  assumes "admission_inv c" and "0 < now"
  shows "admission_inv (fst (mapState (\<lambda>c. completeOne c now) c items)) \<and>
    heldLeases (fst (mapState (\<lambda>c. completeOne c now) c items)) \<subseteq> heldLeases c - idOf ` set items"
  using assms(1)
proof (induction items arbitrary: c)
  case (Cons item items)
  let ?c = "fst (completeOne c now item)"
  note one = completeOne_inv [OF Cons.prems assms(2), of item]
  have "heldLeases ?c \<subseteq> heldLeases c - {idOf item}"
    using shrinks_held [OF conjunct2 [OF one]] completeOne_frees [OF Cons.prems, of now item]
    by (auto simp: heldLeases_def idOf_def)
  with Cons.IH [OF conjunct1 [OF one]] show ?case by (auto simp: case_prod_unfold Let_def)
qed simp

lemma completeAll_spec:
  assumes "admission_inv c" and "0 < now"
  shows "admission_inv (fst (completeAll c now items))"
    and "heldLeases (fst (completeAll c now items)) \<subseteq> heldLeases c - idOf ` set items"
  using completeEach [OF expire_establishes(1) [OF assms] assms(2), of items]
    shrinks_held [OF expire_establishes(3) [OF assms]] by (auto simp: completeAll_def)

interpretation local_leases: completion_service admission_inv heldLeases completeAll
  by unfold_locales (use completeAll_spec in blast)+

section \<open>The composed system\<close>

datatype service_event =
    SvAcquire AdmissionRequest instant
  | SvFinish nat "TokenUsage option"
  | SvReceive
  | SvDeliver "go_error option" instant
  | SvTick instant
  | SvRetry "go_error option" instant
  | SvRenew "go_error option" instant

text \<open>What the coordinator returns to the manager: an ended context is its only error.\<close>

definition returned :: "go_error + 'r list \<Rightarrow> 'r list \<times> go_error option" where
  "returned r = (case r of Inl err \<Rightarrow> ([], Some err) | Inr out \<Rightarrow> (out, None))"

fun service_step ::
  "(AdmissionRequest \<Rightarrow> 'fp) \<Rightarrow> 'fp AdmissionCoordinator \<times> LeaseSystem \<Rightarrow> service_event \<Rightarrow>
     'fp AdmissionCoordinator \<times> LeaseSystem" where
  "service_step fp (c, s) (SvAcquire req now) =
     (case Acquire fp c None now req of
        (c, Inr d) \<Rightarrow> (c, case AD_Lease d of Some l \<Rightarrow> if Admitted d then lease_step s (LvTrack l) else s | None \<Rightarrow> s)
      | (c, Inl err) \<Rightarrow> (c, s))"
| "service_step fp (c, s) (SvFinish n usage) = (c, lease_step s (LvComplete n usage))"
| "service_step fp (c, s) SvReceive = (c, lease_step s LvReceive)"
| "service_step fp (c, s) (SvDeliver ctx now) =
     (case LS_runner s of
        Delivering batch \<Rightarrow>
          let (c, r) = Complete c ctx now batch; (results, err) = returned r
          in (c, lease_step s (LvDelivered results err now))
      | _ \<Rightarrow> (c, s))"
| "service_step fp (c, s) (SvTick now) = (c, lease_step s (LvTick now))"
| "service_step fp (c, s) (SvRetry ctx now) =
     (case LS_runner s of
        Retrying t (p # ps) \<Rightarrow>
          let (c, r) = Complete c ctx now (PC_items p); (results, err) = returned r
          in (c, lease_step s (LvRetried results err))
      | _ \<Rightarrow> (c, lease_step s (LvRetried [] None)))"
| "service_step fp (c, s) (SvRenew ctx now) =
     (let (c, r) = Renew c ctx now (renewBatch (LS_manager s)); (results, err) = returned r
      in (c, lease_step s (LvRenewed results err)))"

definition service_run ::
  "(AdmissionRequest \<Rightarrow> 'fp) \<Rightarrow> 'fp AdmissionCoordinator \<times> LeaseSystem \<Rightarrow> service_event list \<Rightarrow>
     'fp AdmissionCoordinator \<times> LeaseSystem" where
  "service_run fp = foldl (service_step fp)"

fun service_time :: "service_event \<Rightarrow> instant" where
  "service_time (SvAcquire req now) = now"
| "service_time (SvDeliver ctx now) = now"
| "service_time (SvRetry ctx now) = now"
| "service_time (SvRenew ctx now) = now"
| "service_time _ = 1"

definition service_inv :: "'fp AdmissionCoordinator \<times> LeaseSystem \<Rightarrow> bool" where
  "service_inv cs \<longleftrightarrow> admission_inv (fst cs) \<and> lease_inv (snd cs) \<and> heldLeases (fst cs) \<subseteq> liveIds (snd cs)"

lemma acknowledged_none [simp]: "acknowledged items [] (Some err) = 0"
  by (simp add: acknowledged_def)

lemma service_acquire:
  assumes "service_inv (c, s)" and "0 < now"
  shows "service_inv (service_step fp (c, s) (SvAcquire req now))"
proof -
  have inv: "admission_inv c" "lease_inv s" "heldLeases c \<subseteq> liveIds s" using assms(1) by (simp_all add: service_inv_def)
  have track: "liveIds s \<subseteq> liveIds (lease_step s (LvTrack l))" "LI_LeaseID l \<in> liveIds (lease_step s (LvTrack l))" for l
  proof -
    show "liveIds s \<subseteq> liveIds (lease_step s (LvTrack l))" using lease_step_live [of s "LvTrack l"] by simp
    have "\<lparr>LH_lease = l, LH_completed = False\<rparr> \<in> {h \<in> set (LS_handles (lease_step s (LvTrack l))). \<not> LH_completed h}"
      by (simp add: Track_def)
    then show "LI_LeaseID l \<in> liveIds (lease_step s (LvTrack l))" unfolding liveIds_def by force
  qed
  show ?thesis
  proof (rule Acquire_outcome [OF inv(1) assms(2), of fp None req])
    assume a: "admission_inv (fst (Acquire fp c None now req))" "shrinks c (fst (Acquire fp c None now req))"
    have "heldLeases (fst (Acquire fp c None now req)) \<subseteq> liveIds s" using shrinks_held [OF a(2)] inv(3) by blast
    moreover from this have "heldLeases (fst (Acquire fp c None now req)) \<subseteq> liveIds (lease_step s (LvTrack l))" for l
      using track(1) by blast
    ultimately show ?thesis using a(1) inv lease_step_inv [OF inv(2)]
      by (auto simp: service_inv_def case_prod_unfold split: sum.split option.split simp del: lease_step.simps)
  next
    fix c'
    assume a: "Acquire fp c None now req = (admitAcquire c' (newReceipt (fp req) req) (newLease req now),
         Inr (emptyDecision\<lparr>AD_Lease := Some (newLease req now)\<rparr>))"
      and "shrinks c c'" "admission_inv (fst (Acquire fp c None now req))"
    moreover have "heldLeases (admitAcquire c' (newReceipt (fp req) req) (newLease req now)) \<subseteq>
        insert (LI_LeaseID (newLease req now)) (heldLeases c')"
      by (auto simp: heldLeases_def admitAcquire_def newReceipt_def newLease_def Let_def split: if_splits)
    ultimately show ?thesis
      using shrinks_held [of c c'] inv track [of "newLease req now"] lease_step_inv [OF inv(2), of "LvTrack (newLease req now)"]
      by (auto simp: service_inv_def Admitted_def emptyDecision_def simp del: lease_step.simps)
  qed
qed

lemma service_complete:
  assumes "service_inv (c, s)" and "0 < now" and "Complete c ctx now items = (c', r)" and "returned r = (results, err)"
    and "e = LvDelivered results err t \<and> LS_runner s = Delivering items \<or>
      e = LvRetried results err \<and> (\<exists>u p ps. LS_runner s = Retrying u (p # ps) \<and> PC_items p = items)"
  shows "service_inv (c', lease_step s e)"
proof -
  have inv: "admission_inv c" "lease_inv s" "heldLeases c \<subseteq> liveIds s" using assms(1) by (simp_all add: service_inv_def)
  have "admission_inv c' \<and> heldLeases c' \<subseteq> liveIds (lease_step s e)"
  proof (cases ctx)
    case None
    have c': "c' = fst (completeAll c now items)" using assms(3) None by (simp add: Complete_completeAll)
    have "set (answered s e) \<subseteq> set items" using assms(5) by (auto dest: in_set_takeD)
    with local_leases.answer_releases [OF inv(1) assms(2) inv(3)] completeAll_spec(1) [OF inv(1) assms(2)] c'
    show ?thesis by simp
  next
    case (Some x)
    then have "c' = c" "answered s e = []" using assms(3-5) by (auto simp: Complete_def returned_def)
    with inv lease_step_live [of s e] show ?thesis by auto
  qed
  with lease_step_inv [OF inv(2)] show ?thesis by (simp add: service_inv_def del: lease_step.simps)
qed

lemma service_quiet:
  assumes "service_inv (c, s)" and "admission_inv c'" and "heldLeases c' \<subseteq> heldLeases c" and "answered s e = []"
  shows "service_inv (c', lease_step s e)"
  using assms lease_step_inv [of s e] lease_step_live [of s e] by (auto simp: service_inv_def simp del: lease_step.simps)

lemma service_step_inv:
  assumes inv: "service_inv (c, s)" and now: "0 < service_time ev"
  shows "service_inv (service_step fp (c, s) ev)"
proof -
  have c: "admission_inv c" using inv by (simp add: service_inv_def)
  show ?thesis
  proof (cases ev)
    case (SvAcquire req t)
    then show ?thesis using service_acquire [OF inv] now by simp
  next
    case (SvDeliver ctx t)
    show ?thesis
    proof (cases "LS_runner s")
      case (Delivering batch)
      obtain c' r results err where "Complete c ctx t batch = (c', r)" "returned r = (results, err)" by fastforce
      then show ?thesis
        using service_complete [OF inv] now SvDeliver Delivering by (simp del: lease_step.simps)
    qed (use SvDeliver inv in simp_all)
  next
    case (SvRetry ctx t)
    show ?thesis
    proof (cases "\<exists>u p ps. LS_runner s = Retrying u (p # ps)")
      case True
      then obtain u p ps where run: "LS_runner s = Retrying u (p # ps)" by blast
      obtain c' r results err where "Complete c ctx t (PC_items p) = (c', r)" "returned r = (results, err)" by fastforce
      then show ?thesis
        using service_complete [OF inv] now SvRetry run by (simp del: lease_step.simps)
    next
      case False
      then have "answered s (LvRetried [] None) = []" by (auto split: runner.split list.split)
      with False SvRetry service_quiet [OF inv c] show ?thesis
        by (auto split: runner.split list.split simp del: lease_step.simps)
    qed
  next
    case (SvRenew ctx t)
    then show ?thesis
      using Renew_inv [OF c, of t ctx "renewBatch (LS_manager s)"] now
      by (auto simp: case_prod_unfold Let_def simp del: lease_step.simps intro!: service_quiet [OF inv] shrinks_held)
  qed (use service_quiet [OF inv c] in \<open>simp_all del: lease_step.simps\<close>)
qed

lemma service_run_inv:
  "service_inv cs \<Longrightarrow> list_all (\<lambda>ev. 0 < service_time ev) evs \<Longrightarrow> service_inv (service_run fp cs evs)"
proof (induction evs arbitrary: cs)
  case (Cons ev evs)
  then show ?case using service_step_inv [of "fst cs" "snd cs" ev fp] by (simp add: service_run_def)
qed (simp add: service_run_def)

lemma service_start_inv: "service_inv (newAdmissionCoordinator cap, lease_start o')"
proof -
  have "heldLeases (newAdmissionCoordinator cap) = {}" by (simp add: heldLeases_def newAdmissionCoordinator_def)
  then show ?thesis unfolding service_inv_def fst_conv snd_conv using new_inv lease_start_inv by blast
qed

section \<open>Properties\<close>

text \<open>C5: no admission slot leaks. In the composition of the local coordinator with the lease manager,
  whatever the requests, the interleaving of the goroutines and the ends of contexts, a lease is held only while
  its request runs, its completion is on its way, or its completion was dropped for lack of room. Once every
  request has finished and every completion is delivered, no lease is held and all counters are zero.\<close>

theorem no_slot_leak:
  assumes "service_run fp (newAdmissionCoordinator cap, lease_start options) evs = (c, s)"
    and "list_all (\<lambda>ev. 0 < service_time ev) evs"
  shows "heldLeases c \<subseteq> liveIds s \<and>
    (liveIds s = {} \<longrightarrow> heldLeases c = {} \<and> (\<forall>k. cget (AC_clientInflight c) k = 0 \<and> cget (AC_poolInflight c) k = 0))"
proof -
  have inv: "service_inv (c, s)" using service_run_inv [OF service_start_inv assms(2)] assms(1) by metis
  then have held: "heldLeases c \<subseteq> liveIds s" and "books_ok c"
    by (simp_all add: service_inv_def admission_inv_def core_inv_def)
  moreover have "cget (AC_clientInflight c) k = 0 \<and> cget (AC_poolInflight c) k = 0" if "heldLeases c = {}" "books_ok c" for k
    using that by (auto simp: books_ok_def counts_ok_def heldLeases_def mcount_card)
  ultimately show ?thesis by blast
qed

section \<open>An example\<close>

definition demo_service :: "service_event list" where
  "demo_service = [SvAcquire (demo_request 11 PriorityNormal) 1000, SvAcquire (demo_request 12 PriorityHigh) 1001,
     SvFinish 1 None, SvReceive, SvDeliver (Some ErrCanceled) 1002, SvFinish 0 None, SvReceive, SvDeliver None 1003,
     SvTick 20000000, SvRetry None 20000001, SvRetry None 20000002]"

definition demo_options :: LeaseManagerOptions where
  "demo_options = \<lparr>LO_RenewInterval = 0, LO_CompletionBacklog = 8, LO_ShutdownTimeout = 0, LO_Observer = True\<rparr>"

definition demo_end :: "unit AdmissionCoordinator \<times> LeaseSystem" where
  "demo_end = service_run (\<lambda>_. ()) (newAdmissionCoordinator 8, lease_start demo_options) demo_service"

lemma demo_counts_midway:
  "cget (AC_poolInflight (fst (service_run (\<lambda>_. ()) (newAdmissionCoordinator 8, lease_start demo_options) (take 5 demo_service)))) 1 = 2"
  by code_simp

lemma demo_quiet:
  "LS_refused (snd demo_end) = [] \<and> LS_discarded (snd demo_end) = [] \<and> outstanding (snd demo_end) = [] \<and>
   map LH_completed (LS_handles (snd demo_end)) = [True, True]"
  by code_simp

theorem no_slot_leak_witness: "heldLeases (fst demo_end) = {} \<and> cget (AC_poolInflight (fst demo_end)) 1 = 0"
proof -
  have "h \<in> set (LS_handles (snd demo_end)) \<Longrightarrow> LH_completed h" for h
    using demo_quiet by (metis in_set_conv_nth length_map list.sel(1) nth_map nth_mem set_ConsD set_map empty_iff list.set(1) image_eqI)
  then have "liveIds (snd demo_end) = {}" using demo_quiet by (auto simp: liveIds_def)
  then show ?thesis
    using no_slot_leak [of "\<lambda>_. ()" 8 demo_options demo_service "fst demo_end" "snd demo_end"]
    by (simp add: demo_end_def demo_service_def)
qed

end
