(* ===== verification/Monitor_Worker.thy ===== *)
theory Monitor_Worker
  imports Pressure Circuit_Breaker Go_Strings Coordination_Types "HOL-Library.Sublist"
begin

text \<open>
  The worker that polls one backend (\<^verbatim>\<open>internal/monitor/worker.go\<close>) and the reading of its metrics
  (\<^verbatim>\<open>internal/monitor/metrics.go\<close>). A poll is a function of what the HTTP request met. The parser of
  the Prometheus text format is a third-party package: the parameter \<open>parse\<close>, from the payload to the
  metric families by name. \<open>urlParse\<close> and \<open>urlString\<close> stand for \<^verbatim>\<open>net/url\<close> as in \<open>Backend_Validate\<close>.
\<close>

section \<open>Metrics\<close>

definition runningMetric :: string where "runningMetric = ''vllm:num_requests_running''"

definition waitingMetric :: string where "waitingMetric = ''vllm:num_requests_waiting''"

definition kvMetric :: string where "kvMetric = ''vllm:kv_cache_usage_perc''"

definition legacyKVMetric :: string where "legacyKVMetric = ''vllm:gpu_cache_usage_perc''"

datatype MetricType = MetricCounter | MetricGauge | MetricSummary | MetricUntyped | MetricHistogram

record Metric =
  Me_Gauge :: "f64 option"
  Me_Untyped :: "f64 option"

record MetricFamily =
  MF_Type :: MetricType
  MF_Metric :: "Metric list"

record Metrics =
  Mx_Running :: f64
  Mx_Waiting :: f64
  Mx_KVCacheUsage :: f64

datatype MetricsError =
    MetricsParse string
  | MetricMissing string
  | MetricNoGauge string
  | MetricNoUntyped string
  | MetricNotGauge string
  | MetricInvalidValue string f64
  | MetricSumNotFinite

definition metricValue :: "MetricType \<Rightarrow> string \<Rightarrow> Metric \<Rightarrow> MetricsError + f64" where
  "metricValue t name metric =
     (case t of
        MetricGauge \<Rightarrow> (case Me_Gauge metric of None \<Rightarrow> Inl (MetricNoGauge name) | Some v \<Rightarrow> Inr v)
      | MetricUntyped \<Rightarrow> (case Me_Untyped metric of None \<Rightarrow> Inl (MetricNoUntyped name) | Some v \<Rightarrow> Inr v)
      | _ \<Rightarrow> Inl (MetricNotGauge name))"

fun sumMetrics :: "MetricType \<Rightarrow> string \<Rightarrow> Metric list \<Rightarrow> f64 \<Rightarrow> MetricsError + f64" where
  "sumMetrics t name [] acc = Inr acc"
| "sumMetrics t name (metric # metrics) acc =
     (case metricValue t name metric of
        Inl e \<Rightarrow> Inl e
      | Inr v \<Rightarrow>
          if f64_IsNaN v \<or> f64_IsInf v \<or> f64_lt v (Fin 0) then Inl (MetricInvalidValue name v)
          else sumMetrics t name metrics (f64_add acc v))"

definition sumFamily :: "MetricFamily option \<Rightarrow> string \<Rightarrow> MetricsError + f64" where
  "sumFamily family name =
     (case family of
        None \<Rightarrow> Inl (MetricMissing name)
      | Some f \<Rightarrow>
          if MF_Metric f = [] then Inl (MetricMissing name)
          else case sumMetrics (MF_Type f) name (MF_Metric f) (Fin 0) of
            Inl e \<Rightarrow> Inl e
          | Inr acc \<Rightarrow> if f64_IsNaN acc \<or> f64_IsInf acc then Inl MetricSumNotFinite else Inr acc)"

definition ParseMetrics ::
  "(string \<Rightarrow> string + (string, MetricFamily) gomap) \<Rightarrow> string \<Rightarrow> MetricsError + Metrics" where
  "ParseMetrics parse payload =
     (case parse payload of
        Inl e \<Rightarrow> Inl (MetricsParse e)
      | Inr families \<Rightarrow>
          (case sumFamily (mget families runningMetric) runningMetric of
             Inl e \<Rightarrow> Inl e
           | Inr running \<Rightarrow>
               (case sumFamily (mget families waitingMetric) waitingMetric of
                  Inl e \<Rightarrow> Inl e
                | Inr waiting \<Rightarrow>
                    let (kvFamily, kvName) =
                      (case mget families kvMetric of
                         None \<Rightarrow> (mget families legacyKVMetric, legacyKVMetric)
                       | Some f \<Rightarrow> (Some f, kvMetric))
                    in (case sumFamily kvFamily kvName of
                          Inl e \<Rightarrow> Inl e
                        | Inr kv \<Rightarrow> Inr \<lparr>Mx_Running = running, Mx_Waiting = waiting, Mx_KVCacheUsage = kv\<rparr>))))"

section \<open>Options\<close>

record Options =
  Op_HealthInterval :: duration
  Op_HealthTimeout :: duration
  Op_MetricsInterval :: duration
  Op_MetricsTimeout :: duration
  Op_StaleAfter :: duration
  Op_UnhealthyAfter :: int
  Op_RecoveryAfter :: int
  Op_Circuit :: BreakerOptions
  Op_CircuitCoordinator :: bool
  Op_ReplicaID :: uuid
  Op_ProbeTTL :: duration
  Op_ProbeRenewInterval :: duration
  Op_Limits :: Limits
  Op_EWMAWindow :: duration
  Op_BusyThreshold :: f64
  Op_SaturatedThreshold :: f64
  Op_PoolThresholds :: Thresholds

datatype OptionsError =
    DurationsNotPositive
  | TransitionCountsNotPositive
  | CircuitOptionsInvalid BreakerError
  | DistributedCircuitIncomplete
  | LimitsInvalid LimitsError
  | PressureThresholdsOutOfOrder

definition Options_validate :: "Options \<Rightarrow> OptionsError option" where
  "Options_validate o' =
     (let later =
        (case Limits_Validate (Op_Limits o') of
           Some e \<Rightarrow> Some (LimitsInvalid e)
         | None \<Rightarrow>
             if f64_lt (Op_BusyThreshold o') (Fin 0) \<or> f64_le (Op_SaturatedThreshold o') (Op_BusyThreshold o')
             then Some PressureThresholdsOutOfOrder else None)
      in if Op_HealthInterval o' \<le> 0 \<or> Op_HealthTimeout o' \<le> 0 \<or> Op_MetricsInterval o' \<le> 0 \<or>
            Op_MetricsTimeout o' \<le> 0 \<or> Op_StaleAfter o' \<le> 0 \<or> Op_EWMAWindow o' \<le> 0
         then Some DurationsNotPositive
         else if Op_UnhealthyAfter o' \<le> 0 \<or> Op_RecoveryAfter o' \<le> 0 then Some TransitionCountsNotPositive
         else if \<not> Op_CircuitCoordinator o'
         then (case NewBreaker (Op_Circuit o') of Inl e \<Rightarrow> Some (CircuitOptionsInvalid e) | Inr _ \<Rightarrow> later)
         else if Op_ProbeTTL o' \<le> 0 \<or> Op_ReplicaID o' = 0 then Some DistributedCircuitIncomplete
         else later)"

section \<open>The worker\<close>

record Worker =
  W_backend :: Backend
  W_options :: Options
  W_ewma :: EWMA
  W_runtime :: BackendRuntime

datatype WorkerError = WorkerBackend ValidationError | WorkerOptions OptionsError

definition zeroRuntime :: "int \<Rightarrow> BackendState \<Rightarrow> BackendRuntime" where
  "zeroRuntime i state = \<lparr>BR_BackendID = i, BR_State = state, BR_CircuitState = CircuitNone, BR_CircuitFailures = 0,
     BR_CircuitRetryAt = 0, BR_CircuitProbesInFlight = 0, BR_CircuitAvailable = False, BR_Healthy = False,
     BR_MetricsFresh = False, BR_Running = Fin 0, BR_Waiting = Fin 0, BR_KVCacheUsage = Fin 0, BR_RawPressure = Fin 0,
     BR_Pressure = Fin 0, BR_GatewayInflight = 0, BR_LastHealthAt = 0, BR_LastMetricsAt = 0,
     BR_ConsecutiveFailure = 0, BR_ConsecutiveSuccess = 0\<rparr>"

definition NewWorker ::
  "(string \<Rightarrow> ParsedURL option) \<Rightarrow> (ParsedURL \<Rightarrow> string) \<Rightarrow> Backend \<Rightarrow> Options \<Rightarrow> WorkerError + Worker" where
  "NewWorker urlParse urlString backend0 options0 =
     (case Backend_Validate urlParse urlString backend0 of
        (backend, Some e) \<Rightarrow> Inl (WorkerBackend e)
      | (backend, None) \<Rightarrow>
          let options = options0\<lparr>Op_Limits := (Op_Limits options0)\<lparr>Limits_RunningSoft := Backend_RunningSoftLimit backend\<rparr>\<rparr>
          in (case Options_validate options of
                Some e \<Rightarrow> Inl (WorkerOptions e)
              | None \<Rightarrow> Inr \<lparr>W_backend = backend, W_options = options, W_ewma = NewEWMA (Op_EWMAWindow options),
                           W_runtime = zeroRuntime (Backend_ID backend) BackendUnhealthy\<rparr>))"

definition endpoint :: "string \<Rightarrow> string \<Rightarrow> string" where
  "endpoint baseURL path = trimRightSlash baseURL @ path"

text \<open>What a request to the backend met: it could not be built, it failed, or a response with the status and
  what can be read of its body (\<open>Inl\<close> is a read error).\<close>

datatype HTTPAnswer =
    RequestInvalid string
  | RequestFailed string
  | Responded int "string + string"

fun healthSuccess :: "HTTPAnswer \<Rightarrow> bool" where
  "healthSuccess (Responded status body) = (status \<ge> 200 \<and> status < 300)"
| "healthSuccess _ = False"

definition PollHealth :: "HTTPAnswer \<Rightarrow> instant \<Rightarrow> Worker \<Rightarrow> Worker \<times> bool" where
  "PollHealth answer t w =
     (let success = healthSuccess answer;
          r = (W_runtime w)\<lparr>BR_LastHealthAt := t\<rparr>;
          r = (if success then
                 let r = r\<lparr>BR_ConsecutiveSuccess := BR_ConsecutiveSuccess r + 1, BR_ConsecutiveFailure := 0\<rparr>
                 in if BR_ConsecutiveSuccess r \<ge> Op_RecoveryAfter (W_options w) then r\<lparr>BR_Healthy := True\<rparr> else r
               else
                 let r = r\<lparr>BR_ConsecutiveFailure := BR_ConsecutiveFailure r + 1, BR_ConsecutiveSuccess := 0\<rparr>
                 in if BR_ConsecutiveFailure r \<ge> Op_UnhealthyAfter (W_options w) then r\<lparr>BR_Healthy := False\<rparr> else r)
      in (w\<lparr>W_runtime := r\<rparr>, success))"

definition maxMetricsPayloadBytes :: nat where "maxMetricsPayloadBytes = 4194304"

datatype ScrapeError =
    ScrapeCreate string
  | ScrapeFailed string
  | ScrapeStatus int
  | ScrapeRead string
  | ScrapeTooLarge
  | ScrapeMetrics MetricsError

definition PollMetrics ::
  "(string \<Rightarrow> string + (string, MetricFamily) gomap) \<Rightarrow> HTTPAnswer \<Rightarrow> instant \<Rightarrow> Worker \<Rightarrow> Worker \<times> ScrapeError option" where
  "PollMetrics parse answer t w =
     (case answer of
        RequestInvalid e \<Rightarrow> (w, Some (ScrapeCreate e))
      | RequestFailed e \<Rightarrow> (w, Some (ScrapeFailed e))
      | Responded status body \<Rightarrow>
          if status < 200 \<or> status \<ge> 300 then (w, Some (ScrapeStatus status))
          else (case body of
            Inl e \<Rightarrow> (w, Some (ScrapeRead e))
          | Inr bytes \<Rightarrow>
              let payload = take (maxMetricsPayloadBytes + 1) bytes in
              if length payload > maxMetricsPayloadBytes then (w, Some ScrapeTooLarge)
              else (case ParseMetrics parse payload of
                Inl e \<Rightarrow> (w, Some (ScrapeMetrics e))
              | Inr m \<Rightarrow>
                  let raw = Calculate \<lparr>Sample_Running = Mx_Running m, Sample_Waiting = Mx_Waiting m,
                              Sample_KVUsage = Mx_KVCacheUsage m\<rparr> (Op_Limits (W_options w));
                      (e, smoothed) = EWMA_Add (W_ewma w) t raw
                  in (w\<lparr>W_ewma := e,
                        W_runtime := (W_runtime w)\<lparr>BR_Running := Mx_Running m, BR_Waiting := Mx_Waiting m,
                          BR_KVCacheUsage := Mx_KVCacheUsage m, BR_RawPressure := raw, BR_Pressure := smoothed,
                          BR_LastMetricsAt := t\<rparr>\<rparr>, None))))"

definition worker_state :: "Worker \<Rightarrow> BackendRuntime \<Rightarrow> BackendState" where
  "worker_state w snapshot =
     (if \<not> BR_Healthy snapshot \<or> \<not> BR_MetricsFresh snapshot then BackendUnhealthy
      else if Backend_Draining (W_backend w) then BackendDraining
      else if f64_le (Op_SaturatedThreshold (W_options w)) (BR_Pressure snapshot) then BackendSaturated
      else if f64_le (Op_BusyThreshold (W_options w)) (BR_Pressure snapshot) then BackendBusy
      else BackendHealthy)"

definition worker_Snapshot :: "Worker \<Rightarrow> instant \<Rightarrow> BackendRuntime" where
  "worker_Snapshot w t =
     (let snapshot = W_runtime w;
          age = time_Sub t (BR_LastMetricsAt snapshot);
          age = (if age < 0 then 0 else age);
          snapshot = snapshot\<lparr>BR_MetricsFresh := (BR_LastMetricsAt snapshot \<noteq> 0 \<and> age \<le> Op_StaleAfter (W_options w))\<rparr>
      in snapshot\<lparr>BR_State := worker_state w snapshot\<rparr>)"

definition incrementInflight :: "int \<Rightarrow> Worker \<Rightarrow> Worker" where
  "incrementInflight delta w =
     (let n = BR_GatewayInflight (W_runtime w) + delta
      in w\<lparr>W_runtime := (W_runtime w)\<lparr>BR_GatewayInflight := (if n < 0 then 0 else n)\<rparr>\<rparr>)"

text \<open>\<^verbatim>\<open>Run\<close> polls both endpoints once and then on every tick, in the order in which the ticks arrive.\<close>

datatype worker_event = HealthTick HTTPAnswer instant | MetricsTick HTTPAnswer instant

fun worker_step :: "(string \<Rightarrow> string + (string, MetricFamily) gomap) \<Rightarrow> Worker \<Rightarrow> worker_event \<Rightarrow> Worker" where
  "worker_step parse w (HealthTick answer t) = fst (PollHealth answer t w)"
| "worker_step parse w (MetricsTick answer t) = fst (PollMetrics parse answer t w)"

definition worker_run :: "(string \<Rightarrow> string + (string, MetricFamily) gomap) \<Rightarrow> Worker \<Rightarrow> worker_event list \<Rightarrow> Worker" where
  "worker_run parse w es = foldl (worker_step parse) w es"

section \<open>Health hysteresis\<close>

definition polls :: "worker_event list \<Rightarrow> bool list" where
  "polls es = concat (map (\<lambda>e. case e of HealthTick answer t \<Rightarrow> [healthSuccess answer] | MetricsTick _ _ \<Rightarrow> []) es)"

text \<open>The polls contain \<open>r\<close> successes in a row that are not followed by \<open>u\<close> failures in a row.\<close>

definition proven_healthy :: "nat \<Rightarrow> nat \<Rightarrow> bool list \<Rightarrow> bool" where
  "proven_healthy r u hs \<longleftrightarrow> (\<exists>xs ys. hs = xs @ replicate r True @ ys \<and> \<not> sublist (replicate u False) ys)"

fun leading :: "bool \<Rightarrow> bool list \<Rightarrow> nat" where
  "leading b [] = 0"
| "leading b (h # hs) = (if h = b then Suc (leading b hs) else 0)"

definition trailing :: "bool \<Rightarrow> bool list \<Rightarrow> nat" where
  "trailing b hs = leading b (rev hs)"

lemma trailing_simps [simp]:
  "trailing b [] = 0" "trailing b (hs @ [h]) = (if h = b then Suc (trailing b hs) else 0)"
  by (simp_all add: trailing_def)

lemma replicate_snoc: "replicate (Suc n) b = replicate n b @ [b]"
  by (simp add: replicate_append_same)

lemma trailing_suffix: "n \<le> trailing b hs \<longleftrightarrow> suffix (replicate n b) hs"
proof (induction hs arbitrary: n rule: rev_induct)
  case Nil
  then show ?case by (cases n) auto
next
  case (snoc h hs)
  then show ?case by (cases n) (auto simp: replicate_snoc simp del: replicate.simps)
qed

text \<open>Failures at the end of a list lie after any success.\<close>

lemma suffix_after_success:
  "suffix (replicate n False) (xs @ True # ys) \<Longrightarrow> suffix (replicate n False) ys"
proof (induction ys arbitrary: n rule: rev_induct)
  case Nil
  then show ?case by (cases n) (auto simp: replicate_snoc simp del: replicate.simps)
next
  case (snoc y ys)
  have e: "xs @ True # ys @ [y] = (xs @ True # ys) @ [y]" by simp
  show ?case
  proof (cases n)
    case (Suc m)
    have "y = False \<and> suffix (replicate m False) (xs @ True # ys)"
      using snoc.prems unfolding Suc e replicate_snoc snoc_suffix_snoc by blast
    with snoc.IH show ?thesis unfolding Suc replicate_snoc snoc_suffix_snoc by blast
  qed simp
qed

lemma proven_success:
  assumes "0 < u"
  shows "proven_healthy r u (hs @ [True]) \<longleftrightarrow> proven_healthy r u hs \<or> r \<le> Suc (trailing True hs)"
proof
  assume "proven_healthy r u (hs @ [True])"
  then obtain xs ys where e: "hs @ [True] = xs @ replicate r True @ ys" and n: "\<not> sublist (replicate u False) ys"
    by (auto simp: proven_healthy_def)
  show "proven_healthy r u hs \<or> r \<le> Suc (trailing True hs)"
  proof (cases ys rule: rev_cases)
    case Nil
    then have "suffix (replicate r True) (hs @ [True])" using e by (auto simp: suffix_def)
    then show ?thesis using trailing_suffix [of r True "hs @ [True]"] by simp
  next
    case (snoc ys' y)
    then have "hs = xs @ replicate r True @ ys'" "\<not> sublist (replicate u False) ys'"
      using e n by (auto simp: sublist_snoc)
    then show ?thesis by (auto simp: proven_healthy_def)
  qed
next
  assume "proven_healthy r u hs \<or> r \<le> Suc (trailing True hs)"
  then show "proven_healthy r u (hs @ [True])"
  proof
    assume "proven_healthy r u hs"
    then obtain xs ys where "hs = xs @ replicate r True @ ys" "\<not> sublist (replicate u False) ys"
      by (auto simp: proven_healthy_def)
    moreover obtain v where "u = Suc v" using assms by (cases u) auto
    ultimately show ?thesis
      unfolding proven_healthy_def
      by (intro exI [of _ xs] exI [of _ "ys @ [True]"]) (auto simp: sublist_snoc replicate_snoc simp del: replicate.simps)
  next
    assume "r \<le> Suc (trailing True hs)"
    then have "suffix (replicate r True) (hs @ [True])" using trailing_suffix [of r True "hs @ [True]"] by simp
    then obtain zs where "hs @ [True] = zs @ replicate r True @ []" by (auto simp: suffix_def)
    moreover have "\<not> sublist (replicate u False) []" using assms by simp
    ultimately show ?thesis unfolding proven_healthy_def by blast
  qed
qed

lemma proven_failure:
  assumes "0 < r"
  shows "proven_healthy r u (hs @ [False]) \<longleftrightarrow> proven_healthy r u hs \<and> \<not> u \<le> Suc (trailing False hs)"
proof -
  have long: "u \<le> Suc (trailing False hs) \<longleftrightarrow> suffix (replicate u False) (hs @ [False])"
    using trailing_suffix [of u False "hs @ [False]"] by simp
  obtain q where q: "r = Suc q" using assms by (cases r) auto
  have after: "suffix (replicate u False) (xs @ replicate r True @ ys) \<Longrightarrow> suffix (replicate u False) ys" for xs ys
    using suffix_after_success [of u "xs @ replicate q True" ys] by (simp add: q replicate_snoc del: replicate.simps)
  show ?thesis
  proof
    assume "proven_healthy r u (hs @ [False])"
    then obtain xs ys where e: "hs @ [False] = xs @ replicate r True @ ys" and n: "\<not> sublist (replicate u False) ys"
      by (auto simp: proven_healthy_def)
    have "ys \<noteq> []"
    proof
      assume "ys = []"
      with e have "hs @ [False] = (xs @ replicate q True) @ [True]" by (simp add: q replicate_snoc del: replicate.simps)
      then show False by simp
    qed
    then obtain ys' y where ys: "ys = ys' @ [y]" by (cases ys rule: rev_cases) auto
    then have "hs = xs @ replicate r True @ ys'" using e by simp
    moreover have "\<not> sublist (replicate u False) ys'" using n ys by (simp add: sublist_snoc)
    moreover have "\<not> suffix (replicate u False) (hs @ [False])"
      using after [of xs ys] n suffix_imp_sublist unfolding e by blast
    ultimately show "proven_healthy r u hs \<and> \<not> u \<le> Suc (trailing False hs)"
      unfolding long proven_healthy_def by blast
  next
    assume a: "proven_healthy r u hs \<and> \<not> u \<le> Suc (trailing False hs)"
    then obtain xs ys where e: "hs = xs @ replicate r True @ ys" "\<not> sublist (replicate u False) ys"
      by (auto simp: proven_healthy_def)
    have "hs @ [False] = (xs @ replicate r True) @ ys @ [False]" using e(1) by simp
    then have "suffix (ys @ [False]) (hs @ [False])" unfolding suffix_def by blast
    then have "\<not> suffix (replicate u False) (ys @ [False])" using a unfolding long by (meson suffix_order.trans)
    then have "\<not> sublist (replicate u False) (ys @ [False])" using e(2) by (simp only: sublist_snoc) blast
    moreover have "hs @ [False] = xs @ replicate r True @ ys @ [False]" using e(1) by simp
    ultimately show "proven_healthy r u (hs @ [False])" unfolding proven_healthy_def by blast
  qed
qed

section \<open>Invariant of a worker\<close>

definition unit_range :: "f64 \<Rightarrow> bool" where
  "unit_range v \<longleftrightarrow> (\<exists>x. v = Fin x \<and> 0 \<le> x \<and> x \<le> 2)"

definition count_ok :: "f64 \<Rightarrow> bool" where
  "count_ok v \<longleftrightarrow> (\<exists>x. v = Fin x \<and> 0 \<le> x)"

definition worker_inv :: "Options \<Rightarrow> bool list \<Rightarrow> Worker \<Rightarrow> bool" where
  "worker_inv o' hs w \<longleftrightarrow> W_options w = o' \<and>
     BR_ConsecutiveSuccess (W_runtime w) = int (trailing True hs) \<and>
     BR_ConsecutiveFailure (W_runtime w) = int (trailing False hs) \<and>
     BR_Healthy (W_runtime w) = proven_healthy (nat (Op_RecoveryAfter o')) (nat (Op_UnhealthyAfter o')) hs \<and>
     count_ok (BR_Running (W_runtime w)) \<and> count_ok (BR_Waiting (W_runtime w)) \<and>
     count_ok (BR_KVCacheUsage (W_runtime w)) \<and> unit_range (BR_Pressure (W_runtime w)) \<and> ewma_in 0 2 (W_ewma w)"

text \<open>A sum of metrics is finite and not negative.\<close>

lemma sumMetrics_ok:
  "sumMetrics t name ms acc = Inr v \<Longrightarrow> count_ok acc \<Longrightarrow> count_ok v"
proof (induction ms arbitrary: acc)
  case (Cons m ms)
  obtain x where x: "metricValue t name m = Inr x" "\<not> (f64_IsNaN x \<or> f64_IsInf x \<or> f64_lt x (Fin 0))"
    "sumMetrics t name ms (f64_add acc x) = Inr v"
    using Cons.prems(1) by (auto split: sum.splits if_splits)
  moreover have "count_ok (f64_add acc x)"
    using Cons.prems(2) x(2) by (cases x) (auto simp: count_ok_def f64_IsNaN_def f64_IsInf_def)
  ultimately show ?case using Cons.IH by blast
qed simp

lemma sumFamily_ok: "sumFamily f name = Inr v \<Longrightarrow> count_ok v"
  using sumMetrics_ok [of _ name _ "Fin 0" v]
  by (auto simp: sumFamily_def count_ok_def split: option.splits sum.splits if_splits)

lemma ParseMetrics_ok:
  "ParseMetrics parse payload = Inr m \<Longrightarrow> count_ok (Mx_Running m) \<and> count_ok (Mx_Waiting m) \<and> count_ok (Mx_KVCacheUsage m)"
  using sumFamily_ok by (fastforce simp: ParseMetrics_def Let_def split: sum.splits prod.splits)

lemma PollMetrics_cases:
  assumes "PollMetrics parse answer t w = (w', err)"
  obtains (failed) e where "w' = w" "err = Some e"
  | (scraped) m :: Metrics and raw :: f64 where "err = None" "count_ok (Mx_Running m)" "count_ok (Mx_Waiting m)" "count_ok (Mx_KVCacheUsage m)"
      "raw = Calculate \<lparr>Sample_Running = Mx_Running m, Sample_Waiting = Mx_Waiting m, Sample_KVUsage = Mx_KVCacheUsage m\<rparr>
         (Op_Limits (W_options w))"
      "w' = w\<lparr>W_ewma := fst (EWMA_Add (W_ewma w) t raw),
         W_runtime := (W_runtime w)\<lparr>BR_Running := Mx_Running m, BR_Waiting := Mx_Waiting m,
           BR_KVCacheUsage := Mx_KVCacheUsage m, BR_RawPressure := raw, BR_Pressure := snd (EWMA_Add (W_ewma w) t raw),
           BR_LastMetricsAt := t\<rparr>\<rparr>"
proof (cases err)
  case (Some e)
  with assms have "w' = w"
    by (auto simp: PollMetrics_def Let_def case_prod_unfold split: HTTPAnswer.splits sum.splits if_splits)
  with Some failed show thesis by blast
next
  case None
  then obtain status bytes m where a: "answer = Responded status (Inr bytes)" "\<not> (status < 200 \<or> status \<ge> 300)"
    "\<not> length (take (maxMetricsPayloadBytes + 1) bytes) > maxMetricsPayloadBytes"
    "ParseMetrics parse (take (maxMetricsPayloadBytes + 1) bytes) = Inr m"
    using assms by (auto simp: PollMetrics_def Let_def case_prod_unfold split: HTTPAnswer.splits sum.splits if_splits)
  have "PollMetrics parse answer t w = (w', None)" using assms None by simp
  from this [unfolded PollMetrics_def a(1) HTTPAnswer.case sum.case Let_def if_not_P [OF a(2)] if_not_P [OF a(3)] a(4)
      case_prod_unfold]
  show thesis using scraped [OF None, of m] ParseMetrics_ok [OF a(4)] by simp
qed

lemma PollMetrics_inv:
  assumes "worker_inv o' hs w"
  shows "worker_inv o' hs (fst (PollMetrics parse answer t w))"
proof -
  obtain w' err where p: "PollMetrics parse answer t w = (w', err)" by fastforce
  then show ?thesis
  proof (cases rule: PollMetrics_cases)
    case (scraped m raw)
    obtain x where x: "raw = Fin x" "0 \<le> x" "x \<le> 2" using Calculate_range scraped(5) by blast
    have "ewma_in 0 2 (W_ewma w)" using assms by (simp add: worker_inv_def)
    note e = EWMA_Add_in [OF this x(2,3), of t]
    from assms scraped e x(1) p show ?thesis by (auto simp: worker_inv_def unit_range_def)
  qed (use assms p in simp)
qed

lemma PollHealth_inv:
  assumes "worker_inv o' hs w" and "0 < Op_UnhealthyAfter o'" "0 < Op_RecoveryAfter o'"
  shows "worker_inv o' (hs @ [healthSuccess answer]) (fst (PollHealth answer t w))"
proof (cases "healthSuccess answer")
  case True
  with assms show ?thesis
    by (auto simp: worker_inv_def PollHealth_def Let_def proven_success)
next
  case False
  with assms show ?thesis
    by (auto simp: worker_inv_def PollHealth_def Let_def proven_failure)
qed

lemma worker_run_inv:
  assumes "worker_inv o' hs w" and "0 < Op_UnhealthyAfter o'" "0 < Op_RecoveryAfter o'"
  shows "worker_inv o' (hs @ polls es) (worker_run parse w es)"
  using assms(1)
proof (induction es arbitrary: hs w)
  case (Cons e es)
  show ?case
  proof (cases e)
    case (HealthTick answer t)
    with Cons.IH [OF PollHealth_inv [OF Cons.prems assms(2,3), of answer t]] show ?thesis
      by (simp add: worker_run_def polls_def)
  next
    case (MetricsTick answer t)
    with Cons.IH [OF PollMetrics_inv [OF Cons.prems, of parse answer t]] show ?thesis
      by (simp add: worker_run_def polls_def)
  qed
qed (simp add: worker_run_def polls_def)

lemma NewWorker_inv:
  assumes "NewWorker urlParse urlString backend options = Inr w"
  shows "worker_inv (W_options w) [] w" and "0 < Op_UnhealthyAfter (W_options w)" "0 < Op_RecoveryAfter (W_options w)"
    and "Op_UnhealthyAfter (W_options w) = Op_UnhealthyAfter options" "Op_RecoveryAfter (W_options w) = Op_RecoveryAfter options"
proof -
  obtain b where w: "w = \<lparr>W_backend = b, W_options = W_options w, W_ewma = NewEWMA (Op_EWMAWindow (W_options w)),
      W_runtime = zeroRuntime (Backend_ID b) BackendUnhealthy\<rparr>" "Options_validate (W_options w) = None"
    and o': "W_options w = options\<lparr>Op_Limits := (Op_Limits options)\<lparr>Limits_RunningSoft := Backend_RunningSoftLimit b\<rparr>\<rparr>"
    using assms by (auto simp: NewWorker_def Let_def split: prod.splits option.splits)
  from w(2) show pos: "0 < Op_UnhealthyAfter (W_options w)" "0 < Op_RecoveryAfter (W_options w)"
    by (auto simp: Options_validate_def Let_def split: if_splits)
  have "\<not> proven_healthy (nat (Op_RecoveryAfter (W_options w))) n []" for n using pos(2) by (simp add: proven_healthy_def)
  then show "worker_inv (W_options w) [] w"
    by (subst (2) w(1)) (simp add: worker_inv_def zeroRuntime_def count_ok_def unit_range_def ewma_in_def NewEWMA_def)
  show "Op_UnhealthyAfter (W_options w) = Op_UnhealthyAfter options" "Op_RecoveryAfter (W_options w) = Op_RecoveryAfter options"
    by (simp_all add: o')
qed

section \<open>Property\<close>

text \<open>C27: health has hysteresis, whatever polls of health and metrics a worker has made and in whatever order they
  were interleaved: the backend counts as healthy exactly if the required number of successes in a row has been seen
  and has not been followed by the tolerated number of failures in a row. The metrics it reports are finite and not
  negative, and its smoothed pressure lies between 0 and 2, even if a scrape answers nonsense.\<close>

theorem worker_health_exact:
  assumes "NewWorker urlParse urlString backend options = Inr w"
  shows "let r = W_runtime (worker_run parse w es) in
    BR_Healthy r = proven_healthy (nat (Op_RecoveryAfter options)) (nat (Op_UnhealthyAfter options)) (polls es) \<and>
    count_ok (BR_Running r) \<and> count_ok (BR_Waiting r) \<and> count_ok (BR_KVCacheUsage r) \<and> unit_range (BR_Pressure r)"
  using worker_run_inv [OF NewWorker_inv(1-3) [OF assms(1)], of es parse] NewWorker_inv(4,5) [OF assms(1)]
  by (simp add: worker_inv_def Let_def)

section \<open>An example\<close>

definition demo_url :: ParsedURL where
  "demo_url = \<lparr>URL_Scheme = ''http'', URL_Host = ''a'', URL_User = False, URL_RawQuery = [], URL_Fragment = [],
     URL_Path = [], URL_RawPath = []\<rparr>"

definition demo_backend :: Backend where
  "demo_backend = \<lparr>Backend_ID = 3, Backend_Revision = 1, Backend_ModelPoolID = 1, Backend_Name = ''b'',
     Backend_BaseURL = ''http://a'', Backend_Enabled = True, Backend_Draining = False, Backend_CapacityHint = Fin 1,
     Backend_RunningSoftLimit = Fin 8, Backend_UpstreamAPIKeyEnv = [], Backend_CreatedAt = 0, Backend_UpdatedAt = 0\<rparr>"

definition demo_options :: Options where
  "demo_options = \<lparr>Op_HealthInterval = second, Op_HealthTimeout = second, Op_MetricsInterval = second,
     Op_MetricsTimeout = second, Op_StaleAfter = 5 * second, Op_UnhealthyAfter = 2, Op_RecoveryAfter = 2,
     Op_Circuit = \<lparr>BO_FailureThreshold = 5, BO_FailureWindow = second, BO_OpenCooldown = second, BO_HalfOpenMaxProbes = 1\<rparr>,
     Op_CircuitCoordinator = False, Op_ReplicaID = 0, Op_ProbeTTL = 0, Op_ProbeRenewInterval = second,
     Op_Limits = \<lparr>Limits_QueueSoft = Fin 4, Limits_KVSoft = Fin (1 / 2), Limits_KVHard = Fin (9 / 10), Limits_RunningSoft = Fin 1\<rparr>,
     Op_EWMAWindow = second, Op_BusyThreshold = Fin (1 / 2), Op_SaturatedThreshold = Fin 1,
     Op_PoolThresholds = \<lparr>Th_Busy = Fin 1, Th_Saturated = Fin 1, Th_Emergency = Fin 1, Th_BusyRecovery = Fin 1,
       Th_SaturatedRecovery = Fin 1, Th_EmergencyRecovery = Fin 1, Th_EnterWindow = second, Th_RecoveryWindow = second\<rparr>\<rparr>"

definition demo_worker :: Worker where
  "demo_worker = \<lparr>W_backend = demo_backend,
     W_options = demo_options\<lparr>Op_Limits := (Op_Limits demo_options)\<lparr>Limits_RunningSoft := Fin 8\<rparr>\<rparr>,
     W_ewma = NewEWMA second, W_runtime = zeroRuntime 3 BackendUnhealthy\<rparr>"

lemma demo_Validate: "Backend_Validate (\<lambda>_. Some demo_url) (\<lambda>_. ''http://a'') demo_backend = (demo_backend, None)"
proof -
  have "trimSpace ''b'' = ''b''" "trimSpace [] = []" by code_simp+
  then show ?thesis
    by (simp add: Backend_Validate_def demo_backend_def demo_url_def f64_positive_finite_def f64_IsNaN_def f64_IsInf_def
        f64_le_def Let_def)
qed

lemma demo_NewWorker: "NewWorker (\<lambda>_. Some demo_url) (\<lambda>_. ''http://a'') demo_backend demo_options = Inr demo_worker"
proof -
  have "Options_validate (W_options demo_worker) = None"
    by (simp add: Options_validate_def demo_worker_def demo_options_def NewBreaker_def Limits_Validate_def positiveFinite_def
        finite_f64_def f64_IsNaN_def f64_IsInf_def f64_le_def Let_def)
  with demo_Validate show ?thesis by (simp add: NewWorker_def demo_worker_def demo_backend_def demo_options_def Let_def)
qed

definition demo_ticks :: "worker_event list" where
  "demo_ticks = [HealthTick (Responded 200 (Inr [])) 1, HealthTick (Responded 204 (Inr [])) 2, HealthTick (RequestFailed []) 3,
     MetricsTick (Responded 500 (Inr [])) 4, HealthTick (Responded 200 (Inr [])) 5, HealthTick (Responded 503 (Inr [])) 6]"

theorem worker_health_exact_witness:
  "BR_Healthy (W_runtime (worker_run (\<lambda>_. Inl []) demo_worker demo_ticks)) \<and> proven_healthy 2 2 (polls demo_ticks)"
proof -
  have "BR_Healthy (W_runtime (worker_run (\<lambda>_. Inl []) demo_worker demo_ticks))"
    by (simp add: worker_run_def demo_ticks_def PollHealth_def PollMetrics_def demo_worker_def demo_options_def
        zeroRuntime_def Let_def)
  then show ?thesis using worker_health_exact [OF demo_NewWorker, of "\<lambda>_. Inl []" demo_ticks] by (simp add: demo_options_def Let_def)
qed

end
