(* ===== verification/Monitor_Manager.thy ===== *)
theory Monitor_Manager
  imports Monitor_Worker Recovery
begin

text \<open>
  The monitor's manager (\<^verbatim>\<open>internal/monitor/manager.go\<close>): it runs a worker for every enabled backend,
  derives the state of the pools, hands out attempts on backends under their circuit breakers, and keeps the
  failures that the circuit coordinator could not be told.

  Breakers live on a heap, because a completion that is still outstanding keeps the breaker it was given even
  after the worker has got a new one; a \<^verbatim>\<open>nil\<close> breaker is \<open>None\<close>, and calling a method of it sets
  \<open>MG_panicked\<close>. The circuit coordinator, the recovery manager and the readiness callback are interfaces of
  the options: what they answer is the argument \<open>coordinationView\<close>. Operations that release the mutex for a
  call of the coordinator are split there into two functions.
\<close>

section \<open>State\<close>

record managedWorker =
  MW_worker :: Worker
  MW_generation :: int
  MW_breaker :: "nat option"
  MW_lastRecovery :: instant

record Manager =
  MG_options :: Options
  MG_workers :: "(int, managedWorker) gomap"
  MG_breakers :: "BreakerSystem list"
  MG_poolMachine :: "(int, PoolMachine) gomap"
  MG_poolRuntime :: "(int, PoolRuntime) gomap"
  MG_poolInflight :: "(int, int) gomap"
  MG_backendInflight :: "(int, int) gomap"
  MG_nextGen :: int
  MG_shutdown :: bool
  MG_probes :: "(uuid, ProbeIdentity) gomap"
  MG_circuitBacklog :: "CircuitCompletion list"
  MG_buffered :: nat
  MG_expired :: nat
  MG_overflow :: nat
  MG_probesLost :: nat
  MG_panicked :: bool

record coordinationView =
  CV_status :: Status
  CV_ready :: bool
  CV_recovery :: "RecoveryStatus option"
  CV_snapshot :: "int \<Rightarrow> CircuitSnapshot"

definition defaultCircuit :: BreakerOptions where
  "defaultCircuit = \<lparr>BO_FailureThreshold = 5, BO_FailureWindow = 30 * second, BO_OpenCooldown = 15 * second,
     BO_HalfOpenMaxProbes = 1\<rparr>"

definition zeroCircuit :: BreakerOptions where
  "zeroCircuit = \<lparr>BO_FailureThreshold = 0, BO_FailureWindow = 0, BO_OpenCooldown = 0, BO_HalfOpenMaxProbes = 0\<rparr>"

definition NewManager :: "Options \<Rightarrow> Manager" where
  "NewManager options0 =
     (let options = (if Op_Circuit options0 = zeroCircuit then options0\<lparr>Op_Circuit := defaultCircuit\<rparr> else options0);
          options = (if Op_ProbeRenewInterval options \<le> 0 then
                       let third = (if Op_ProbeTTL options \<ge> 0 then Op_ProbeTTL options div 3 else - (- Op_ProbeTTL options div 3))
                       in options\<lparr>Op_ProbeRenewInterval := (if third \<le> 0 then 30 * second else third)\<rparr>
                     else options)
      in \<lparr>MG_options = options, MG_workers = mempty, MG_breakers = [], MG_poolMachine = mempty, MG_poolRuntime = mempty,
          MG_poolInflight = mempty, MG_backendInflight = mempty, MG_nextGen = 0, MG_shutdown = False, MG_probes = mempty,
          MG_circuitBacklog = [], MG_buffered = 0, MG_expired = 0, MG_overflow = 0, MG_probesLost = 0, MG_panicked = False\<rparr>)"

section \<open>Breakers\<close>

definition stepBreaker :: "nat \<Rightarrow> breaker_event \<Rightarrow> Manager \<Rightarrow> Manager" where
  "stepBreaker a e m = m\<lparr>MG_breakers := (MG_breakers m)[a := breaker_step (MG_breakers m ! a) e]\<rparr>"

definition breakerSnapshot :: "nat option \<Rightarrow> instant \<Rightarrow> Manager \<Rightarrow> Manager \<times> BreakerSnapshot option" where
  "breakerSnapshot p t m =
     (case p of
        None \<Rightarrow> (m\<lparr>MG_panicked := True\<rparr>, None)
      | Some a \<Rightarrow> (stepBreaker a (BSnapshot t) m, Some (snd (Breaker_Snapshot (sys_breaker (MG_breakers m ! a)) t))))"

text \<open>The ticket of the completion closure, if the breaker admits the attempt.\<close>

definition breakerAcquire :: "nat option \<Rightarrow> instant \<Rightarrow> Manager \<Rightarrow> Manager \<times> (nat \<times> nat) option" where
  "breakerAcquire p t m =
     (case p of
        None \<Rightarrow> (m\<lparr>MG_panicked := True\<rparr>, None)
      | Some a \<Rightarrow>
          (stepBreaker a (BAcquire t) m,
           if snd (Breaker_Acquire (sys_breaker (MG_breakers m ! a)) t) = None then None
           else Some (a, length (sys_tickets (MG_breakers m ! a)))))"

definition coordinationReady :: "coordinationView \<Rightarrow> bool" where
  "coordinationReady v \<longleftrightarrow> St_Available (CV_status v) \<and> CV_ready v"

definition emergencyAllowed :: "coordinationView \<Rightarrow> bool" where
  "emergencyAllowed v \<longleftrightarrow> \<not> St_Permanent (CV_status v) \<and>
     (case CV_recovery v of None \<Rightarrow> True | Some r \<Rightarrow> RS_State r \<noteq> RecoveryPermanentFault)"

definition newBreaker :: "Manager \<Rightarrow> Manager \<times> nat option" where
  "newBreaker m =
     (case NewBreaker (Op_Circuit (MG_options m)) of
        Inl e \<Rightarrow> (m, None)
      | Inr b \<Rightarrow> (m\<lparr>MG_breakers := MG_breakers m @ [breaker_start b]\<rparr>, Some (length (MG_breakers m))))"

definition emergencyBreaker :: "coordinationView \<Rightarrow> int \<Rightarrow> managedWorker \<Rightarrow> Manager \<Rightarrow> Manager \<times> nat option" where
  "emergencyBreaker v i managed m =
     (case CV_recovery v of
        None \<Rightarrow> (m, MW_breaker managed)
      | Some r \<Rightarrow>
          if RS_LastSuccess r > MW_lastRecovery managed then
            let (m, p) = newBreaker m
            in (m\<lparr>MG_workers := mput i (managed\<lparr>MW_breaker := p, MW_lastRecovery := RS_LastSuccess r\<rparr>) (MG_workers m)\<rparr>, p)
          else (m, MW_breaker managed))"

section \<open>Snapshots\<close>

definition withCircuit :: "CircuitState \<Rightarrow> int \<Rightarrow> instant \<Rightarrow> int \<Rightarrow> bool \<Rightarrow> BackendRuntime \<Rightarrow> BackendRuntime" where
  "withCircuit state failures retryAt probes available r =
     r\<lparr>BR_CircuitState := state, BR_CircuitFailures := failures, BR_CircuitRetryAt := retryAt,
       BR_CircuitProbesInFlight := probes, BR_CircuitAvailable := available\<rparr>"

definition snapshotManaged ::
  "coordinationView \<Rightarrow> int \<Rightarrow> managedWorker \<Rightarrow> instant \<Rightarrow> Manager \<Rightarrow> Manager \<times> BackendRuntime" where
  "snapshotManaged v i managed t m =
     (let snapshot = worker_Snapshot (MW_worker managed) t in
      if \<not> Op_CircuitCoordinator (MG_options m) then
        (if MW_breaker managed = None then (m, snapshot)
         else case breakerSnapshot (MW_breaker managed) t m of
           (m, None) \<Rightarrow> (m, snapshot)
         | (m, Some c) \<Rightarrow> (m, withCircuit (BS_State c) (BS_FailureCount c) (BS_RetryAt c) (BS_ProbesInFlight c) (BS_Available c) snapshot))
      else
        let c = CV_snapshot v (Backend_ID (W_backend (MW_worker managed))) in
        if coordinationReady v
        then (m, withCircuit (CS_State c) (CS_FailureCount c) (CS_RetryAt c) (CS_ProbesInFlight c) (CS_Available c) snapshot)
        else
          let (m, p) = emergencyBreaker v i managed m; (m, local) = breakerSnapshot p t m;
              available = (emergencyAllowed v \<and> CS_State c = CircuitClosed \<and>
                (case local of None \<Rightarrow> False | Some s \<Rightarrow> BS_State s = CircuitClosed))
          in (m, withCircuit (CS_State c) (CS_FailureCount c) (CS_RetryAt c) (CS_ProbesInFlight c) available snapshot))"

definition manager_Snapshot :: "coordinationView \<Rightarrow> int \<Rightarrow> instant \<Rightarrow> Manager \<Rightarrow> Manager \<times> BackendRuntime" where
  "manager_Snapshot v backendID t m =
     (let inflight = cget (MG_backendInflight m) backendID in
      case mget (MG_workers m) backendID of
        None \<Rightarrow> (m, (zeroRuntime backendID BackendUnhealthy)\<lparr>BR_GatewayInflight := inflight\<rparr>)
      | Some managed \<Rightarrow>
          let (m, snapshot) = snapshotManaged v backendID managed t m
          in (m, snapshot\<lparr>BR_GatewayInflight := inflight\<rparr>))"

definition BackendHealth :: "Backend \<Rightarrow> instant \<Rightarrow> Manager \<Rightarrow> BackendRuntime option" where
  "BackendHealth expected t m =
     (case mget (MG_workers m) (Backend_ID expected) of
        None \<Rightarrow> None
      | Some managed \<Rightarrow>
          if MG_shutdown m \<or> W_backend (MW_worker managed) \<noteq> expected then None
          else Some (worker_Snapshot (MW_worker managed) t))"

definition currentPoolWaitingLocked :: "int \<Rightarrow> instant \<Rightarrow> Manager \<Rightarrow> f64" where
  "currentPoolWaitingLocked poolID t m =
     fold (\<lambda>(i, managed) acc.
       let backend = W_backend (MW_worker managed); snapshot = worker_Snapshot (MW_worker managed) t in
       if Backend_ModelPoolID backend \<noteq> poolID \<or> Backend_Draining backend then acc
       else if BR_Healthy snapshot \<and> BR_MetricsFresh snapshot then f64_add acc (BR_Waiting snapshot) else acc)
       (MG_workers m) (Fin 0)"

definition absentPool :: "int \<Rightarrow> PoolRuntime" where
  "absentPool poolID = \<lparr>PR_PoolID = poolID, PR_State = PoolUnavailable, PR_BestBackendPressure = Fin 0,
     PR_AvailableBackends = 0, PR_AllBackendsWaiting = False, PR_GatewayInflight = 0, PR_TotalWaiting = Fin 0\<rparr>"

text \<open>\<open>admission\<close> is the pool counter of the admission coordinator, if there is one.\<close>

definition PoolSnapshot :: "(int \<Rightarrow> int) option \<Rightarrow> int \<Rightarrow> instant \<Rightarrow> Manager \<Rightarrow> PoolRuntime" where
  "PoolSnapshot admission poolID t m =
     (let runtime = (case mget (MG_poolRuntime m) poolID of None \<Rightarrow> absentPool poolID | Some r \<Rightarrow> r);
          runtime = runtime\<lparr>PR_GatewayInflight := cget (MG_poolInflight m) poolID\<rparr>;
          runtime = (case admission of None \<Rightarrow> runtime | Some f \<Rightarrow> runtime\<lparr>PR_GatewayInflight := f poolID\<rparr>)
      in runtime\<lparr>PR_TotalWaiting := currentPoolWaitingLocked poolID t m\<rparr>)"

section \<open>Observing the pools\<close>

record poolScan =
  PS_best :: f64
  PS_available :: int
  PS_allWaiting :: bool
  PS_totalWaiting :: f64

definition scanWorker ::
  "coordinationView \<Rightarrow> int \<Rightarrow> instant \<Rightarrow> int \<times> managedWorker \<Rightarrow> Manager \<times> poolScan \<Rightarrow> Manager \<times> poolScan" where
  "scanWorker v poolID t im ms =
     (case (im, ms) of ((i, managed), (m, s)) \<Rightarrow>
        if Backend_ModelPoolID (W_backend (MW_worker managed)) \<noteq> poolID then (m, s)
        else
          let (m, snapshot) = snapshotManaged v i managed t m in
          if \<not> BR_Healthy snapshot \<or> \<not> BR_MetricsFresh snapshot \<or> Backend_Draining (W_backend (MW_worker managed)) then (m, s)
          else
            let s = s\<lparr>PS_totalWaiting := f64_add (PS_totalWaiting s) (BR_Waiting snapshot)\<rparr> in
            if \<not> BR_CircuitAvailable snapshot then (m, s)
            else (m, s\<lparr>PS_available := PS_available s + 1,
              PS_best := (if f64_lt (BR_Pressure snapshot) (PS_best s) then BR_Pressure snapshot else PS_best s),
              PS_allWaiting := (if f64_le (BR_Waiting snapshot) (Fin 0) then False else PS_allWaiting s)\<rparr>))"

definition observePoolLocked :: "coordinationView \<Rightarrow> int \<Rightarrow> instant \<Rightarrow> Manager \<Rightarrow> Manager \<times> PoolRuntime" where
  "observePoolLocked v poolID t m =
     (let (m, s) = fold (scanWorker v poolID t) (MG_workers m)
            (m, \<lparr>PS_best = PosInf, PS_available = 0, PS_allWaiting = True, PS_totalWaiting = Fin 0\<rparr>);
          machine = (case mget (MG_poolMachine m) poolID of
                       None \<Rightarrow> NewPoolMachine (Op_PoolThresholds (MG_options m)) | Some x \<Rightarrow> x);
          (machine, state) = Observe machine t (PS_best s) (PS_allWaiting s \<and> PS_available s > 0) (PS_available s > 0);
          m = m\<lparr>MG_poolMachine := mput poolID machine (MG_poolMachine m)\<rparr>;
          (best, allWaiting) = (if PS_available s = 0 then (Fin 0, False) else (PS_best s, PS_allWaiting s))
      in (m, \<lparr>PR_PoolID = poolID, PR_State = state, PR_BestBackendPressure = best, PR_AvailableBackends = PS_available s,
              PR_AllBackendsWaiting = allWaiting, PR_GatewayInflight = cget (MG_poolInflight m) poolID,
              PR_TotalWaiting = PS_totalWaiting s\<rparr>))"

definition activePools :: "Manager \<Rightarrow> int list" where
  "activePools m = remdups (map (\<lambda>(i, managed). Backend_ModelPoolID (W_backend (MW_worker managed))) (MG_workers m))"

definition observePoolRuntime :: "coordinationView \<Rightarrow> instant \<Rightarrow> Manager \<Rightarrow> Manager" where
  "observePoolRuntime v t m =
     (if MG_shutdown m then m
      else
        let active = activePools m;
            gone = filter (\<lambda>p. p \<notin> set active) (map fst (MG_poolMachine m));
            m = fold (\<lambda>p m. m\<lparr>MG_poolMachine := mdel p (MG_poolMachine m), MG_poolRuntime := mdel p (MG_poolRuntime m)\<rparr>) gone m
        in fold (\<lambda>p m. let (m, r) = observePoolLocked v p t m in m\<lparr>MG_poolRuntime := mput p r (MG_poolRuntime m)\<rparr>) active m)"

section \<open>Reconciling the workers\<close>

datatype ReconcileError =
    ReconcileCircuits go_error
  | DuplicateBackend int
  | InvalidBackend int ValidationError
  | ReconcileShutdown
  | ReconcileBreaker int BreakerError
  | ReconcileWorker WorkerError

definition backendIdentity :: "Backend \<Rightarrow> BackendIdentity" where
  "backendIdentity b = \<lparr>BI_ID = Backend_ID b, BI_Revision = Backend_Revision b, BI_Enabled = Backend_Enabled b,
     BI_Draining = Backend_Draining b\<rparr>"

fun desiredBackends ::
  "(Backend \<Rightarrow> Backend \<times> ValidationError option) \<Rightarrow> Backend list \<Rightarrow> (int, Backend) gomap \<Rightarrow> ReconcileError + (int, Backend) gomap" where
  "desiredBackends validate [] desired = Inr desired"
| "desiredBackends validate (backend # backends) desired =
     (if \<not> Backend_Enabled backend then desiredBackends validate backends desired
      else if mget desired (Backend_ID backend) \<noteq> None then Inl (DuplicateBackend (Backend_ID backend))
      else case validate backend of
        (backend, Some e) \<Rightarrow> Inl (InvalidBackend (Backend_ID backend) e)
      | (backend, None) \<Rightarrow> desiredBackends validate backends (mput (Backend_ID backend) backend desired))"

definition keeps :: "(int, Backend) gomap \<Rightarrow> int \<times> managedWorker \<Rightarrow> bool" where
  "keeps desired = (\<lambda>(i, managed). mget desired i = Some (W_backend (MW_worker managed)))"

definition keptWorkers :: "(int, Backend) gomap \<Rightarrow> (int, managedWorker) gomap \<Rightarrow> (int, managedWorker) gomap" where
  "keptWorkers desired workers = filter (keeps desired) workers"

definition newBackends :: "(int, Backend) gomap \<Rightarrow> (int, managedWorker) gomap \<Rightarrow> (int, Backend) gomap" where
  "newBackends desired workers =
     filter (\<lambda>(i, b). case mget workers i of None \<Rightarrow> True | Some managed \<Rightarrow> b \<noteq> W_backend (MW_worker managed)) desired"

fun startWorkers ::
  "(Backend \<Rightarrow> Options \<Rightarrow> WorkerError + Worker) \<Rightarrow> (int \<times> Backend) list \<Rightarrow> Manager \<Rightarrow> Manager \<times> ReconcileError option" where
  "startWorkers new [] m = (m, None)"
| "startWorkers new ((i, backend) # rest) m =
     (case NewBreaker (Op_Circuit (MG_options m)) of
        Inl e \<Rightarrow> (m, Some (ReconcileBreaker i e))
      | Inr b \<Rightarrow>
          (case new backend (MG_options m) of
             Inl e \<Rightarrow> (m, Some (ReconcileWorker e))
           | Inr worker \<Rightarrow>
               let gen = MG_nextGen m + 1; p = length (MG_breakers m) in
               startWorkers new rest
                 (m\<lparr>MG_nextGen := gen, MG_breakers := MG_breakers m @ [breaker_start b],
                    MG_workers := mput i \<lparr>MW_worker = worker, MW_generation = gen, MW_breaker = Some p, MW_lastRecovery = 0\<rparr>
                      (MG_workers m)\<rparr>)))"

text \<open>\<open>circuits\<close> is the answer of the circuit coordinator's own reconciliation.\<close>

definition manager_Reconcile ::
  "(Backend \<Rightarrow> Backend \<times> ValidationError option) \<Rightarrow> (Backend \<Rightarrow> Options \<Rightarrow> WorkerError + Worker) \<Rightarrow> go_error option \<Rightarrow>
     coordinationView \<Rightarrow> instant \<Rightarrow> Backend list \<Rightarrow> Manager \<Rightarrow> Manager \<times> ReconcileError option" where
  "manager_Reconcile validate new circuits v now backends m =
     (case (if Op_CircuitCoordinator (MG_options m) then circuits else None) of
        Some e \<Rightarrow> (m, Some (ReconcileCircuits e))
      | None \<Rightarrow>
          (case desiredBackends validate backends mempty of
             Inl e \<Rightarrow> (m, Some e)
           | Inr desired \<Rightarrow>
               if MG_shutdown m then (m, Some ReconcileShutdown)
               else
                 let starting = newBackends desired (MG_workers m) in
                 (case startWorkers new starting (m\<lparr>MG_workers := keptWorkers desired (MG_workers m)\<rparr>) of
                    (m, Some e) \<Rightarrow> (m, Some e)
                  | (m, None) \<Rightarrow> (observePoolRuntime v now m, None))))"

definition manager_Shutdown :: "Manager \<Rightarrow> Manager" where
  "manager_Shutdown m = (if MG_shutdown m then m else m\<lparr>MG_shutdown := True, MG_workers := mempty\<rparr>)"

definition WorkerCount :: "Manager \<Rightarrow> nat" where
  "WorkerCount m = mlen (MG_workers m)"

definition HasWorker :: "int \<Rightarrow> Manager \<Rightarrow> bool" where
  "HasWorker i m = (mget (MG_workers m) i \<noteq> None)"

definition WorkerGeneration :: "int \<Rightarrow> Manager \<Rightarrow> int" where
  "WorkerGeneration i m = (case mget (MG_workers m) i of None \<Rightarrow> 0 | Some managed \<Rightarrow> MW_generation managed)"

definition CircuitReplayBacklog :: "Manager \<Rightarrow> nat" where
  "CircuitReplayBacklog m = length (MG_circuitBacklog m)"

section \<open>Buffered circuit failures\<close>

definition backlogCap :: nat where "backlogCap = 4096"

definition bufferCircuitFailure :: "CircuitCompletion \<Rightarrow> Manager \<Rightarrow> Manager" where
  "bufferCircuitFailure completion m =
     (let backlog = MG_circuitBacklog m @ [completion]; dropped = length backlog - backlogCap
      in m\<lparr>MG_circuitBacklog := drop dropped backlog, MG_buffered := MG_buffered m + 1,
           MG_overflow := MG_overflow m + dropped\<rparr>)"

fun errors_AsReason :: "go_error \<Rightarrow> bool" where
  "errors_AsReason (ReasonError r) = True"
| "errors_AsReason (PermanentError e) = errors_AsReason e"
| "errors_AsReason _ = False"

definition replayableCircuitError :: "go_error \<Rightarrow> bool" where
  "replayableCircuitError err \<longleftrightarrow> \<not> errors_AsReason err"

definition replayTake :: "Manager \<Rightarrow> Manager \<times> CircuitCompletion list" where
  "replayTake m = (m\<lparr>MG_circuitBacklog := []\<rparr>, MG_circuitBacklog m)"

text \<open>\<open>deliver\<close> is what the coordinator answers to each completion.\<close>

fun replayLoop ::
  "instant \<Rightarrow> (CircuitCompletion \<Rightarrow> go_error option) \<Rightarrow> CircuitCompletion list \<Rightarrow> CircuitCompletion list \<times> nat \<times> go_error list" where
  "replayLoop now deliver [] = ([], 0, [])"
| "replayLoop now deliver (c # cs) =
     (let (kept, expired, errs) = replayLoop now deliver cs in
      if \<not> CC_ReportedOutcomeAt c > now - 24 * hour then (kept, expired + 1, errs)
      else case deliver c of
        None \<Rightarrow> (kept, expired, errs)
      | Some e \<Rightarrow> if replayableCircuitError e then (c # kept, expired, e # errs) else (kept, expired, errs))"

definition replayMerge :: "CircuitCompletion list \<Rightarrow> nat \<Rightarrow> Manager \<Rightarrow> Manager" where
  "replayMerge kept expired m =
     (let merged = kept @ MG_circuitBacklog m; overflow = length merged - backlogCap
      in m\<lparr>MG_circuitBacklog := drop overflow merged, MG_expired := MG_expired m + expired,
           MG_overflow := MG_overflow m + overflow\<rparr>)"

section \<open>Attempts on a backend\<close>

datatype completion =
    LocalCompletion nat nat
  | EmergencyCompletion nat nat uuid BackendIdentity int
  | CoordinatedCompletion uuid BackendIdentity int

definition matchesWorker :: "Backend \<Rightarrow> Manager \<Rightarrow> managedWorker option" where
  "matchesWorker expected m =
     (case mget (MG_workers m) (Backend_ID expected) of
        None \<Rightarrow> None
      | Some managed \<Rightarrow> if W_backend (MW_worker managed) \<noteq> expected then None else Some managed)"

definition takeBackend :: "int \<Rightarrow> Manager \<Rightarrow> Manager" where
  "takeBackend i m = m\<lparr>MG_backendInflight := cinc i (MG_backendInflight m)\<rparr>"

definition releaseBackendInflight :: "int \<Rightarrow> Manager \<Rightarrow> Manager" where
  "releaseBackendInflight i m = m\<lparr>MG_backendInflight := cdec i (MG_backendInflight m)\<rparr>"

text \<open>Without a coordinator, the whole of \<^verbatim>\<open>AcquireBackend\<close>.\<close>

definition acquireLocal :: "Backend \<Rightarrow> instant \<Rightarrow> Manager \<Rightarrow> Manager \<times> completion option" where
  "acquireLocal expected t m =
     (case matchesWorker expected m of
        None \<Rightarrow> (m, None)
      | Some managed \<Rightarrow>
          (case breakerAcquire (MW_breaker managed) t m of
             (m, None) \<Rightarrow> (m, None)
           | (m, Some (a, n)) \<Rightarrow> (takeBackend (Backend_ID expected) m, Some (LocalCompletion a n))))"

definition acquireEmergencyBackend ::
  "coordinationView \<Rightarrow> uuid \<Rightarrow> Backend \<Rightarrow> instant \<Rightarrow> Manager \<Rightarrow> Manager \<times> completion option" where
  "acquireEmergencyBackend v attemptID expected t m =
     (let cached = CV_snapshot v (Backend_ID expected) in
      if \<not> emergencyAllowed v \<or> CS_State cached \<noteq> CircuitClosed then (m, None)
      else case matchesWorker expected m of
        None \<Rightarrow> (m, None)
      | Some managed \<Rightarrow>
          let (m, p) = emergencyBreaker v (Backend_ID expected) managed m in
          (case breakerSnapshot p t m of
             (m, None) \<Rightarrow> (m, None)
           | (m, Some s) \<Rightarrow>
               if BS_State s \<noteq> CircuitClosed then (m, None)
               else (case breakerAcquire p t m of
                 (m, None) \<Rightarrow> (m, None)
               | (m, Some (a, n)) \<Rightarrow>
                   (takeBackend (Backend_ID expected) m,
                    Some (EmergencyCompletion a n attemptID (backendIdentity expected) (CS_Generation cached))))))"

text \<open>With a coordinator, what follows the first look at the worker: the views before and after the call of the
  coordinator, its answer, and the view during an emergency acquisition.\<close>

record acquireAnswer =
  AA_attemptID :: uuid
  AA_before :: coordinationView
  AA_answer :: "go_error + CircuitDecision"
  AA_after :: coordinationView
  AA_emergency :: coordinationView

definition acquireCoordinated :: "acquireAnswer \<Rightarrow> Backend \<Rightarrow> instant \<Rightarrow> Manager \<Rightarrow> Manager \<times> completion option" where
  "acquireCoordinated a expected t m =
     (if \<not> coordinationReady (AA_before a) then acquireEmergencyBackend (AA_emergency a) (AA_attemptID a) expected t m
      else case AA_answer a of
        Inl err \<Rightarrow>
          if errors_AsPermanent err then (m, None)
          else acquireEmergencyBackend (AA_emergency a) (AA_attemptID a) expected t m
      | Inr d \<Rightarrow>
          if CD_Reason d \<noteq> NoReason \<or> \<not> coordinationReady (AA_after a) then (m, None)
          else (case matchesWorker expected m of
            None \<Rightarrow> (m, None)
          | Some managed \<Rightarrow>
              let m = takeBackend (Backend_ID expected) m;
                  m = (case CD_Permit d of None \<Rightarrow> m | Some p \<Rightarrow> m\<lparr>MG_probes := mput (PI_PermitID p) p (MG_probes m)\<rparr>)
              in (m, Some (CoordinatedCompletion (AA_attemptID a) (backendIdentity expected) (CS_Generation (CD_Snapshot d))))))"

text \<open>The completion closure, run by its \<^verbatim>\<open>sync.Once\<close>: \<open>ready\<close> and \<open>err\<close> are what the coordinator answers.\<close>

definition runCompletion ::
  "int \<Rightarrow> InferenceOutcome \<Rightarrow> bool \<Rightarrow> go_error option \<Rightarrow> instant \<Rightarrow> completion \<Rightarrow> Manager \<Rightarrow> Manager" where
  "runCompletion i outcome ready err now k m =
     (case k of
        LocalCompletion a n \<Rightarrow> releaseBackendInflight i (stepBreaker a (BComplete n outcome now) m)
      | EmergencyCompletion a n attemptID ident generation \<Rightarrow>
          let m = stepBreaker a (BComplete n outcome now) m;
              m = (if outcome = InferenceFailure
                   then bufferCircuitFailure \<lparr>CC_AttemptID = attemptID, CC_Backend = ident, CC_Generation = generation,
                          CC_Outcome = outcome, CC_ReportedOutcomeAt = now\<rparr> m
                   else m)
          in releaseBackendInflight i m
      | CoordinatedCompletion attemptID ident generation \<Rightarrow>
          let m = (if outcome \<noteq> InferenceFailure \<and> \<not> ready then m
                   else case err of
                     None \<Rightarrow> m
                   | Some e \<Rightarrow>
                       if outcome = InferenceFailure \<and> replayableCircuitError e
                       then bufferCircuitFailure \<lparr>CC_AttemptID = attemptID, CC_Backend = ident, CC_Generation = generation,
                              CC_Outcome = outcome, CC_ReportedOutcomeAt = now\<rparr> m
                       else m)
          in releaseBackendInflight i (m\<lparr>MG_probes := mdel attemptID (MG_probes m)\<rparr>))"

section \<open>Renewing probes\<close>

definition probesToRenew :: "Manager \<Rightarrow> ProbeIdentity list" where
  "probesToRenew m = map snd (MG_probes m)"

definition renewProbes :: "RenewResult list \<Rightarrow> Manager \<Rightarrow> Manager" where
  "renewProbes results m =
     (let lost = filter (\<lambda>r. RR_Reason r = ReasonLeaseLost) results
      in m\<lparr>MG_probes := fold (\<lambda>r. mdel (LI_LeaseID (RR_Lease r))) lost (MG_probes m),
           MG_probesLost := MG_probesLost m + length lost\<rparr>)"

end
