(* ===== verification/Monitor_Properties.thy ===== *)
theory Monitor_Properties
  imports Monitor_Manager
begin

text \<open>
  What the manager of \<^verbatim>\<open>internal/monitor/manager.go\<close> keeps true while requests, polls, reconciliations,
  observations and replays interleave: the in-flight counters are exact, breaker pointers are never
  \<^verbatim>\<open>nil\<close>, the backlog of circuit failures is bounded and accounted for, and a reconciliation leaves exactly the
  workers of the enabled backends.
\<close>

section \<open>Frames\<close>

text \<open>The breaker of every worker exists, and a breaker can be made if there is a worker.\<close>

definition backed :: "Manager \<Rightarrow> managedWorker \<Rightarrow> bool" where
  "backed m w \<longleftrightarrow> (\<exists>a. MW_breaker w = Some a \<and> a < length (MG_breakers m))"

definition ptr_ok :: "Manager \<Rightarrow> bool" where
  "ptr_ok m \<longleftrightarrow> \<not> MG_panicked m \<and> mwf (MG_workers m) \<and>
     (\<forall>i w. mget (MG_workers m) i = Some w \<longrightarrow> backed m w \<and> (\<exists>b. NewBreaker (Op_Circuit (MG_options m)) = Inr b))"

definition workerAt :: "Manager \<Rightarrow> int \<Rightarrow> (Worker \<times> int) option" where
  "workerAt m i = map_option (\<lambda>w. (MW_worker w, MW_generation w)) (mget (MG_workers m) i)"

text \<open>Nothing but breakers, and which breaker a worker has, differs.\<close>

definition same_core :: "Manager \<Rightarrow> Manager \<Rightarrow> bool" where
  "same_core m m' \<longleftrightarrow> MG_options m' = MG_options m \<and> workerAt m' = workerAt m \<and>
     length (MG_breakers m) \<le> length (MG_breakers m') \<and> MG_poolInflight m' = MG_poolInflight m \<and>
     MG_backendInflight m' = MG_backendInflight m \<and> MG_nextGen m' = MG_nextGen m \<and> MG_shutdown m' = MG_shutdown m \<and>
     MG_probes m' = MG_probes m \<and> MG_circuitBacklog m' = MG_circuitBacklog m \<and> MG_buffered m' = MG_buffered m \<and>
     MG_expired m' = MG_expired m \<and> MG_overflow m' = MG_overflow m \<and> MG_probesLost m' = MG_probesLost m"

lemma same_core_refl [simp]: "same_core m m"
  by (simp add: same_core_def)

lemma same_core_trans: "same_core a b \<Longrightarrow> same_core b c \<Longrightarrow> same_core a c"
  by (auto simp: same_core_def)

lemma workerAt_cong: "MG_workers m' = MG_workers m \<Longrightarrow> workerAt m' = workerAt m"
  by (simp add: workerAt_def fun_eq_iff)

definition ok_step :: "Manager \<Rightarrow> Manager \<Rightarrow> bool" where
  "ok_step m m' \<longleftrightarrow> ptr_ok m' \<and> same_core m m'"

lemma ok_step_refl: "ptr_ok m \<Longrightarrow> ok_step m m"
  by (simp add: ok_step_def)

lemma ok_step_trans: "ok_step a b \<Longrightarrow> ok_step b c \<Longrightarrow> ok_step a c"
  using same_core_trans by (auto simp: ok_step_def)

text \<open>A worker as it is in the map, up to its breaker.\<close>

definition stands :: "Manager \<Rightarrow> int \<Rightarrow> managedWorker \<Rightarrow> bool" where
  "stands m i w \<longleftrightarrow> workerAt m i = Some (MW_worker w, MW_generation w) \<and> backed m w"

lemma stands_step: "ok_step m m' \<Longrightarrow> stands m i w \<Longrightarrow> stands m' i w"
  by (auto simp: ok_step_def same_core_def stands_def backed_def)

lemma stands_entry: "ptr_ok m \<Longrightarrow> mget (MG_workers m) i = Some w \<Longrightarrow> stands m i w"
  by (simp add: stands_def workerAt_def ptr_ok_def)

lemma standsE:
  assumes "stands m i w" and "ptr_ok m"
  obtains w' a b where "mget (MG_workers m) i = Some w'" "MW_worker w' = MW_worker w" "MW_generation w' = MW_generation w"
    "MW_breaker w = Some a" "a < length (MG_breakers m)" "NewBreaker (Op_Circuit (MG_options m)) = Inr b"
proof -
  obtain w' where "mget (MG_workers m) i = Some w'" "MW_worker w' = MW_worker w" "MW_generation w' = MW_generation w"
    using assms(1) by (auto simp: stands_def workerAt_def)
  moreover from this obtain b where "NewBreaker (Op_Circuit (MG_options m)) = Inr b" using assms(2) unfolding ptr_ok_def by blast
  moreover obtain a where "MW_breaker w = Some a" "a < length (MG_breakers m)" using assms(1) by (auto simp: stands_def backed_def)
  ultimately show thesis using that by blast
qed

lemma stepBreaker_ok: "ptr_ok m \<Longrightarrow> ok_step m (stepBreaker a e m)"
  by (auto simp: ok_step_def same_core_def stepBreaker_def ptr_ok_def backed_def workerAt_def fun_eq_iff)

lemma breakerSnapshot_ok:
  assumes "ptr_ok m" and "breakerSnapshot p t m = (m', r)" and "p = Some a"
  shows "ok_step m m'" and "r \<noteq> None"
  using assms stepBreaker_ok by (auto simp: breakerSnapshot_def)

lemma breakerAcquire_ok:
  assumes "ptr_ok m" and "breakerAcquire p t m = (m', r)" and "p = Some a"
  shows "ok_step m m'" and "r = Some (b, n) \<Longrightarrow> b = a"
  using assms stepBreaker_ok by (auto simp: breakerAcquire_def split: if_splits)

lemma emergencyBreaker_ok:
  assumes ok: "ptr_ok m" and w: "stands m i w" and e: "emergencyBreaker v i w m = (m', p)"
  shows "ok_step m m'" and "\<exists>a. p = Some a \<and> a < length (MG_breakers m')"
proof -
  obtain w' a b where w': "mget (MG_workers m) i = Some w'" "MW_worker w' = MW_worker w" "MW_generation w' = MW_generation w"
    and a: "MW_breaker w = Some a" "a < length (MG_breakers m)" and b: "NewBreaker (Op_Circuit (MG_options m)) = Inr b"
    using standsE [OF w ok] by blast
  have "ok_step m m' \<and> (\<exists>a. p = Some a \<and> a < length (MG_breakers m'))"
  proof (cases "\<exists>r. CV_recovery v = Some r \<and> RS_LastSuccess r > MW_lastRecovery w")
    case False
    then have "m' = m" "p = MW_breaker w" using e by (auto simp: emergencyBreaker_def split: option.splits if_splits)
    then show ?thesis using a ok by (simp add: ok_step_refl)
  next
    case True
    then obtain r where r: "CV_recovery v = Some r" "RS_LastSuccess r > MW_lastRecovery w" by blast
    let ?w = "w\<lparr>MW_breaker := Some (length (MG_breakers m)), MW_lastRecovery := RS_LastSuccess r\<rparr>"
    have e': "m' = m\<lparr>MG_breakers := MG_breakers m @ [breaker_start b], MG_workers := mput i ?w (MG_workers m)\<rparr>"
      "p = Some (length (MG_breakers m))"
      using e r b by (auto simp: emergencyBreaker_def newBreaker_def)
    have "backed m x \<Longrightarrow> backed m' x" for x by (auto simp: backed_def e')
    moreover have "backed m' ?w" by (simp add: backed_def e')
    ultimately have "ptr_ok m'" using ok b by (auto simp: ptr_ok_def e'(1) split: if_splits)
    moreover have "same_core m m'" using w' by (auto simp: same_core_def e' workerAt_def fun_eq_iff)
    ultimately show ?thesis by (simp add: ok_step_def e')
  qed
  then show "ok_step m m'" "\<exists>a. p = Some a \<and> a < length (MG_breakers m')" by auto
qed

lemma snapshotManaged_ok:
  assumes "ptr_ok m" and "stands m i w"
  shows "ok_step m (fst (snapshotManaged v i w t m))"
proof (cases "Op_CircuitCoordinator (MG_options m) \<and> \<not> coordinationReady v")
  case True
  obtain m1 p where e: "emergencyBreaker v i w m = (m1, p)" by fastforce
  note s1 = emergencyBreaker_ok [OF assms e]
  obtain a where p: "p = Some a" using s1(2) by blast
  obtain m2 r where b: "breakerSnapshot p t m1 = (m2, r)" by fastforce
  have "ok_step m1 m2" using breakerSnapshot_ok(1) [OF _ b p] s1(1) by (simp add: ok_step_def)
  with s1(1) True e b show ?thesis by (auto simp: snapshotManaged_def Let_def intro: ok_step_trans)
next
  case False
  obtain a where a: "MW_breaker w = Some a" using assms(2) by (auto simp: stands_def backed_def)
  obtain m2 r where b: "breakerSnapshot (MW_breaker w) t m = (m2, r)" by fastforce
  from breakerSnapshot_ok [OF assms(1) b a] b a False assms(1) show ?thesis
    by (auto simp: snapshotManaged_def Let_def ok_step_refl split: option.splits)
qed

lemma scan_ok:
  assumes "ptr_ok m" and "\<forall>(i, w) \<in> set ws. stands m i w"
  shows "ok_step m (fst (fold (scanWorker v p t) ws (m, s)))"
  using assms
proof (induction ws arbitrary: m s)
  case (Cons iw ws)
  obtain i w where iw: "iw = (i, w)" by fastforce
  obtain m1 s1 where e: "scanWorker v p t iw (m, s) = (m1, s1)" by fastforce
  have "ok_step m (fst (snapshotManaged v i w t m))" using snapshotManaged_ok Cons.prems iw by simp
  moreover have "m1 = m \<or> m1 = fst (snapshotManaged v i w t m)"
    using e iw by (auto simp: scanWorker_def Let_def case_prod_unfold split: if_splits)
  ultimately have s1: "ok_step m m1" using Cons.prems(1) ok_step_refl by auto
  then have "\<forall>(i, w) \<in> set ws. stands m1 i w" using Cons.prems(2) stands_step by auto
  with Cons.IH [of m1 s1] s1 e show ?case by (auto simp: ok_step_def intro: same_core_trans)
qed (simp add: ok_step_refl)

lemma all_stand: "ptr_ok m \<Longrightarrow> \<forall>(i, w) \<in> set (MG_workers m). stands m i w"
proof clarify
  fix i w assume "ptr_ok m" "(i, w) \<in> set (MG_workers m)"
  then have "mget (MG_workers m) i = Some w" by (simp add: ptr_ok_def mwf_def mget_def)
  with \<open>ptr_ok m\<close> show "stands m i w" by (rule stands_entry)
qed

lemma ok_step_pools:
  "ok_step m (m'\<lparr>MG_poolMachine := x\<rparr>) = ok_step m m'" "ok_step m (m'\<lparr>MG_poolRuntime := y\<rparr>) = ok_step m m'"
  by (auto simp: ok_step_def ptr_ok_def same_core_def backed_def workerAt_def fun_eq_iff)

lemma observePool_ok:
  assumes "ptr_ok m"
  shows "ok_step m (fst (observePoolLocked v p t m))"
  using scan_ok [OF assms all_stand [OF assms], of v p t]
  by (auto simp: observePoolLocked_def Let_def case_prod_unfold ok_step_pools)

lemma fold_ok:
  assumes "\<And>m x. ptr_ok m \<Longrightarrow> ok_step m (f x m)"
  shows "ptr_ok m \<Longrightarrow> ok_step m (fold f xs m)"
proof (induction xs arbitrary: m)
  case (Cons x xs)
  have "ok_step m (f x m)" using assms Cons.prems .
  moreover from this have "ok_step (f x m) (fold f xs (f x m))" using Cons.IH by (simp add: ok_step_def)
  ultimately show ?case using ok_step_trans by simp
qed (simp add: ok_step_refl)

lemma observePoolRuntime_ok:
  assumes "ptr_ok m"
  shows "ok_step m (observePoolRuntime v t m)"
proof -
  let ?drop = "\<lambda>p m. m\<lparr>MG_poolMachine := mdel p (MG_poolMachine m), MG_poolRuntime := mdel p (MG_poolRuntime m)\<rparr>"
  let ?observe = "\<lambda>p m. let (m, r) = observePoolLocked v p t m in m\<lparr>MG_poolRuntime := mput p r (MG_poolRuntime m)\<rparr>"
  have "ok_step m (fold ?drop ps m)" for ps
    using assms by (intro fold_ok) (simp_all add: ok_step_pools ok_step_refl)
  moreover from this have "ok_step (fold ?drop ps m) (fold ?observe qs (fold ?drop ps m))" for ps qs
    by (intro fold_ok) (auto simp: ok_step_pools case_prod_unfold Let_def observePool_ok ok_step_def [of m])
  ultimately show ?thesis
    using assms ok_step_trans unfolding observePoolRuntime_def Let_def by (cases "MG_shutdown m") (simp add: ok_step_refl, simp only: if_False, blast)
qed

section \<open>Reconciliation\<close>

definition same_tickets :: "Manager \<Rightarrow> Manager \<Rightarrow> bool" where
  "same_tickets m m' \<longleftrightarrow> MG_options m' = MG_options m \<and> length (MG_breakers m) \<le> length (MG_breakers m') \<and>
     MG_nextGen m \<le> MG_nextGen m' \<and> MG_backendInflight m' = MG_backendInflight m \<and>
     MG_circuitBacklog m' = MG_circuitBacklog m \<and> MG_buffered m' = MG_buffered m \<and> MG_expired m' = MG_expired m \<and>
     MG_overflow m' = MG_overflow m"

definition generations_ok :: "Manager \<Rightarrow> bool" where
  "generations_ok m \<longleftrightarrow> (\<forall>i w g. workerAt m i = Some (w, g) \<longrightarrow> 0 < g \<and> g \<le> MG_nextGen m)"

lemma same_core_books: "same_core m m' \<Longrightarrow> same_tickets m m'"
  by (simp add: same_core_def same_tickets_def)

lemma same_tickets_refl [simp]: "same_tickets m m"
  by (simp add: same_tickets_def)

lemma same_tickets_trans: "same_tickets a b \<Longrightarrow> same_tickets b c \<Longrightarrow> same_tickets a c"
  by (auto simp: same_tickets_def)

lemma same_core_generations: "same_core m m' \<Longrightarrow> generations_ok m \<Longrightarrow> generations_ok m'"
  by (simp add: same_core_def generations_ok_def)

lemma startWorkers_spec:
  assumes "ptr_ok m" and "generations_ok m" and "0 \<le> MG_nextGen m" and "startWorkers new ds m = (m', r)" and "distinct (map fst ds)"
  shows "ptr_ok m' \<and> generations_ok m' \<and> same_tickets m m' \<and>
    (\<forall>i. i \<notin> fst ` set ds \<longrightarrow> workerAt m' i = workerAt m i) \<and>
    (r = None \<longrightarrow> (\<forall>(i, b) \<in> set ds. \<exists>w g. workerAt m' i = Some (w, g) \<and> MG_nextGen m < g \<and> new b (MG_options m) = Inr w))"
  using assms
proof (induction ds arbitrary: m)
  case (Cons d ds)
  obtain i b where d: "d = (i, b)" by fastforce
  show ?case
  proof (cases "\<exists>br w. NewBreaker (Op_Circuit (MG_options m)) = Inr br \<and> new b (MG_options m) = Inr w")
    case False
    then have "m' = m" "r \<noteq> None" using Cons.prems(4) d by (auto split: sum.splits)
    with Cons.prems show ?thesis by auto
  next
    case True
    then obtain br w where br: "NewBreaker (Op_Circuit (MG_options m)) = Inr br" and w: "new b (MG_options m) = Inr w" by blast
    define entry where "entry = \<lparr>MW_worker = w, MW_generation = MG_nextGen m + 1, MW_breaker = Some (length (MG_breakers m)), MW_lastRecovery = 0\<rparr>"
    define m1 where "m1 = m\<lparr>MG_nextGen := MG_nextGen m + 1, MG_breakers := MG_breakers m @ [breaker_start br],
      MG_workers := mput i entry (MG_workers m)\<rparr>"
    have run: "startWorkers new ds m1 = (m', r)" using Cons.prems(4) d br w by (simp add: m1_def entry_def Let_def)
    have at1: "workerAt m1 = (workerAt m)(i \<mapsto> (w, MG_nextGen m + 1))" by (auto simp: workerAt_def m1_def entry_def fun_eq_iff)
    have "backed m x \<Longrightarrow> backed m1 x" for x by (auto simp: backed_def m1_def)
    moreover have "backed m1 entry" by (simp add: backed_def m1_def entry_def)
    ultimately have "ptr_ok m1" using Cons.prems(1) br by (auto simp: ptr_ok_def m1_def split: if_splits)
    moreover have "generations_ok m1"
      using Cons.prems(2,3) unfolding generations_ok_def at1 by (fastforce simp: m1_def split: if_splits)
    ultimately have rest: "ptr_ok m' \<and> generations_ok m' \<and> same_tickets m1 m' \<and>
      (\<forall>j. j \<notin> fst ` set ds \<longrightarrow> workerAt m' j = workerAt m1 j) \<and>
      (r = None \<longrightarrow> (\<forall>(j, c) \<in> set ds. \<exists>w g. workerAt m' j = Some (w, g) \<and> MG_nextGen m1 < g \<and> new c (MG_options m1) = Inr w))"
      using Cons.IH [OF _ _ _ run] Cons.prems(3,5) by (simp add: m1_def)
    moreover have "same_tickets m m1" by (simp add: same_tickets_def m1_def)
    moreover have "i \<notin> fst ` set ds" using Cons.prems(5) d by simp
    ultimately show ?thesis
      using w d at1 same_tickets_trans by (fastforce simp: m1_def)
  qed
qed simp

lemma desiredBackends_spec:
  assumes id: "\<And>b b' e. validate b = (b', e) \<Longrightarrow> Backend_ID b' = Backend_ID b"
    and "desiredBackends validate bs d = Inr d'" and "mwf d"
  shows "mwf d' \<and> (\<forall>i. mget d' i =
    (case mget d i of Some b \<Rightarrow> Some b
     | None \<Rightarrow> map_option (\<lambda>b. fst (validate b)) (List.find (\<lambda>b. Backend_Enabled b \<and> Backend_ID b = i) bs)))"
  using assms(2,3)
proof (induction bs arbitrary: d)
  case (Cons b bs)
  show ?case
  proof (cases "Backend_Enabled b")
    case False
    then have "List.find (\<lambda>b. Backend_Enabled b \<and> Backend_ID b = i) (b # bs) =
      List.find (\<lambda>b. Backend_Enabled b \<and> Backend_ID b = i) bs" for i by simp
    with False Cons show ?thesis by (simp only: desiredBackends.simps not_False_eq_True if_True) blast
  next
    case True
    obtain b' where v: "validate b = (b', None)" and free: "mget d (Backend_ID b) = None"
      and run: "desiredBackends validate bs (mput (Backend_ID b') b' d) = Inr d'"
      using Cons.prems(1) True by (auto split: prod.splits option.splits if_splits)
    have "mwf (mput (Backend_ID b') b' d)" using Cons.prems(2) by simp
    from Cons.IH [OF run this] show ?thesis
      using True v free id [OF v] by (auto split: option.splits)
  qed
qed (auto split: option.split)

lemma keptWorkers_get: "mwf ws \<Longrightarrow> mget (keptWorkers d ws) i =
    (case mget ws i of None \<Rightarrow> None | Some w \<Rightarrow> if mget d i = Some (W_backend (MW_worker w)) then Some w else None)"
proof (induction ws)
  case (Cons x ws)
  then show ?case
    by (cases x) (auto simp: keptWorkers_def keeps_def mget_def mwf_def map_of_eq_None_iff split: option.splits)
qed (simp add: keptWorkers_def mget_def)

lemma keptWorkers_wf: "mwf ws \<Longrightarrow> mwf (keptWorkers d ws)"
  by (simp add: mwf_def keptWorkers_def distinct_map_filter)

lemma newBackends_get:
  assumes "mwf d"
  shows "distinct (map fst (newBackends d ws))"
    and "(i, b) \<in> set (newBackends d ws) \<longleftrightarrow> mget d i = Some b \<and> (\<forall>w. mget ws i = Some w \<longrightarrow> b \<noteq> W_backend (MW_worker w))"
  using assms
  by (auto simp: newBackends_def mwf_def mget_def distinct_map_filter split: option.splits)

text \<open>The state between the two loops: only the workers that are kept.\<close>

lemma kept_ok:
  assumes "ptr_ok m" "generations_ok m"
  shows "ptr_ok (m\<lparr>MG_workers := keptWorkers d (MG_workers m)\<rparr>)" "generations_ok (m\<lparr>MG_workers := keptWorkers d (MG_workers m)\<rparr>)"
    "same_tickets m (m\<lparr>MG_workers := keptWorkers d (MG_workers m)\<rparr>)"
proof -
  have wf: "mwf (MG_workers m)" using assms(1) by (simp add: ptr_ok_def)
  have sub: "mget (keptWorkers d (MG_workers m)) i = Some w \<Longrightarrow> mget (MG_workers m) i = Some w" for i w
    using keptWorkers_get [OF wf, of d i] by (auto split: option.splits if_splits)
  show "ptr_ok (m\<lparr>MG_workers := keptWorkers d (MG_workers m)\<rparr>)"
    using assms(1) keptWorkers_wf [OF wf] by (auto simp: ptr_ok_def backed_def dest!: sub)
  show "generations_ok (m\<lparr>MG_workers := keptWorkers d (MG_workers m)\<rparr>)"
    using assms(2) by (auto simp: generations_ok_def workerAt_def dest!: sub)
  show "same_tickets m (m\<lparr>MG_workers := keptWorkers d (MG_workers m)\<rparr>)" by (simp add: same_tickets_def)
qed

text \<open>What a successful reconciliation leaves for one backend identifier.\<close>

definition reconciled ::
  "(Backend \<Rightarrow> Backend) \<Rightarrow> Backend list \<Rightarrow> Manager \<Rightarrow> Manager \<Rightarrow> int \<Rightarrow> bool" where
  "reconciled normal backends m m' i =
     (case List.find (\<lambda>b. Backend_Enabled b \<and> Backend_ID b = i) backends of
        None \<Rightarrow> workerAt m' i = None
      | Some b \<Rightarrow>
          (case workerAt m i of
             Some (w, g) \<Rightarrow>
               if W_backend w = normal b then workerAt m' i = Some (w, g)
               else (\<exists>w' g'. workerAt m' i = Some (w', g') \<and> MG_nextGen m < g')
           | None \<Rightarrow> (\<exists>w' g'. workerAt m' i = Some (w', g') \<and> MG_nextGen m < g')))"

lemma Reconcile_spec:
  assumes id: "\<And>b b' e. validate b = (b', e) \<Longrightarrow> Backend_ID b' = Backend_ID b"
    and ok: "ptr_ok m" "generations_ok m" "0 \<le> MG_nextGen m"
    and r: "manager_Reconcile validate new circuits v now backends m = (m', res)"
  shows "ptr_ok m' \<and> generations_ok m' \<and> same_tickets m m' \<and> (res = None \<longrightarrow> (\<forall>i. reconciled (fst \<circ> validate) backends m m' i))"
proof (cases "\<exists>desired. desiredBackends validate backends mempty = Inr desired \<and> \<not> MG_shutdown m \<and>
    (if Op_CircuitCoordinator (MG_options m) then circuits else None) = None")
  case False
  then have "m' = m" "res \<noteq> None" using r by (auto simp: manager_Reconcile_def split: sum.splits option.splits if_splits)
  with ok show ?thesis by auto
next
  case True
  then obtain d where d: "desiredBackends validate backends mempty = Inr d" and live: "\<not> MG_shutdown m"
    and c: "(if Op_CircuitCoordinator (MG_options m) then circuits else None) = None" by blast
  let ?m = "m\<lparr>MG_workers := keptWorkers d (MG_workers m)\<rparr>"
  obtain m1 r1 where run: "startWorkers new (newBackends d (MG_workers m)) ?m = (m1, r1)" by fastforce
  note spec = desiredBackends_spec [OF id d mwf_mempty]
  note k = kept_ok [OF ok(1,2), of d]
  have wf: "mwf d" "mwf (MG_workers m)" using spec ok(1) by (simp_all add: ptr_ok_def)
  note st = startWorkers_spec [OF k(1,2) _ run newBackends_get(1) [OF wf(1)]]
  have m1: "ptr_ok m1" "generations_ok m1" "same_tickets m m1" using st ok(3) same_tickets_trans [OF k(3)] by auto
  have m': "res = r1 \<and> m' = (if r1 = None then observePoolRuntime v now m1 else m1)"
    using r d live c run by (cases r1) (auto simp: manager_Reconcile_def Let_def)
  have o': "ok_step m1 (observePoolRuntime v now m1)" using observePoolRuntime_ok m1(1) .
  have at': "workerAt m' = workerAt m1" using m' o' by (auto simp: ok_step_def same_core_def)
  have "ptr_ok m' \<and> generations_ok m' \<and> same_tickets m m'"
    using m' m1 o' same_core_generations same_core_books same_tickets_trans by (auto simp: ok_step_def)
  moreover have "reconciled (fst \<circ> validate) backends m m' i" if "res = None" for i
  proof -
    have r1: "r1 = None" using m' that by simp
    have di: "mget d i = map_option (fst \<circ> validate) (List.find (\<lambda>b. Backend_Enabled b \<and> Backend_ID b = i) backends)"
      using spec by (simp add: comp_def)
    have new: "\<exists>w g. workerAt m1 i = Some (w, g) \<and> MG_nextGen m < g" if "(i, b) \<in> set (newBackends d (MG_workers m))" for b
      using st ok(3) r1 that by fastforce
    have old: "workerAt m1 i = workerAt ?m i" if "\<And>b. (i, b) \<notin> set (newBackends d (MG_workers m))"
    proof -
      have "i \<notin> fst ` set (newBackends d (MG_workers m))" using that by force
      then show ?thesis using st ok(3) by simp
    qed
    have "workerAt ?m i = (case mget (MG_workers m) i of None \<Rightarrow> None
        | Some w \<Rightarrow> if mget d i = Some (W_backend (MW_worker w)) then Some (MW_worker w, MW_generation w) else None)"
      by (simp add: workerAt_def keptWorkers_get [OF wf(2)] split: option.split)
    with di new old newBackends_get(2) [OF wf(1), of i _ "MG_workers m"] show ?thesis
      unfolding reconciled_def at' by (auto simp: workerAt_def split: option.splits if_splits)
  qed
  ultimately show ?thesis by blast
qed

section \<open>The manager at work\<close>

text \<open>
  The manager with the completion closures it has handed out (the backend, the closure and the flag of its
  \<^verbatim>\<open>sync.Once\<close>), the acquisitions that wait for the coordinator, the completions that are being replayed, and
  the number of completions the coordinator has taken over.
\<close>

record ManagerSystem =
  MS_manager :: Manager
  MS_tickets :: "(int \<times> completion \<times> bool) list"
  MS_acquiring :: "Backend list"
  MS_replaying :: "CircuitCompletion list option"
  MS_delivered :: nat

datatype manager_event =
    MvReconcile "go_error option" coordinationView instant "Backend list"
  | MvPoll int worker_event
  | MvObserve coordinationView instant
  | MvSnapshot coordinationView int instant
  | MvAcquire Backend instant
  | MvCoordinated nat acquireAnswer instant
  | MvComplete nat InferenceOutcome bool "go_error option" instant
  | MvReplay
  | MvReplayed instant "CircuitCompletion \<Rightarrow> go_error option"
  | MvRenewed "RenewResult list"
  | MvShutdown

text \<open>The packages the manager calls: \<^verbatim>\<open>net/url\<close> and the parser of metrics.\<close>

record packages =
  PK_urlParse :: "string \<Rightarrow> ParsedURL option"
  PK_urlString :: "ParsedURL \<Rightarrow> string"
  PK_parse :: "string \<Rightarrow> string + (string, MetricFamily) gomap"

definition pollWorker :: "packages \<Rightarrow> int \<Rightarrow> worker_event \<Rightarrow> Manager \<Rightarrow> Manager" where
  "pollWorker k i e m =
     (case mget (MG_workers m) i of
        None \<Rightarrow> m
      | Some w \<Rightarrow> m\<lparr>MG_workers := mput i (w\<lparr>MW_worker := worker_step (PK_parse k) (MW_worker w) e\<rparr>) (MG_workers m)\<rparr>)"

definition grant :: "int \<Rightarrow> Manager \<times> completion option \<Rightarrow> ManagerSystem \<Rightarrow> ManagerSystem" where
  "grant i r s =
     s\<lparr>MS_manager := fst r,
       MS_tickets := (case snd r of None \<Rightarrow> MS_tickets s | Some c \<Rightarrow> MS_tickets s @ [(i, c, False)])\<rparr>"

fun manager_step :: "packages \<Rightarrow> ManagerSystem \<Rightarrow> manager_event \<Rightarrow> ManagerSystem" where
  "manager_step k s (MvReconcile circuits v now backends) =
     s\<lparr>MS_manager := fst (manager_Reconcile (Backend_Validate (PK_urlParse k) (PK_urlString k))
       (NewWorker (PK_urlParse k) (PK_urlString k)) circuits v now backends (MS_manager s))\<rparr>"
| "manager_step k s (MvPoll i e) = s\<lparr>MS_manager := pollWorker k i e (MS_manager s)\<rparr>"
| "manager_step k s (MvObserve v t) = s\<lparr>MS_manager := observePoolRuntime v t (MS_manager s)\<rparr>"
| "manager_step k s (MvSnapshot v i t) = s\<lparr>MS_manager := fst (manager_Snapshot v i t (MS_manager s))\<rparr>"
| "manager_step k s (MvAcquire expected t) =
     (if \<not> Op_CircuitCoordinator (MG_options (MS_manager s))
      then grant (Backend_ID expected) (acquireLocal expected t (MS_manager s)) s
      else if matchesWorker expected (MS_manager s) = None then s
      else s\<lparr>MS_acquiring := MS_acquiring s @ [expected]\<rparr>)"
| "manager_step k s (MvCoordinated n answer t) =
     (if n < length (MS_acquiring s) then
        let expected = MS_acquiring s ! n;
            s = s\<lparr>MS_acquiring := take n (MS_acquiring s) @ drop (Suc n) (MS_acquiring s)\<rparr>
        in grant (Backend_ID expected) (acquireCoordinated answer expected t (MS_manager s)) s
      else s)"
| "manager_step k s (MvComplete n outcome ready err now) =
     (if n < length (MS_tickets s) then
        (case MS_tickets s ! n of
           (i, c, True) \<Rightarrow> s
         | (i, c, False) \<Rightarrow>
             s\<lparr>MS_manager := runCompletion i outcome ready err now c (MS_manager s), MS_tickets := (MS_tickets s)[n := (i, c, True)]\<rparr>)
      else s)"
| "manager_step k s MvReplay =
     (case MS_replaying s of
        None \<Rightarrow> let (m, pending) = replayTake (MS_manager s) in s\<lparr>MS_manager := m, MS_replaying := Some pending\<rparr>
      | Some _ \<Rightarrow> s)"
| "manager_step k s (MvReplayed now deliver) =
     (case MS_replaying s of
        None \<Rightarrow> s
      | Some pending \<Rightarrow>
          let (kept, expired, errs) = replayLoop now deliver pending
          in s\<lparr>MS_manager := replayMerge kept expired (MS_manager s), MS_replaying := None,
               MS_delivered := MS_delivered s + (length pending - length kept - expired)\<rparr>)"
| "manager_step k s (MvRenewed results) = s\<lparr>MS_manager := renewProbes results (MS_manager s)\<rparr>"
| "manager_step k s MvShutdown = s\<lparr>MS_manager := manager_Shutdown (MS_manager s)\<rparr>"

definition manager_start :: "Options \<Rightarrow> ManagerSystem" where
  "manager_start options = \<lparr>MS_manager = NewManager options, MS_tickets = [], MS_acquiring = [], MS_replaying = None, MS_delivered = 0\<rparr>"

definition manager_run :: "packages \<Rightarrow> ManagerSystem \<Rightarrow> manager_event list \<Rightarrow> ManagerSystem" where
  "manager_run k s es = foldl (manager_step k) s es"

section \<open>Invariant\<close>

definition openTickets :: "int \<Rightarrow> ManagerSystem \<Rightarrow> nat" where
  "openTickets i s = length (filter (\<lambda>(j, c, done). j = i \<and> \<not> done) (MS_tickets s))"

definition replaying :: "ManagerSystem \<Rightarrow> nat" where
  "replaying s = (case MS_replaying s of None \<Rightarrow> 0 | Some pending \<Rightarrow> length pending)"

definition backlog_ok :: "ManagerSystem \<Rightarrow> bool" where
  "backlog_ok s \<longleftrightarrow> (let m = MS_manager s in length (MG_circuitBacklog m) \<le> backlogCap \<and>
     MG_buffered m = length (MG_circuitBacklog m) + replaying s + MS_delivered s + MG_expired m + MG_overflow m)"

definition manager_inv :: "ManagerSystem \<Rightarrow> bool" where
  "manager_inv s \<longleftrightarrow> ptr_ok (MS_manager s) \<and> generations_ok (MS_manager s) \<and> 0 \<le> MG_nextGen (MS_manager s) \<and>
     (\<forall>i. cget (MG_backendInflight (MS_manager s)) i = int (openTickets i s)) \<and> backlog_ok s"

text \<open>A step of the manager alone that leaves the counters and the backlog.\<close>

lemma quiet_inv:
  assumes "manager_inv s" and "ptr_ok m" "generations_ok m" "same_tickets (MS_manager s) m"
  shows "manager_inv (s\<lparr>MS_manager := m\<rparr>)"
  using assms by (simp add: manager_inv_def same_tickets_def openTickets_def backlog_ok_def replaying_def Let_def)

lemma quiet_core:
  assumes "manager_inv s" and "ok_step (MS_manager s) m"
  shows "manager_inv (s\<lparr>MS_manager := m\<rparr>)"
proof (rule quiet_inv [OF assms(1)])
  show "ptr_ok m" "generations_ok m" "same_tickets (MS_manager s) m"
    using assms same_core_generations [of "MS_manager s"] same_core_books by (auto simp: ok_step_def manager_inv_def)
qed

lemma poll_ok:
  assumes "ptr_ok m" "generations_ok m"
  shows "ptr_ok (pollWorker k i e m)" "generations_ok (pollWorker k i e m)" "same_tickets m (pollWorker k i e m)"
  using assms
  by (auto simp: pollWorker_def ptr_ok_def backed_def generations_ok_def workerAt_def same_tickets_def split: option.split)

text \<open>An acquisition that is granted counts one more attempt on its backend; nothing else does.\<close>

definition granted :: "Manager \<Rightarrow> int \<Rightarrow> Manager \<times> completion option \<Rightarrow> bool" where
  "granted m i r \<longleftrightarrow> (\<exists>m0. ok_step m m0 \<and>
     (snd r = None \<and> fst r = m0 \<or> snd r \<noteq> None \<and> (\<exists>ps. fst r = (takeBackend i m0)\<lparr>MG_probes := ps\<rparr>)))"

lemma ok_step_probes: "ok_step m m' \<Longrightarrow> ptr_ok (m'\<lparr>MG_probes := ps, MG_backendInflight := n\<rparr>)"
  by (auto simp: ok_step_def ptr_ok_def backed_def)

lemma granted_None: "ok_step m m0 \<Longrightarrow> granted m i (m0, None)"
  by (auto simp: granted_def)

lemma granted_Some: "ok_step m m0 \<Longrightarrow> granted m i (takeBackend i m0, Some c)"
  unfolding granted_def by (intro exI [of _ m0]) (auto simp: takeBackend_def intro!: exI [of _ "MG_probes m0"])

lemma grant_inv:
  assumes "manager_inv s" and "granted (MS_manager s) i r"
  shows "manager_inv (grant i r s)"
proof -
  obtain m0 where m0: "ok_step (MS_manager s) m0" and c: "snd r = None \<and> fst r = m0 \<or>
      snd r \<noteq> None \<and> (\<exists>ps. fst r = (takeBackend i m0)\<lparr>MG_probes := ps\<rparr>)"
    using assms(2) by (auto simp: granted_def)
  from c show ?thesis
  proof
    assume "snd r = None \<and> fst r = m0"
    then show ?thesis using quiet_core [OF assms(1) m0] by (simp add: grant_def)
  next
    assume "snd r \<noteq> None \<and> (\<exists>ps. fst r = (takeBackend i m0)\<lparr>MG_probes := ps\<rparr>)"
    then obtain c ps where r: "snd r = Some c" "fst r = (takeBackend i m0)\<lparr>MG_probes := ps\<rparr>" by auto
    define m1 where "m1 = (takeBackend i m0)\<lparr>MG_probes := ps\<rparr>"
    have "ptr_ok m1" using m0 by (auto simp: m1_def takeBackend_def ok_step_def ptr_ok_def backed_def)
    moreover have core: "same_core (MS_manager s) m0" using m0 by (simp add: ok_step_def)
    have f: "MG_nextGen m1 = MG_nextGen (MS_manager s)" "workerAt m1 = workerAt (MS_manager s)"
      "MG_backendInflight m1 = cinc i (MG_backendInflight (MS_manager s))" "MG_circuitBacklog m1 = MG_circuitBacklog (MS_manager s)"
      "MG_buffered m1 = MG_buffered (MS_manager s)" "MG_expired m1 = MG_expired (MS_manager s)" "MG_overflow m1 = MG_overflow (MS_manager s)"
      using core by (auto simp: m1_def takeBackend_def same_core_def workerAt_def fun_eq_iff)
    have g: "grant i r s = s\<lparr>MS_manager := m1, MS_tickets := MS_tickets s @ [(i, c, False)]\<rparr>"
      using r by (simp add: grant_def m1_def)
    moreover have "generations_ok m1" "0 \<le> MG_nextGen m1" using assms(1) by (simp_all add: manager_inv_def generations_ok_def f)
    moreover have "cget (MG_backendInflight m1) j = int (openTickets j (grant i r s))" for j
      using assms(1) by (simp add: g f openTickets_def manager_inv_def)
    moreover have "backlog_ok (grant i r s)" using assms(1) by (simp add: g f backlog_ok_def replaying_def manager_inv_def Let_def)
    ultimately show ?thesis unfolding manager_inv_def by simp
  qed
qed

lemma matchesWorker_stands:
  "ptr_ok m \<Longrightarrow> matchesWorker expected m = Some w \<Longrightarrow> stands m (Backend_ID expected) w"
  by (auto simp: matchesWorker_def intro: stands_entry split: option.splits if_splits)

lemma acquireLocal_granted:
  assumes "ptr_ok m"
  shows "granted m (Backend_ID expected) (acquireLocal expected t m)"
proof (cases "matchesWorker expected m")
  case None
  then show ?thesis using assms by (simp add: acquireLocal_def granted_None ok_step_refl)
next
  case (Some w)
  obtain a where a: "MW_breaker w = Some a" using matchesWorker_stands [OF assms Some] by (auto simp: stands_def backed_def)
  obtain m1 r where b: "breakerAcquire (MW_breaker w) t m = (m1, r)" by fastforce
  from breakerAcquire_ok(1) [OF assms b a] Some b show ?thesis
    by (auto simp: acquireLocal_def granted_None granted_Some split: option.split)
qed

lemma acquireEmergency_granted:
  assumes "ptr_ok m"
  shows "granted m (Backend_ID expected) (acquireEmergencyBackend v attempt expected t m)"
proof (cases "\<exists>w. emergencyAllowed v \<and> CS_State (CV_snapshot v (Backend_ID expected)) = CircuitClosed \<and> matchesWorker expected m = Some w")
  case False
  then have "acquireEmergencyBackend v attempt expected t m = (m, None)"
    by (auto simp: acquireEmergencyBackend_def Let_def split: option.split)
  then show ?thesis using assms by (simp add: granted_None ok_step_refl)
next
  case True
  then obtain w where w: "emergencyAllowed v" "CS_State (CV_snapshot v (Backend_ID expected)) = CircuitClosed" "matchesWorker expected m = Some w"
    by blast
  obtain m1 p where e: "emergencyBreaker v (Backend_ID expected) w m = (m1, p)" by fastforce
  note s1 = emergencyBreaker_ok [OF assms matchesWorker_stands [OF assms w(3)] e]
  obtain a where p: "p = Some a" using s1(2) by blast
  obtain m2 r2 where b2: "breakerSnapshot p t m1 = (m2, r2)" by fastforce
  note s2 = breakerSnapshot_ok [OF conjunct1 [OF s1(1) [unfolded ok_step_def]] b2 p]
  obtain m3 r3 where b3: "breakerAcquire p t m2 = (m3, r3)" by fastforce
  note s3 = breakerAcquire_ok(1) [OF conjunct1 [OF s2(1) [unfolded ok_step_def]] b3 p]
  have "ok_step m m2" "ok_step m m3" using s1(1) s2(1) s3 ok_step_trans by blast+
  with w e b2 b3 s2(2) show ?thesis
    by (auto simp: acquireEmergencyBackend_def Let_def granted_None granted_Some split: option.split)
qed

lemma acquireCoordinated_granted:
  assumes "ptr_ok m"
  shows "granted m (Backend_ID expected) (acquireCoordinated a expected t m)"
proof -
  have probes: "granted m i ((takeBackend i m)\<lparr>MG_probes := ps\<rparr>, Some c)" for i ps c
    unfolding granted_def using ok_step_refl [OF assms] by auto
  have "granted m (Backend_ID expected) (case matchesWorker expected m of None \<Rightarrow> (m, None) | Some managed \<Rightarrow>
      let m = takeBackend (Backend_ID expected) m;
          m = (case CD_Permit d of None \<Rightarrow> m | Some p \<Rightarrow> m\<lparr>MG_probes := mput (PI_PermitID p) p (MG_probes m)\<rparr>)
      in (m, Some c))" for d c
    using granted_Some [OF ok_step_refl [OF assms]] probes granted_None [OF ok_step_refl [OF assms]]
    by (auto simp: Let_def split: option.split)
  then show ?thesis
    using acquireEmergency_granted [OF assms] granted_None [OF ok_step_refl [OF assms]]
    by (auto simp: acquireCoordinated_def split: sum.split)
qed

section \<open>Every step keeps the invariant\<close>

text \<open>Running a completion gives back one attempt on its backend and buffers at most one failure.\<close>

definition buffers :: "Manager \<Rightarrow> Manager \<Rightarrow> bool" where
  "buffers m m' \<longleftrightarrow> (MG_circuitBacklog m' = MG_circuitBacklog m \<and> MG_buffered m' = MG_buffered m \<and> MG_overflow m' = MG_overflow m) \<or>
     (\<exists>c. let m1 = bufferCircuitFailure c m in MG_circuitBacklog m' = MG_circuitBacklog m1 \<and>
        MG_buffered m' = MG_buffered m1 \<and> MG_overflow m' = MG_overflow m1)"

lemma runCompletion_spec:
  assumes "ptr_ok m" and m'_def: "m' = runCompletion i outcome ready err now c m"
  shows "ptr_ok m'" "workerAt m' = workerAt m" "MG_nextGen m' = MG_nextGen m" "MG_expired m' = MG_expired m"
    "MG_backendInflight m' = cdec i (MG_backendInflight m)" "buffers m m'"
proof -
  note step = stepBreaker_ok [OF assms(1), unfolded ok_step_def, THEN conjunct1]
  show "ptr_ok m'"
    using assms(1) step
    by (cases c) (auto simp: m'_def runCompletion_def releaseBackendInflight_def bufferCircuitFailure_def Let_def
        ptr_ok_def backed_def split: option.split)
  note defs = m'_def runCompletion_def releaseBackendInflight_def bufferCircuitFailure_def stepBreaker_def
  show "workerAt m' = workerAt m"
    by (cases c) (auto simp: defs Let_def workerAt_def fun_eq_iff split: option.split)
  show "MG_nextGen m' = MG_nextGen m" by (cases c) (auto simp: defs Let_def split: option.split)
  show "MG_expired m' = MG_expired m" by (cases c) (auto simp: defs Let_def split: option.split)
  show "MG_backendInflight m' = cdec i (MG_backendInflight m)"
    by (cases c) (simp_all add: defs Let_def split: option.split)
  show "buffers m m'"
    by (cases c) (auto simp: defs buffers_def Let_def split: option.split)
qed

lemma buffers_backlog:
  assumes "buffers m m'" and "length (MG_circuitBacklog m) \<le> backlogCap"
    and "MG_buffered m = length (MG_circuitBacklog m) + d + MG_overflow m"
  shows "length (MG_circuitBacklog m') \<le> backlogCap \<and> MG_buffered m' = length (MG_circuitBacklog m') + d + MG_overflow m'"
  using assms by (auto simp: buffers_def bufferCircuitFailure_def Let_def)

lemma length_filter_update:
  "n < length xs \<Longrightarrow> \<not> P y \<Longrightarrow> length (filter P xs) = length (filter P (xs[n := y])) + (if P (xs ! n) then 1 else 0)"
proof (induction xs arbitrary: n)
  case (Cons x xs)
  then show ?case by (cases n) auto
qed simp

lemma openTickets_done:
  assumes "n < length (MS_tickets s)" and "MS_tickets s ! n = (i, c, False)"
  shows "openTickets j s = openTickets j (s\<lparr>MS_manager := m, MS_tickets := (MS_tickets s)[n := (i, c, True)]\<rparr>) + (if j = i then 1 else 0)"
  using length_filter_update [OF assms(1), of "\<lambda>(l, c, done). l = j \<and> \<not> done" "(i, c, True)"] assms(2)
  by (auto simp: openTickets_def)

lemma complete_ticket_inv:
  assumes inv: "manager_inv s"
  shows "manager_inv (manager_step k s (MvComplete n outcome ready err now))"
proof (cases "n < length (MS_tickets s) \<and> (\<exists>i c. MS_tickets s ! n = (i, c, False))")
  case False
  then have "manager_step k s (MvComplete n outcome ready err now) = s" by (auto split: prod.splits bool.splits)
  with inv show ?thesis by simp
next
  case True
  then obtain i c where t: "n < length (MS_tickets s)" "MS_tickets s ! n = (i, c, False)" by blast
  define m where "m = runCompletion i outcome ready err now c (MS_manager s)"
  define s' where "s' = s\<lparr>MS_manager := m, MS_tickets := (MS_tickets s)[n := (i, c, True)]\<rparr>"
  have ptr: "ptr_ok (MS_manager s)" using inv by (simp add: manager_inv_def)
  note r = runCompletion_spec [OF ptr m_def]
  have e: "manager_step k s (MvComplete n outcome ready err now) = s'" using t by (simp add: s'_def m_def)
  have "cget (MG_backendInflight m) j = int (openTickets j s')" for j
  proof -
    have "0 \<le> cget (MG_backendInflight (MS_manager s)) i" using inv by (simp add: manager_inv_def)
    then show ?thesis using inv openTickets_done [OF t, of j m, folded s'_def] openTickets_done [OF t, of i m, folded s'_def]
      by (auto simp: r(5) cget_cdec manager_inv_def)
  qed
  moreover have "backlog_ok s'"
    using inv buffers_backlog [OF r(6), of "replaying s + MS_delivered s + MG_expired (MS_manager s)"]
    by (simp add: manager_inv_def backlog_ok_def s'_def replaying_def Let_def r(4))
  ultimately show ?thesis using inv r unfolding e by (simp add: manager_inv_def generations_ok_def s'_def)
qed

lemma replayLoop_count:
  "replayLoop now deliver cs = (kept, expired, errs) \<Longrightarrow> length kept + expired \<le> length cs"
  by (induction cs arbitrary: kept expired errs) (auto simp: Let_def split: prod.splits if_splits option.splits)

lemma replayed_inv:
  assumes inv: "manager_inv s"
  shows "manager_inv (manager_step k s (MvReplayed now deliver))"
proof (cases "MS_replaying s")
  case (Some pending)
  obtain kept expired errs where l: "replayLoop now deliver pending = (kept, expired, errs)" by (metis prod_cases3)
  define m where "m = replayMerge kept expired (MS_manager s)"
  have "length kept + expired \<le> length pending" using replayLoop_count [OF l] .
  moreover have "ptr_ok m" "generations_ok m" "MG_nextGen m = MG_nextGen (MS_manager s)" "MG_backendInflight m = MG_backendInflight (MS_manager s)"
    using inv by (auto simp: m_def replayMerge_def manager_inv_def ptr_ok_def backed_def generations_ok_def workerAt_def Let_def)
  ultimately show ?thesis
    using inv Some l by (auto simp: manager_inv_def backlog_ok_def replaying_def openTickets_def m_def [symmetric] Let_def)
      (auto simp: m_def replayMerge_def Let_def)
qed (use inv in simp)

lemma Validate_id: "Backend_Validate p u b = (b', x) \<Longrightarrow> Backend_ID b' = Backend_ID b"
  by (auto simp: Backend_Validate_def Let_def split: if_splits option.splits)

lemma manager_step_inv:
  assumes inv: "manager_inv s"
  shows "manager_inv (manager_step k s e)"
proof -
  have ok: "ptr_ok (MS_manager s)" "generations_ok (MS_manager s)" "0 \<le> MG_nextGen (MS_manager s)"
    using inv by (simp_all add: manager_inv_def)
  show ?thesis
  proof (cases e)
    case (MvReconcile circuits v now backends)
    obtain m' res where r: "manager_Reconcile (Backend_Validate (PK_urlParse k) (PK_urlString k))
        (NewWorker (PK_urlParse k) (PK_urlString k)) circuits v now backends (MS_manager s) = (m', res)" by fastforce
    have "ptr_ok m' \<and> generations_ok m' \<and> same_tickets (MS_manager s) m'"
      using Reconcile_spec [OF _ ok r] Validate_id by blast
    with quiet_inv [OF inv, of m'] show ?thesis unfolding MvReconcile manager_step.simps r fst_conv by blast
  next
    case (MvPoll i ev)
    then show ?thesis using quiet_inv [OF inv poll_ok(1,2) poll_ok(3)] ok by simp
  next
    case (MvObserve v t)
    then show ?thesis using quiet_core [OF inv observePoolRuntime_ok [OF ok(1)]] by simp
  next
    case (MvSnapshot v i t)
    have "ok_step (MS_manager s) (fst (manager_Snapshot v i t (MS_manager s)))"
      using ok(1) snapshotManaged_ok [OF ok(1) stands_entry [OF ok(1)]]
      by (auto simp: manager_Snapshot_def Let_def ok_step_refl case_prod_unfold split: option.split)
    with MvSnapshot quiet_core [OF inv] show ?thesis by simp
  next
    case (MvAcquire expected t)
    have "manager_inv (s\<lparr>MS_acquiring := xs\<rparr>)" for xs
      using inv by (simp add: manager_inv_def openTickets_def backlog_ok_def replaying_def)
    with MvAcquire grant_inv [OF inv acquireLocal_granted [OF ok(1)]] inv show ?thesis by simp
  next
    case (MvCoordinated n answer t)
    have "manager_inv (s\<lparr>MS_acquiring := xs\<rparr>)" for xs
      using inv by (simp add: manager_inv_def openTickets_def backlog_ok_def replaying_def)
    from grant_inv [OF this] acquireCoordinated_granted [OF ok(1)] MvCoordinated inv show ?thesis by (simp add: Let_def)
  next
    case (MvComplete n outcome ready err now)
    then show ?thesis using complete_ticket_inv [OF inv] by simp
  next
    case MvReplay
    then show ?thesis
      using inv by (auto simp: replayTake_def manager_inv_def ptr_ok_def backed_def generations_ok_def workerAt_def
          openTickets_def backlog_ok_def replaying_def Let_def split: option.split)
  next
    case (MvReplayed now deliver)
    then show ?thesis using replayed_inv [OF inv] by simp
  next
    case (MvRenewed results)
    then show ?thesis
      using inv by (auto simp: renewProbes_def manager_inv_def ptr_ok_def backed_def generations_ok_def workerAt_def
          openTickets_def backlog_ok_def replaying_def Let_def)
  next
    case MvShutdown
    have "ptr_ok (manager_Shutdown (MS_manager s))" "generations_ok (manager_Shutdown (MS_manager s))"
      "same_tickets (MS_manager s) (manager_Shutdown (MS_manager s))"
      using ok by (auto simp: manager_Shutdown_def ptr_ok_def generations_ok_def workerAt_def same_tickets_def)
    with MvShutdown quiet_inv [OF inv] show ?thesis by simp
  qed
qed

lemma manager_run_inv: "manager_inv s \<Longrightarrow> manager_inv (manager_run k s es)"
  unfolding manager_run_def by (induction es arbitrary: s) (simp_all add: manager_step_inv del: manager_step.simps)

lemma manager_start_inv: "manager_inv (manager_start options)"
  by (auto simp: manager_inv_def manager_start_def NewManager_def Let_def ptr_ok_def generations_ok_def workerAt_def
      openTickets_def backlog_ok_def replaying_def)

section \<open>Properties\<close>

text \<open>C11: whatever requests, polls, reconciliations, observations, replays and shutdown do in whatever order, and whatever
  the coordinator answers, the gateway's in-flight counter of every backend is exactly the number of its attempts that
  have not been completed, even when its worker has been replaced meanwhile; no \<^verbatim>\<open>nil\<close> breaker is ever called; and every
  buffered circuit failure is waiting, being replayed, taken over by the coordinator, or counted as expired or as overflow,
  with at most 4096 waiting.\<close>

theorem monitor_books_balance:
  "let s = manager_run k (manager_start options) es; m = MS_manager s in
     (\<forall>i. cget (MG_backendInflight m) i = int (openTickets i s)) \<and> \<not> MG_panicked m \<and> CircuitReplayBacklog m \<le> 4096 \<and>
     MG_buffered m = CircuitReplayBacklog m + replaying s + MS_delivered s + MG_expired m + MG_overflow m"
  using manager_run_inv [OF manager_start_inv, of k options es]
  by (simp add: manager_inv_def backlog_ok_def ptr_ok_def CircuitReplayBacklog_def backlogCap_def Let_def)

text \<open>C22: a successful reconciliation, in any reachable state, leaves a worker for exactly the enabled backends: one whose
  configuration is unchanged keeps its worker with its generation and health, every other one gets a new worker whose
  generation is greater than all earlier ones.\<close>

theorem reconcile_exact:
  assumes "m = MS_manager (manager_run k (manager_start options) es)"
    and "manager_Reconcile (Backend_Validate (PK_urlParse k) (PK_urlString k)) (NewWorker (PK_urlParse k) (PK_urlString k))
      circuits v now backends m = (m', None)"
  shows "reconciled (fst \<circ> Backend_Validate (PK_urlParse k) (PK_urlString k)) backends m m' i \<and>
    HasWorker i m' = (\<exists>b \<in> set backends. Backend_Enabled b \<and> Backend_ID b = i)"
proof -
  have inv: "ptr_ok m" "generations_ok m" "0 \<le> MG_nextGen m"
    using manager_run_inv [OF manager_start_inv, of k options es] by (simp_all add: assms(1) manager_inv_def)
  have r: "reconciled (fst \<circ> Backend_Validate (PK_urlParse k) (PK_urlString k)) backends m m' i"
    using Reconcile_spec [OF _ inv assms(2)] Validate_id by blast
  moreover have "HasWorker i m' = (List.find (\<lambda>b. Backend_Enabled b \<and> Backend_ID b = i) backends \<noteq> None)"
    using r by (auto simp: reconciled_def HasWorker_def workerAt_def split: option.splits if_splits)
  ultimately show ?thesis by (auto simp: find_None_iff)
qed

section \<open>An example\<close>

definition demo_packages :: packages where
  "demo_packages = \<lparr>PK_urlParse = (\<lambda>_. Some demo_url), PK_urlString = (\<lambda>_. ''http://a''), PK_parse = (\<lambda>_. Inl [])\<rparr>"

definition demo_view :: coordinationView where
  "demo_view = \<lparr>CV_status = \<lparr>St_Backend = [], St_Available = True, St_Degraded = False, St_Permanent = False, St_LastSuccess = 0,
     St_Reason = NoReason\<rparr>, CV_ready = True, CV_recovery = None, CV_snapshot = (\<lambda>i. \<lparr>CS_Backend = \<lparr>BI_ID = i, BI_Revision = 0,
     BI_Enabled = True, BI_Draining = False\<rparr>, CS_State = CircuitClosed, CS_Generation = 0, CS_FailureCount = 0, CS_RetryAt = 0,
     CS_ProbesInFlight = 0, CS_Available = True\<rparr>)\<rparr>"

definition demo_reconcile :: "Manager \<times> ReconcileError option" where
  "demo_reconcile = manager_Reconcile (Backend_Validate (PK_urlParse demo_packages) (PK_urlString demo_packages))
     (NewWorker (PK_urlParse demo_packages) (PK_urlString demo_packages)) None demo_view 10
     [demo_backend, demo_backend\<lparr>Backend_ID := 4, Backend_Enabled := False\<rparr>] (NewManager demo_options)"

lemma demo_reconciles: "snd demo_reconcile = None"
proof -
  have "NewManager demo_options = \<lparr>MG_options = demo_options, MG_workers = mempty, MG_breakers = [], MG_poolMachine = mempty,
      MG_poolRuntime = mempty, MG_poolInflight = mempty, MG_backendInflight = mempty, MG_nextGen = 0, MG_shutdown = False,
      MG_probes = mempty, MG_circuitBacklog = [], MG_buffered = 0, MG_expired = 0, MG_overflow = 0, MG_probesLost = 0,
      MG_panicked = False\<rparr>"
    by (simp add: NewManager_def Let_def demo_options_def zeroCircuit_def)
  moreover have "desiredBackends (Backend_Validate (PK_urlParse demo_packages) (PK_urlString demo_packages))
      [demo_backend, demo_backend\<lparr>Backend_ID := 4, Backend_Enabled := False\<rparr>] mempty = Inr (mput 3 demo_backend mempty)"
    using demo_Validate by (simp add: demo_packages_def) (simp add: demo_backend_def)
  moreover have "newBackends (mput 3 demo_backend mempty) mempty = [(3, demo_backend)]"
    by (simp add: newBackends_def mput_def mempty_def mget_def)
  moreover have "\<exists>b. NewBreaker (Op_Circuit demo_options) = Inr b" by (simp add: NewBreaker_def demo_options_def)
  ultimately show ?thesis
    using demo_NewWorker
    by (auto simp: demo_reconcile_def manager_Reconcile_def demo_packages_def Let_def case_prod_unfold split: option.split)
qed

theorem reconcile_exact_witness: "HasWorker 3 (fst demo_reconcile) \<and> \<not> HasWorker 4 (fst demo_reconcile)"
proof -
  have r: "manager_Reconcile (Backend_Validate (PK_urlParse demo_packages) (PK_urlString demo_packages))
     (NewWorker (PK_urlParse demo_packages) (PK_urlString demo_packages)) None demo_view 10
     [demo_backend, demo_backend\<lparr>Backend_ID := 4, Backend_Enabled := False\<rparr>] (NewManager demo_options) = (fst demo_reconcile, None)"
    using demo_reconciles by (metis demo_reconcile_def prod.collapse)
  have m: "NewManager demo_options = MS_manager (manager_run demo_packages (manager_start demo_options) [])"
    by (simp add: manager_run_def manager_start_def)
  show ?thesis
    using reconcile_exact [OF m r, of 3] reconcile_exact [OF m r, of 4] by (simp add: demo_backend_def)
qed

end
