(* ===== verification/Divergences.thy ===== *)
theory Divergences
  imports Monitor_Manager Local_Circuit Admission_Invariant
begin

text \<open>
  Places where two components that are meant to agree do not: what the local coordinators answer to a renewal,
  against what their callers and the PostgreSQL coordinators do.
\<close>

text \<open>
  The local circuit coordinator reports a lost probe without its permit identifier
  (\<^verbatim>\<open>internal/coordination/local/circuit.go\<close>), while the monitor forgets a lost probe by that identifier
  (\<^verbatim>\<open>internal/monitor/manager.go\<close>): the monitor keeps renewing the lost probe and counts it as lost each time.
\<close>

lemma lost_probe_not_forgotten:
  assumes "mget (CC_attempts c) (PI_PermitID p) = None" and "PI_PermitID p \<noteq> 0"
  shows "let m' = renewProbes [snd (renewProbe now p c)] m in
    mget (MG_probes m') (PI_PermitID p) = mget (MG_probes m) (PI_PermitID p) \<and> MG_probesLost m' = MG_probesLost m + 1"
  using assms by (simp add: renewProbe_def renewProbes_def noLease_def Let_def)

text \<open>
  A renewal that names the lease of another client or pool is answered as lost, as in the PostgreSQL coordinator, but the
  local one (\<^verbatim>\<open>internal/coordination/local/admission.go\<close>) also gives up the lease that is held.
\<close>

lemma foreign_renewal_releases:
  assumes "mget (AC_leases c) (LI_LeaseID want) = Some got" and "LI_ClientID got \<noteq> LI_ClientID want"
  shows "mget (AC_leases (fst (renewOne c now want))) (LI_LeaseID want) = None"
  using assms by (simp add: renewOne_def Let_def)

end
