(* ===== verification/Gateway_Payload.thy ===== *)
theory Gateway_Payload
  imports Gateway_Types Go_Strings
begin

text \<open>
  Rewriting of a request body (\<^verbatim>\<open>internal/gateway/service.go\<close>): the members of the JSON object are kept as
  raw texts, the member \<^verbatim>\<open>priority\<close> is removed, the public model name is replaced by the upstream one and the
  usage of streamed completions is asked for. The codec of \<^verbatim>\<open>encoding/json\<close> for an object of raw members, for
  strings and for booleans is the parameter \<open>jsonCodec\<close>; \<open>codec_ok\<close> states what is relied on, where \<open>canon\<close> is
  the form in which the encoder prints a raw member (compact, with HTML characters escaped).
\<close>

section \<open>The codec\<close>

text \<open>Decoding an object: an error, \<^verbatim>\<open>null\<close> (a \<^verbatim>\<open>nil\<close> map) or its members.\<close>

record jsonCodec =
  JC_Object :: "string \<Rightarrow> (string, string) gomap option option"
  JC_String :: "string \<Rightarrow> string option"
  JC_Bool :: "string \<Rightarrow> bool option"
  JC_EncodeObject :: "(string, string) gomap \<Rightarrow> string option"
  JC_EncodeString :: "string \<Rightarrow> string option"

definition codec_ok :: "jsonCodec \<Rightarrow> (string \<Rightarrow> string) \<Rightarrow> bool" where
  "codec_ok J canon \<longleftrightarrow>
     (\<forall>m e. JC_EncodeObject J m = Some e \<longrightarrow>
        (\<exists>m'. JC_Object J e = Some (Some m') \<and> (\<forall>k. mget m' k = map_option canon (mget m k)))) \<and>
     (\<forall>v. canon (canon v) = canon v) \<and>
     (\<forall>v. JC_Bool J (canon v) = JC_Bool J v) \<and>
     (\<forall>v. JC_Object J (canon v) = map_option (map_option (map (apsnd canon))) (JC_Object J v))"

section \<open>Operations\<close>

definition rewritePayload :: "jsonCodec \<Rightarrow> string \<Rightarrow> string + (string \<times> string)" where
  "rewritePayload J body =
     (case JC_Object J body of
        None \<Rightarrow> Inl ''request body must be a JSON object''
      | Some None \<Rightarrow> Inl ''request body must be a JSON object''
      | Some (Some payload) \<Rightarrow>
          (case mget payload ''model'' of
             None \<Rightarrow> Inl ''model is required''
           | Some encodedModel \<Rightarrow>
               (case JC_String J encodedModel of
                  None \<Rightarrow> Inl ''model must be a non-empty string''
                | Some model \<Rightarrow>
                    if trimSpace model = [] then Inl ''model must be a non-empty string''
                    else if length model > MaxPublicModelNameBytes then Inl ''model must not exceed 256 bytes''
                    else
                      (case JC_EncodeObject J (mdel ''priority'' payload) of
                         None \<Rightarrow> Inl ''encode upstream request''
                       | Some returnBody \<Rightarrow> Inr (returnBody, model)))))"

text \<open>Writing into the \<^verbatim>\<open>nil\<close> map that \<^verbatim>\<open>null\<close> decodes to panics: the outcome \<open>NilMapWrite\<close>.\<close>

datatype payloadOutcome = PayloadOK string | PayloadError | NilMapWrite

definition replaceModel :: "jsonCodec \<Rightarrow> string \<Rightarrow> string \<Rightarrow> payloadOutcome" where
  "replaceModel J body model =
     (case JC_Object J body of
        None \<Rightarrow> PayloadError
      | Some decoded \<Rightarrow>
          (case JC_EncodeString J model of
             None \<Rightarrow> PayloadError
           | Some encodedModel \<Rightarrow>
               (case decoded of
                  None \<Rightarrow> NilMapWrite
                | Some payload \<Rightarrow>
                    (case JC_EncodeObject J (mput ''model'' encodedModel payload) of
                       None \<Rightarrow> PayloadError | Some e \<Rightarrow> PayloadOK e))))"

definition completionPath :: "string \<Rightarrow> bool" where
  "completionPath path \<longleftrightarrow> \<not> (path \<noteq> ''/v1/chat/completions'' \<and> path \<noteq> ''/v1/completions'')"

text \<open>Whether the object asks for a stream, and the members of its \<^verbatim>\<open>stream_options\<close>.\<close>

definition streams :: "jsonCodec \<Rightarrow> (string, string) gomap \<Rightarrow> bool" where
  "streams J payload \<longleftrightarrow>
     (case mget payload ''stream'' of
        None \<Rightarrow> False
      | Some encodedStream \<Rightarrow> (case JC_Bool J encodedStream of None \<Rightarrow> False | Some stream \<Rightarrow> stream))"

definition streamOptions :: "jsonCodec \<Rightarrow> (string, string) gomap \<Rightarrow> (string, string) gomap" where
  "streamOptions J payload =
     (case mget payload ''stream_options'' of
        None \<Rightarrow> []
      | Some encodedOptions \<Rightarrow>
          (case JC_Object J encodedOptions of Some (Some existing) \<Rightarrow> existing | _ \<Rightarrow> []))"

definition forceStreamingUsage :: "jsonCodec \<Rightarrow> string \<Rightarrow> string \<Rightarrow> string option" where
  "forceStreamingUsage J body path =
     (if \<not> completionPath path then Some body
      else case JC_Object J body of
        None \<Rightarrow> None
      | Some None \<Rightarrow> Some body
      | Some (Some payload) \<Rightarrow>
          if \<not> streams J payload then Some body
          else
            (case JC_EncodeObject J (mput ''include_usage'' ''true'' (streamOptions J payload)) of
               None \<Rightarrow> None
             | Some encodedOptions \<Rightarrow> JC_EncodeObject J (mput ''stream_options'' encodedOptions payload)))"

text \<open>The three in the order in which a request passes them.\<close>

definition upstreamPayload :: "jsonCodec \<Rightarrow> string \<Rightarrow> string \<Rightarrow> string \<Rightarrow> payloadOutcome" where
  "upstreamPayload J body path upstreamModel =
     (case rewritePayload J body of
        Inl _ \<Rightarrow> PayloadError
      | Inr (payload, model) \<Rightarrow>
          (case forceStreamingUsage J payload path of
             None \<Rightarrow> PayloadError
           | Some payload \<Rightarrow> replaceModel J payload upstreamModel))"

section \<open>What reaches the backend\<close>

lemma mget_map_apsnd: "mget (map (apsnd f) m) k = map_option f (mget m k)"
  by (induction m) (auto simp: mget_def apsnd_def map_prod_def)

lemma codec_printed:
  assumes "codec_ok J canon" and "JC_EncodeObject J m = Some e"
  obtains m' where "JC_Object J e = Some (Some m')" "\<And>k. mget m' k = map_option canon (mget m k)"
  using assms unfolding codec_ok_def by blast

lemma codec_canon:
  assumes "codec_ok J canon"
  shows "canon (canon v) = canon v" "JC_Bool J (canon v) = JC_Bool J v"
    "JC_Object J (canon v) = map_option (map_option (map (apsnd canon))) (JC_Object J v)"
  using assms by (simp_all add: codec_ok_def)

lemma canon_members:
  assumes "codec_ok J canon" and "\<And>k. mget m' k = map_option canon (mget m k)"
  shows "streams J m' = streams J m" "mget (streamOptions J m') k = map_option canon (mget (streamOptions J m) k)"
  using assms(2) [of "''stream''"] assms(2) [of "''stream_options''"]
  by (auto simp: streams_def streamOptions_def codec_canon [OF assms(1)] mget_map_apsnd mget_def [of "[]"] split: option.splits)

text \<open>After the first step: the members without \<^verbatim>\<open>priority\<close>, as printed.\<close>

lemma rewritten_members:
  assumes "codec_ok J canon" and "JC_Object J body = Some (Some m)" and "rewritePayload J body = Inr (body1, model)"
  obtains m1 where "JC_Object J body1 = Some (Some m1)" "\<And>k. mget m1 k = map_option canon (mget (mdel ''priority'' m) k)"
proof -
  have "JC_EncodeObject J (mdel ''priority'' m) = Some body1"
    using assms(2,3) by (auto simp: rewritePayload_def split: option.splits if_splits)
  then show ?thesis using codec_printed [OF assms(1)] that by metis
qed

text \<open>After the second: \<^verbatim>\<open>stream_options\<close> asks for the usage if the request streams completions.\<close>

definition usage_requested :: "jsonCodec \<Rightarrow> (string \<Rightarrow> string) \<Rightarrow> (string, string) gomap \<Rightarrow> string option \<Rightarrow> bool" where
  "usage_requested J canon m options \<longleftrightarrow>
     (\<exists>v o'. options = Some v \<and> JC_Object J v = Some (Some o') \<and> mget o' ''include_usage'' = Some (canon ''true'') \<and>
        (\<forall>k. k \<noteq> ''include_usage'' \<longrightarrow> mget o' k = map_option canon (mget (streamOptions J m) k)))"

lemma usage_requested_canon:
  assumes ok: "codec_ok J canon" and "usage_requested J canon m (Some v)"
  shows "usage_requested J canon m (Some (canon v))"
  using assms(2) unfolding usage_requested_def
  by (auto simp: codec_canon [OF ok] mget_map_apsnd option.map_comp comp_def)

lemma forced_members:
  assumes ok: "codec_ok J canon" and b: "JC_Object J body = Some (Some m1)"
    and m1: "\<And>k. mget m1 k = map_option canon (mget m k)"
    and f: "forceStreamingUsage J body path = Some body2"
  shows "\<exists>m2. JC_Object J body2 = Some (Some m2) \<and>
    (\<forall>k. k \<noteq> ''stream_options'' \<longrightarrow> mget m2 k = map_option canon (mget m k)) \<and>
    (if completionPath path \<and> streams J m then usage_requested J canon m (mget m2 ''stream_options'')
     else mget m2 ''stream_options'' = map_option canon (mget m ''stream_options''))"
proof (cases "completionPath path \<and> streams J m")
  case False
  then have "body2 = body" using f b by (auto simp: forceStreamingUsage_def canon_members(1) [OF ok m1] split: if_splits)
  then show ?thesis using False b m1 by auto
next
  case True
  then obtain o' where o': "JC_EncodeObject J (mput ''include_usage'' ''true'' (streamOptions J m1)) = Some o'"
    "JC_EncodeObject J (mput ''stream_options'' o' m1) = Some body2"
    using f b by (auto simp: forceStreamingUsage_def canon_members(1) [OF ok m1] split: option.splits)
  obtain q where q: "JC_Object J o' = Some (Some q)"
    "\<And>k. mget q k = map_option canon (mget (mput ''include_usage'' ''true'' (streamOptions J m1)) k)"
    using codec_printed [OF ok o'(1)] by blast
  obtain m2 where m2: "JC_Object J body2 = Some (Some m2)"
    "\<And>k. mget m2 k = map_option canon (mget (mput ''stream_options'' o' m1) k)"
    using codec_printed [OF ok o'(2)] by blast
  have "usage_requested J canon m (Some o')"
    using q by (auto simp: usage_requested_def canon_members(2) [OF ok m1] option.map_comp comp_def codec_canon [OF ok])
  then show ?thesis
    using True m2 m1 usage_requested_canon [OF ok] by (auto simp: option.map_comp comp_def codec_canon [OF ok])
qed

text \<open>The body sent to a backend is the client's object with exactly three changes: the member
  \<^verbatim>\<open>priority\<close> is gone, \<^verbatim>\<open>model\<close> is the upstream model, and if the request is a streamed completion its
  \<^verbatim>\<open>stream_options\<close> ask for the usage, keeping their other members. Every other member is the client's,
  as the encoder prints it, and no step writes into a \<^verbatim>\<open>nil\<close> map.\<close>

theorem upstream_payload_exact:
  assumes ok: "codec_ok J canon" and b: "JC_Object J body = Some (Some m)"
    and out: "upstreamPayload J body path upstream = out"
  shows "out \<noteq> NilMapWrite \<and>
    (\<forall>e. out = PayloadOK e \<longrightarrow> (\<exists>f em. JC_Object J e = Some (Some f) \<and> JC_EncodeString J upstream = Some em \<and>
       mget f ''priority'' = None \<and> mget f ''model'' = Some (canon em) \<and>
       (\<forall>k. k \<notin> {''priority'', ''model'', ''stream_options''} \<longrightarrow> mget f k = map_option canon (mget m k)) \<and>
       (if completionPath path \<and> streams J m then usage_requested J canon m (mget f ''stream_options'')
        else mget f ''stream_options'' = map_option canon (mget m ''stream_options''))))"
proof (cases "\<exists>body1 model body2. rewritePayload J body = Inr (body1, model) \<and> forceStreamingUsage J body1 path = Some body2")
  case False
  then show ?thesis using out by (auto simp: upstreamPayload_def split: sum.splits option.splits)
next
  case True
  then obtain body1 model body2 where r: "rewritePayload J body = Inr (body1, model)" "forceStreamingUsage J body1 path = Some body2"
    by blast
  obtain m1 where m1: "JC_Object J body1 = Some (Some m1)" "\<And>k. mget m1 k = map_option canon (mget (mdel ''priority'' m) k)"
    using rewritten_members [OF ok b r(1)] by blast
  have same: "streams J (mdel ''priority'' m) = streams J m" "streamOptions J (mdel ''priority'' m) = streamOptions J m"
    by (simp_all add: streams_def streamOptions_def)
  then have asked: "usage_requested J canon (mdel ''priority'' m) = usage_requested J canon m"
    by (simp add: usage_requested_def fun_eq_iff)
  have kept: "mget (mdel ''priority'' m) ''stream_options'' = mget m ''stream_options''" by simp
  obtain m2 where m2: "JC_Object J body2 = Some (Some m2)"
    "\<And>k. k \<noteq> ''stream_options'' \<Longrightarrow> mget m2 k = map_option canon (mget (mdel ''priority'' m) k)"
    "if completionPath path \<and> streams J m then usage_requested J canon m (mget m2 ''stream_options'')
     else mget m2 ''stream_options'' = map_option canon (mget m ''stream_options'')"
    using forced_members [OF ok m1 r(2)] unfolding asked same kept by blast
  have o': "out = replaceModel J body2 upstream" using out r by (simp add: upstreamPayload_def)
  have "out \<noteq> NilMapWrite" using o' m2(1) by (auto simp: replaceModel_def split: option.splits)
  moreover have "\<exists>f em. JC_Object J e = Some (Some f) \<and> JC_EncodeString J upstream = Some em \<and>
       mget f ''priority'' = None \<and> mget f ''model'' = Some (canon em) \<and>
       (\<forall>k. k \<notin> {''priority'', ''model'', ''stream_options''} \<longrightarrow> mget f k = map_option canon (mget m k)) \<and>
       (if completionPath path \<and> streams J m then usage_requested J canon m (mget f ''stream_options'')
        else mget f ''stream_options'' = map_option canon (mget m ''stream_options''))"
    if p: "out = PayloadOK e" for e
  proof -
    obtain em where em: "JC_EncodeString J upstream = Some em" "JC_EncodeObject J (mput ''model'' em m2) = Some e"
      using p o' m2(1) by (auto simp: replaceModel_def split: option.splits)
    obtain f where f: "JC_Object J e = Some (Some f)" "\<And>k. mget f k = map_option canon (mget (mput ''model'' em m2) k)"
      using codec_printed [OF ok em(2)] by blast
    have twice: "map_option canon (map_option canon x) = map_option canon x" for x
      by (simp add: option.map_comp comp_def codec_canon(1) [OF ok])
    have "mget f k = map_option canon (mget m k)" if "k \<notin> {''priority'', ''model'', ''stream_options''}" for k
      using that by (simp add: f(2) m2(2) twice)
    moreover have "if completionPath path \<and> streams J m then usage_requested J canon m (mget f ''stream_options'')
        else mget f ''stream_options'' = map_option canon (mget m ''stream_options'')"
      using m2(3) usage_requested_canon [OF ok, of m] usage_requested_def [of J canon m None]
      by (cases "mget m2 ''stream_options''") (auto simp: f(2) twice codec_canon(1) [OF ok] split: if_splits)
    moreover have "mget f ''priority'' = None" "mget f ''model'' = Some (canon em)" by (simp_all add: f(2) m2(2))
    ultimately show ?thesis using f(1) em(1) by blast
  qed
  ultimately show ?thesis by blast
qed

section \<open>An example\<close>

text \<open>A codec that satisfies the laws: members one after the other, each character of a text escaped.\<close>

definition demo_esc :: "string \<Rightarrow> string" where
  "demo_esc s = concat (map (\<lambda>c. [CHR ''x'', c]) s) @ [CHR ''.'']"

fun demo_unesc :: "string \<Rightarrow> (string \<times> string) option" where
  "demo_unesc [] = None"
| "demo_unesc [a] = (if a = CHR ''.'' then Some ([], []) else None)"
| "demo_unesc (a # c # s) =
     (if a = CHR ''.'' then Some ([], c # s)
      else if a = CHR ''x'' then map_option (apfst (Cons c)) (demo_unesc s) else None)"

definition demo_print :: "(string, string) gomap \<Rightarrow> string" where
  "demo_print m = concat (map (\<lambda>(k, v). demo_esc k @ demo_esc v) m)"

fun demo_parse :: "nat \<Rightarrow> string \<Rightarrow> (string, string) gomap option" where
  "demo_parse 0 s = None"
| "demo_parse (Suc n) s =
     (if s = [] then Some []
      else case demo_unesc s of
        None \<Rightarrow> None
      | Some (k, s) \<Rightarrow> (case demo_unesc s of None \<Rightarrow> None | Some (v, s) \<Rightarrow> map_option (Cons (k, v)) (demo_parse n s)))"

definition demo_codec :: jsonCodec where
  "demo_codec = \<lparr>JC_Object = (\<lambda>s. map_option Some (demo_parse (Suc (length s)) s)), JC_String = Some,
     JC_Bool = (\<lambda>s. Some (s = ''true'')), JC_EncodeObject = (\<lambda>m. Some (demo_print m)), JC_EncodeString = Some\<rparr>"

lemma demo_unesc_esc: "demo_unesc (demo_esc s @ t) = Some (s, t)"
proof (induction s)
  case Nil
  show ?case by (cases t) (simp_all add: demo_esc_def)
qed (simp add: demo_esc_def)

lemma demo_esc_nonempty: "demo_esc s \<noteq> []"
  by (simp add: demo_esc_def)

lemma demo_parse_print: "length m < n \<Longrightarrow> demo_parse n (demo_print m) = Some m"
proof (induction m arbitrary: n)
  case Nil
  then show ?case by (cases n) (simp_all add: demo_print_def)
next
  case (Cons kv m)
  obtain k v where kv: "kv = (k, v)" by (cases kv)
  obtain n' where n: "n = Suc n'" using Cons.prems by (cases n) auto
  have "demo_print (kv # m) = demo_esc k @ demo_esc v @ demo_print m" by (simp add: demo_print_def kv)
  then show ?case using Cons n by (simp add: demo_unesc_esc demo_esc_nonempty kv)
qed

lemma demo_print_length: "length m \<le> length (demo_print m)"
  by (induction m) (auto simp: demo_print_def demo_esc_def)

lemma demo_codec_ok: "codec_ok demo_codec id"
proof -
  have "JC_Object demo_codec (demo_print m) = Some (Some m)" for m
    using demo_parse_print [of m "Suc (length (demo_print m))"] demo_print_length [of m]
    by (simp add: demo_codec_def del: demo_parse.simps)
  then show ?thesis by (auto simp: codec_ok_def demo_codec_def option.map_id0 list.map_id0 apsnd_def prod.map_id0 simp del: demo_parse.simps)
qed

definition demo_body :: string where
  "demo_body = demo_print [(''model'', ''public''), (''priority'', ''9''), (''stream'', ''true''), (''n'', ''2'')]"

lemma demo_body_members:
  "JC_Object demo_codec demo_body = Some (Some [(''model'', ''public''), (''priority'', ''9''), (''stream'', ''true''), (''n'', ''2'')])"
  by code_simp

lemma demo_payload:
  "upstreamPayload demo_codec demo_body ''/v1/completions'' ''up'' =
     PayloadOK (demo_print [(''model'', ''up''), (''stream'', ''true''), (''n'', ''2''),
       (''stream_options'', demo_print [(''include_usage'', ''true'')])])"
  by code_simp

theorem upstream_payload_exact_witness:
  "\<exists>f. JC_Object demo_codec (demo_print [(''model'', ''up''), (''stream'', ''true''), (''n'', ''2''),
       (''stream_options'', demo_print [(''include_usage'', ''true'')])]) = Some (Some f) \<and>
     mget f ''priority'' = None \<and> mget f ''model'' = Some ''up'' \<and> mget f ''n'' = Some ''2''"
proof -
  let ?e = "demo_print [(''model'', ''up''), (''stream'', ''true''), (''n'', ''2''),
       (''stream_options'', demo_print [(''include_usage'', ''true'')])]"
  obtain f em where f: "JC_Object demo_codec ?e = Some (Some f)" "JC_EncodeString demo_codec ''up'' = Some em"
    "mget f ''priority'' = None" "mget f ''model'' = Some (id em)"
    "\<And>k. k \<notin> {''priority'', ''model'', ''stream_options''} \<Longrightarrow> mget f k =
       map_option id (mget [(''model'', ''public''), (''priority'', ''9''), (''stream'', ''true''), (''n'', ''2'')] k)"
    using upstream_payload_exact [OF demo_codec_ok demo_body_members demo_payload] by blast
  have "em = ''up''" using f(2) by (simp add: demo_codec_def)
  moreover have "mget f ''n'' = Some ''2''" using f(5) [of "''n''"] by (simp add: mget_def)
  ultimately show ?thesis using f(1,3,4) by simp
qed

end
