(* ===== verification/Gateway_Admission.thy ===== *)
theory Gateway_Admission
  imports Gateway_Payload Gateway_Service Session_Affinity
begin

text \<open>
  Resolving a request and admitting it (\<^verbatim>\<open>internal/gateway/forward.go\<close>, \<^verbatim>\<open>internal/gateway/forward_admission.go\<close>).
  The request is admitted by the limiter when there is no coordinator, by emergency admission when the
  coordinator is not ready, and otherwise by the coordinator under the configuration in force, with one retry
  after a reload. What the registry, the clock and the coordinators answer is read from records that hold the
  answers in the order in which the code asks; what the code takes is logged.
\<close>

section \<open>Requests and events\<close>

record ForwardRequest =
  FR_Method :: string
  FR_Path :: string
  FR_Headers :: header
  FR_Body :: string
  FR_APIKey :: string
  FR_RequestID :: string
  FR_ParentRequestID :: string

record RequestEvent =
  RE_OccurredAt :: instant
  RE_RequestID :: string
  RE_ParentRequestID :: string
  RE_ClientID :: int
  RE_ModelPoolID :: int
  RE_Client :: string
  RE_Model :: string
  RE_Backend :: string
  RE_PriorityClass :: "PriorityClass option"
  RE_VLLMPriority :: int
  RE_PoolState :: PoolState
  RE_BackendPressure :: f64
  RE_Status :: int
  RE_Reason :: string
  RE_DecisionReason :: DecisionReason
  RE_QueueWait :: duration
  RE_QueueOutcome :: QueueOutcome
  RE_Duration :: duration
  RE_TTFT :: duration
  RE_Disconnect :: bool
  RE_RetryCount :: int
  RE_Usage :: "DomainTokenUsage option"
  RE_UsageParseFailure :: string
  RE_SoftTPMExpected :: bool
  RE_UpstreamFailure :: string

record resolvedForwardRequest =
  rf_client :: Client
  rf_pool :: ModelPool
  rf_snapshot :: Snapshot
  rf_payload :: string
  rf_publicModel :: string
  rf_sessionID :: string
  rf_affinityKey :: string

section \<open>Resolving\<close>

definition noteClient :: "Client \<Rightarrow> RequestEvent \<Rightarrow> RequestEvent" where
  "noteClient client e = e\<lparr>RE_ClientID := Client_ID client, RE_Client := Client_Name client,
     RE_PriorityClass := Some (Client_PriorityClass client), RE_VLLMPriority := Client_VLLMPriority client\<rparr>"

text \<open>The key is checked on one snapshot and the pool is looked up in the next one. The use of the key is
  recorded in any case in which the key is good.\<close>

definition resolveForwardRequest ::
  "(string \<Rightarrow> string \<Rightarrow> string) \<Rightarrow> jsonCodec \<Rightarrow> Service \<Rightarrow> Snapshot \<Rightarrow> instant \<Rightarrow> instant \<Rightarrow> Snapshot \<Rightarrow> ForwardRequest \<Rightarrow>
     RequestEvent \<Rightarrow> (int \<times> instant) list \<times> RequestEvent \<times> (APIError + resolvedForwardRequest)" where
  "resolveForwardRequest hmac J s authSnapshot authNow usedAt snapshot request event =
     (let (used, auth) = authenticate hmac s (FR_APIKey request) authSnapshot authNow usedAt in
      case auth of
        Inl e \<Rightarrow> (used, event, Inl e)
      | Inr (client, matched) \<Rightarrow>
          (let event = noteClient client event in
           case sessionAffinityID (FR_Headers request) of
             Inl e \<Rightarrow> (used, event, Inl e)
           | Inr sessionID \<Rightarrow>
               (case rewritePayload J (FR_Body request) of
                  Inl message \<Rightarrow> (used, event, Inl (invalidRequest message))
                | Inr (payload, publicModel) \<Rightarrow>
                    (case mget (Snap_PoolsByName snapshot) publicModel of
                       None \<Rightarrow> (used, event, Inl modelNotAllowed)
                     | Some pool \<Rightarrow>
                         (used, event\<lparr>RE_ModelPoolID := Pool_ID pool, RE_Model := Pool_PublicModelName pool\<rparr>,
                          Inr \<lparr>rf_client = client, rf_pool = pool, rf_snapshot = snapshot, rf_payload = payload,
                               rf_publicModel = publicModel, rf_sessionID = sessionID, rf_affinityKey = []\<rparr>)))))"

text \<open>The outcome is \<open>None\<close> for the write into a \<^verbatim>\<open>nil\<close> map, which panics.\<close>

definition prepareForwardPayload ::
  "jsonCodec \<Rightarrow> ForwardRequest \<Rightarrow> resolvedForwardRequest \<Rightarrow> (APIError + resolvedForwardRequest) option" where
  "prepareForwardPayload J request resolved =
     (if \<not> Pool_Enabled (rf_pool resolved) \<or>
         \<not> access (rf_snapshot resolved) (Client_ID (rf_client resolved)) (Pool_ID (rf_pool resolved))
      then Some (Inl modelNotAllowed)
      else
        let resolved = (if rf_sessionID resolved \<noteq> []
              then resolved\<lparr>rf_affinityKey := itoa (Client_ID (rf_client resolved)) @ [CHR 0x00] @
                     itoa (Pool_ID (rf_pool resolved)) @ [CHR 0x00] @ rf_sessionID resolved\<rparr>
              else resolved)
        in case forceStreamingUsage J (rf_payload resolved) (FR_Path request) of
             None \<Rightarrow> Some (Inl (invalidRequest ''Failed to encode the upstream request''))
           | Some payload \<Rightarrow>
               (case replaceModel J payload (Pool_UpstreamModelName (rf_pool resolved)) of
                  PayloadError \<Rightarrow> Some (Inl (invalidRequest ''Failed to encode the upstream model''))
                | NilMapWrite \<Rightarrow> None
                | PayloadOK payload \<Rightarrow> Some (Inr (resolved\<lparr>rf_payload := payload\<rparr>))))"

section \<open>Admission by the coordinator\<close>

record admissionRound =
  ag_authNow :: instant
  ag_leaseID :: uuid
  ag_now :: instant
  ag_current :: Snapshot
  ag_currentNow :: instant
  ag_answer :: "AdmissionRequest \<Rightarrow> AdmissionDecision \<times> go_error option"
  ag_reload :: bool
  ag_reloaded :: Snapshot
  ag_reloadedNow :: instant
  ag_poolRounds :: "poolRound list"

definition staleDecision :: AdmissionDecision where
  "staleDecision = \<lparr>AD_Lease = None, AD_Reason = ReasonStaleConfiguration, AD_RetryAt = None, AD_ConcurrencyScope = NoScope\<rparr>"

text \<open>Whether the configuration in force still is the one the request was made for. The registry holds its
  publication lock while this is checked and the coordinator allocates.\<close>

definition configurationCurrent ::
  "(string \<Rightarrow> string \<Rightarrow> string) \<Rightarrow> Service \<Rightarrow> string \<Rightarrow> Snapshot \<Rightarrow> instant \<Rightarrow> AdmissionRequest \<Rightarrow> bool" where
  "configurationCurrent hmac s rawKey current now req \<longleftrightarrow>
     (case validateAPIKeySnapshot hmac s rawKey current now of
        Inl e \<Rightarrow> False
      | Inr (client, key) \<Rightarrow>
          (case mget (Snap_PoolsByID current) (AR_PoolID req) of
             None \<Rightarrow> False
           | Some pool \<Rightarrow>
               \<not> (Snap_Revision current \<noteq> AR_ConfigurationRevision req \<or> APIKey_ID key \<noteq> AR_APIKeyID req \<or>
                  Client_ID client \<noteq> AR_ClientID req \<or> Client_PriorityClass client \<noteq> AR_PriorityClass req \<or>
                  Client_Revision client \<noteq> AR_ClientPolicyRevision req \<or> \<not> Pool_Enabled pool \<or>
                  \<not> access current (AR_ClientID req) (AR_PoolID req) \<or>
                  Pool_MaxGatewayInflight pool \<noteq> AR_PoolGatewayInflightLimit req \<or>
                  Pool_HighPriorityReserve pool \<noteq> AR_PoolHighPriorityReserve req)))"

definition acquireConfiguredAdmission ::
  "(string \<Rightarrow> string \<Rightarrow> string) \<Rightarrow> Service \<Rightarrow> string \<Rightarrow> admissionRound \<Rightarrow> AdmissionRequest \<Rightarrow>
     AdmissionRequest list \<times> AdmissionDecision \<times> go_error option" where
  "acquireConfiguredAdmission hmac s rawKey r req =
     (if configurationCurrent hmac s rawKey (ag_current r) (ag_currentNow r) req
      then ([req], ag_answer r req) else ([], staleDecision, None))"

definition admissionRequest ::
  "Service \<Rightarrow> ForwardRequest \<Rightarrow> resolvedForwardRequest \<Rightarrow> Client \<Rightarrow> APIKey \<Rightarrow> int \<Rightarrow> admissionRound \<Rightarrow> AdmissionRequest" where
  "admissionRequest s request resolved client key limit r =
     \<lparr>AR_LeaseID = ag_leaseID r, AR_OperationStartedAt = ag_now r, AR_RequestID = FR_RequestID request,
      AR_ReplicaID = S_replicaID s, AR_ConfigurationRevision = Snap_Revision (rf_snapshot resolved),
      AR_APIKeyID = APIKey_ID key, AR_ClientID = Client_ID client, AR_PoolID = Pool_ID (rf_pool resolved),
      AR_ClientPolicyRevision = Client_Revision client, AR_EffectiveClientLimit = limit,
      AR_ConfiguredClientLimit = Client_MaxConcurrency client,
      AR_PoolGatewayInflightLimit = Pool_MaxGatewayInflight (rf_pool resolved),
      AR_PoolHighPriorityReserve = Pool_HighPriorityReserve (rf_pool resolved),
      AR_PriorityClass = Client_PriorityClass client, AR_RequestsPerMinute = Client_RequestsPerMinute client,
      AR_TokensPerMinute = Client_TokensPerMinute client, AR_LeaseTTL = S_leaseTTL s\<rparr>"

text \<open>What the handler of a request does to the outside, in the order in which it does it.\<close>

record InflightEvent =
  IE_Client :: string
  IE_Model :: string
  IE_Backend :: string
  IE_PriorityClass :: PriorityClass

datatype admissionHold =
    LimiterLease int
  | EmergencySlot PriorityClass int
  | CoordinatorLease LeaseIdentity bool

datatype effect =
    KeyUsed int instant
  | ReserveCalled string
  | RolledBack
  | Staged RequestEvent
  | EventCompleted RequestEvent
  | PoolEffect poolOp
  | AdmissionAsked AdmissionRequest
  | AdmissionTaken admissionHold
  | AdmissionGiven admissionHold "TokenUsage option"
  | PolicyObserved ClientRatePolicy
  | EmergencyObserved PriorityClass bool
  | ClientGauge InflightEvent int
  | BackendGauge InflightEvent int
  | BackendTaken nat Backend
  | BackendGiven nat InferenceOutcome

datatype attemptOutcome =
    AttemptRefused APIError
  | AttemptDecided AdmissionDecision "go_error option"
  | AttemptAgain resolvedForwardRequest RequestEvent int
  | AttemptPanics
  | AttemptRunning

text \<open>The retry after a stale decision: reload, and resolve the request again.\<close>

definition reloadForRetry ::
  "(string \<Rightarrow> string \<Rightarrow> string) \<Rightarrow> jsonCodec \<Rightarrow> Service \<Rightarrow> ForwardRequest \<Rightarrow> admissionRound \<Rightarrow> resolvedForwardRequest \<Rightarrow>
     RequestEvent \<Rightarrow> AdmissionDecision \<Rightarrow> effect list \<times> attemptOutcome" where
  "reloadForRetry hmac J s request r resolved event decision =
     (if \<not> ag_reload r then ([], AttemptDecided decision (Some (OtherError ''configuration reload failed'')))
      else
        case validateAPIKeySnapshot hmac s (FR_APIKey request) (ag_reloaded r) (ag_reloadedNow r) of
          Inl e \<Rightarrow> ([], AttemptRefused e)
        | Inr (client, key) \<Rightarrow>
            (case mget (Snap_PoolsByName (ag_reloaded r)) (rf_publicModel resolved) of
               None \<Rightarrow> ([], AttemptRefused modelNotAllowed)
             | Some pool \<Rightarrow>
                 (case prepareForwardPayload J request
                         (resolved\<lparr>rf_snapshot := ag_reloaded r, rf_client := client, rf_pool := pool\<rparr>) of
                    None \<Rightarrow> ([], AttemptPanics)
                  | Some (Inl e) \<Rightarrow> ([], AttemptRefused e)
                  | Some (Inr prepared) \<Rightarrow>
                      (let (ops, result) = acquirePool s (Client_ID client) pool (ag_poolRounds r) in
                       case result of
                         None \<Rightarrow> (map PoolEffect ops, AttemptRunning)
                       | Some (Inl (runtime, e)) \<Rightarrow> (map PoolEffect ops, AttemptRefused e)
                       | Some (Inr (runtime, held)) \<Rightarrow>
                           (map PoolEffect (ops @ (if held then [PoolReleased (Pool_ID pool)] else [])),
                            AttemptAgain prepared
                              ((noteClient client event)\<lparr>RE_ModelPoolID := Pool_ID pool, RE_Model := Pool_PublicModelName pool,
                                 RE_PoolState := PR_State runtime\<rparr>)
                              (EffectiveLimit (Client_PriorityClass client) (PR_State runtime) (Client_MaxConcurrency client)))))))"

definition admissionAttempt ::
  "(string \<Rightarrow> string \<Rightarrow> string) \<Rightarrow> jsonCodec \<Rightarrow> Service \<Rightarrow> ForwardRequest \<Rightarrow> admissionRound \<Rightarrow> bool \<Rightarrow> int \<Rightarrow>
     resolvedForwardRequest \<Rightarrow> RequestEvent \<Rightarrow> effect list \<times> attemptOutcome" where
  "admissionAttempt hmac J s request r mayRetry limit resolved event =
     (case validateAPIKeySnapshot hmac s (FR_APIKey request) (rf_snapshot resolved) (ag_authNow r) of
        Inl e \<Rightarrow> ([], AttemptRefused e)
      | Inr (client, key) \<Rightarrow>
          (let (asked, decision, err) = acquireConfiguredAdmission hmac s (FR_APIKey request) r
                 (admissionRequest s request resolved client key limit r)
           in if AD_Reason decision \<noteq> ReasonStaleConfiguration \<or> \<not> mayRetry
              then (map AdmissionAsked asked, AttemptDecided decision err)
              else
                let (effects, outcome) = reloadForRetry hmac J s request r resolved event decision
                in (map AdmissionAsked asked @ effects, outcome)))"

section \<open>Admission\<close>

record admissionEnv =
  ae_limiter :: "int \<Rightarrow> int \<Rightarrow> bool"
  ae_allowed :: bool
  ae_ready :: bool
  ae_emergency :: "PriorityClass \<Rightarrow> int \<Rightarrow> int \<Rightarrow> bool"
  ae_emergencyObserver :: bool
  ae_leases :: bool
  ae_first :: admissionRound
  ae_second :: admissionRound
  ae_now :: instant

datatype admissionAnswer = AdmissionRefused APIError | AdmissionHeld admissionHold | AdmissionPanics | AdmissionRunning

definition emergencyAdmission :: "Service \<Rightarrow> admissionEnv \<Rightarrow> Client \<Rightarrow> int \<Rightarrow> effect list \<times> admissionAnswer" where
  "emergencyAdmission s env client limit =
     (let ok = ae_emergency env (Client_PriorityClass client) (Client_ID client) limit;
          hold = EmergencySlot (Client_PriorityClass client) (Client_ID client);
          observed = (if ae_emergencyObserver env then [EmergencyObserved (Client_PriorityClass client) ok] else [])
      in if ok then (AdmissionTaken hold # observed, AdmissionHeld hold)
         else (observed, AdmissionRefused (gatewayUnavailable (S_retryAfter s))))"

definition deniedError :: "Service \<Rightarrow> admissionEnv \<Rightarrow> AdmissionDecision \<Rightarrow> APIError" where
  "deniedError s env decision =
     (let apiErr = coordinationAPIError (AD_Reason decision) (S_retryAfter s) (AD_RetryAt decision) (ae_now env) in
      if AD_Reason decision = ReasonConcurrencyExhausted \<and> AD_ConcurrencyScope decision = AdmissionPoolScope
      then apiErr\<lparr>AE_DecisionReason := DecisionPoolInflightLimit\<rparr> else apiErr)"

definition concludeAdmission ::
  "Service \<Rightarrow> admissionEnv \<Rightarrow> resolvedForwardRequest \<Rightarrow> RequestEvent \<Rightarrow> int \<Rightarrow> AdmissionDecision \<Rightarrow> go_error option \<Rightarrow>
     effect list \<times> RequestEvent \<times> admissionAnswer" where
  "concludeAdmission s env resolved event limit decision err =
     (if err \<noteq> None \<or> AD_Reason decision = ReasonCoordinationUnavailable then
        (if (case err of None \<Rightarrow> False | Some e \<Rightarrow> errors_AsPermanent e)
         then ([], event, AdmissionRefused (gatewayUnavailable (S_retryAfter s)))
         else let (effects, answer) = emergencyAdmission s env (rf_client resolved) limit in (effects, event, answer))
      else case AD_Lease decision of
        None \<Rightarrow> ([], event, AdmissionRefused (deniedError s env decision))
      | Some lease \<Rightarrow>
          if \<not> Admitted decision then ([], event, AdmissionRefused (deniedError s env decision))
          else
            let hold = CoordinatorLease lease (ae_leases env)
            in ([AdmissionTaken hold], event\<lparr>RE_SoftTPMExpected := (Client_TokensPerMinute (rf_client resolved) > 0)\<rparr>,
                AdmissionHeld hold))"

definition acquireForwardAdmission ::
  "(string \<Rightarrow> string \<Rightarrow> string) \<Rightarrow> jsonCodec \<Rightarrow> Service \<Rightarrow> admissionEnv \<Rightarrow> ForwardRequest \<Rightarrow> PoolRuntime \<Rightarrow>
     resolvedForwardRequest \<Rightarrow> RequestEvent \<Rightarrow>
     effect list \<times> resolvedForwardRequest \<times> RequestEvent \<times> admissionAnswer" where
  "acquireForwardAdmission hmac J s env request runtime resolved event =
     (let client = rf_client resolved;
          limit = EffectiveLimit (Client_PriorityClass client) (PR_State runtime) (Client_MaxConcurrency client)
      in
      if \<not> S_admission s then
        (if ae_limiter env (Client_ID client) limit
         then ([AdmissionTaken (LimiterLease (Client_ID client))], resolved, event, AdmissionHeld (LimiterLease (Client_ID client)))
         else ([], resolved, event, AdmissionRefused (overloadedError (S_retryAfter s) DecisionPriorityConcurrencyLimit)))
      else if \<not> ae_allowed env
      then ([], resolved, event, AdmissionRefused (gatewayUnavailable (S_retryAfter s)))
      else if \<not> ae_ready env
      then (let (effects, answer) = emergencyAdmission s env client limit in (effects, resolved, event, answer))
      else
        let (effects1, out1) = admissionAttempt hmac J s request (ae_first env) True limit resolved event in
        case out1 of
          AttemptRefused e \<Rightarrow> (effects1, resolved, event, AdmissionRefused e)
        | AttemptPanics \<Rightarrow> (effects1, resolved, event, AdmissionPanics)
        | AttemptRunning \<Rightarrow> (effects1, resolved, event, AdmissionRunning)
        | AttemptDecided decision err \<Rightarrow>
            (let (effects, event, answer) = concludeAdmission s env resolved event limit decision err
             in (effects1 @ effects, resolved, event, answer))
        | AttemptAgain resolved event limit \<Rightarrow>
            (let (effects2, out2) = admissionAttempt hmac J s request (ae_second env) False limit resolved event in
             case out2 of
               AttemptRefused e \<Rightarrow> (effects1 @ effects2, resolved, event, AdmissionRefused e)
             | AttemptDecided decision err \<Rightarrow>
                 (let (effects, event, answer) = concludeAdmission s env resolved event limit decision err
                  in (effects1 @ effects2 @ effects, resolved, event, answer))
             | _ \<Rightarrow> (effects1 @ effects2, resolved, event, AdmissionRunning)))"

section \<open>What admission takes\<close>

definition asked :: "effect list \<Rightarrow> AdmissionRequest list" where
  "asked es = List.map_filter (\<lambda>e. case e of AdmissionAsked req \<Rightarrow> Some req | _ \<Rightarrow> None) es"

definition taken :: "effect list \<Rightarrow> admissionHold list" where
  "taken es = List.map_filter (\<lambda>e. case e of AdmissionTaken hold \<Rightarrow> Some hold | _ \<Rightarrow> None) es"

fun held :: "admissionAnswer \<Rightarrow> admissionHold list" where
  "held (AdmissionHeld hold) = [hold]"
| "held _ = []"

lemma log_simps [simp]:
  "asked [] = []" "asked (es @ es') = asked es @ asked es'" "taken [] = []" "taken (es @ es') = taken es @ taken es'"
  "asked (map AdmissionAsked reqs) = reqs" "taken (map AdmissionAsked reqs) = []"
  "asked (map PoolEffect ops) = []" "taken (map PoolEffect ops) = []"
  by (simp_all add: asked_def taken_def map_filter_def comp_def)

lemma log_Cons [simp]:
  "asked (e # es) = (case e of AdmissionAsked req \<Rightarrow> [req] | _ \<Rightarrow> []) @ asked es"
  "taken (e # es) = (case e of AdmissionTaken hold \<Rightarrow> [hold] | _ \<Rightarrow> []) @ taken es"
  by (simp_all add: asked_def taken_def map_filter_def split: effect.split)

lemma reload_log: "reloadForRetry hmac J s request r resolved event d = (es, out) \<Longrightarrow> asked es = [] \<and> taken es = []"
  by (auto simp: reloadForRetry_def Let_def split: if_splits sum.splits option.splits prod.splits)

lemma reload_decided:
  "reloadForRetry hmac J s request r resolved event d = (es, AttemptDecided d' err) \<Longrightarrow> err \<noteq> None"
  by (auto simp: reloadForRetry_def Let_def split: if_splits sum.splits option.splits prod.splits)

text \<open>One attempt asks at most once, under the configuration in force, and takes nothing itself.\<close>

definition asks_current :: "(string \<Rightarrow> string \<Rightarrow> string) \<Rightarrow> Service \<Rightarrow> string \<Rightarrow> admissionRound \<Rightarrow> AdmissionRequest list \<Rightarrow> bool" where
  "asks_current hmac s rawKey r reqs \<longleftrightarrow>
     reqs = [] \<or> (\<exists>req. reqs = [req] \<and> configurationCurrent hmac s rawKey (ag_current r) (ag_currentNow r) req)"

lemma attempt_log:
  assumes "admissionAttempt hmac J s request r mayRetry limit resolved event = (es, out)"
  shows "asks_current hmac s (FR_APIKey request) r (asked es)" and "taken es = []"
    and "out = AttemptDecided d None \<Longrightarrow> AD_Lease d \<noteq> None \<Longrightarrow> \<exists>req. asked es = [req] \<and> ag_answer r req = (d, None)"
    and "\<not> mayRetry \<Longrightarrow> (\<exists>e. out = AttemptRefused e) \<or> (\<exists>d err. out = AttemptDecided d err)"
proof -
  note defs = admissionAttempt_def acquireConfiguredAdmission_def Let_def
  show "asks_current hmac s (FR_APIKey request) r (asked es)"
    using assms by (auto simp: defs asks_current_def dest: reload_log split: sum.splits prod.splits if_splits)
  show "taken es = []"
    using assms by (auto simp: defs dest: reload_log split: sum.splits prod.splits if_splits)
  show "\<exists>req. asked es = [req] \<and> ag_answer r req = (d, None)" if "out = AttemptDecided d None" "AD_Lease d \<noteq> None"
    using assms that by (auto simp: defs staleDecision_def dest: reload_decided split: sum.splits prod.splits if_splits)
  show "(\<exists>e. out = AttemptRefused e) \<or> (\<exists>d err. out = AttemptDecided d err)" if "\<not> mayRetry"
    using assms that by (auto simp: defs split: sum.splits prod.splits if_splits)
qed

lemma conclude_log:
  assumes "concludeAdmission s env resolved event limit d err = (es, event', answer)"
  shows "asked es = []" and "taken es = held answer"
    and "answer = AdmissionHeld (CoordinatorLease lease tracked) \<Longrightarrow> err = None \<and> Admitted d \<and> AD_Lease d = Some lease"
  using assms
  by (auto simp: concludeAdmission_def emergencyAdmission_def Let_def split: if_splits option.splits prod.splits)

text \<open>How the log of an admission is made up.\<close>

lemma admission_cases:
  assumes "acquireForwardAdmission hmac J s env request runtime resolved event = (es, resolved', event', answer)"
  obtains (unasked) "asked es = []" "taken es = held answer" "\<nexists>lease tracked. answer = AdmissionHeld (CoordinatorLease lease tracked)"
  | (attempted) r mayRetry es0 es1 resolved1 event1 limit1 out where
      "S_admission s" "ae_allowed env" "ae_ready env" "r = ae_first env \<and> es0 = [] \<or>
         r = ae_second env \<and> (\<exists>limit out0. admissionAttempt hmac J s request (ae_first env) True limit resolved event = (es0, out0))"
      "admissionAttempt hmac J s request r mayRetry limit1 resolved1 event1 = (es1, out)"
      "(es = es0 @ es1 \<and> held answer = []) \<or>
       (\<exists>es2 d err. out = AttemptDecided d err \<and> es = es0 @ es1 @ es2 \<and>
          concludeAdmission s env resolved1 event1 limit1 d err = (es2, event', answer))"
proof -
  let ?limit = "EffectiveLimit (Client_PriorityClass (rf_client resolved)) (PR_State runtime) (Client_MaxConcurrency (rf_client resolved))"
  show thesis
  proof (cases "S_admission s \<and> ae_allowed env \<and> ae_ready env")
    case False
    then show thesis
      using assms unasked
      by (auto simp: acquireForwardAdmission_def emergencyAdmission_def Let_def split: if_splits)
  next
    case True
    obtain es1 out1 where a1: "admissionAttempt hmac J s request (ae_first env) True ?limit resolved event = (es1, out1)" by fastforce
    show thesis
    proof (cases "\<exists>resolved2 event2 limit2. out1 = AttemptAgain resolved2 event2 limit2")
      case False
      then show thesis
        using assms True a1 attempted [of "ae_first env" "[]" True ?limit resolved event es1 out1]
        by (auto simp: acquireForwardAdmission_def Let_def split: attemptOutcome.splits prod.splits)
    next
      case again: True
      then obtain resolved2 event2 limit2 where o1: "out1 = AttemptAgain resolved2 event2 limit2" by blast
      obtain es2 out2 where a2: "admissionAttempt hmac J s request (ae_second env) False limit2 resolved2 event2 = (es2, out2)" by fastforce
      have "\<exists>limit out0. admissionAttempt hmac J s request (ae_first env) True limit resolved event = (es1, out0)"
        using a1 by blast
      note second = attempted [OF _ _ _ disjI2 [OF conjI [OF refl this]] a2]
      show thesis
        using assms True a1 a2 o1 second
        by (auto simp: acquireForwardAdmission_def Let_def split: attemptOutcome.splits prod.splits)
    qed
  qed
qed

end
