(* ===== verification/Gateway_Forward.thy ===== *)
theory Gateway_Forward
  imports Gateway_Admission Proxy_Forward
begin

text \<open>
  The handler of an inference request, \<^verbatim>\<open>Service.Forward\<close> (\<^verbatim>\<open>internal/gateway/forward.go\<close>), with its deferred
  functions, early returns and panics. A step of the handler maps its \<open>Frame\<close> (the lifecycle record, the named
  results, the targets registered so far and the log of what it did to the outside) to the next frame and says
  how it goes on: with a value, by returning, by a panic, or not at all because a loop it called is still
  running. Every call of an observer, of a release function, of a completion callback and of a rollback may
  panic: \<open>pn n\<close> says whether the call number \<open>n\<close> does, after it had its effect. The calls that take
  something (\<^verbatim>\<open>AcquirePool\<close>, \<^verbatim>\<open>AcquireBackend\<close>, the coordinators, and the report of an emergency admission)
  return.
\<close>

section \<open>Frames and control\<close>

record Frame =
  L_event :: RequestEvent
  L_admissionStarted :: bool
  L_rollback :: bool
  L_targets :: "(Target \<times> InflightEvent \<times> bool) list"
  L_result :: Result
  L_reservation :: bool
  L_apiErr :: "APIError option"
  L_outside :: Outside
  L_log :: "effect list"
  L_calls :: nat

datatype 'a flow = Going 'a | Returning | Panicking | Running

type_synonym 'a go = "Frame \<Rightarrow> Frame \<times> 'a flow"

definition going :: "'a \<Rightarrow> 'a go" where
  "going x f = (f, Going x)"

definition panics :: "'a go" where
  "panics f = (f, Panicking)"

definition bindGo :: "'a go \<Rightarrow> ('a \<Rightarrow> 'b go) \<Rightarrow> 'b go" where
  "bindGo m k f =
     (let (f, flow) = m f in
      case flow of Going x \<Rightarrow> k x f | Returning \<Rightarrow> (f, Returning) | Panicking \<Rightarrow> (f, Panicking) | Running \<Rightarrow> (f, Running))"

definition update :: "(Frame \<Rightarrow> Frame) \<Rightarrow> unit go" where
  "update g f = (g f, Going ())"

definition emit :: "effect list \<Rightarrow> unit go" where
  "emit es f = (f\<lparr>L_log := L_log f @ es\<rparr>, Going ())"

definition call :: "(nat \<Rightarrow> bool) \<Rightarrow> effect \<Rightarrow> unit go" where
  "call pn e f =
     (f\<lparr>L_log := L_log f @ [e], L_calls := Suc (L_calls f)\<rparr>, if pn (L_calls f) then Panicking else Going ())"

definition whenGo :: "bool \<Rightarrow> unit go \<Rightarrow> unit go" where
  "whenGo b m = (if b then m else going ())"

text \<open>\<^verbatim>\<open>return\<close> with the three results.\<close>

definition returnGo :: "Result \<Rightarrow> bool \<Rightarrow> APIError option \<Rightarrow> 'a go" where
  "returnGo result reservation apiErr f =
     (f\<lparr>L_result := result, L_reservation := reservation, L_apiErr := apiErr\<rparr>, Returning)"

text \<open>A deferred function runs however its body ends; a panic of its own replaces the body's end.\<close>

definition deferGo :: "unit go \<Rightarrow> 'a go \<Rightarrow> 'a go" where
  "deferGo d m f =
     (let (f, flow) = m f in
      if flow = Running then (f, Running)
      else
        let (f, ended) = d f in
        (f, if ended = Panicking then Panicking else if ended = Running then Running else flow))"

text \<open>A deferred function that recovers, cleans up and panics again.\<close>

definition onPanic :: "unit go \<Rightarrow> 'a go \<Rightarrow> 'a go" where
  "onPanic d m f =
     (let (f, flow) = m f in
      if flow = Panicking then (fst (d f), Panicking) else (f, flow))"

definition invokePanicCleanup :: "unit go \<Rightarrow> unit go" where
  "invokePanicCleanup m f = (let (f, flow) = m f in (f, if flow = Running then Running else Going ()))"

section \<open>The environment\<close>

record ForwardEnv =
  FE_hmac :: "string \<Rightarrow> string \<Rightarrow> string"
  FE_sha256 :: "nat list \<Rightarrow> nat list"
  FE_codec :: jsonCodec
  FE_decode :: "string \<Rightarrow> jsonAny option"
  FE_ParseMediaType :: "string \<Rightarrow> string option"
  FE_service :: Service
  FE_observer :: bool
  FE_reserver :: bool
  FE_policyObserver :: bool
  FE_authSnapshot :: Snapshot
  FE_authNow :: instant
  FE_usedAt :: instant
  FE_snapshot :: Snapshot
  FE_reserved :: bool
  FE_rollback :: bool
  FE_ctxErr :: "string option"
  FE_current :: Snapshot
  FE_currentNow :: instant
  FE_poolRounds :: "poolRound list"
  FE_admission :: admissionEnv
  FE_selectRounds :: "selectRound list"
  FE_alternateRounds :: "selectRound list"
  FE_upstreams :: "nat \<Rightarrow> Upstream"
  FE_isCanceled :: "proxyError \<Rightarrow> bool"
  FE_releaseSnapshot :: Snapshot
  FE_queueWait :: duration
  FE_rejectedWait :: duration
  FE_occurredAt :: instant
  FE_duration :: duration

definition zeroResult :: Result where
  "zeroResult = newResult 0"

definition startFrame :: "ForwardRequest \<Rightarrow> header \<Rightarrow> Frame" where
  "startFrame request h =
     \<lparr>L_event = \<lparr>RE_OccurredAt = 0, RE_RequestID = FR_RequestID request, RE_ParentRequestID = FR_ParentRequestID request,
        RE_ClientID = 0, RE_ModelPoolID = 0, RE_Client = [], RE_Model = [], RE_Backend = [], RE_PriorityClass = None,
        RE_VLLMPriority = 0, RE_PoolState = PoolNone, RE_BackendPressure = Fin 0, RE_Status = 0, RE_Reason = [],
        RE_DecisionReason = NoDecision, RE_QueueWait = 0, RE_QueueOutcome = NoQueueOutcome, RE_Duration = 0, RE_TTFT = 0,
        RE_Disconnect = False, RE_RetryCount = 0, RE_Usage = None, RE_UsageParseFailure = [],
        RE_SoftTPMExpected = False, RE_UpstreamFailure = []\<rparr>,
      L_admissionStarted = False, L_rollback = False, L_targets = [], L_result = zeroResult, L_reservation = False,
      L_apiErr = None, L_outside = \<lparr>Ou_sent = [], Ou_header = h, Ou_statuses = [], Ou_body = [], Ou_completed = []\<rparr>,
      L_log = [], L_calls = 0\<rparr>"

section \<open>Targets\<close>

text \<open>Target \<open>n\<close> of the lifecycle; its callback runs once and lowers the gauge of its backend even if the
  completion panics.\<close>

definition completeTarget :: "ForwardEnv \<Rightarrow> (nat \<Rightarrow> bool) \<Rightarrow> nat \<Rightarrow> InferenceOutcome \<Rightarrow> unit go" where
  "completeTarget env pn n outcome f =
     (if n < length (L_targets f) \<and> \<not> snd (snd (L_targets f ! n)) then
        let (target, ev, d) = L_targets f ! n in
        deferGo (whenGo (FE_observer env) (call pn (BackendGauge ev (- 1))))
          (call pn (BackendGiven n outcome))
          (f\<lparr>L_targets := (L_targets f)[n := (target, ev, True)]\<rparr>)
      else (f, Going ()))"

definition noteSelected :: "ForwardEnv \<Rightarrow> Candidate \<Rightarrow> RequestEvent \<Rightarrow> RequestEvent" where
  "noteSelected env candidate e =
     (let e = e\<lparr>RE_Backend := Backend_Name (Cand_Backend candidate), RE_BackendPressure := Cand_Pressure candidate\<rparr> in
      if RE_QueueOutcome e = NoQueueOutcome
      then e\<lparr>RE_QueueWait := FE_queueWait env, RE_QueueOutcome := QueueSelected\<rparr> else e)"

definition selectGo ::
  "ForwardEnv \<Rightarrow> (nat \<Rightarrow> bool) \<Rightarrow> targetSelector \<Rightarrow> InflightEvent \<Rightarrow> selectRound list \<Rightarrow> int list \<Rightarrow> (selectError + nat) go" where
  "selectGo env pn ts inflight rounds exclude f =
     (case selectTarget (FE_hmac env) (FE_sha256 env) (FE_service env) ts rounds exclude of
        None \<Rightarrow> (f, Running)
      | Some (Inl (selectRouteError IndexOutOfRange)) \<Rightarrow> (f, Panicking)
      | Some (Inl e) \<Rightarrow> (f, Going (Inl e))
      | Some (Inr (candidate, secret)) \<Rightarrow>
          (let n = length (L_targets f);
               ev = inflight\<lparr>IE_Backend := Backend_Name (Cand_Backend candidate)\<rparr>;
               target = \<lparr>T_Backend = Cand_Backend candidate, T_UpstreamAPIKey = secret, T_Complete = Some CompleteReturns\<rparr>;
               f = f\<lparr>L_log := L_log f @ [BackendTaken n (Cand_Backend candidate)],
                     L_targets := L_targets f @ [(target, ev, False)],
                     L_event := noteSelected env candidate (L_event f)\<rparr>
           in bindGo (whenGo (FE_observer env) (call pn (BackendGauge ev 1))) (\<lambda>_. going (Inr n)) f))"

section \<open>Forwarding\<close>

definition selectErrorText :: "selectError \<Rightarrow> string" where
  "selectErrorText e = (case e of
     errAPIKeyBecameInvalid \<Rightarrow> ''API key became invalid while request was waiting''
   | selectNoBackend \<Rightarrow> ''no eligible backend''
   | selectRouteError e \<Rightarrow> ''no eligible backend'')"

text \<open>\<^verbatim>\<open>Proxy.forwardAttempt\<close> with the target's callback: a panic of the attempt completes the target as
  neutral, a panic of the callback is passed on.\<close>

definition attemptGo ::
  "ForwardEnv \<Rightarrow> (nat \<Rightarrow> bool) \<Rightarrow> Request \<Rightarrow> nat \<Rightarrow> nat \<Rightarrow> (Result \<times> bool) go" where
  "attemptGo env pn request attempt n f =
     (let (w, ending) = forwardOnce (FE_decode env) (FE_ParseMediaType env) (FE_upstreams env attempt) request
            (fst (L_targets f ! n)) (L_outside f);
          f = f\<lparr>L_outside := w\<rparr>
      in case ending of
           Pending \<Rightarrow> (f, Running)
         | Panicked \<Rightarrow> bindGo (invokePanicCleanup (completeTarget env pn n InferenceNeutral)) (\<lambda>_. panics) f
         | Ended (result, retryable, outcome) \<Rightarrow>
             bindGo (completeTarget env pn n outcome) (\<lambda>_. going (result, retryable)) f)"

fun forwardGo ::
  "ForwardEnv \<Rightarrow> (nat \<Rightarrow> bool) \<Rightarrow> targetSelector \<Rightarrow> InflightEvent \<Rightarrow> Request \<Rightarrow> nat \<Rightarrow> nat \<Rightarrow> int list \<Rightarrow> nat \<Rightarrow> Result \<Rightarrow> Result go" where
  "forwardGo env pn ts inflight request 0 attempt excluded n result f = (f, Going result)"
| "forwardGo env pn ts inflight request (Suc left) attempt excluded n result f =
     (let excluded = List.insert (Backend_ID (T_Backend (fst (L_targets f ! n)))) excluded in
      bindGo (attemptGo env pn request attempt n) (\<lambda>(attemptResult, retryable).
        let result = attemptResult\<lparr>R_RetryCount := R_RetryCount result\<rparr> in
        if \<not> retryable \<or> attempt = 1 then going result
        else
          bindGo (selectGo env pn ts inflight (FE_alternateRounds env) excluded) (\<lambda>selected.
            case selected of
              Inl e \<Rightarrow> going (result\<lparr>R_Err := Some (SelectRetryError (selectErrorText e))\<rparr>)
            | Inr m \<Rightarrow> forwardGo env pn ts inflight request left (attempt + 1) excluded m
                         (result\<lparr>R_RetryCount := R_RetryCount result + 1\<rparr>))) f)"

section \<open>The handler\<close>

definition resolveGo :: "ForwardEnv \<Rightarrow> ForwardRequest \<Rightarrow> resolvedForwardRequest go" where
  "resolveGo env request f =
     (let (used, event, resolved) = resolveForwardRequest (FE_hmac env) (FE_codec env) (FE_service env) (FE_authSnapshot env)
            (FE_authNow env) (FE_usedAt env) (FE_snapshot env) request (L_event f);
          f = f\<lparr>L_event := event, L_log := L_log f @ map (\<lambda>(k, t). KeyUsed k t) used\<rparr>
      in case resolved of
           Inl e \<Rightarrow> returnGo zeroResult False (Some e) f
         | Inr r \<Rightarrow> (f, Going r))"

definition reserveGo :: "ForwardEnv \<Rightarrow> (nat \<Rightarrow> bool) \<Rightarrow> ForwardRequest \<Rightarrow> unit go" where
  "reserveGo env pn request =
     (if \<not> FE_reserver env then going ()
      else
        bindGo (call pn (ReserveCalled (FR_RequestID request))) (\<lambda>_.
          if FE_reserved env then update (\<lambda>f. f\<lparr>L_reservation := True, L_rollback := FE_rollback env\<rparr>)
          else
            bindGo (whenGo (FE_rollback env) (call pn RolledBack)) (\<lambda>_.
              case FE_ctxErr env of
                Some e \<Rightarrow> returnGo (zeroResult\<lparr>R_Cancelled := True, R_Err := Some (ContextError e)\<rparr>) False None
              | None \<Rightarrow> returnGo zeroResult False (Some (gatewayUnavailable (S_retryAfter (FE_service env)))))))"

text \<open>After the reservation: the key and the pool as they are now, and the payload for the backend.\<close>

definition revalidateGo :: "ForwardEnv \<Rightarrow> ForwardRequest \<Rightarrow> resolvedForwardRequest \<Rightarrow> resolvedForwardRequest go" where
  "revalidateGo env request resolved f =
     (case validateAPIKeySnapshot (FE_hmac env) (FE_service env) (FR_APIKey request) (FE_current env) (FE_currentNow env) of
        Inl e \<Rightarrow> returnGo zeroResult (L_reservation f) (Some e) f
      | Inr (client, key) \<Rightarrow>
          (case mget (Snap_PoolsByName (FE_current env)) (rf_publicModel resolved) of
             None \<Rightarrow> returnGo zeroResult (L_reservation f) (Some modelNotAllowed) f
           | Some pool \<Rightarrow>
               (let resolved = resolved\<lparr>rf_client := client, rf_pool := pool, rf_snapshot := FE_current env\<rparr>;
                    f = f\<lparr>L_event := (noteClient client (L_event f))\<lparr>RE_ModelPoolID := Pool_ID pool\<rparr>\<rparr>
                in case prepareForwardPayload (FE_codec env) request resolved of
                     None \<Rightarrow> (f, Panicking)
                   | Some (Inl e) \<Rightarrow> returnGo zeroResult (L_reservation f) (Some e) f
                   | Some (Inr prepared) \<Rightarrow> (f, Going prepared))))"

text \<open>The admission to the pool; the value says of which pool a slot is held, which its release function
  knows.\<close>

definition heldPool :: "poolOp list \<Rightarrow> bool \<Rightarrow> int option" where
  "heldPool ops slot = (if slot then (case last ops of PoolAcquired p maximum \<Rightarrow> Some p | PoolReleased p \<Rightarrow> None) else None)"

definition poolGo :: "ForwardEnv \<Rightarrow> resolvedForwardRequest \<Rightarrow> (PoolRuntime \<times> int option) go" where
  "poolGo env resolved f =
     (let (ops, result) = acquirePool (FE_service env) (Client_ID (rf_client resolved)) (rf_pool resolved) (FE_poolRounds env);
          f = f\<lparr>L_admissionStarted := True, L_log := L_log f @ map PoolEffect ops\<rparr>
      in case result of
           None \<Rightarrow> (f, Running)
         | Some (Inl (runtime, e)) \<Rightarrow>
             returnGo zeroResult (L_reservation f) (Some e) (f\<lparr>L_event := (L_event f)\<lparr>RE_PoolState := PR_State runtime\<rparr>\<rparr>)
         | Some (Inr (runtime, slot)) \<Rightarrow>
             (f\<lparr>L_event := (L_event f)\<lparr>RE_PoolState := PR_State runtime\<rparr>\<rparr>, Going (runtime, heldPool ops slot)))"

definition admissionGo ::
  "ForwardEnv \<Rightarrow> ForwardRequest \<Rightarrow> PoolRuntime \<Rightarrow> resolvedForwardRequest \<Rightarrow> (resolvedForwardRequest \<times> admissionHold) go" where
  "admissionGo env request runtime resolved f =
     (let (es, resolved, event, answer) = acquireForwardAdmission (FE_hmac env) (FE_codec env) (FE_service env)
            (FE_admission env) request runtime resolved (L_event f);
          f = f\<lparr>L_event := event, L_log := L_log f @ es\<rparr>
      in case answer of
           AdmissionRefused e \<Rightarrow> returnGo zeroResult (L_reservation f) (Some e) f
         | AdmissionHeld hold \<Rightarrow> (f, Going (resolved, hold))
         | AdmissionPanics \<Rightarrow> (f, Panicking)
         | AdmissionRunning \<Rightarrow> (f, Running))"

definition coordinationTokenUsage :: "DomainTokenUsage option \<Rightarrow> TokenUsage option" where
  "coordinationTokenUsage = map_option (\<lambda>u. \<lparr>TU_InputTokens = DU_InputTokens u, TU_OutputTokens = DU_OutputTokens u,
     TU_CacheReadTokens = (case DU_CacheReadTokens u of None \<Rightarrow> 0 | Some n \<Rightarrow> n)\<rparr>)"

text \<open>The function returned by the admission, called with the usage of the result.\<close>

definition releaseAdmissionGo :: "ForwardEnv \<Rightarrow> (nat \<Rightarrow> bool) \<Rightarrow> int \<Rightarrow> admissionHold \<Rightarrow> unit go" where
  "releaseAdmissionGo env pn clientID hold f =
     (let policies = (case hold of
            CoordinatorLease lease tracked \<Rightarrow>
              (if FE_policyObserver env then
                 (case mget (Snap_Clients (FE_releaseSnapshot env)) clientID of
                    None \<Rightarrow> []
                  | Some client \<Rightarrow> [PolicyObserved \<lparr>CP_ClientID = Client_ID client, CP_Revision = Client_Revision client,
                      CP_RequestsPerMinute = Client_RequestsPerMinute client,
                      CP_TokensPerMinute = Client_TokensPerMinute client\<rparr>])
               else [])
          | _ \<Rightarrow> [])
      in bindGo (emit policies) (\<lambda>_. call pn (AdmissionGiven hold (coordinationTokenUsage (R_Usage (L_result f))))) f)"

text \<open>Selecting a target, forwarding to it and the error the client sees.\<close>

definition proxyRequest :: "ForwardRequest \<Rightarrow> resolvedForwardRequest \<Rightarrow> Target \<Rightarrow> Request" where
  "proxyRequest request resolved target =
     \<lparr>Rq_Method = FR_Method request, Rq_Path = FR_Path request,
      Rq_Headers = headerDel (stripSessionAffinityHeaders (headerDel (FR_Headers request) ''X-Vllm-Priority'')) ''Authorization'',
      Rq_Body = rf_payload resolved, Rq_RequestID = FR_RequestID request,
      Rq_Priority = Client_VLLMPriority (rf_client resolved), Rq_Target = target, Rq_SelectAlternate = None\<rparr>"

definition forwardError :: "ForwardEnv \<Rightarrow> Result \<Rightarrow> APIError option" where
  "forwardError env result =
     (case R_Err result of
        None \<Rightarrow> None
      | Some e \<Rightarrow>
          if R_ResponseStarted result then None
          else if e = SelectRetryError (selectErrorText errAPIKeyBecameInvalid) then Some invalidAPIKey
          else if R_Cancelled result \<or> FE_isCanceled env e then None
          else Some upstreamError)"

definition targetGo ::
  "ForwardEnv \<Rightarrow> (nat \<Rightarrow> bool) \<Rightarrow> ForwardRequest \<Rightarrow> resolvedForwardRequest \<Rightarrow> InflightEvent \<Rightarrow> unit go" where
  "targetGo env pn request resolved inflight =
     (let ts = \<lparr>TS_client = rf_client resolved, TS_pool = rf_pool resolved, TS_affinity = rf_affinityKey resolved,
            TS_rawAPIKey = FR_APIKey request\<rparr> in
      bindGo (selectGo env pn ts inflight (FE_selectRounds env) []) (\<lambda>selected f.
        case selected of
          Inl errAPIKeyBecameInvalid \<Rightarrow> returnGo zeroResult (L_reservation f) (Some invalidAPIKey) f
        | Inl e \<Rightarrow>
            returnGo zeroResult (L_reservation f)
              (Some (backendUnavailable (S_retryAfter (FE_service env)) DecisionNoEligibleBackend)) f
        | Inr n \<Rightarrow>
            bindGo (forwardGo env pn ts inflight (proxyRequest request resolved (fst (L_targets f ! n))) 2 0 [] n
                (newResult (Backend_ID (T_Backend (fst (L_targets f ! n))))))
              (\<lambda>result f. returnGo result (L_reservation f) (forwardError env result) f) f))"

definition clientGo ::
  "ForwardEnv \<Rightarrow> (nat \<Rightarrow> bool) \<Rightarrow> ForwardRequest \<Rightarrow> resolvedForwardRequest \<Rightarrow> unit go" where
  "clientGo env pn request resolved =
     (let inflight = \<lparr>IE_Client = Client_Name (rf_client resolved), IE_Model = rf_publicModel resolved, IE_Backend = [],
            IE_PriorityClass = Client_PriorityClass (rf_client resolved)\<rparr> in
      if FE_observer env then
        bindGo (call pn (ClientGauge inflight 1)) (\<lambda>_.
          deferGo (call pn (ClientGauge inflight (- 1))) (targetGo env pn request resolved inflight))
      else targetGo env pn request resolved inflight)"

definition admittedGo ::
  "ForwardEnv \<Rightarrow> (nat \<Rightarrow> bool) \<Rightarrow> ForwardRequest \<Rightarrow> PoolRuntime \<Rightarrow> resolvedForwardRequest \<Rightarrow> unit go" where
  "admittedGo env pn request runtime resolved =
     bindGo (admissionGo env request runtime resolved) (\<lambda>(resolved, hold).
       deferGo (releaseAdmissionGo env pn (Client_ID (rf_client resolved)) hold) (clientGo env pn request resolved))"

definition forwardBody :: "ForwardEnv \<Rightarrow> (nat \<Rightarrow> bool) \<Rightarrow> ForwardRequest \<Rightarrow> unit go" where
  "forwardBody env pn request =
     bindGo (resolveGo env request) (\<lambda>resolved.
     bindGo (reserveGo env pn request) (\<lambda>_.
     bindGo (revalidateGo env request resolved) (\<lambda>resolved.
     bindGo (poolGo env resolved) (\<lambda>(runtime, slot).
       deferGo (case slot of None \<Rightarrow> going () | Some p \<Rightarrow> call pn (PoolEffect (PoolReleased p)))
         (admittedGo env pn request runtime resolved)))))"

section \<open>The end of a request\<close>

definition finishEvent :: "ForwardEnv \<Rightarrow> Frame \<Rightarrow> RequestEvent" where
  "finishEvent env f =
     (let result = L_result f;
          e = (L_event f)\<lparr>RE_OccurredAt := FE_occurredAt env, RE_Duration := FE_duration env, RE_TTFT := R_FirstByte result,
                RE_Disconnect := R_Cancelled result, RE_RetryCount := R_RetryCount result, RE_Usage := R_Usage result,
                RE_UsageParseFailure := R_UsageParseFailure result, RE_UpstreamFailure := R_UpstreamFailure result\<rparr>
      in case L_apiErr f of
           None \<Rightarrow> e\<lparr>RE_Status := R_Status result\<rparr>
         | Some apiErr \<Rightarrow>
             (let e = e\<lparr>RE_Status := AE_HTTPStatus apiErr, RE_Reason := AE_Code apiErr,
                        RE_DecisionReason := AE_DecisionReason apiErr\<rparr>
              in if L_admissionStarted f \<and> RE_QueueOutcome e = NoQueueOutcome
                 then e\<lparr>RE_QueueWait := FE_rejectedWait env, RE_QueueOutcome := QueueRejected\<rparr> else e))"

definition finishGo :: "ForwardEnv \<Rightarrow> (nat \<Rightarrow> bool) \<Rightarrow> unit go" where
  "finishGo env pn f =
     (let e = finishEvent env f; f = f\<lparr>L_event := e\<rparr> in
      bindGo (whenGo (L_reservation f) (call pn (Staged e))) (\<lambda>_.
        whenGo (FE_observer env) (call pn (EventCompleted e))) f)"

fun completeTargets :: "ForwardEnv \<Rightarrow> (nat \<Rightarrow> bool) \<Rightarrow> nat list \<Rightarrow> unit go" where
  "completeTargets env pn [] f = (f, Going ())"
| "completeTargets env pn (n # ns) f =
     bindGo (invokePanicCleanup (completeTarget env pn n InferenceNeutral)) (\<lambda>_. completeTargets env pn ns) f"

definition rollbackOnPanic :: "ForwardEnv \<Rightarrow> (nat \<Rightarrow> bool) \<Rightarrow> unit go" where
  "rollbackOnPanic env pn f =
     bindGo (completeTargets env pn [0..<length (L_targets f)]) (\<lambda>_ f.
       whenGo (L_rollback f) (invokePanicCleanup (call pn RolledBack)) f) f"

definition Forward :: "ForwardEnv \<Rightarrow> (nat \<Rightarrow> bool) \<Rightarrow> ForwardRequest \<Rightarrow> header \<Rightarrow> Frame \<times> unit flow" where
  "Forward env pn request h =
     onPanic (rollbackOnPanic env pn) (deferGo (finishGo env pn) (forwardBody env pn request)) (startFrame request h)"

end
