(* ===== verification/Spec2Isabelle.thy ===== *)
theory Spec2Isabelle
  imports Admission Pressure Admission_Rates Circuit_Breaker Routing Proxy_Headers Session_Affinity
    Registry_Properties Circuit_Properties
    Tokenization_Properties Usage_Properties Proxy_Properties Gateway_Properties Recovery Lease_Composition
    Monitor_Properties Divergences Gateway_Forward
begin

text \<open>
  \<^bold>\<open>A verification development of the vLLM priority gateway.\<close>

  The gateway admits inference requests of many clients to pools of vLLM backends by priority class. A request
  is authenticated against the published configuration, admitted to a pool and to the client's share of it,
  routed to a backend that the monitor considers healthy, forwarded there and streamed back, and what it took is
  given back at the end. Several goroutines share the state of the coordinators, of the monitor and of the lease
  manager. All sources below are under \<^verbatim>\<open>src/internal\<close>.

  \<^bold>\<open>How the code is modelled.\<close> A Go struct is a record with the source's fields, an enumeration or a set of
  errors a datatype, a fallible function returns a sum with its error on the left, and an operation that holds a
  mutex from its first to its last access is one function from the state before to the state after. A goroutine
  is a step function over events, or an inductive step relation where it runs concurrently with others, and
  properties hold for every list of events. Times are integers of nanoseconds, a \<^verbatim>\<open>float64\<close> is the
  type \<open>f64\<close> with its infinities and NaN, a Go map is an association list with distinct keys (\<open>gomap\<close>), a
  counter whose wrap-around matters is a 64-bit word, and a UUID is an integer. A callback guarded by
  \<^verbatim>\<open>sync.Once\<close> is a ticket with a flag. Code outside the repository is a parameter: HMAC and SHA-256, the
  random source, URL and media-type parsing, the Prometheus parser and the value decoder of
  \<^verbatim>\<open>encoding/json\<close>. What the network, the clock and other goroutines answer is an argument.

  \<^bold>\<open>Foundations.\<close> \<open>Go_Prelude\<close> (maps, counters, times, floats), \<open>Go_Strings\<close>, \<open>Go_Http\<close> (the parts of the
  standard library that the sources use), \<open>Slots\<close> (the interface of a bounded counter, shared by the limiter,
  emergency admission and the pool slots), \<open>Expiry_Queue\<close> (the interface of the expiry heaps), \<open>Domain\<close>
  (\<^verbatim>\<open>domain/\<close>: types and validation), \<open>Coordination_Types\<close> (\<^verbatim>\<open>coordination/types.go\<close>,
  \<^verbatim>\<open>errors.go\<close>, \<^verbatim>\<open>rate.go\<close>).

  \<^bold>\<open>Admission.\<close> \<open>Admission\<close> is the priority policy and the limiter (\<^verbatim>\<open>admission/\<close>) and emergency admission
  (\<^verbatim>\<open>coordination/emergency.go\<close>). \<open>Local_Admission\<close> is the local admission coordinator
  (\<^verbatim>\<open>coordination/local/admission.go\<close>) with its leases, receipts, rate buckets and queues;
  \<open>Admission_Invariant\<close> and \<open>Admission_Operations\<close> carry its invariant through every operation;
  \<open>Admission_Properties\<close> shows that the counters are the leases held, that the pool limit and the priority
  reserve are respected and the reserve is usable, that acquisition is idempotent and completion takes effect
  once; \<open>Admission_Rates\<close> bounds the admissions in any window of time. \<open>Local_Tokenization\<close> and
  \<open>Tokenization_Properties\<close> do the same for \<^verbatim>\<open>coordination/local/tokenization.go\<close>.

  \<^bold>\<open>Leases and recovery.\<close> \<open>Lease_Manager\<close> is \<^verbatim>\<open>coordination/lease_manager.go\<close>, \<open>Lease_Delivery\<close> its goroutine
  interleaved with requests (no completion is lost unaccounted, shutdown drains), \<open>Lease_Composition\<close> the
  manager together with the local admission coordinator (no slot leaks). \<open>Recovery\<close> is
  \<^verbatim>\<open>coordination/recovery.go\<close>: readiness is declared exactly after an undisturbed recovery, and a permanent
  fault latches.

  \<^bold>\<open>Backends.\<close> \<open>Pressure\<close> (\<^verbatim>\<open>pressure/\<close>), \<open>Circuit_Breaker\<close> (\<^verbatim>\<open>circuitbreaker/\<close>), \<open>Local_Circuit\<close> with
  \<open>Circuit_Invariant\<close>, \<open>Circuit_Operations\<close> and \<open>Circuit_Properties\<close> (\<^verbatim>\<open>coordination/local/circuit.go\<close>: probe
  accounting, reclaiming of lost probes, completion once), \<open>Monitor_Worker\<close> (\<^verbatim>\<open>monitor/worker.go\<close>,
  \<^verbatim>\<open>metrics.go\<close>), \<open>Monitor_Manager\<close> and \<open>Monitor_Properties\<close> (\<^verbatim>\<open>monitor/manager.go\<close>: in-flight counters, the
  backlog of failures to replay, reconciliation), \<open>Routing\<close> (\<^verbatim>\<open>routing/router.go\<close>). \<open>Divergences\<close> proves two
  places where the local coordinators and their callers or their PostgreSQL counterparts disagree.

  \<^bold>\<open>Requests.\<close> \<open>Registry\<close> and \<open>Registry_Properties\<close> (\<^verbatim>\<open>registry/\<close>: referential integrity, permanent
  revocation), \<open>Gateway_Types\<close>, \<open>Gateway_Service\<close> and \<open>Gateway_Properties\<close> (\<^verbatim>\<open>gateway/service.go\<close>,
  \<^verbatim>\<open>gateway/forward.go\<close>, \<^verbatim>\<open>apikey/apikey.go\<close>: authentication, admission to a pool, selection of a target),
  \<open>Session_Affinity\<close> and \<open>Proxy_Headers\<close> (headers), \<open>Proxy_Forward\<close> and \<open>Proxy_Properties\<close>
  (\<^verbatim>\<open>proxy/proxy.go\<close>: one response, one completion for each attempt, termination), \<open>Json_Validator\<close>,
  \<open>Json_Automaton\<close>, \<open>Json_Grammar\<close> (\<^verbatim>\<open>proxy/json_validator.go\<close> refines a pushdown automaton that accepts
  exactly the JSON grammar), \<open>Usage_Inspector\<close> and \<open>Usage_Properties\<close> (\<^verbatim>\<open>proxy/usage.go\<close>: what is reported as
  usage, bounded buffers).

  \<^bold>\<open>Bounds and fuel.\<close> A loop that reads the world anew in every round takes the list of what its rounds meet;
  when the list is used up the loop is still running, which is a value of its own (\<open>None\<close> or \<open>Pending\<close>), and
  each such loop has a theorem that says which list is long enough: as many rounds as backends and one more for
  the selection of a target, the first round that does not change the limits for the admission to a pool, the
  first read that ends for a response body, the first delivery or the end of the shutdown budget for the drain.
  All other loops are structural recursions.

  \<^bold>\<open>Not modelled.\<close> The PostgreSQL coordinators and the configuration stores (\<^verbatim>\<open>coordination/postgres\<close>,
  \<^verbatim>\<open>store\<close>): their decisions are taken by SQL statements under the locks and the clock of a database server
  that is not part of the repository. The HTTP interface and the web console (\<^verbatim>\<open>httpapi\<close>, \<^verbatim>\<open>web\<close>): decoding and
  encoding around the modelled service. Observability, analytics, process configuration and wiring
  (\<^verbatim>\<open>observability\<close>, \<^verbatim>\<open>analytics\<close>, \<^verbatim>\<open>config\<close>, \<^verbatim>\<open>cmd\<close>): nothing that admits, routes or forwards reads their
  results. The simulated backend, the load generator and the contract tests (\<^verbatim>\<open>fakevllm\<close>, \<^verbatim>\<open>loadgen\<close>,
  \<^verbatim>\<open>coordination/contracttest\<close>): tools for tests.
\<close>

end
